(* ===== verification/Prelude.thy ===== *)
theory Prelude
  imports Main "HOL-Library.Word" "HOL-Library.Char_ord" "HOL-Library.List_Lexorder"
    "HOL-Library.Product_Lexorder" "HOL-Library.Option_ord" "HOL-Library.Multiset"
    "HOL-Library.Sublist"
begin

text \<open>
  Shared vocabulary of the development: Rust's machine integers as words, its checked and
  saturating arithmetic, \<open>anyhow\<close> results as a sum type, byte strings, and the generic
  lemmas on lists that the component theories use.
\<close>

unbundle bit_operations_syntax

section \<open>Machine integers\<close>

text \<open>
  A Rust integer of width \<open>w\<close> is a \<open>w word\<close>. Signed and unsigned integers of one width
  share the representation, as they do in Rust's \<open>as\<close> casts (which keep the bits):
  \<^const>\<open>unat\<close> reads a word as unsigned, \<^const>\<open>sint\<close> as two's complement.
  \<open>usize\<close> is the 64-bit platform's: lengths and offsets are \<^typ>\<open>nat\<close>, with the bound
  \<open>2 ^ 64\<close> written out where the code checks it.
\<close>

type_synonym u8 = "8 word"
type_synonym u16 = "16 word"
type_synonym u32 = "32 word"
type_synonym u64 = "64 word"
type_synonym i64 = "64 word"

definition i64_max :: int where
  "i64_max = 9223372036854775807"

definition i64_min :: int where
  "i64_min = -9223372036854775808"

definition i64_range :: "int \<Rightarrow> bool" where
  "i64_range x \<longleftrightarrow> i64_min \<le> x \<and> x \<le> i64_max"

text \<open>The nearest \<open>i64\<close>: what \<open>saturating_add\<close> and its kin return.\<close>

definition i64_clamp :: "int \<Rightarrow> int" where
  "i64_clamp x = max i64_min (min i64_max x)"

definition sat_i64 :: "int \<Rightarrow> i64" where
  "sat_i64 x = word_of_int (i64_clamp x)"

definition saturating_add :: "i64 \<Rightarrow> i64 \<Rightarrow> i64" where
  "saturating_add a b = sat_i64 (sint a + sint b)"

definition saturating_sub :: "i64 \<Rightarrow> i64 \<Rightarrow> i64" where
  "saturating_sub a b = sat_i64 (sint a - sint b)"

definition saturating_mul :: "i64 \<Rightarrow> i64 \<Rightarrow> i64" where
  "saturating_mul a b = sat_i64 (sint a * sint b)"

definition saturating_abs :: "i64 \<Rightarrow> i64" where
  "saturating_abs a = sat_i64 \<bar>sint a\<bar>"

definition checked_add_i64 :: "i64 \<Rightarrow> i64 \<Rightarrow> i64 option" where
  "checked_add_i64 a b = (if i64_range (sint a + sint b) then Some (a + b) else None)"

definition checked_sub_i64 :: "i64 \<Rightarrow> i64 \<Rightarrow> i64 option" where
  "checked_sub_i64 a b = (if i64_range (sint a - sint b) then Some (a - b) else None)"

definition checked_neg_i64 :: "i64 \<Rightarrow> i64 option" where
  "checked_neg_i64 a = (if i64_range (- sint a) then Some (- a) else None)"

definition checked_add_u64 :: "u64 \<Rightarrow> u64 \<Rightarrow> u64 option" where
  "checked_add_u64 a b = (if unat a + unat b < 2 ^ 64 then Some (a + b) else None)"

definition saturating_add_u64 :: "u64 \<Rightarrow> u64 \<Rightarrow> u64" where
  "saturating_add_u64 a b = (if unat a + unat b < 2 ^ 64 then a + b else 0xFFFFFFFFFFFFFFFF)"

definition saturating_sub_u64 :: "u64 \<Rightarrow> u64 \<Rightarrow> u64" where
  "saturating_sub_u64 a b = (if b \<le> a then a - b else 0)"

lemma sint_i64_bounds: "i64_range (sint (a :: i64))"
  using sint_ge [of a] sint_lt [of a] by (simp add: i64_range_def i64_min_def i64_max_def)

lemma sint_word_of_int_id: "i64_range x \<Longrightarrow> sint (word_of_int x :: i64) = x"
  by (simp add: i64_range_def i64_min_def i64_max_def signed_of_int signed_take_bit_int_eq_self)

lemma i64_range_clamp [simp]: "i64_range (i64_clamp x)"
  by (simp add: i64_range_def i64_clamp_def i64_min_def i64_max_def)

lemma sint_sat_i64 [simp]: "sint (sat_i64 x) = i64_clamp x"
  by (simp add: sat_i64_def sint_word_of_int_id)

lemma i64_clamp_id: "i64_range x \<Longrightarrow> i64_clamp x = x"
  by (simp add: i64_range_def i64_clamp_def)

lemma sint_add_i64: "i64_range (sint a + sint b) \<Longrightarrow> sint (a + b :: i64) = sint a + sint b"
  by (simp add: sint_word_ariths i64_range_def i64_min_def i64_max_def signed_take_bit_int_eq_self)

lemma sint_sub_i64: "i64_range (sint a - sint b) \<Longrightarrow> sint (a - b :: i64) = sint a - sint b"
  by (simp add: sint_word_ariths i64_range_def i64_min_def i64_max_def signed_take_bit_int_eq_self)

lemma sint_neg_i64: "i64_range (- sint a) \<Longrightarrow> sint (- a :: i64) = - sint a"
  by (simp add: sint_word_ariths i64_range_def i64_min_def i64_max_def signed_take_bit_int_eq_self)

lemma checked_add_i64_Some:
  "checked_add_i64 a b = Some c \<longleftrightarrow> i64_range (sint a + sint b) \<and> c = a + b"
  by (auto simp: checked_add_i64_def)

lemma checked_sub_i64_Some:
  "checked_sub_i64 a b = Some c \<longleftrightarrow> i64_range (sint a - sint b) \<and> c = a - b"
  by (auto simp: checked_sub_i64_def)

lemma checked_neg_i64_Some:
  "checked_neg_i64 a = Some c \<longleftrightarrow> i64_range (- sint a) \<and> c = - a"
  by (auto simp: checked_neg_i64_def)

lemma unat_add_u64: "unat a + unat b < 2 ^ 64 \<Longrightarrow> unat (a + b :: u64) = unat a + unat b"
  by (simp add: unat_word_ariths)

lemma checked_add_u64_Some:
  "checked_add_u64 a b = Some c \<longleftrightarrow> unat a + unat b < 2 ^ 64 \<and> c = a + b"
  by (auto simp: checked_add_u64_def)

lemma unat_saturating_add_u64:
  "unat (saturating_add_u64 a b) = min (2 ^ 64 - 1) (unat a + unat b)"
proof (cases "unat a + unat b < 2 ^ 64")
  case True
  then show ?thesis by (simp add: saturating_add_u64_def unat_add_u64)
next
  case False
  then show ?thesis by (simp add: saturating_add_u64_def)
qed

lemma unat_saturating_sub_u64: "unat (saturating_sub_u64 a b) = unat a - unat b"
  by (simp add: saturating_sub_u64_def unat_sub word_le_nat_alt)

section \<open>Results\<close>

text \<open>
  \<open>anyhow::Result<T>\<close> is a sum with the error on the left. The error value names the
  \<open>bail!\<close>, \<open>ensure!\<close> or \<open>context\<close> call of the source that made it.
\<close>

datatype error =
    TruncatedVarint
  | VarintOverflow
  | FieldNumberZero
  | LengthOverflow
  | TruncatedField
  | UnsupportedWire u64
  | InvalidUtf8
  | BadStringTable
  | InvalidHeaderLength
  | InvalidMagic
  | UnknownFrameKind
  | MeasurementOverflow
  | EmptyStack
  | EmptyDomain
  | NullAllocation
  | DuplicateAllocation u64
  | FreeWithoutHistory u64
  | TimeBeforeEpoch
  | TimeOverflow
  | BadStringIndex u64
  | DuplicateIdentifier
  | MissingMapping
  | MissingFunction
  | MissingLocation
  | NoSampleTypes
  | DuplicateMetric
  | UnsupportedMetric string string
  | MetricCountMismatch
  | HeapSelectionNeedsHeap
  | OverlappingDomains "string list"
  | UnknownDomain string
  | IncompatibleTypes
  | DifferentDomains
  | DifferenceOverflow
  | IdentifierOverflow
  | SampleIndexOutOfRange nat
  | UnknownSampleType string
  | Panic

type_synonym 'a result = "error + 'a"

definition bindr :: "'e + 'a \<Rightarrow> ('a \<Rightarrow> 'e + 'b) \<Rightarrow> 'e + 'b" where
  "bindr m f = (case m of Inl e \<Rightarrow> Inl e | Inr x \<Rightarrow> f x)"

text \<open>\<open>ensure!(c, e)\<close> and \<open>Option::context\<close>.\<close>

definition ensure :: "bool \<Rightarrow> 'e \<Rightarrow> 'e + unit" where
  "ensure c e = (if c then Inr () else Inl e)"

definition context_opt :: "'a option \<Rightarrow> 'e \<Rightarrow> 'e + 'a" where
  "context_opt x e = (case x of None \<Rightarrow> Inl e | Some y \<Rightarrow> Inr y)"

text \<open>A \<open>for\<close> loop whose body may return early, and \<open>collect::<Result<Vec<_>>>\<close>.\<close>

fun fold_result :: "('s \<Rightarrow> 'a \<Rightarrow> 'e + 's) \<Rightarrow> 's \<Rightarrow> 'a list \<Rightarrow> 'e + 's" where
  "fold_result f s [] = Inr s"
| "fold_result f s (x # xs) = bindr (f s x) (\<lambda>s'. fold_result f s' xs)"

fun collect_result :: "('a \<Rightarrow> 'e + 'b) \<Rightarrow> 'a list \<Rightarrow> 'e + 'b list" where
  "collect_result f [] = Inr []"
| "collect_result f (x # xs) =
     bindr (f x) (\<lambda>y. bindr (collect_result f xs) (\<lambda>ys. Inr (y # ys)))"

fun all_result :: "('a \<Rightarrow> 'e + unit) \<Rightarrow> 'a list \<Rightarrow> 'e + unit" where
  "all_result f [] = Inr ()"
| "all_result f (x # xs) = bindr (f x) (\<lambda>_. all_result f xs)"

text \<open>\<open>?\<close> into another error type.\<close>

definition map_error :: "('e \<Rightarrow> 'f) \<Rightarrow> 'e + 'a \<Rightarrow> 'f + 'a" where
  "map_error f r = (case r of Inl e \<Rightarrow> Inl (f e) | Inr x \<Rightarrow> Inr x)"

lemma map_error_simps [simp]:
  "map_error f (Inr x) = Inr x" "map_error f (Inl e) = Inl (f e)"
  "map_error f r = Inr x \<longleftrightarrow> r = Inr x"
  by (auto simp: map_error_def split: sum.split)

lemma bindr_simps [simp]:
  "bindr (Inl e) f = Inl e"
  "bindr (Inr x) f = f x"
  by (simp_all add: bindr_def)

lemma bindr_cong [fundef_cong]:
  "m = m' \<Longrightarrow> (\<And>x. m' = Inr x \<Longrightarrow> f x = f' x) \<Longrightarrow> bindr m f = bindr m' f'"
  by (cases m') (auto simp: bindr_def)

lemma bindr_Inr_iff: "bindr m f = Inr y \<longleftrightarrow> (\<exists>x. m = Inr x \<and> f x = Inr y)"
  by (cases m) auto

lemma bindr_Inl_iff: "bindr m f = Inl e \<longleftrightarrow> m = Inl e \<or> (\<exists>x. m = Inr x \<and> f x = Inl e)"
  by (cases m) auto

lemma bindr_InrE:
  assumes "bindr m f = Inr y"
  obtains x where "m = Inr x" "f x = Inr y"
  using assms by (auto simp: bindr_Inr_iff)

lemma bindr_assoc: "bindr (bindr m f) g = bindr m (\<lambda>x. bindr (f x) g)"
  by (cases m) auto

lemma ensure_Inr_iff [simp]: "ensure c e = Inr u \<longleftrightarrow> c"
  by (simp add: ensure_def)

lemma ensure_simps [simp]: "c \<Longrightarrow> ensure c e = Inr ()" "\<not> c \<Longrightarrow> ensure c e = Inl e"
  by (simp_all add: ensure_def)

lemma context_opt_Inr_iff [simp]: "context_opt x e = Inr y \<longleftrightarrow> x = Some y"
  by (cases x) (auto simp: context_opt_def)

lemma context_opt_simps [simp]:
  "context_opt None e = Inl e" "context_opt (Some y) e = Inr y"
  by (simp_all add: context_opt_def)

lemma fold_result_append:
  "fold_result f s (xs @ ys) = bindr (fold_result f s xs) (\<lambda>s'. fold_result f s' ys)"
  by (induction xs arbitrary: s) (simp_all add: bindr_assoc)

lemma fold_result_invariant:
  assumes "fold_result f s xs = Inr s'" and "P s"
    and "\<And>t x t'. x \<in> set xs \<Longrightarrow> P t \<Longrightarrow> f t x = Inr t' \<Longrightarrow> P t'"
  shows "P s'"
  using assms by (induction xs arbitrary: s) (auto elim!: bindr_InrE)

lemma all_result_Inr_iff: "all_result f xs = Inr u \<longleftrightarrow> (\<forall>x\<in>set xs. f x = Inr ())"
  by (induction xs) (auto simp: bindr_Inr_iff)

lemma collect_result_Inr_iff:
  "collect_result f xs = Inr ys \<longleftrightarrow> list_all2 (\<lambda>x y. f x = Inr y) xs ys"
  by (induction xs arbitrary: ys) (auto simp: bindr_Inr_iff list_all2_Cons1)

section \<open>Strings as bytes\<close>

text \<open>
  A Rust \<open>String\<close> is its UTF-8 bytes. It is modelled as a \<^typ>\<open>string\<close>, one \<^typ>\<open>char\<close>
  per byte, so that \<open>len()\<close> is \<^const>\<open>length\<close> and \<open>Ord\<close> is the bytewise lexicographic
  order of \<open>List_Lexorder\<close>. \<open>utf8_valid\<close> is the check of \<open>std::str::from_utf8\<close>: the
  well-formed byte sequences of the Unicode standard (no overlong forms, no surrogates,
  nothing above U+10FFFF).
\<close>

definition byte_of_char :: "char \<Rightarrow> u8" where
  "byte_of_char c = word_of_nat (of_char c)"

definition char_of_byte :: "u8 \<Rightarrow> char" where
  "char_of_byte b = char_of (unat b)"

definition str_bytes :: "string \<Rightarrow> u8 list" where
  "str_bytes s = map byte_of_char s"

definition bytes_str :: "u8 list \<Rightarrow> string" where
  "bytes_str bs = map char_of_byte bs"

definition utf8_cont :: "u8 \<Rightarrow> bool" where
  "utf8_cont b \<longleftrightarrow> 0x80 \<le> b \<and> b \<le> 0xBF"

fun utf8_valid :: "u8 list \<Rightarrow> bool" where
  "utf8_valid [] = True"
| "utf8_valid (a # bs) =
     (if a < 0x80 then utf8_valid bs
      else if 0xC2 \<le> a \<and> a \<le> 0xDF then
        (case bs of b # r \<Rightarrow> utf8_cont b \<and> utf8_valid r | _ \<Rightarrow> False)
      else if 0xE0 \<le> a \<and> a \<le> 0xEF then
        (case bs of b # c # r \<Rightarrow>
           utf8_cont b \<and> utf8_cont c \<and> (a = 0xE0 \<longrightarrow> 0xA0 \<le> b) \<and> (a = 0xED \<longrightarrow> b \<le> 0x9F)
             \<and> utf8_valid r
         | _ \<Rightarrow> False)
      else if 0xF0 \<le> a \<and> a \<le> 0xF4 then
        (case bs of b # c # d # r \<Rightarrow>
           utf8_cont b \<and> utf8_cont c \<and> utf8_cont d \<and> (a = 0xF0 \<longrightarrow> 0x90 \<le> b)
             \<and> (a = 0xF4 \<longrightarrow> b \<le> 0x8F) \<and> utf8_valid r
         | _ \<Rightarrow> False)
      else False)"

lemma char_of_byte_of_char [simp]: "char_of_byte (byte_of_char c) = c"
  by (simp add: char_of_byte_def byte_of_char_def unat_of_nat)

lemma byte_of_char_of_byte [simp]: "byte_of_char (char_of_byte b) = b"
proof -
  have "unat b < 256" using unsigned_less [of b, where ?'a = nat] by simp
  then show ?thesis by (simp add: char_of_byte_def byte_of_char_def)
qed

lemma bytes_str_bytes [simp]: "bytes_str (str_bytes s) = s"
  by (simp add: bytes_str_def str_bytes_def comp_def)

lemma str_bytes_str [simp]: "str_bytes (bytes_str bs) = bs"
  by (simp add: bytes_str_def str_bytes_def comp_def)

lemma length_str_bytes [simp]: "length (str_bytes s) = length s"
  by (simp add: str_bytes_def)

section \<open>Lists\<close>

text \<open>\<open>Iterator::position\<close> and \<open>Iterator::find\<close>.\<close>

fun position :: "('a \<Rightarrow> bool) \<Rightarrow> 'a list \<Rightarrow> nat option" where
  "position P [] = None"
| "position P (x # xs) = (if P x then Some 0 else map_option Suc (position P xs))"

lemma position_Some:
  "position P xs = Some i \<Longrightarrow> i < length xs \<and> P (xs ! i) \<and> (\<forall>j<i. \<not> P (xs ! j))"
proof (induction xs arbitrary: i)
  case (Cons x xs)
  then show ?case by (auto simp: less_Suc_eq_0_disj nth_Cons' split: if_splits)
qed simp

lemma position_None: "position P xs = None \<longleftrightarrow> (\<forall>x\<in>set xs. \<not> P x)"
  by (induction xs) auto

lemma find_append: "find P (xs @ ys) = (case find P xs of None \<Rightarrow> find P ys | Some x \<Rightarrow> Some x)"
  by (induction xs) auto

text \<open>A loop that appends one piece per element.\<close>

lemma fold_append: "fold (\<lambda>x buf. buf @ f x) xs buf = buf @ concat (map f xs)"
  by (induction xs arbitrary: buf) simp_all

text \<open>A loop that pushes onto one field of a record, given by its selector and update.\<close>

lemma fold_push:
  assumes "\<And>ys r. get (put ys r) = ys" and "\<And>ys zs r. put ys (put zs r) = put ys r"
    and "\<And>r. put (get r) r = r"
  shows "fold (\<lambda>x r. put (get r @ [x]) r) xs r = put (get r @ xs) r"
  by (induction xs arbitrary: r) (simp_all add: assms)

text \<open>Reading a concatenation at the boundary of its parts.\<close>

lemma nth_append_length_plus [simp]: "(xs @ ys) ! (length xs + n) = ys ! n"
  by (simp add: nth_append)

lemma take_drop_middle: "take (length ys) (drop (length xs) (xs @ ys @ zs)) = ys"
  by simp

end
