(* ===== verification/String_Table.thy ===== *)
theory String_Table
  imports Prelude
begin

text \<open>
  The string table of \<open>src/pprof.rs\<close> (\<open>StringTable\<close>): the strings in table order and the
  lookup cache from a string to its first index. The locale \<open>interner\<close> is the interface the
  profile builders (\<open>encode.rs\<close>, \<open>heap/mod.rs\<close>, \<open>heap/compare.rs\<close>) use: identifiers
  resolve to what was interned, and interning never disturbs identifiers handed out earlier.
\<close>

section \<open>The table\<close>

record string_table =
  st_strings :: "string list"
  st_indices :: "string \<rightharpoonup> u64"

definition st_empty :: string_table where
  "st_empty = \<lparr>st_strings = [], st_indices = Map.empty\<rparr>"

definition intern :: "string_table \<Rightarrow> string \<Rightarrow> u64 \<times> string_table" where
  "intern st s =
     (case st_indices st s of
        Some idx \<Rightarrow> (idx, st)
      | None \<Rightarrow>
          let idx = word_of_nat (length (st_strings st)) in
          (idx, st\<lparr>st_strings := st_strings st @ [s], st_indices := (st_indices st)(s \<mapsto> idx)\<rparr>))"

definition st_new :: string_table where
  "st_new = snd (intern st_empty [])"

text \<open>\<open>indices.entry(value).or_insert(index)\<close> for each enumerated string.\<close>

fun index_strings :: "nat \<Rightarrow> (string \<rightharpoonup> u64) \<Rightarrow> string list \<Rightarrow> (string \<rightharpoonup> u64)" where
  "index_strings i m [] = m"
| "index_strings i m (s # ss) =
     index_strings (Suc i) (case m s of None \<Rightarrow> m(s \<mapsto> word_of_nat i) | Some _ \<Rightarrow> m) ss"

definition from_strings :: "string list \<Rightarrow> string_table result" where
  "from_strings ss =
     (if (case ss of [] \<Rightarrow> True | s # _ \<Rightarrow> s \<noteq> []) then Inl BadStringTable
      else Inr \<lparr>st_strings = ss, st_indices = index_strings 0 Map.empty ss\<rparr>)"

text \<open>\<open>Serialize\<close> writes the strings only; \<open>Deserialize\<close> rebuilds the cache.\<close>

definition st_serialize :: "string_table \<Rightarrow> string list" where
  "st_serialize st = st_strings st"

definition st_deserialize :: "string list \<Rightarrow> string_table result" where
  "st_deserialize ss = from_strings ss"

text \<open>\<open>strings.get(index as usize)\<close>.\<close>

definition st_get :: "string_table \<Rightarrow> u64 \<Rightarrow> string option" where
  "st_get st i =
     (if unat i < length (st_strings st) then Some (st_strings st ! unat i) else None)"

section \<open>The cache is determined by the strings\<close>

definition first_index :: "string list \<Rightarrow> string \<rightharpoonup> u64" where
  "first_index ss s = map_option word_of_nat (position ((=) s) ss)"

definition st_ok :: "string_table \<Rightarrow> bool" where
  "st_ok st \<longleftrightarrow> st_strings st \<noteq> [] \<and> hd (st_strings st) = []
     \<and> st_indices st = first_index (st_strings st)"

text \<open>A table small enough for its indices to be \<open>u64\<close>s; every table in memory is.\<close>

definition st_small :: "string_table \<Rightarrow> bool" where
  "st_small st \<longleftrightarrow> length (st_strings st) \<le> 2 ^ 64"

lemma position_append:
  "position P (xs @ ys) =
     (case position P xs of
        None \<Rightarrow> map_option ((+) (length xs)) (position P ys)
      | Some i \<Rightarrow> Some i)"
  by (induction xs)
     (auto split: option.splits simp: option.map_comp comp_def option.map_ident cong: option.map_cong)

lemma index_strings_first_index:
  "index_strings i m ss s =
     (case m s of
        Some j \<Rightarrow> Some j
      | None \<Rightarrow> map_option (\<lambda>k. word_of_nat (i + k)) (position ((=) s) ss))"
  by (induction ss arbitrary: i m)
     (auto split: option.splits simp: option.map_comp comp_def add.left_commute)

lemma index_strings_eq: "index_strings 0 Map.empty ss = first_index ss"
  by (rule ext) (simp add: index_strings_first_index first_index_def)

lemma from_strings_ok: "from_strings ss = Inr st \<Longrightarrow> st_ok st \<and> st_strings st = ss"
  by (auto simp: from_strings_def st_ok_def index_strings_eq simp del: index_strings.simps
      split: list.splits if_splits)

lemma from_strings_st_ok:
  assumes "st_ok st" shows "from_strings (st_strings st) = Inr st"
proof -
  have "st_strings st \<noteq> []" "hd (st_strings st) = []"
    "st_indices st = index_strings 0 Map.empty (st_strings st)"
    using assms by (simp_all add: st_ok_def index_strings_eq)
  then show ?thesis by (cases "st_strings st") (simp_all add: from_strings_def)
qed

lemma from_strings_Inl: "from_strings ss = Inl e \<longleftrightarrow>
    e = BadStringTable \<and> (ss = [] \<or> hd ss \<noteq> [])"
  by (cases ss) (auto simp: from_strings_def)

lemma st_ok_new: "st_ok st_new"
  by (simp add: st_new_def intern_def st_empty_def st_ok_def first_index_def fun_eq_iff)

lemma intern_st_ok:
  assumes "st_ok st" shows "st_ok (snd (intern st s))"
proof (cases "st_indices st s")
  case None
  then have "position ((=) s) (st_strings st) = None"
    using assms by (simp add: st_ok_def first_index_def)
  then show ?thesis
    using assms None
    by (auto simp: st_ok_def intern_def Let_def first_index_def fun_eq_iff position_append
        split: option.splits)
next
  case (Some i)
  with assms show ?thesis by (simp add: intern_def)
qed

lemma intern_prefix: "prefix (st_strings st) (st_strings (snd (intern st s)))"
  by (auto simp: intern_def Let_def split: option.splits)

lemma st_get_prefix:
  "prefix (st_strings st) (st_strings st') \<Longrightarrow> st_get st i = Some s \<Longrightarrow> st_get st' i = Some s"
  by (auto simp: st_get_def prefix_def nth_append split: if_splits)

lemma intern_get:
  assumes "st_ok st" and "st_small (snd (intern st s))"
  shows "st_get (snd (intern st s)) (fst (intern st s)) = Some s"
proof (cases "st_indices st s")
  case None
  with assms(2) have "length (st_strings st) < 2 ^ 64"
    by (simp add: intern_def Let_def st_small_def)
  with None show ?thesis
    by (simp add: intern_def Let_def st_get_def unat_of_nat)
next
  case (Some i)
  then obtain k where k: "position ((=) s) (st_strings st) = Some k" "i = word_of_nat k"
    using assms(1) by (auto simp: st_ok_def first_index_def)
  have "k < length (st_strings st)" "st_strings st ! k = s"
    using position_Some [OF k(1)] by auto
  moreover have "length (st_strings st) \<le> 2 ^ 64"
    using assms(2) Some by (simp add: intern_def st_small_def)
  ultimately show ?thesis
    using Some k(2) by (simp add: intern_def st_get_def unat_of_nat)
qed

section \<open>The interface\<close>

text \<open>\<open>strings.iter().map(|s| table.intern(s)).collect()\<close>.\<close>

primrec intern_all :: "('t \<Rightarrow> 'k \<Rightarrow> 'i \<times> 't) \<Rightarrow> 't \<Rightarrow> 'k list \<Rightarrow> 'i list \<times> 't" where
  "intern_all f t [] = ([], t)"
| "intern_all f t (k # ks) =
     (let (i, t1) = f t k; (is, t2) = intern_all f t1 ks in (i # is, t2))"

locale interner =
  fixes tab_intern :: "'t \<Rightarrow> 'k \<Rightarrow> 'i \<times> 't"
    and tab_get :: "'t \<Rightarrow> 'i \<Rightarrow> 'k option"
    and tab_ok :: "'t \<Rightarrow> bool"
    and tab_small :: "'t \<Rightarrow> bool"
  assumes ok_intern: "tab_ok t \<Longrightarrow> tab_ok (snd (tab_intern t k))"
    and small_intern: "tab_small (snd (tab_intern t k)) \<Longrightarrow> tab_small t"
    and get_intern: "tab_ok t \<Longrightarrow> tab_small (snd (tab_intern t k)) \<Longrightarrow>
      tab_get (snd (tab_intern t k)) (fst (tab_intern t k)) = Some k"
    and get_stable: "tab_get t i = Some k' \<Longrightarrow> tab_get (snd (tab_intern t k)) i = Some k'"
begin

text \<open>
  Interning a list from left to right: each identifier resolves to its string in the final
  table, and everything that resolved before still does.
\<close>

lemma intern_all_ok: "tab_ok t \<Longrightarrow> tab_ok (snd (intern_all tab_intern t ks))"
  by (induction ks arbitrary: t) (simp_all add: Let_def split_beta ok_intern)

lemma intern_all_stable:
  "tab_get t i = Some k \<Longrightarrow> tab_get (snd (intern_all tab_intern t ks)) i = Some k"
  by (induction ks arbitrary: t) (simp_all add: Let_def split_beta get_stable)

lemma intern_all_small: "tab_small (snd (intern_all tab_intern t ks)) \<Longrightarrow> tab_small t"
  by (induction ks arbitrary: t) (auto simp: Let_def split_beta dest: small_intern)

lemma intern_all_get:
  "tab_ok t \<Longrightarrow> tab_small (snd (intern_all tab_intern t ks)) \<Longrightarrow>
     list_all2 (\<lambda>i k. tab_get (snd (intern_all tab_intern t ks)) i = Some k)
       (fst (intern_all tab_intern t ks)) ks"
proof (induction ks arbitrary: t)
  case (Cons k ks)
  let ?t = "snd (tab_intern t k)"
  have small: "tab_small (snd (intern_all tab_intern ?t ks))"
    using Cons.prems(2) by (simp add: Let_def split_beta)
  have "tab_get ?t (fst (tab_intern t k)) = Some k"
    by (rule get_intern [OF Cons.prems(1) intern_all_small [OF small]])
  then show ?case
    using Cons.IH [OF ok_intern [OF Cons.prems(1)] small]
    by (simp add: Let_def split_beta intern_all_stable)
qed simp

end

interpretation strings: interner intern st_get st_ok st_small
proof unfold_locales
  show "st_small t" if "st_small (snd (intern t k))" for t k
    using that prefix_length_le [OF intern_prefix [of t k]] by (simp add: st_small_def)
qed (auto intro: intern_st_ok intern_get st_get_prefix intern_prefix)

section \<open>Properties\<close>

text \<open>interning a list of strings keeps the table well formed, gives every string an
  identifier that resolves to it in the final table, and leaves what earlier identifiers resolve
  to unchanged.\<close>

theorem interning_resolves:
  assumes "st_ok st" and "st_small (snd (intern_all intern st ks))" and "st_get st j = Some s"
  shows "st_ok (snd (intern_all intern st ks))
    \<and> list_all2 (\<lambda>i k. st_get (snd (intern_all intern st ks)) i = Some k)
        (fst (intern_all intern st ks)) ks
    \<and> st_get (snd (intern_all intern st ks)) j = Some s"
  using assms
  by (simp add: strings.intern_all_ok strings.intern_all_get strings.intern_all_stable)

theorem interning_resolves_witness:
  "list_all2 (\<lambda>i k. st_get (snd (intern_all intern st_new [''cpu'', '''', ''cpu''])) i = Some k)
     (fst (intern_all intern st_new [''cpu'', '''', ''cpu''])) [''cpu'', '''', ''cpu'']"
  using interning_resolves [OF st_ok_new, of "[''cpu'', '''', ''cpu'']" 0 "''''"]
  by (simp add: st_new_def intern_def st_empty_def st_small_def st_get_def)

text \<open>a table survives serialisation: rebuilding it from its strings restores the lookup
  cache exactly, and a list of strings is rejected precisely when it does not begin with the
  empty string.\<close>

theorem string_table_round_trip:
  "(st_ok st \<longrightarrow> st_deserialize (st_serialize st) = Inr st)
   \<and> (st_deserialize ss = Inl BadStringTable \<longleftrightarrow> ss = [] \<or> hd ss \<noteq> [])"
  by (simp add: st_deserialize_def st_serialize_def from_strings_st_ok from_strings_Inl)

theorem string_table_round_trip_witness:
  "st_deserialize (st_serialize (snd (intern st_new ''cpu''))) = Inr (snd (intern st_new ''cpu''))"
  using string_table_round_trip [of "snd (intern st_new ''cpu'')"] intern_st_ok [OF st_ok_new]
  by simp

end
