(* ===== verification/Wire.thy ===== *)
theory Wire
  imports Prelude
begin

text \<open>
  The protobuf primitives of \<open>src/pprof.rs\<close>: the varint and length-delimited encoders, the
  \<open>Fields\<close> cursor that reads them back, and the packed decoder. The encoders append to a
  buffer, as the source does; each is shown to append a fixed byte string, its wire form.
  The reading lemmas say what the cursor makes of a buffer in which one wire form stands at
  the cursor's offset. The locale \<open>wire_message\<close> is the contract every pprof submessage
  keeps with the loops that read and write it.
\<close>

section \<open>Encoders\<close>

function encode_varint :: "u8 list \<Rightarrow> u64 \<Rightarrow> u8 list" where
  "encode_varint buf v =
     (let byte = ucast (v AND 0x7F);
          v' = drop_bit 7 v
      in if v' = 0 then buf @ [byte] else encode_varint (buf @ [byte OR 0x80]) v')"
  by pat_completeness auto
termination
proof (relation "measure (\<lambda>(buf, v). unat v)")
  fix buf :: "u8 list" and v :: u64 and byte :: u8 and v' :: u64
  assume v': "v' = drop_bit 7 v" and nz: "v' \<noteq> 0"
  from v' have div: "unat v' = unat v div 128"
    by (simp add: unat_div drop_bit_eq_div)
  from nz have "0 < unat v'" by (simp add: unat_gt_0)
  with div have "unat v' < unat v" by simp
  then show "((buf @ [byte OR 0x80], v'), buf, v) \<in> measure (\<lambda>(buf, v). unat v)" by simp
qed simp

declare encode_varint.simps [simp del]

text \<open>Field numbers are below 16 throughout the schema, so the tag is one byte.\<close>

definition encode_varint_field :: "u8 list \<Rightarrow> u32 \<Rightarrow> u64 \<Rightarrow> u8 list" where
  "encode_varint_field buf field value =
     (if value = 0 then buf
      else encode_varint (buf @ [ucast (push_bit 3 field)]) value)"

definition encode_sint64_field :: "u8 list \<Rightarrow> u32 \<Rightarrow> i64 \<Rightarrow> u8 list" where
  "encode_sint64_field buf field value = encode_varint_field buf field value"

definition encode_length_delimited :: "u8 list \<Rightarrow> u32 \<Rightarrow> u8 list \<Rightarrow> u8 list" where
  "encode_length_delimited buf field data =
     (if data = [] then buf
      else encode_varint (buf @ [ucast (push_bit 3 field OR 2)]) (word_of_nat (length data)) @ data)"

definition encode_string_field :: "u8 list \<Rightarrow> u32 \<Rightarrow> string \<Rightarrow> u8 list" where
  "encode_string_field buf field s =
     encode_varint (buf @ [ucast (push_bit 3 field OR 2)]) (word_of_nat (length s)) @ str_bytes s"

definition encode_packed_u64 :: "u8 list \<Rightarrow> u32 \<Rightarrow> u64 list \<Rightarrow> u8 list" where
  "encode_packed_u64 buf field values =
     (if values = [] then buf
      else encode_length_delimited buf field (foldl encode_varint [] values))"

definition encode_packed_i64 :: "u8 list \<Rightarrow> u32 \<Rightarrow> i64 list \<Rightarrow> u8 list" where
  "encode_packed_i64 buf field values =
     (if values = [] then buf
      else encode_length_delimited buf field (foldl encode_varint [] values))"

section \<open>The field cursor\<close>

datatype field_value = Varint u64 | Bytes "u8 list" | Fixed32 | Fixed64

record field =
  number :: u64
  fvalue :: field_value

record fields =
  fs_data :: "u8 list"
  fs_offset :: nat

definition fields_new :: "u8 list \<Rightarrow> fields" where
  "fields_new data = \<lparr>fs_data = data, fs_offset = 0\<rparr>"

text \<open>\<open>for shift in (0..=63).step_by(7)\<close>: the ten shifts as a list.\<close>

fun read_varint_loop :: "nat list \<Rightarrow> u8 list \<Rightarrow> nat \<Rightarrow> u64 \<Rightarrow> (u64 \<times> nat) result" where
  "read_varint_loop [] data offset value = Inl VarintOverflow"
| "read_varint_loop (shift # shifts) data offset value =
     (if offset < length data then
        let byte = data ! offset; offset' = offset + 1 in
        if shift = 63 \<and> 1 < byte then Inl VarintOverflow
        else
          let value' = value OR push_bit shift (ucast (byte AND 0x7F)) in
          if byte AND 0x80 = 0 then Inr (value', offset')
          else read_varint_loop shifts data offset' value'
      else Inl TruncatedVarint)"

definition read_varint :: "u8 list \<Rightarrow> nat \<Rightarrow> (u64 \<times> nat) result" where
  "read_varint data offset =
     read_varint_loop [0, 7, 14, 21, 28, 35, 42, 49, 56, 63] data offset 0"

definition fields_take :: "fields \<Rightarrow> nat \<Rightarrow> (u8 list \<times> fields) result" where
  "fields_take fs len =
     (let end = fs_offset fs + len in
      if 2 ^ 64 \<le> end then Inl LengthOverflow
      else if end \<le> length (fs_data fs) then
        Inr (take len (drop (fs_offset fs) (fs_data fs)), fs\<lparr>fs_offset := end\<rparr>)
      else Inl TruncatedField)"

definition next_value :: "fields \<Rightarrow> u64 \<Rightarrow> (field_value \<times> fields) result" where
  "next_value fs tag =
     (let wire = tag AND 7 in
      if wire = 0 then
        bindr (read_varint (fs_data fs) (fs_offset fs))
          (\<lambda>(v, off). Inr (Varint v, fs\<lparr>fs_offset := off\<rparr>))
      else if wire = 1 then
        bindr (fields_take fs 8) (\<lambda>(_, fs'). Inr (Fixed64, fs'))
      else if wire = 2 then
        bindr (read_varint (fs_data fs) (fs_offset fs))
          (\<lambda>(len, off). bindr (fields_take (fs\<lparr>fs_offset := off\<rparr>) (unat len))
            (\<lambda>(bs, fs'). Inr (Bytes bs, fs')))
      else if wire = 5 then
        bindr (fields_take fs 4) (\<lambda>(_, fs'). Inr (Fixed32, fs'))
      else Inl (UnsupportedWire wire))"

definition next_field :: "fields \<Rightarrow> (field option \<times> fields) result" where
  "next_field fs =
     (if fs_offset fs = length (fs_data fs) then Inr (None, fs)
      else
        bindr (read_varint (fs_data fs) (fs_offset fs))
          (\<lambda>(tag, off).
            let num = drop_bit 3 tag in
            if num = 0 then Inl FieldNumberZero
            else
              bindr (next_value (fs\<lparr>fs_offset := off\<rparr>) tag)
                (\<lambda>(v, fs'). Inr (Some \<lparr>number = num, fvalue = v\<rparr>, fs'))))"

subsection \<open>The cursor moves forward and stays inside the data\<close>

lemma read_varint_loop_advances:
  "read_varint_loop shifts data off acc = Inr (v, off') \<Longrightarrow>
     off < off' \<and> off' \<le> length data \<and> off' \<le> off + length shifts"
  by (induction shifts arbitrary: off acc) (fastforce simp: Let_def split: if_splits)+

lemma read_varint_advances:
  "read_varint data off = Inr (v, off') \<Longrightarrow>
     off < off' \<and> off' \<le> length data \<and> off' \<le> off + 10"
  unfolding read_varint_def by (drule read_varint_loop_advances) simp

lemma fields_take_advances:
  "fields_take fs n = Inr (bs, fs') \<Longrightarrow>
     fs_data fs' = fs_data fs \<and> fs_offset fs' = fs_offset fs + n
       \<and> fs_offset fs' \<le> length (fs_data fs) \<and> length bs = n"
  by (auto simp: fields_take_def Let_def split: if_splits)

lemma next_value_advances:
  "next_value fs tag = Inr (v, fs') \<Longrightarrow> fs_offset fs \<le> length (fs_data fs) \<Longrightarrow>
     fs_data fs' = fs_data fs \<and> fs_offset fs \<le> fs_offset fs'
       \<and> fs_offset fs' \<le> length (fs_data fs)"
  by (auto simp: next_value_def Let_def bindr_Inr_iff split: if_splits prod.splits
      dest!: fields_take_advances read_varint_advances)

lemma next_field_advances:
  assumes "next_field fs = Inr (Some f, fs')"
  shows "fs_data fs' = fs_data fs \<and> fs_offset fs < fs_offset fs'
    \<and> fs_offset fs' \<le> length (fs_data fs)"
proof -
  obtain tag off v where rv: "read_varint (fs_data fs) (fs_offset fs) = Inr (tag, off)"
    and nv: "next_value (fs\<lparr>fs_offset := off\<rparr>) tag = Inr (v, fs')"
    using assms by (auto simp: next_field_def Let_def bindr_Inr_iff split: if_splits)
  show ?thesis
    using next_value_advances [OF nv] read_varint_advances [OF rv] by auto
qed

text \<open>\<open>while let Some(field) = fields.next()? { ... }\<close>, the loop of every decoder.\<close>

function fields_loop :: "('s \<Rightarrow> field \<Rightarrow> 's result) \<Rightarrow> fields \<Rightarrow> 's \<Rightarrow> 's result" where
  "fields_loop step fs s =
     (case next_field fs of
        Inl e \<Rightarrow> Inl e
      | Inr (None, fs') \<Rightarrow> Inr s
      | Inr (Some f, fs') \<Rightarrow> bindr (step s f) (fields_loop step fs'))"
  by pat_completeness auto
termination
  by (relation "measure (\<lambda>(step, fs, s). length (fs_data fs) - fs_offset fs)")
     (auto dest: next_field_advances)

declare fields_loop.simps [simp del]

lemma fields_loop_step:
  assumes "next_field fs = Inr (Some f, fs')"
  shows "fields_loop step fs s = bindr (step s f) (fields_loop step fs')"
  by (subst fields_loop.simps) (simp add: assms)

lemma fields_loop_end: "next_field fs = Inr (None, fs') \<Longrightarrow> fields_loop step fs s = Inr s"
  by (subst fields_loop.simps) simp

lemma fields_loop_error: "next_field fs = Inl e \<Longrightarrow> fields_loop step fs s = Inl e"
  by (subst fields_loop.simps) simp

lemma fields_loop_invariant:
  assumes "\<And>s f s'. P s \<Longrightarrow> step s f = Inr s' \<Longrightarrow> P s'"
  shows "fields_loop step fs s = Inr s' \<Longrightarrow> P s \<Longrightarrow> P s'"
proof (induction "length (fs_data fs) - fs_offset fs" arbitrary: fs s rule: less_induct)
  case less
  consider e where "next_field fs = Inl e"
    | fs' where "next_field fs = Inr (None, fs')"
    | f fs' where "next_field fs = Inr (Some f, fs')"
    by (metis not_None_eq obj_sumE surj_pair)
  then show ?case
  proof cases
    case (3 f fs')
    obtain t where t: "step s f = Inr t" "fields_loop step fs' t = Inr s'"
      using less.prems(1) unfolding fields_loop_step [OF 3] bindr_Inr_iff by blast
    have "length (fs_data fs') - fs_offset fs' < length (fs_data fs) - fs_offset fs"
      using next_field_advances [OF 3] by auto
    then show ?thesis
      using less.hyps t assms [OF less.prems(2) t(1)] by blast
  qed (use less.prems in \<open>auto simp: fields_loop_error fields_loop_end\<close>)
qed

text \<open>\<open>decode_packed\<close>: read varints to the end, handing each to the visitor.\<close>

function decode_packed_from :: "u8 list \<Rightarrow> nat \<Rightarrow> ('s \<Rightarrow> u64 \<Rightarrow> 's) \<Rightarrow> 's \<Rightarrow> 's result" where
  "decode_packed_from data off visit s =
     (if off < length data then
        (case read_varint data off of
           Inl e \<Rightarrow> Inl e
         | Inr (v, off') \<Rightarrow> decode_packed_from data off' visit (visit s v))
      else Inr s)"
  by pat_completeness auto
termination
  by (relation "measure (\<lambda>(data, off, visit, s). length data - off)")
     (auto dest: read_varint_advances)

declare decode_packed_from.simps [simp del]

definition decode_packed :: "u8 list \<Rightarrow> ('s \<Rightarrow> u64 \<Rightarrow> 's) \<Rightarrow> 's \<Rightarrow> 's result" where
  "decode_packed data visit s = decode_packed_from data 0 visit s"

section \<open>Wire forms\<close>

subsection \<open>Varints\<close>

lemma mask7_u64: "(127 :: u64) = mask 7" by (simp add: mask_eq_exp_minus_1)
lemma mask7_u8: "(127 :: u8) = mask 7" by (simp add: mask_eq_exp_minus_1)
lemma bit_128_int: "bit (128 :: int) n \<longleftrightarrow> n = 7"
  using bit_exp_iff [of 7 n, where ?'a = int] by auto

definition varint_bytes :: "u64 \<Rightarrow> u8 list" where
  "varint_bytes v = encode_varint [] v"

lemma encode_varint_append: "encode_varint buf v = buf @ varint_bytes v"
proof -
  have "encode_varint (pre @ buf') v = pre @ encode_varint buf' v" for pre buf'
  proof (induction buf' v arbitrary: pre rule: encode_varint.induct)
    case (1 buf v)
    then show ?case
      by (simp add: encode_varint.simps [of "pre @ buf" v] encode_varint.simps [of buf v] Let_def)
  qed
  from this [of buf "[]"] show ?thesis by (simp add: varint_bytes_def)
qed

text \<open>The low seven bits, and the rest.\<close>

definition low7 :: "u64 \<Rightarrow> u8" where
  "low7 v = ucast (v AND 0x7F)"

lemma varint_bytes_rec:
  "varint_bytes v =
     (if drop_bit 7 v = 0 then [low7 v] else (low7 v OR 0x80) # varint_bytes (drop_bit 7 v))"
  using encode_varint_append [of "[low7 v OR 0x80]" "drop_bit 7 v"]
  by (simp add: varint_bytes_def [of v] encode_varint.simps [of _ v] Let_def low7_def)

lemma varint_bytes_nonempty [simp]: "varint_bytes v \<noteq> []"
  by (subst varint_bytes_rec) simp

lemma low7_facts:
  "low7 v AND 0x7F = low7 v" "low7 v AND 0x80 = 0"
  "(low7 v OR 0x80) AND 0x7F = low7 v" "(low7 v OR 0x80) AND 0x80 \<noteq> 0"
  "(ucast (low7 v) :: u64) = v AND 0x7F"
proof -
  show "low7 v AND 0x7F = low7 v"
    unfolding low7_def mask7_u64 mask7_u8 by (rule bit_word_eqI) (auto simp: bit_simps)
  have hi: "\<not> bit (low7 v) 7"
    unfolding low7_def mask7_u64 by (simp add: bit_simps)
  then show "low7 v AND 0x80 = 0"
    by (intro bit_word_eqI) (auto simp: bit_and_iff bit_128_int)
  show "(low7 v OR 0x80) AND 0x7F = low7 v"
    unfolding low7_def mask7_u64 mask7_u8
    by (rule bit_word_eqI) (auto simp: bit_simps bit_128_int)
  show "(low7 v OR 0x80) AND 0x80 \<noteq> 0"
  proof -
    have "bit ((low7 v OR 0x80) AND 0x80) 7" by (simp add: bit_simps)
    then show ?thesis by (metis bit_0_eq bot_apply bot_bool_def)
  qed
  show "(ucast (low7 v) :: u64) = v AND 0x7F"
    unfolding low7_def mask7_u64 by (rule bit_word_eqI) (auto simp: bit_simps)
qed

lemma split7: "push_bit s v = push_bit s (v AND 0x7F) OR push_bit (s + 7) (drop_bit 7 (v :: u64))"
  unfolding mask7_u64
proof (rule bit_word_eqI)
  fix n assume "n < LENGTH(64)"
  have sub: "\<not> n - s < 7 \<Longrightarrow> 7 + (n - (s + 7)) = n - s" by linarith
  then show "bit (push_bit s v) n \<longleftrightarrow>
      bit (push_bit s (v AND mask 7) OR push_bit (s + 7) (drop_bit 7 v)) n"
    by (cases "n - s < 7") (auto simp: bit_simps sub)
qed

lemma low7_whole: "drop_bit 7 v = 0 \<Longrightarrow> v AND 0x7F = (v :: u64)"
  using split7 [of 0 v] by simp

definition fits :: "nat \<Rightarrow> u64 \<Rightarrow> bool" where
  "fits n v \<longleftrightarrow> unat v < 2 ^ n"

lemma fits_drop7: "fits n v \<Longrightarrow> 7 \<le> n \<Longrightarrow> fits (n - 7) (drop_bit 7 v)"
proof -
  assume v: "fits n v" and n: "7 \<le> n"
  then have "(2 :: nat) ^ n = 2 ^ (n - 7) * 128"
    using power_add [of "2 :: nat" "n - 7" 7] by simp
  with v show ?thesis
    by (simp add: fits_def unat_div drop_bit_eq_div less_mult_imp_div_less)
qed

lemma fits_64 [simp]: "fits 64 v"
  using unsigned_less [of v, where ?'a = nat] by (simp add: fits_def)

lemma fits_1: "fits (Suc 0) v \<Longrightarrow> drop_bit 7 v = 0 \<and> low7 v \<le> 1"
proof -
  assume "fits (Suc 0) v"
  then have "unat v = 0 \<or> unat v = 1" by (auto simp: fits_def)
  then have "v = 0 \<or> v = 1" by (metis unsigned_0 unsigned_1 unsigned_word_eqI)
  then show ?thesis by (auto simp: low7_def)
qed

text \<open>A cursor standing between what was read and what is left.\<close>

definition cursor :: "u8 list \<Rightarrow> u8 list \<Rightarrow> fields" where
  "cursor pre rest = \<lparr>fs_data = pre @ rest, fs_offset = length pre\<rparr>"

lemma upt7: "k < 10 \<Longrightarrow> map ((*) 7) [k..<10] = 7 * k # map ((*) 7) [Suc k..<10]"
  by (simp add: upt_conv_Cons)

lemma read_varint_loop_at:
  "read_varint_loop (shift # shifts) (pre @ b # rest) (length pre) acc =
     (if shift = 63 \<and> 1 < b then Inl VarintOverflow
      else if b AND 0x80 = 0 then
        Inr (acc OR push_bit shift (ucast (b AND 0x7F)), Suc (length pre))
      else read_varint_loop shifts (pre @ b # rest) (Suc (length pre))
        (acc OR push_bit shift (ucast (b AND 0x7F))))"
  by (simp add: Let_def)

lemma read_varint_loop_bytes:
  "k \<le> 9 \<Longrightarrow> fits (64 - 7 * k) v \<Longrightarrow>
   read_varint_loop (map ((*) 7) [k..<10]) (pre @ varint_bytes v @ rest) (length pre) acc =
     Inr (acc OR push_bit (7 * k) v, length pre + length (varint_bytes v))"
proof (induction "length (varint_bytes v)" arbitrary: k v acc pre rule: less_induct)
  case less
  show ?case
  proof (cases "drop_bit 7 v = 0")
    case True
    have b: "varint_bytes v = [low7 v]" using True by (simp add: varint_bytes_rec [of v])
    have last: "\<not> (7 * k = 63 \<and> 1 < low7 v)"
      using less.prems fits_1 [of v] by (auto simp: not_less)
    have "read_varint_loop (7 * k # map ((*) 7) [Suc k..<10]) (pre @ low7 v # rest) (length pre) acc
      = Inr (acc OR push_bit (7 * k) v, Suc (length pre))"
      by (simp only: read_varint_loop_at last low7_facts if_False if_True simp_thms low7_whole [OF True])
    then show ?thesis using less.prems(1) by (simp add: b upt7 del: read_varint_loop.simps)
  next
    case False
    let ?pre = "pre @ [low7 v OR 0x80]" and ?v = "drop_bit 7 v"
    have b: "varint_bytes v = (low7 v OR 0x80) # varint_bytes ?v"
      using False by (simp add: varint_bytes_rec [of v])
    have k: "Suc k \<le> 9" using less.prems fits_1 [of v] False
      by (cases "k = 9") auto
    have fit: "fits (64 - 7 * Suc k) ?v"
      using fits_drop7 [OF less.prems(2)] k by (simp add: algebra_simps)
    have ih: "read_varint_loop (map ((*) 7) [Suc k..<10]) (?pre @ varint_bytes ?v @ rest)
        (length ?pre) (acc OR push_bit (7 * k) (v AND 0x7F)) =
      Inr ((acc OR push_bit (7 * k) (v AND 0x7F)) OR push_bit (7 * Suc k) ?v,
        length ?pre + length (varint_bytes ?v))"
      by (rule less.hyps [OF _ k fit]) (simp add: b)
    have ors: "(acc OR push_bit (7 * k) (v AND 0x7F)) OR push_bit (7 * Suc k) ?v =
        acc OR push_bit (7 * k) v"
      by (simp only: split7 [of "7 * k" v] or.assoc mult_Suc_right add.commute [of 7])
    have mid: "7 * k \<noteq> 63" using k by simp
    have "read_varint_loop (7 * k # map ((*) 7) [Suc k..<10])
        (pre @ (low7 v OR 0x80) # varint_bytes ?v @ rest) (length pre) acc =
      read_varint_loop (map ((*) 7) [Suc k..<10]) (?pre @ varint_bytes ?v @ rest)
        (length ?pre) (acc OR push_bit (7 * k) (v AND 0x7F))"
      by (simp only: read_varint_loop_at mid low7_facts if_False simp_thms) simp
    also note ih [unfolded ors]
    finally show ?thesis using less.prems(1) by (simp add: b upt7 del: read_varint_loop.simps)
  qed
qed

lemma read_varint_bytes:
  "read_varint (pre @ varint_bytes v @ rest) (length pre) =
     Inr (v, length pre + length (varint_bytes v))"
proof -
  have "[0, 7, 14, 21, 28, 35, 42, 49, 56, 63] = map ((*) 7) [0..<10 :: nat]"
    by (simp add: upt_conv_Cons)
  then show ?thesis
    using read_varint_loop_bytes [of 0 v pre rest 0] by (simp add: read_varint_def)
qed

lemma varint_bytes_small: "v < 0x80 \<Longrightarrow> varint_bytes v = [ucast v]"
proof -
  assume v: "v < 0x80"
  have d: "drop_bit 7 v = 0"
    using v by (simp add: drop_bit_eq_div word_less_nat_alt unat_div flip: unat_eq_0)
  then have "low7 v = ucast v" by (simp add: low7_def low7_whole)
  with d show ?thesis by (simp add: varint_bytes_rec)
qed

lemma read_varint_small_byte:
  "b < 0x80 \<Longrightarrow> read_varint (pre @ b # rest) (length pre) = Inr (ucast b, Suc (length pre))"
proof -
  assume b: "b < 0x80"
  then have "unat b < 128" by (simp add: word_less_nat_alt)
  then have "(ucast b :: u64) < 0x80"
    by (simp add: word_less_nat_alt unsigned_ucast_eq take_bit_nat_eq_self)
  moreover have "ucast (ucast b :: u64) = b" by (rule bit_word_eqI) (simp add: bit_simps)
  ultimately have "varint_bytes (ucast b) = [b]" by (simp add: varint_bytes_small)
  then show ?thesis using read_varint_bytes [of pre "ucast b" rest] by simp
qed

subsection \<open>Tags\<close>

definition field_ok :: "u32 \<Rightarrow> bool" where
  "field_ok n \<longleftrightarrow> n \<noteq> 0 \<and> n < 16"

definition tag_byte :: "u32 \<Rightarrow> u32 \<Rightarrow> u8" where
  "tag_byte n wire = ucast (push_bit 3 n OR wire)"

lemma tag_byte_facts:
  assumes "field_ok n" and "w = 0 \<or> w = 2"
  shows "tag_byte n w < 0x80" "drop_bit 3 (ucast (tag_byte n w) :: u64) = ucast n"
    "(ucast (tag_byte n w) :: u64) AND 7 = ucast w" "(ucast n :: u64) \<noteq> 0"
proof -
  have "unat n \<in> {1..<16}"
    using assms(1) by (auto simp: field_ok_def word_less_nat_alt Suc_le_eq unat_gt_0)
  then have "unat n \<in> {1, 2, 3, 4, 5, 6, 7, 8, 9, 10, 11, 12, 13, 14, 15}"
    by (simp add: atLeastLessThan_nat_numeral atLeastLessThanSuc_atLeastAtMost Suc_le_eq) presburger
  moreover have "n = word_of_nat (unat n)" by simp
  ultimately obtain k where "n = word_of_nat k"
    and "k \<in> {1, 2, 3, 4, 5, 6, 7, 8, 9, 10, 11, 12, 13, 14, 15}"
    by blast
  then show "tag_byte n w < 0x80" "drop_bit 3 (ucast (tag_byte n w) :: u64) = ucast n"
    "(ucast (tag_byte n w) :: u64) AND 7 = ucast w" "(ucast n :: u64) \<noteq> 0"
    using assms(2) by (auto simp: tag_byte_def)
qed

subsection \<open>Fields\<close>

definition wire_varint :: "u32 \<Rightarrow> u64 \<Rightarrow> u8 list" where
  "wire_varint n v = tag_byte n 0 # varint_bytes v"

definition wire_bytes :: "u32 \<Rightarrow> u8 list \<Rightarrow> u8 list" where
  "wire_bytes n bs = tag_byte n 2 # varint_bytes (word_of_nat (length bs)) @ bs"

definition opt_varint :: "u32 \<Rightarrow> u64 \<Rightarrow> u8 list" where
  "opt_varint n v = (if v = 0 then [] else wire_varint n v)"

definition opt_bytes :: "u32 \<Rightarrow> u8 list \<Rightarrow> u8 list" where
  "opt_bytes n bs = (if bs = [] then [] else wire_bytes n bs)"

lemma foldl_encode_varint: "foldl encode_varint buf vs = buf @ concat (map varint_bytes vs)"
  by (induction vs arbitrary: buf) (simp_all add: encode_varint_append)

lemma encode_varint_field_append: "encode_varint_field buf n v = buf @ opt_varint n v"
  by (simp add: encode_varint_field_def encode_varint_append opt_varint_def wire_varint_def
      tag_byte_def)

lemma encode_sint64_field_append: "encode_sint64_field buf n v = buf @ opt_varint n v"
  by (simp add: encode_sint64_field_def encode_varint_field_append)

lemma encode_length_delimited_append: "encode_length_delimited buf n bs = buf @ opt_bytes n bs"
  by (simp add: encode_length_delimited_def encode_varint_append opt_bytes_def wire_bytes_def
      tag_byte_def)

lemma encode_string_field_append: "encode_string_field buf n s = buf @ wire_bytes n (str_bytes s)"
  by (simp add: encode_string_field_def encode_varint_append wire_bytes_def tag_byte_def)

lemma encode_packed_append:
  "encode_packed_u64 buf n vs = buf @ opt_bytes n (concat (map varint_bytes vs))"
  "encode_packed_i64 buf n vs = buf @ opt_bytes n (concat (map varint_bytes vs))"
  by (simp_all add: encode_packed_u64_def encode_packed_i64_def foldl_encode_varint
      encode_length_delimited_append opt_bytes_def)

lemmas encode_appends = fold_append encode_varint_field_append encode_sint64_field_append
  encode_length_delimited_append encode_string_field_append encode_packed_append

lemma read_tag:
  assumes "field_ok n" and "w = 0 \<or> w = 2"
  shows "read_varint (pre @ tag_byte n w # rest) (length pre) =
    Inr (ucast (tag_byte n w), length (pre @ [tag_byte n w]))"
  using read_varint_small_byte [OF tag_byte_facts(1) [OF assms]] by simp

lemma next_field_varint:
  assumes "field_ok n"
  shows "next_field (cursor pre (wire_varint n v @ rest)) =
    Inr (Some \<lparr>number = ucast n, fvalue = Varint v\<rparr>, cursor (pre @ wire_varint n v) rest)"
proof -
  note t = tag_byte_facts [OF assms, of 0, simplified]
  show ?thesis
    using read_varint_bytes [of "pre @ [tag_byte n 0]" v rest]
    by (simp add: next_field_def next_value_def cursor_def wire_varint_def read_tag [OF assms]
        t Let_def)
qed

lemma next_field_bytes:
  assumes "field_ok n" and "length pre + length (wire_bytes n bs) < 2 ^ 64"
  shows "next_field (cursor pre (wire_bytes n bs @ rest)) =
    Inr (Some \<lparr>number = ucast n, fvalue = Bytes bs\<rparr>, cursor (pre @ wire_bytes n bs) rest)"
proof -
  let ?len = "word_of_nat (length bs) :: u64"
  note t = tag_byte_facts [OF assms(1), of 2, simplified]
  have len: "unat ?len = length bs"
    using assms(2) by (simp add: wire_bytes_def unat_of_nat)
  have "fields_take \<lparr>fs_data = pre @ wire_bytes n bs @ rest,
      fs_offset = length (pre @ [tag_byte n 2]) + length (varint_bytes ?len)\<rparr> (length bs) =
    Inr (bs, cursor (pre @ wire_bytes n bs) rest)"
    using assms(2) by (simp add: fields_take_def cursor_def wire_bytes_def Let_def)
  then show ?thesis
    using read_varint_bytes [of "pre @ [tag_byte n 2]" ?len "bs @ rest"]
    by (simp add: next_field_def next_value_def cursor_def wire_bytes_def read_tag [OF assms(1)]
        t Let_def len)
qed

section \<open>What a decoder loop makes of a wire form\<close>

text \<open>
  \<open>reads step bs s s'\<close>: wherever the bytes \<open>bs\<close> stand in a buffer of less than \<open>2 ^ 64\<close>
  bytes (every Rust vector is shorter than \<open>isize::MAX\<close>), the decoder loop with body \<open>step\<close>
  consumes them and moves from state \<open>s\<close> to \<open>s'\<close>.
\<close>

definition reads :: "('s \<Rightarrow> field \<Rightarrow> 's result) \<Rightarrow> u8 list \<Rightarrow> 's \<Rightarrow> 's \<Rightarrow> bool" where
  "reads step bs s s' \<longleftrightarrow>
     (\<forall>pre rest. length pre + length bs + length rest < 2 ^ 64 \<longrightarrow>
        fields_loop step (cursor pre (bs @ rest)) s = fields_loop step (cursor (pre @ bs) rest) s')"

lemma reads_nil: "reads step [] s s"
  by (simp add: reads_def)

lemma reads_append: "reads step bs s t \<Longrightarrow> reads step cs t u \<Longrightarrow> reads step (bs @ cs) s u"
  unfolding reads_def by (metis (no_types, lifting) add.assoc append.assoc length_append)

lemma reads_varint:
  assumes "field_ok n" and "step s \<lparr>number = ucast n, fvalue = Varint v\<rparr> = Inr s'"
  shows "reads step (wire_varint n v) s s'"
  unfolding reads_def
  by (subst fields_loop.simps) (simp add: next_field_varint [OF assms(1)] assms(2))

lemma reads_opt_varint:
  assumes "field_ok n" and "step s \<lparr>number = ucast n, fvalue = Varint v\<rparr> = Inr s'"
    and "v = 0 \<Longrightarrow> s' = s"
  shows "reads step (opt_varint n v) s s'"
  using assms by (auto simp: opt_varint_def intro: reads_nil reads_varint)

lemma reads_bytes:
  assumes "field_ok n"
    and "length bs < 2 ^ 64 \<Longrightarrow> step s \<lparr>number = ucast n, fvalue = Bytes bs\<rparr> = Inr s'"
  shows "reads step (wire_bytes n bs) s s'"
proof -
  have "fields_loop step (cursor pre (wire_bytes n bs @ rest)) s =
      fields_loop step (cursor (pre @ wire_bytes n bs) rest) s'"
    if len: "length pre + length (wire_bytes n bs) + length rest < 2 ^ 64" for pre rest
  proof -
    have "length bs < 2 ^ 64" using len by (simp add: wire_bytes_def)
    then show ?thesis
      using len
      by (subst fields_loop.simps) (simp add: next_field_bytes [OF assms(1)] assms(2))
  qed
  then show ?thesis by (simp add: reads_def)
qed

lemma reads_opt_bytes:
  assumes "field_ok n"
    and "length bs < 2 ^ 64 \<Longrightarrow> step s \<lparr>number = ucast n, fvalue = Bytes bs\<rparr> = Inr s'"
    and "bs = [] \<Longrightarrow> s' = s"
  shows "reads step (opt_bytes n bs) s s'"
  using assms by (auto simp: opt_bytes_def intro: reads_nil reads_bytes)

lemma reads_concat:
  assumes "\<And>x s. x \<in> set xs \<Longrightarrow> reads step (f x) s (g x s)"
  shows "reads step (concat (map f xs)) s (fold g xs s)"
  using assms by (induction xs arbitrary: s) (auto intro: reads_nil reads_append)

text \<open>Reading a whole buffer.\<close>

lemma reads_decode:
  assumes "reads step bs s s'" and "length bs < 2 ^ 64"
  shows "fields_loop step (fields_new bs) s = Inr s'"
proof -
  have "fields_loop step (cursor [] (bs @ [])) s = fields_loop step (cursor ([] @ bs) []) s'"
    using assms(1) [unfolded reads_def, rule_format, of "[]" "[]"] assms(2) by simp
  moreover have "fields_loop step (cursor bs []) s' = Inr s'"
    by (subst fields_loop.simps) (simp add: next_field_def cursor_def)
  ultimately show ?thesis by (simp add: fields_new_def cursor_def)
qed

subsection \<open>Packed varints\<close>

lemma decode_packed_from_bytes:
  "decode_packed_from (pre @ concat (map varint_bytes vs)) (length pre) visit s =
     Inr (foldl visit s vs)"
proof (induction vs arbitrary: pre s)
  case Nil
  then show ?case by (simp add: decode_packed_from.simps)
next
  case (Cons v vs)
  have "decode_packed_from (pre @ concat (map varint_bytes (v # vs))) (length pre) visit s =
      decode_packed_from ((pre @ varint_bytes v) @ concat (map varint_bytes vs))
        (length (pre @ varint_bytes v)) visit (visit s v)"
    by (subst decode_packed_from.simps) (simp add: read_varint_bytes)
  then show ?case by (simp only: Cons.IH) simp
qed

lemma decode_packed_bytes:
  "decode_packed (concat (map varint_bytes vs)) visit s = Inr (foldl visit s vs)"
  using decode_packed_from_bytes [of "[]"] by (simp add: decode_packed_def)

lemma concat_varint_bytes_Nil: "concat (map varint_bytes vs) = [] \<longleftrightarrow> vs = []"
  by (cases vs) simp_all

section \<open>The contract of a submessage\<close>

text \<open>
  A submessage type has an encoder that appends and a decoder. What comes back is the
  message with its own blank submessages pruned; a message is blank when it encodes to no
  bytes at all, and then \<open>encode_length_delimited\<close> leaves it out of the parent.
\<close>

locale wire_message =
  fixes enc :: "u8 list \<Rightarrow> 'm \<Rightarrow> u8 list"
    and dec :: "u8 list \<Rightarrow> 'm result"
    and prune :: "'m \<Rightarrow> 'm"
    and blank :: "'m \<Rightarrow> bool"
  assumes enc_append: "enc buf m = buf @ enc [] m"
    and enc_Nil: "enc [] m = [] \<longleftrightarrow> blank m"
    and dec_enc: "length (enc [] m) < 2 ^ 64 \<Longrightarrow> dec (enc [] m) = Inr (prune m)"
begin

lemma reads_one:
  assumes "field_ok n"
    and "\<And>bs m. dec bs = Inr m \<Longrightarrow> step s \<lparr>number = ucast n, fvalue = Bytes bs\<rparr> = Inr (push m s)"
  shows "reads step (opt_bytes n (enc [] m)) s (if blank m then s else push (prune m) s)"
proof (cases "blank m")
  case True
  then show ?thesis by (simp add: opt_bytes_def enc_Nil reads_nil)
next
  case False
  then have "reads step (wire_bytes n (enc [] m)) s (push (prune m) s)"
    by (intro reads_bytes assms) (auto intro: dec_enc)
  with False show ?thesis by (simp add: opt_bytes_def enc_Nil)
qed

lemma reads_repeated:
  assumes "field_ok n"
    and "\<And>bs m s. dec bs = Inr m \<Longrightarrow> step s \<lparr>number = ucast n, fvalue = Bytes bs\<rparr> = Inr (push m s)"
  shows "reads step (concat (map (\<lambda>m. opt_bytes n (enc [] m)) ms)) s
    (fold push (map prune (filter (\<lambda>m. \<not> blank m) ms)) s)"
proof -
  have "fold (\<lambda>m s. if blank m then s else push (prune m) s) ms s =
      fold push (map prune (filter (\<lambda>m. \<not> blank m) ms)) s"
    by (induction ms arbitrary: s) simp_all
  moreover have "reads step (concat (map (\<lambda>m. opt_bytes n (enc [] m)) ms)) s
      (fold (\<lambda>m s. if blank m then s else push (prune m) s) ms s)"
    by (rule reads_concat, rule reads_one) (rule assms)+
  ultimately show ?thesis by simp
qed

end

section \<open>Properties\<close>

text \<open>whatever precedes and follows it in the buffer, an encoded varint is read back as the
  same value, the cursor stopping exactly at its end; and it never takes more than ten bytes.\<close>

theorem varint_round_trip:
  "read_varint (encode_varint buf v @ rest) (length buf) = Inr (v, length (encode_varint buf v))
     \<and> length (encode_varint buf v) \<le> length buf + 10"
proof -
  have read: "read_varint (encode_varint buf v @ rest) (length buf)
      = Inr (v, length (encode_varint buf v))"
    using read_varint_bytes [of buf v rest] by (simp add: encode_varint_append [of buf])
  then show ?thesis using read_varint_advances [OF read] by simp
qed

text \<open>C39: reading a field always consumes bytes and never moves past the end of the data, which
  is why the loop of every decoder ends, whatever the input.\<close>

theorem next_field_progress:
  assumes "next_field fs = Inr (Some f, fs')"
  shows "fs_data fs' = fs_data fs \<and> fs_offset fs < fs_offset fs'
    \<and> fs_offset fs' \<le> length (fs_data fs)"
  by (rule next_field_advances [OF assms])

theorem next_field_progress_witness:
  "\<exists>fs'. next_field (fields_new [8, 150, 1]) = Inr (Some \<lparr>number = 1, fvalue = Varint 150\<rparr>, fs')
     \<and> 0 < fs_offset fs' \<and> fs_offset fs' \<le> 3"
proof -
  have eq: "next_field (fields_new [8, 150, 1]) = Inr (Some \<lparr>number = 1, fvalue = Varint 150\<rparr>,
     \<lparr>fs_data = [8, 150, 1], fs_offset = 3\<rparr>)"
    by (simp add: next_field_def fields_new_def read_varint_def next_value_def)
  show ?thesis using next_field_progress [OF eq] eq by (auto simp: fields_new_def)
qed

end
