(* ===== verification/Pprof.thy ===== *)
theory Pprof
  imports Wire String_Table
begin

text \<open>
  The pprof profile model of \<open>src/pprof.rs\<close> and its protobuf codec: one record per message,
  its \<open>encode\<close> (which appends to a buffer) and its \<open>decode\<close> (a loop over the fields with one
  match per message). Every submessage is an instance of \<open>wire_message\<close>; the profile's
  round trip follows from their laws.
\<close>

section \<open>Messages\<close>

record value_type =
  vt_type :: u64
  vt_unit :: u64

definition vt_default :: value_type where
  "vt_default = \<lparr>vt_type = 0, vt_unit = 0\<rparr>"

definition vt_encode :: "u8 list \<Rightarrow> value_type \<Rightarrow> u8 list" where
  "vt_encode buf m =
     encode_varint_field (encode_varint_field buf 1 (vt_type m)) 2 (vt_unit m)"

definition vt_step :: "value_type \<Rightarrow> field \<Rightarrow> value_type result" where
  "vt_step m f =
     (case fvalue f of
        Varint v \<Rightarrow>
          if number f = 1 then Inr (m\<lparr>vt_type := v\<rparr>)
          else if number f = 2 then Inr (m\<lparr>vt_unit := v\<rparr>)
          else Inr m
      | _ \<Rightarrow> Inr m)"

definition vt_decode :: "u8 list \<Rightarrow> value_type result" where
  "vt_decode data = fields_loop vt_step (fields_new data) vt_default"

record line =
  ln_function_id :: u64
  ln_line :: i64
  ln_column :: i64

definition ln_default :: line where
  "ln_default = \<lparr>ln_function_id = 0, ln_line = 0, ln_column = 0\<rparr>"

definition ln_encode :: "u8 list \<Rightarrow> line \<Rightarrow> u8 list" where
  "ln_encode buf m =
     (let buf = encode_varint_field buf 1 (ln_function_id m);
          buf = encode_sint64_field buf 2 (ln_line m)
      in encode_sint64_field buf 3 (ln_column m))"

definition ln_step :: "line \<Rightarrow> field \<Rightarrow> line result" where
  "ln_step m f =
     (case fvalue f of
        Varint v \<Rightarrow>
          if number f = 1 then Inr (m\<lparr>ln_function_id := v\<rparr>)
          else if number f = 2 then Inr (m\<lparr>ln_line := v\<rparr>)
          else if number f = 3 then Inr (m\<lparr>ln_column := v\<rparr>)
          else Inr m
      | _ \<Rightarrow> Inr m)"

definition ln_decode :: "u8 list \<Rightarrow> line result" where
  "ln_decode data = fields_loop ln_step (fields_new data) ln_default"

record location =
  loc_id :: u64
  loc_mapping_id :: u64
  loc_address :: u64
  loc_lines :: "line list"
  loc_is_folded :: bool

definition loc_default :: location where
  "loc_default = \<lparr>loc_id = 0, loc_mapping_id = 0, loc_address = 0, loc_lines = [],
     loc_is_folded = False\<rparr>"

text \<open>\<open>u64::from(bool)\<close>, and the decoders' \<open>value != 0\<close>.\<close>

definition u64_of_bool :: "bool \<Rightarrow> u64" where
  "u64_of_bool b = (if b then 1 else 0)"

definition loc_encode :: "u8 list \<Rightarrow> location \<Rightarrow> u8 list" where
  "loc_encode buf m =
     (let buf = encode_varint_field buf 1 (loc_id m);
          buf = encode_varint_field buf 2 (loc_mapping_id m);
          buf = encode_varint_field buf 3 (loc_address m);
          buf = fold (\<lambda>l buf. encode_length_delimited buf 4 (ln_encode [] l)) (loc_lines m) buf
      in encode_varint_field buf 5 (u64_of_bool (loc_is_folded m)))"

definition loc_step :: "location \<Rightarrow> field \<Rightarrow> location result" where
  "loc_step m f =
     (case fvalue f of
        Varint v \<Rightarrow>
          if number f = 1 then Inr (m\<lparr>loc_id := v\<rparr>)
          else if number f = 2 then Inr (m\<lparr>loc_mapping_id := v\<rparr>)
          else if number f = 3 then Inr (m\<lparr>loc_address := v\<rparr>)
          else if number f = 5 then Inr (m\<lparr>loc_is_folded := v \<noteq> 0\<rparr>)
          else Inr m
      | Bytes bs \<Rightarrow>
          if number f = 4 then
            bindr (ln_decode bs) (\<lambda>l. Inr (m\<lparr>loc_lines := loc_lines m @ [l]\<rparr>))
          else Inr m
      | _ \<Rightarrow> Inr m)"

definition loc_decode :: "u8 list \<Rightarrow> location result" where
  "loc_decode data = fields_loop loc_step (fields_new data) loc_default"

record mapping =
  mp_id :: u64
  mp_memory_start :: u64
  mp_memory_limit :: u64
  mp_file_offset :: u64
  mp_filename :: u64
  mp_build_id :: u64
  mp_has_functions :: bool
  mp_has_filenames :: bool
  mp_has_line_numbers :: bool
  mp_has_inline_frames :: bool

definition mp_default :: mapping where
  "mp_default = \<lparr>mp_id = 0, mp_memory_start = 0, mp_memory_limit = 0, mp_file_offset = 0,
     mp_filename = 0, mp_build_id = 0, mp_has_functions = False, mp_has_filenames = False,
     mp_has_line_numbers = False, mp_has_inline_frames = False\<rparr>"

definition mp_encode :: "u8 list \<Rightarrow> mapping \<Rightarrow> u8 list" where
  "mp_encode buf m =
     (let buf = encode_varint_field buf 1 (mp_id m);
          buf = encode_varint_field buf 2 (mp_memory_start m);
          buf = encode_varint_field buf 3 (mp_memory_limit m);
          buf = encode_varint_field buf 4 (mp_file_offset m);
          buf = encode_varint_field buf 5 (mp_filename m);
          buf = encode_varint_field buf 6 (mp_build_id m);
          buf = encode_varint_field buf 7 (u64_of_bool (mp_has_functions m));
          buf = encode_varint_field buf 8 (u64_of_bool (mp_has_filenames m));
          buf = encode_varint_field buf 9 (u64_of_bool (mp_has_line_numbers m))
      in encode_varint_field buf 10 (u64_of_bool (mp_has_inline_frames m)))"

definition mp_step :: "mapping \<Rightarrow> field \<Rightarrow> mapping result" where
  "mp_step m f =
     (case fvalue f of
        Varint v \<Rightarrow>
          if number f = 1 then Inr (m\<lparr>mp_id := v\<rparr>)
          else if number f = 2 then Inr (m\<lparr>mp_memory_start := v\<rparr>)
          else if number f = 3 then Inr (m\<lparr>mp_memory_limit := v\<rparr>)
          else if number f = 4 then Inr (m\<lparr>mp_file_offset := v\<rparr>)
          else if number f = 5 then Inr (m\<lparr>mp_filename := v\<rparr>)
          else if number f = 6 then Inr (m\<lparr>mp_build_id := v\<rparr>)
          else if number f = 7 then Inr (m\<lparr>mp_has_functions := v \<noteq> 0\<rparr>)
          else if number f = 8 then Inr (m\<lparr>mp_has_filenames := v \<noteq> 0\<rparr>)
          else if number f = 9 then Inr (m\<lparr>mp_has_line_numbers := v \<noteq> 0\<rparr>)
          else if number f = 10 then Inr (m\<lparr>mp_has_inline_frames := v \<noteq> 0\<rparr>)
          else Inr m
      | _ \<Rightarrow> Inr m)"

definition mp_decode :: "u8 list \<Rightarrow> mapping result" where
  "mp_decode data = fields_loop mp_step (fields_new data) mp_default"

record func =
  fn_id :: u64
  fn_name :: u64
  fn_system_name :: u64
  fn_filename :: u64
  fn_start_line :: i64

definition fn_default :: func where
  "fn_default = \<lparr>fn_id = 0, fn_name = 0, fn_system_name = 0, fn_filename = 0, fn_start_line = 0\<rparr>"

definition fn_encode :: "u8 list \<Rightarrow> func \<Rightarrow> u8 list" where
  "fn_encode buf m =
     (let buf = encode_varint_field buf 1 (fn_id m);
          buf = encode_varint_field buf 2 (fn_name m);
          buf = encode_varint_field buf 3 (fn_system_name m);
          buf = encode_varint_field buf 4 (fn_filename m)
      in encode_sint64_field buf 5 (fn_start_line m))"

definition fn_step :: "func \<Rightarrow> field \<Rightarrow> func result" where
  "fn_step m f =
     (case fvalue f of
        Varint v \<Rightarrow>
          if number f = 1 then Inr (m\<lparr>fn_id := v\<rparr>)
          else if number f = 2 then Inr (m\<lparr>fn_name := v\<rparr>)
          else if number f = 3 then Inr (m\<lparr>fn_system_name := v\<rparr>)
          else if number f = 4 then Inr (m\<lparr>fn_filename := v\<rparr>)
          else if number f = 5 then Inr (m\<lparr>fn_start_line := v\<rparr>)
          else Inr m
      | _ \<Rightarrow> Inr m)"

definition fn_decode :: "u8 list \<Rightarrow> func result" where
  "fn_decode data = fields_loop fn_step (fields_new data) fn_default"

record label =
  lb_key :: u64
  lb_str_index :: u64
  lb_num :: i64
  lb_num_unit :: u64

definition lb_default :: label where
  "lb_default = \<lparr>lb_key = 0, lb_str_index = 0, lb_num = 0, lb_num_unit = 0\<rparr>"

definition lb_encode :: "u8 list \<Rightarrow> label \<Rightarrow> u8 list" where
  "lb_encode buf m =
     (let buf = encode_varint_field buf 1 (lb_key m);
          buf = encode_varint_field buf 2 (lb_str_index m);
          buf = encode_sint64_field buf 3 (lb_num m)
      in encode_varint_field buf 4 (lb_num_unit m))"

definition lb_step :: "label \<Rightarrow> field \<Rightarrow> label result" where
  "lb_step m f =
     (case fvalue f of
        Varint v \<Rightarrow>
          if number f = 1 then Inr (m\<lparr>lb_key := v\<rparr>)
          else if number f = 2 then Inr (m\<lparr>lb_str_index := v\<rparr>)
          else if number f = 3 then Inr (m\<lparr>lb_num := v\<rparr>)
          else if number f = 4 then Inr (m\<lparr>lb_num_unit := v\<rparr>)
          else Inr m
      | _ \<Rightarrow> Inr m)"

definition lb_decode :: "u8 list \<Rightarrow> label result" where
  "lb_decode data = fields_loop lb_step (fields_new data) lb_default"

record sample =
  sm_location_ids :: "u64 list"
  sm_values :: "i64 list"
  sm_labels :: "label list"

definition sm_default :: sample where
  "sm_default = \<lparr>sm_location_ids = [], sm_values = [], sm_labels = []\<rparr>"

definition sm_encode :: "u8 list \<Rightarrow> sample \<Rightarrow> u8 list" where
  "sm_encode buf m =
     (let buf = encode_packed_u64 buf 1 (sm_location_ids m);
          buf = encode_packed_i64 buf 2 (sm_values m)
      in fold (\<lambda>l buf. encode_length_delimited buf 3 (lb_encode [] l)) (sm_labels m) buf)"

definition sm_push_location :: "sample \<Rightarrow> u64 \<Rightarrow> sample" where
  "sm_push_location m v = m\<lparr>sm_location_ids := sm_location_ids m @ [v]\<rparr>"

definition sm_push_value :: "sample \<Rightarrow> i64 \<Rightarrow> sample" where
  "sm_push_value m v = m\<lparr>sm_values := sm_values m @ [v]\<rparr>"

definition sm_step :: "sample \<Rightarrow> field \<Rightarrow> sample result" where
  "sm_step m f =
     (case fvalue f of
        Bytes bs \<Rightarrow>
          if number f = 1 then decode_packed bs sm_push_location m
          else if number f = 2 then decode_packed bs sm_push_value m
          else if number f = 3 then
            bindr (lb_decode bs) (\<lambda>l. Inr (m\<lparr>sm_labels := sm_labels m @ [l]\<rparr>))
          else Inr m
      | Varint v \<Rightarrow>
          if number f = 1 then Inr (sm_push_location m v)
          else if number f = 2 then Inr (sm_push_value m v)
          else Inr m
      | _ \<Rightarrow> Inr m)"

definition sm_decode :: "u8 list \<Rightarrow> sample result" where
  "sm_decode data = fields_loop sm_step (fields_new data) sm_default"

section \<open>The profile\<close>

record profile =
  p_strings :: string_table
  p_value_types :: "value_type list"
  p_samples :: "sample list"
  p_mappings :: "mapping list"
  p_locations :: "location list"
  p_functions :: "func list"
  p_time_nanos :: i64
  p_duration_nanos :: i64
  p_period_type :: value_type
  p_period :: i64
  p_drop_frames :: u64
  p_keep_frames :: u64
  p_comments :: "u64 list"
  p_default_sample_type :: u64
  p_doc_url :: u64

definition profile_new :: profile where
  "profile_new = \<lparr>p_strings = st_new, p_value_types = [], p_samples = [], p_mappings = [],
     p_locations = [], p_functions = [], p_time_nanos = 0, p_duration_nanos = 0,
     p_period_type = vt_default, p_period = 0, p_drop_frames = 0, p_keep_frames = 0,
     p_comments = [], p_default_sample_type = 0, p_doc_url = 0\<rparr>"

definition profile_encode :: "profile \<Rightarrow> u8 list" where
  "profile_encode p =
     (let buf = [];
          buf = fold (\<lambda>m buf. encode_length_delimited buf 1 (vt_encode [] m)) (p_value_types p) buf;
          buf = fold (\<lambda>m buf. encode_length_delimited buf 2 (sm_encode [] m)) (p_samples p) buf;
          buf = fold (\<lambda>m buf. encode_length_delimited buf 3 (mp_encode [] m)) (p_mappings p) buf;
          buf = fold (\<lambda>m buf. encode_length_delimited buf 4 (loc_encode [] m)) (p_locations p) buf;
          buf = fold (\<lambda>m buf. encode_length_delimited buf 5 (fn_encode [] m)) (p_functions p) buf;
          buf = fold (\<lambda>s buf. encode_string_field buf 6 s) (st_strings (p_strings p)) buf;
          buf = encode_varint_field buf 7 (p_drop_frames p);
          buf = encode_varint_field buf 8 (p_keep_frames p);
          buf = encode_sint64_field buf 9 (p_time_nanos p);
          buf = encode_sint64_field buf 10 (p_duration_nanos p);
          buf = encode_length_delimited buf 11 (vt_encode [] (p_period_type p));
          buf = encode_sint64_field buf 12 (p_period p);
          buf = fold (\<lambda>c buf. encode_varint_field buf 13 c) (p_comments p) buf;
          buf = encode_varint_field buf 14 (p_default_sample_type p)
      in encode_varint_field buf 15 (p_doc_url p))"

definition push_string :: "profile \<Rightarrow> string \<Rightarrow> profile" where
  "push_string p s =
     p\<lparr>p_strings := (p_strings p)\<lparr>st_strings := st_strings (p_strings p) @ [s]\<rparr>\<rparr>"

definition push_comment :: "profile \<Rightarrow> u64 \<Rightarrow> profile" where
  "push_comment p v = p\<lparr>p_comments := p_comments p @ [v]\<rparr>"

definition profile_step :: "profile \<Rightarrow> field \<Rightarrow> profile result" where
  "profile_step p f =
     (case fvalue f of
        Bytes bs \<Rightarrow>
          if number f = 1 then
            bindr (vt_decode bs) (\<lambda>m. Inr (p\<lparr>p_value_types := p_value_types p @ [m]\<rparr>))
          else if number f = 2 then
            bindr (sm_decode bs) (\<lambda>m. Inr (p\<lparr>p_samples := p_samples p @ [m]\<rparr>))
          else if number f = 3 then
            bindr (mp_decode bs) (\<lambda>m. Inr (p\<lparr>p_mappings := p_mappings p @ [m]\<rparr>))
          else if number f = 4 then
            bindr (loc_decode bs) (\<lambda>m. Inr (p\<lparr>p_locations := p_locations p @ [m]\<rparr>))
          else if number f = 5 then
            bindr (fn_decode bs) (\<lambda>m. Inr (p\<lparr>p_functions := p_functions p @ [m]\<rparr>))
          else if number f = 6 then
            (if utf8_valid bs then Inr (push_string p (bytes_str bs)) else Inl InvalidUtf8)
          else if number f = 11 then
            bindr (vt_decode bs) (\<lambda>m. Inr (p\<lparr>p_period_type := m\<rparr>))
          else if number f = 13 then decode_packed bs push_comment p
          else Inr p
      | Varint v \<Rightarrow>
          if number f = 7 then Inr (p\<lparr>p_drop_frames := v\<rparr>)
          else if number f = 8 then Inr (p\<lparr>p_keep_frames := v\<rparr>)
          else if number f = 9 then Inr (p\<lparr>p_time_nanos := v\<rparr>)
          else if number f = 10 then Inr (p\<lparr>p_duration_nanos := v\<rparr>)
          else if number f = 12 then Inr (p\<lparr>p_period := v\<rparr>)
          else if number f = 13 then Inr (push_comment p v)
          else if number f = 14 then Inr (p\<lparr>p_default_sample_type := v\<rparr>)
          else if number f = 15 then Inr (p\<lparr>p_doc_url := v\<rparr>)
          else Inr p
      | _ \<Rightarrow> Inr p)"

definition profile_decode :: "u8 list \<Rightarrow> profile result" where
  "profile_decode data =
     bindr (fields_loop profile_step (fields_new data) (profile_new\<lparr>p_strings := st_empty\<rparr>))
       (\<lambda>p. bindr (from_strings (st_strings (p_strings p)))
         (\<lambda>st. Inr (p\<lparr>p_strings := st\<rparr>)))"

end
