(* ===== verification/Pprof_View.thy ===== *)
theory Pprof_View
  imports String_Table Pprof
begin

text \<open>
  What the identifiers of a pprof profile mean: a location identifier stands for an address
  and its lines, a line for a function, a function for two strings of the table. The
  builders (\<open>encode.rs\<close>, \<open>heap/mod.rs\<close>) only append, so what an identifier meant once it
  means ever after (\<open>extends\<close>); this is the common ground of their correctness proofs.
\<close>

section \<open>Interning into a profile\<close>

definition profile_intern :: "profile \<Rightarrow> string \<Rightarrow> u64 \<times> profile" where
  "profile_intern p s = (let (i, st) = intern (p_strings p) s in (i, p\<lparr>p_strings := st\<rparr>))"

definition profile_get :: "profile \<Rightarrow> u64 \<Rightarrow> string option" where
  "profile_get p i = st_get (p_strings p) i"

lemma profile_intern_strings:
  "fst (profile_intern p s) = fst (intern (p_strings p) s)"
  "p_strings (snd (profile_intern p s)) = snd (intern (p_strings p) s)"
  by (simp_all add: profile_intern_def split_beta Let_def)

interpretation profiles: interner profile_intern profile_get "\<lambda>p. st_ok (p_strings p)"
    "\<lambda>p. st_small (p_strings p)"
  by unfold_locales
     (auto simp: profile_intern_strings profile_get_def
       intro: strings.ok_intern strings.small_intern strings.get_intern strings.get_stable)

section \<open>The meaning of identifiers\<close>

definition resolve_function :: "profile \<Rightarrow> u64 \<Rightarrow> (string \<times> string) option" where
  "resolve_function p i =
     (case find (\<lambda>f. fn_id f = i) (p_functions p) of
        None \<Rightarrow> None
      | Some f \<Rightarrow>
          (case profile_get p (fn_name f) of
             None \<Rightarrow> None
           | Some name \<Rightarrow> map_option (Pair name) (profile_get p (fn_filename f))))"

definition resolve_line :: "profile \<Rightarrow> line \<Rightarrow> (string \<times> string \<times> i64) option" where
  "resolve_line p l =
     map_option (\<lambda>(name, file). (name, file, ln_line l)) (resolve_function p (ln_function_id l))"

definition resolve_location :: "profile \<Rightarrow> u64 \<Rightarrow> (u64 \<times> (string \<times> string \<times> i64) list) option" where
  "resolve_location p i =
     (case find (\<lambda>l. loc_id l = i) (p_locations p) of
        None \<Rightarrow> None
      | Some l \<Rightarrow> map_option (Pair (loc_address l)) (those (map (resolve_line p) (loc_lines l))))"

text \<open>A \<open>HashMap\<close> collected from pairs: a later pair replaces an earlier one.\<close>

definition index_by :: "('a \<Rightarrow> u64) \<Rightarrow> 'a list \<Rightarrow> (u64 \<rightharpoonup> 'a)" where
  "index_by f xs = map_of (rev (map (\<lambda>x. (f x, x)) xs))"

section \<open>Growth\<close>

definition extends :: "profile \<Rightarrow> profile \<Rightarrow> bool" where
  "extends p q \<longleftrightarrow> prefix (st_strings (p_strings p)) (st_strings (p_strings q))
     \<and> prefix (p_functions p) (p_functions q) \<and> prefix (p_locations p) (p_locations q)"

lemma extends_refl [simp, intro]: "extends p p"
  by (simp add: extends_def)

lemma extends_trans [trans]: "extends p q \<Longrightarrow> extends q r \<Longrightarrow> extends p r"
  by (auto simp: extends_def intro: prefix_order.trans)

lemma extends_intern [intro]: "extends p (snd (profile_intern p s))"
  using intern_prefix [of "p_strings p" s]
  by (simp add: extends_def profile_intern_strings) (simp add: profile_intern_def split_beta Let_def)

lemma find_prefix: "prefix xs ys \<Longrightarrow> find P xs = Some x \<Longrightarrow> find P ys = Some x"
  by (auto simp: prefix_def find_append)

lemma profile_get_extends: "extends p q \<Longrightarrow> profile_get p i = Some s \<Longrightarrow> profile_get q i = Some s"
  by (auto simp: extends_def profile_get_def intro: st_get_prefix)

lemma resolve_function_extends:
  assumes "extends p q" and "resolve_function p i = Some x"
  shows "resolve_function q i = Some x"
proof -
  obtain f where f: "find (\<lambda>f. fn_id f = i) (p_functions p) = Some f"
    and names: "profile_get p (fn_name f) = Some (fst x)" "profile_get p (fn_filename f) = Some (snd x)"
    using assms(2) by (auto simp: resolve_function_def split: option.splits)
  have "find (\<lambda>f. fn_id f = i) (p_functions q) = Some f"
    using assms(1) f by (auto simp: extends_def intro: find_prefix)
  then show ?thesis
    using names [THEN profile_get_extends [OF assms(1)]] by (simp add: resolve_function_def)
qed

lemma resolve_line_extends:
  "extends p q \<Longrightarrow> resolve_line p l = Some x \<Longrightarrow> resolve_line q l = Some x"
  by (auto simp: resolve_line_def dest: resolve_function_extends)

lemma those_map_Some: "those (map f xs) = Some ys \<longleftrightarrow> list_all2 (\<lambda>x y. f x = Some y) xs ys"
  by (induction xs arbitrary: ys) (auto simp: list_all2_Cons1 split: option.splits)

lemma resolve_location_extends:
  assumes "extends p q" and "resolve_location p i = Some x"
  shows "resolve_location q i = Some x"
proof -
  obtain l ls where l: "find (\<lambda>l. loc_id l = i) (p_locations p) = Some l"
    and ls: "list_all2 (\<lambda>l y. resolve_line p l = Some y) (loc_lines l) ls" and x: "x = (loc_address l, ls)"
    using assms(2) by (auto simp: resolve_location_def those_map_Some split: option.splits)
  have "list_all2 (\<lambda>l y. resolve_line q l = Some y) (loc_lines l) ls"
    by (rule list_all2_mono [OF ls]) (rule resolve_line_extends [OF assms(1)])
  moreover have "find (\<lambda>l. loc_id l = i) (p_locations q) = Some l"
    using assms(1) l by (auto simp: extends_def intro: find_prefix)
  ultimately show ?thesis
    by (simp add: resolve_location_def x those_map_Some [THEN iffD2])
qed

lemma small_extends: "extends p q \<Longrightarrow> st_small (p_strings q) \<Longrightarrow> st_small (p_strings p)"
  by (auto simp: extends_def st_small_def dest: prefix_length_le)

section \<open>Numbered from one\<close>

text \<open>The builders number functions and locations \<open>1, 2, 3, \<dots>\<close> as they append them.\<close>

definition numbered :: "u64 list \<Rightarrow> bool" where
  "numbered ids \<longleftrightarrow> ids = map (\<lambda>i. word_of_nat (Suc i)) [0..<length ids]"

lemma numbered_Nil [simp]: "numbered []"
  by (simp add: numbered_def)

lemma numbered_snoc [simp]:
  "numbered (ids @ [i]) \<longleftrightarrow> numbered ids \<and> i = word_of_nat (Suc (length ids))"
  by (simp add: numbered_def)

lemma numbered_fresh:
  assumes "numbered ids" and "length ids + 1 < 2 ^ 64"
  shows "word_of_nat (Suc (length ids)) \<notin> set ids"
proof
  assume "word_of_nat (Suc (length ids)) \<in> set ids"
  then obtain i where i: "i < length ids"
    and eq: "(word_of_nat (Suc (length ids)) :: u64) = word_of_nat (Suc i)"
    using assms(1) unfolding numbered_def by (metis (no_types, lifting) atLeastLessThan_iff
        imageE length_map set_map set_upt)
  have "unat (word_of_nat (Suc (length ids)) :: u64) = Suc (length ids)"
    and "unat (word_of_nat (Suc i) :: u64) = Suc i"
    using i assms(2) by (simp_all add: unat_of_nat del: of_nat_Suc)
  then show False using eq i by simp
qed

lemma numbered_distinct:
  assumes "numbered ids" and "length ids < 2 ^ 64"
  shows "distinct ids \<and> 0 \<notin> set ids"
  using assms
proof (induction ids rule: rev_induct)
  case (snoc i ids)
  have "(word_of_nat (Suc (length ids)) :: u64) \<noteq> 0"
  proof
    assume "(word_of_nat (Suc (length ids)) :: u64) = 0"
    then have "unat (word_of_nat (Suc (length ids)) :: u64) = 0" by simp
    then show False using snoc.prems(2) by (simp add: unat_of_nat del: of_nat_Suc)
  qed
  then show ?case using snoc numbered_fresh [of ids] by simp
qed simp

lemma find_numbered_snoc:
  assumes "numbered (map f xs)" and "length xs + 1 < 2 ^ 64"
    and "f x = word_of_nat (Suc (length xs))"
  shows "find (\<lambda>y. f y = word_of_nat (Suc (length xs))) (xs @ [x]) = Some x"
proof -
  have "find (\<lambda>y. f y = word_of_nat (Suc (length xs))) xs = None"
    using numbered_fresh [OF assms(1)] assms(2)
    by (auto simp: find_None_iff image_iff simp del: of_nat_Suc)
  then show ?thesis using assms(3) by (simp add: find_append del: of_nat_Suc)
qed

end
