(* ===== verification/Ordered_Map.thy ===== *)
theory Ordered_Map
  imports Prelude
begin

text \<open>
  Rust's maps as lists of entries: a \<open>BTreeMap\<close> with strictly increasing keys, and a
  \<open>HashMap\<close> with distinct keys, in the order in which it is iterated.
\<close>

fun bt_insert :: "'k::linorder \<Rightarrow> 'v \<Rightarrow> ('k \<times> 'v) list \<Rightarrow> ('k \<times> 'v) list" where
  "bt_insert k v [] = [(k, v)]"
| "bt_insert k v ((k', v') # xs) =
     (if k < k' then (k, v) # (k', v') # xs
      else if k = k' then (k, v) # xs
      else (k', v') # bt_insert k v xs)"

definition bt_ok :: "('k::linorder \<times> 'v) list \<Rightarrow> bool" where
  "bt_ok xs \<longleftrightarrow> sorted_wrt (<) (map fst xs)"

lemma bt_ok_Nil [simp]: "bt_ok []"
  by (simp add: bt_ok_def)

lemma bt_ok_Cons [simp]: "bt_ok ((k, v) # xs) \<longleftrightarrow> (\<forall>k'\<in>fst ` set xs. k < k') \<and> bt_ok xs"
  by (simp add: bt_ok_def)

lemma bt_ok_distinct: "bt_ok xs \<Longrightarrow> distinct (map fst xs)"
  by (simp add: bt_ok_def strict_sorted_iff)

lemma keys_bt_insert [simp]: "fst ` set (bt_insert k v xs) = insert k (fst ` set xs)"
  by (induction k v xs rule: bt_insert.induct) (simp_all add: insert_commute)

lemma bt_ok_insert [simp]: "bt_ok xs \<Longrightarrow> bt_ok (bt_insert k v xs)"
proof (induction k v xs rule: bt_insert.induct)
  case (2 k v k' v' xs)
  have below: "\<forall>k''\<in>fst ` set xs. k < k''" if "k < k'"
    using 2(2) that less_trans [of k k'] by simp
  consider "k < k'" | "k = k'" | "k' < k" by (rule linorder_cases)
  then show ?case
  proof cases
    case 1
    then show ?thesis using 2(2) below by simp
  next
    case 3
    then have "\<not> k < k'" "k \<noteq> k'" by auto
    then show ?thesis using 2 3 by simp
  qed (use 2(2) in simp)
qed simp

lemma bt_fresh:
  fixes k :: "'k::linorder"
  shows "\<forall>k'\<in>fst ` set xs. k < k' \<Longrightarrow> map_of xs k = None"
  unfolding map_of_eq_None_iff by (metis less_irrefl)

lemma map_of_bt_insert: "bt_ok xs \<Longrightarrow> map_of (bt_insert k v xs) = (map_of xs)(k \<mapsto> v)"
proof (induction k v xs rule: bt_insert.induct)
  case (2 k v k' v' xs)
  consider "k < k'" | "k = k'" | "k' < k" by (rule linorder_cases)
  then show ?case
  proof cases
    case 3
    then have "\<not> k < k'" "k \<noteq> k'" by auto
    then show ?thesis using 2 by (auto simp: fun_eq_iff)
  qed (auto simp: fun_eq_iff)
qed simp

text \<open>An ordered map is determined by its lookups.\<close>

lemma bt_keys_least:
  assumes "bt_ok ((a, u) # as)" and "map_of ((b, w) # bs) = map_of ((a, u) # as)"
  shows "a \<le> b"
proof -
  have "map_of ((a, u) # as) b = Some w" using fun_cong [OF assms(2), of b] by simp
  then have "b = a \<or> b \<in> fst ` set as" 
    by (metis fst_conv imageI map_of_Cons_code(2) map_of_SomeD)
  then show ?thesis using assms(1) by (auto intro: less_imp_le)
qed

lemma bt_unique: "bt_ok xs \<Longrightarrow> bt_ok ys \<Longrightarrow> map_of xs = map_of ys \<Longrightarrow> xs = ys"
proof (induction xs arbitrary: ys)
  case Nil
  then show ?case by simp
next
  case (Cons x xs)
  obtain k v where x: "x = (k, v)" by (cases x)
  have "ys \<noteq> []" using fun_cong [OF Cons.prems(3), of k] by (auto simp: x)
  then obtain k' v' ys' where ys: "ys = (k', v') # ys'" by (metis list.exhaust prod.exhaust)
  note prems = Cons.prems [unfolded x ys]
  have k: "k' = k"
    using bt_keys_least [OF prems(1) prems(3) [symmetric]] bt_keys_least [OF prems(2,3)] by simp
  have v: "v' = v" using fun_cong [OF prems(3), of k] k by simp
  have "map_of xs a = map_of ys' a" for a
  proof (cases "a = k")
    case True
    then show ?thesis using prems bt_fresh [of xs k] bt_fresh [of ys' k] k by simp
  next
    case False
    then show ?thesis using fun_cong [OF prems(3), of a] k by simp
  qed
  then show ?case using Cons.IH [of ys'] prems k v by (simp add: x ys fun_eq_iff)
qed

lemma map_of_SomeI: "bt_ok xs \<Longrightarrow> (k, v) \<in> set xs \<Longrightarrow> map_of xs k = Some v"
  by (simp add: bt_ok_distinct)

section \<open>Association lists as hash maps\<close>

text \<open>\<open>entry(k).or_insert(v)\<close> followed by a modification, and \<open>insert\<close>.\<close>

fun alist_upsert :: "'k \<Rightarrow> 'v \<Rightarrow> ('v \<Rightarrow> 'v) \<Rightarrow> ('k \<times> 'v) list \<Rightarrow> ('k \<times> 'v) list" where
  "alist_upsert k v f [] = [(k, f v)]"
| "alist_upsert k v f ((k', v') # xs) =
     (if k = k' then (k', f v') # xs else (k', v') # alist_upsert k v f xs)"

definition alist_insert :: "'k \<Rightarrow> 'v \<Rightarrow> ('k \<times> 'v) list \<Rightarrow> ('k \<times> 'v) list" where
  "alist_insert k v = alist_upsert k v (\<lambda>_. v)"

lemma map_of_alist_upsert:
  "map_of (alist_upsert k v f xs) =
     (map_of xs)(k \<mapsto> f (case map_of xs k of None \<Rightarrow> v | Some v' \<Rightarrow> v'))"
  by (induction xs) (auto simp: fun_eq_iff split: option.splits)

lemma map_of_alist_insert [simp]: "map_of (alist_insert k v xs) = (map_of xs)(k \<mapsto> v)"
  by (simp add: alist_insert_def map_of_alist_upsert)

lemma keys_alist_upsert: "set (map fst (alist_upsert k v f xs)) = insert k (set (map fst xs))"
  using dom_map_of_conv_image_fst [of "alist_upsert k v f xs"] dom_map_of_conv_image_fst [of xs]
  by (simp add: map_of_alist_upsert)

lemma distinct_alist_upsert [simp]:
  "distinct (map fst xs) \<Longrightarrow> distinct (map fst (alist_upsert k v f xs))"
proof (induction xs)
  case (Cons x xs)
  then show ?case using keys_alist_upsert [of k v f xs] by (cases x) auto
qed simp

lemma list_all_alist_upsert:
  "list_all P xs \<Longrightarrow> P (k, f (case map_of xs k of None \<Rightarrow> v | Some w \<Rightarrow> w)) \<Longrightarrow>
     list_all P (alist_upsert k v f xs)"
  by (induction k v f xs rule: alist_upsert.induct) auto

end
