(* ===== verification/Sampler.thy ===== *)
theory Sampler
  imports Ordered_Map
begin

text \<open>
  Raw samples and the cursor that publishes only what is new (\<open>src/sampler/mod.rs\<close>).

  A \<open>HashMap\<close> is an association list with distinct keys, in the order in which the map is
  iterated. That order is unspecified in Rust, so the results below are stated on lookups
  (\<^const>\<open>map_of\<close>), which do not depend on it. An \<open>Instant\<close> is a number of nanoseconds.
\<close>

section \<open>Data\<close>

record loaded_image =
  im_load_address :: u64
  im_path :: string

record thread_sample =
  ts_thread_id :: u64
  ts_thread_name :: string
  ts_stack :: "u64 list"
  ts_timestamp_nanos :: u64

record raw_sample_series =
  rs_count :: u64
  rs_timestamps :: "u64 list option"

datatype thread_filter = All | MainThread | ByName string | ById u64 | ByMachThread u32

type_synonym stack_key = "u64 \<times> u64 list"

record raw_profile =
  rp_stacks :: "(stack_key \<times> raw_sample_series) list"
  rp_thread_names :: "(u64 \<times> string) list"
  rp_start_time :: nat
  rp_end_time :: nat
  rp_images :: "loaded_image list"

section \<open>Series\<close>

definition series_untimed :: "u64 \<Rightarrow> raw_sample_series" where
  "series_untimed n = \<lparr>rs_count = n, rs_timestamps = None\<rparr>"

definition series_timed :: "u64 list \<Rightarrow> raw_sample_series" where
  "series_timed ts = \<lparr>rs_count = word_of_nat (length ts), rs_timestamps = Some ts\<rparr>"

definition push_timestamp :: "u64 \<Rightarrow> raw_sample_series \<Rightarrow> raw_sample_series" where
  "push_timestamp t s =
     s\<lparr>rs_count := saturating_add_u64 (rs_count s) 1,
       rs_timestamps := Some ((case rs_timestamps s of None \<Rightarrow> [] | Some ts \<Rightarrow> ts) @ [t])\<rparr>"

text \<open>A timed series has one timestamp per observation.\<close>

definition series_ok :: "raw_sample_series \<Rightarrow> bool" where
  "series_ok s \<longleftrightarrow>
     (case rs_timestamps s of None \<Rightarrow> True | Some ts \<Rightarrow> unat (rs_count s) = length ts)"

lemma series_ok_timed: "length ts < 2 ^ 64 \<Longrightarrow> series_ok (series_timed ts)"
  by (simp add: series_ok_def series_timed_def unat_of_nat)

lemma push_timestamp_timed:
  assumes "length ts + 1 < 2 ^ 64"
  shows "push_timestamp t (series_timed ts) = series_timed (ts @ [t])"
proof -
  have "saturating_add_u64 (word_of_nat (length ts)) 1 = word_of_nat (length ts + 1)"
    using assms by (simp add: saturating_add_u64_def unat_of_nat)
  then show ?thesis by (simp add: push_timestamp_def series_timed_def)
qed

lemma push_timestamp_new:
  "push_timestamp t (series_untimed 0) = series_timed [t]"
  by (simp add: push_timestamp_def series_untimed_def series_timed_def saturating_add_u64_def)

section \<open>The cursor\<close>

type_synonym cursor = "stack_key \<rightharpoonup> u64"

definition cursor_default :: cursor where
  "cursor_default = Map.empty"

definition cursor_previous :: "cursor \<Rightarrow> stack_key \<Rightarrow> u64" where
  "cursor_previous c k = (case c k of None \<Rightarrow> 0 | Some n \<Rightarrow> n)"

text \<open>One turn of the loop of \<open>delta\<close>: the new map of stacks and the cursor's counts.\<close>

definition delta_step :: "(stack_key \<times> raw_sample_series) list \<times> cursor
    \<Rightarrow> stack_key \<times> raw_sample_series \<Rightarrow> (stack_key \<times> raw_sample_series) list \<times> cursor" where
  "delta_step sc e =
     (let (stacks, c) = sc; (key, series) = e; previous = cursor_previous c key in
      if rs_count series > previous then
        (alist_insert key
           \<lparr>rs_count = rs_count series - previous,
            rs_timestamps = map_option (drop (unat previous)) (rs_timestamps series)\<rparr> stacks,
         c(key \<mapsto> rs_count series))
      else (stacks, c))"

definition delta :: "cursor \<Rightarrow> raw_profile \<Rightarrow> raw_profile option \<times> cursor" where
  "delta c p =
     (let (stacks, c) = foldl delta_step ([], c) (rp_stacks p) in
      if stacks = [] then (None, c)
      else (Some \<lparr>rp_stacks = stacks, rp_thread_names = rp_thread_names p,
                  rp_start_time = rp_start_time p, rp_end_time = rp_end_time p,
                  rp_images = rp_images p\<rparr>, c))"

text \<open>What a profile holds of one key, and what a cursor has seen of it.\<close>

definition count_of :: "(stack_key \<times> raw_sample_series) list \<Rightarrow> stack_key \<Rightarrow> nat" where
  "count_of stacks k = (case map_of stacks k of None \<Rightarrow> 0 | Some s \<Rightarrow> unat (rs_count s))"

definition seen_count :: "cursor \<Rightarrow> stack_key \<Rightarrow> nat" where
  "seen_count c k = unat (cursor_previous c k)"

definition delta_count :: "raw_profile option \<Rightarrow> stack_key \<Rightarrow> nat" where
  "delta_count d k = (case d of None \<Rightarrow> 0 | Some p \<Rightarrow> count_of (rp_stacks p) k)"

definition raw_ok :: "raw_profile \<Rightarrow> bool" where
  "raw_ok p \<longleftrightarrow> distinct (map fst (rp_stacks p))
     \<and> list_all (\<lambda>(k, s). series_ok s) (rp_stacks p)"

definition new_series :: "u64 \<Rightarrow> raw_sample_series \<Rightarrow> raw_sample_series option" where
  "new_series n s =
     (if rs_count s > n then
        Some \<lparr>rs_count = rs_count s - n, rs_timestamps = map_option (drop (unat n)) (rs_timestamps s)\<rparr>
      else None)"

text \<open>The loop, on lookups: each key is handled once, on its own.\<close>

lemma delta_step_lookup:
  assumes "map_of st key = None" and "delta_step (st, c) (key, s) = (st', c')"
  shows "map_of st' k = (if k = key then new_series (cursor_previous c key) s else map_of st k)"
    and "c' k = (if k = key \<and> rs_count s > cursor_previous c key then Some (rs_count s) else c k)"
  using assms by (auto simp: delta_step_def Let_def new_series_def split: if_splits)

lemma delta_loop:
  assumes "distinct (map fst es)" and "\<And>k. k \<in> fst ` set es \<Longrightarrow> map_of st k = None"
  shows "map_of (fst (foldl delta_step (st, c) es)) k =
      (case map_of es k of None \<Rightarrow> map_of st k | Some s \<Rightarrow> new_series (cursor_previous c k) s)
    \<and> snd (foldl delta_step (st, c) es) k =
      (case map_of es k of None \<Rightarrow> c k
         | Some s \<Rightarrow> if rs_count s > cursor_previous c k then Some (rs_count s) else c k)"
  using assms
proof (induction es arbitrary: st c)
  case (Cons e es)
  obtain key s where e: "e = (key, s)" by (cases e)
  obtain st' c' where step: "delta_step (st, c) (key, s) = (st', c')"
    by (cases "delta_step (st, c) (key, s)")
  have old: "map_of st key = None" using Cons.prems(2) [of key] by (simp add: e)
  note look = delta_step_lookup [OF old step]
  have fresh: "map_of es key = None" using Cons.prems(1) by (auto simp: e map_of_eq_None_iff)
  have same: "cursor_previous c' k = cursor_previous c k" if "k \<noteq> key" for k
    using that by (simp add: look(2) [of k] cursor_previous_def)
  have "map_of st' k = None" if "k \<in> fst ` set es" for k
    using Cons.prems(2) [of k] that fresh by (auto simp: look e map_of_eq_None_iff)
  from Cons.IH [of st' c', OF _ this] Cons.prems(1)
  show ?case
    using old look [of k]
    by (cases "k = key") (simp_all add: e step fresh same split: option.split)
qed simp

lemma delta_lookup:
  assumes "distinct (map fst (rp_stacks p))" and "delta c p = (d, c')"
  shows "map_of (case d of None \<Rightarrow> [] | Some q \<Rightarrow> rp_stacks q) k =
      Option.bind (map_of (rp_stacks p) k) (new_series (cursor_previous c k))"
    and "c' k = (case map_of (rp_stacks p) k of None \<Rightarrow> c k
         | Some s \<Rightarrow> if rs_count s > cursor_previous c k then Some (rs_count s) else c k)"
proof -
  obtain st where run: "foldl delta_step ([], c) (rp_stacks p) = (st, c')"
    and d: "(case d of None \<Rightarrow> [] | Some q \<Rightarrow> rp_stacks q) = st"
    using assms(2) by (auto simp: delta_def Let_def split: prod.splits if_splits)
  note loop = delta_loop [OF assms(1), of "[]" c k, unfolded run]
  show "map_of (case d of None \<Rightarrow> [] | Some q \<Rightarrow> rp_stacks q) k =
      Option.bind (map_of (rp_stacks p) k) (new_series (cursor_previous c k))"
    unfolding d using loop by (simp split: option.splits)
  show "c' k = (case map_of (rp_stacks p) k of None \<Rightarrow> c k
         | Some s \<Rightarrow> if rs_count s > cursor_previous c k then Some (rs_count s) else c k)"
    using loop by simp
qed

lemma unat_new_series:
  "(case new_series n s of None \<Rightarrow> 0 | Some s' \<Rightarrow> unat (rs_count s')) = unat (rs_count s) - unat n"
  by (auto simp: new_series_def unat_sub word_less_nat_alt word_le_nat_alt split: option.splits)

lemma delta_count:
  assumes "distinct (map fst (rp_stacks p))" and "delta c p = (d, c')"
  shows "delta_count d k = count_of (rp_stacks p) k - seen_count c k"
    and "seen_count c' k = max (seen_count c k) (count_of (rp_stacks p) k)"
proof -
  have "delta_count d k = count_of (case d of None \<Rightarrow> [] | Some q \<Rightarrow> rp_stacks q) k"
    by (simp add: delta_count_def count_of_def split: option.splits)
  then show "delta_count d k = count_of (rp_stacks p) k - seen_count c k"
    using unat_new_series [of "cursor_previous c k"]
    by (cases "map_of (rp_stacks p) k")
       (simp_all add: count_of_def delta_lookup(1) [OF assms] seen_count_def)
  show "seen_count c' k = max (seen_count c k) (count_of (rp_stacks p) k)"
    by (auto simp: seen_count_def delta_lookup(2) [OF assms] count_of_def cursor_previous_def
        word_less_nat_alt split: option.splits)
qed


section \<open>A run of snapshots\<close>

text \<open>One cursor over the successive snapshots of a session, as the publishing loops use it.\<close>

fun deltas :: "cursor \<Rightarrow> raw_profile list \<Rightarrow> raw_profile option list \<times> cursor" where
  "deltas c [] = ([], c)"
| "deltas c (p # ps) =
     (let (d, c) = delta c p; (ds, c) = deltas c ps in (d # ds, c))"

declare deltas.simps(2) [simp del]

lemma deltas_Cons [simp]:
  "deltas c (p # ps) = (fst (delta c p) # fst (deltas (snd (delta c p)) ps),
     snd (deltas (snd (delta c p)) ps))"
  by (simp add: deltas.simps(2) split_beta Let_def)

lemma deltas_seen:
  assumes "list_all raw_ok ps"
  shows "seen_count (snd (deltas c ps)) k = fold (\<lambda>p. max (count_of (rp_stacks p) k)) ps (seen_count c k)"
  using assms
proof (induction ps arbitrary: c)
  case (Cons p ps)
  obtain d c' where d: "delta c p = (d, c')" by (cases "delta c p")
  then show ?case
    using Cons delta_count(2) [OF _ d, of k]
    by (simp add: raw_ok_def max.commute)
qed simp

lemma deltas_sum:
  assumes "list_all raw_ok ps"
  shows "seen_count c k + sum_list (map (\<lambda>d. delta_count d k) (fst (deltas c ps)))
    = seen_count (snd (deltas c ps)) k"
  using assms
proof (induction ps arbitrary: c)
  case (Cons p ps)
  obtain d c' where d: "delta c p = (d, c')" by (cases "delta c p")
  show ?case
    using Cons.IH [of c'] Cons.prems delta_count [OF _ d, of k]
    by (simp add: raw_ok_def d)
qed simp

definition times_of :: "(stack_key \<times> raw_sample_series) list \<Rightarrow> stack_key \<Rightarrow> u64 list" where
  "times_of stacks k =
     (case map_of stacks k of None \<Rightarrow> []
      | Some s \<Rightarrow> (case rs_timestamps s of None \<Rightarrow> [] | Some ts \<Rightarrow> ts))"

definition delta_times :: "raw_profile option \<Rightarrow> stack_key \<Rightarrow> u64 list" where
  "delta_times d k = (case d of None \<Rightarrow> [] | Some p \<Rightarrow> times_of (rp_stacks p) k)"

text \<open>A timed profile: every series carries its timestamps, as both samplers record them.\<close>

definition timed_ok :: "raw_profile \<Rightarrow> bool" where
  "timed_ok p \<longleftrightarrow> raw_ok p \<and> list_all (\<lambda>(k, s). rs_timestamps s \<noteq> None) (rp_stacks p)"

lemma timed_series:
  assumes "timed_ok p" and "map_of (rp_stacks p) k = Some s"
  obtains ts where "rs_timestamps s = Some ts" "unat (rs_count s) = length ts"
proof -
  have "series_ok s" "rs_timestamps s \<noteq> None"
    using assms map_of_SomeD [OF assms(2)] by (auto simp: timed_ok_def raw_ok_def list_all_iff)
  then show thesis using that by (auto simp: series_ok_def)
qed

lemma timed_count: "timed_ok p \<Longrightarrow> count_of (rp_stacks p) k = length (times_of (rp_stacks p) k)"
  by (cases "map_of (rp_stacks p) k")
     (auto simp: count_of_def times_of_def elim: timed_series)

lemma delta_times:
  assumes "timed_ok p" and "delta c p = (d, c')"
  shows "delta_times d k = drop (seen_count c k) (times_of (rp_stacks p) k)"
proof (cases "map_of (rp_stacks p) k")
  case None
  then show ?thesis
    using delta_lookup(1) [OF _ assms(2), of k] assms(1)
    by (auto simp: delta_times_def times_of_def timed_ok_def raw_ok_def split: option.splits)
next
  case (Some s)
  then obtain ts where ts: "rs_timestamps s = Some ts" "unat (rs_count s) = length ts"
    using assms(1) by (blast elim: timed_series)
  have "delta_times d k = times_of (case d of None \<Rightarrow> [] | Some q \<Rightarrow> rp_stacks q) k"
    by (simp add: delta_times_def times_of_def split: option.splits)
  also have "\<dots> = drop (seen_count c k) ts"
    using delta_lookup(1) [OF _ assms(2), of k] assms(1) ts Some
    by (auto simp: times_of_def timed_ok_def raw_ok_def new_series_def seen_count_def
        word_less_nat_alt not_less)
  finally show ?thesis using Some ts by (simp add: times_of_def)
qed

text \<open>Snapshots of one session: each key's timestamps only ever get longer.\<close>

definition grows :: "stack_key \<Rightarrow> raw_profile list \<Rightarrow> bool" where
  "grows k ps \<longleftrightarrow> sorted_wrt (\<lambda>p q. prefix (times_of (rp_stacks p) k) (times_of (rp_stacks q) k)) ps"

lemma deltas_times:
  assumes "list_all timed_ok ps" and "grows k (p # ps)" and "timed_ok p"
    and "seen_count c k = length (times_of (rp_stacks p) k)"
  shows "times_of (rp_stacks p) k @ concat (map (\<lambda>d. delta_times d k) (fst (deltas c ps)))
    = times_of (rp_stacks (last (p # ps))) k"
  using assms
proof (induction ps arbitrary: c p)
  case (Cons q qs)
  obtain d c' where d: "delta c q = (d, c')" by (cases "delta c q")
  have pre: "prefix (times_of (rp_stacks p) k) (times_of (rp_stacks q) k)"
    using Cons.prems(2) by (simp add: grows_def)
  have q: "timed_ok q" using Cons.prems(1) by simp
  have "seen_count c' k = length (times_of (rp_stacks q) k)"
    using delta_count(2) [OF _ d, of k] q Cons.prems(4) timed_count [OF q, of k]
      prefix_length_le [OF pre] by (simp add: timed_ok_def raw_ok_def)
  moreover have "times_of (rp_stacks p) k @ delta_times d k = times_of (rp_stacks q) k"
    using pre delta_times [OF q d, of k] Cons.prems(4) by (auto simp: prefix_def)
  ultimately show ?case
    using Cons.IH [of q c'] Cons.prems q
    by (simp add: grows_def d flip: append_assoc)
qed simp

text \<open>A run that starts with a fresh cursor.\<close>

lemma deltas_times_start:
  assumes "list_all timed_ok (p # ps)" and "grows k (p # ps)"
  shows "concat (map (\<lambda>d. delta_times d k) (fst (deltas cursor_default (p # ps))))
    = times_of (rp_stacks (last (p # ps))) k"
proof -
  have p: "timed_ok p" using assms(1) by simp
  obtain d c where d: "delta cursor_default p = (d, c)" by (cases "delta cursor_default p")
  have "seen_count c k = length (times_of (rp_stacks p) k)"
    using delta_count(2) [OF _ d, of k] p timed_count [OF p, of k]
    by (simp add: timed_ok_def raw_ok_def seen_count_def cursor_default_def cursor_previous_def)
  moreover have "delta_times d k = times_of (rp_stacks p) k"
    using delta_times [OF p d, of k]
    by (simp add: seen_count_def cursor_default_def cursor_previous_def)
  ultimately show ?thesis using deltas_times [OF _ assms(2) p, of c] assms(1) by (simp add: d)
qed

section \<open>Properties\<close>

definition demo_raw :: "u64 list \<Rightarrow> raw_profile" where
  "demo_raw ts = \<lparr>rp_stacks = [((1, [16]), series_timed ts)], rp_thread_names = [],
     rp_start_time = 0, rp_end_time = 10, rp_images = []\<rparr>"

lemma demo_raw_ok: "length ts < 2 ^ 64 \<Longrightarrow> timed_ok (demo_raw ts)"
  by (simp add: demo_raw_def timed_ok_def raw_ok_def series_ok_timed) (simp add: series_timed_def)

text \<open>one delta holds, for every thread and stack, the observations its snapshot has beyond
  those the cursor had seen; afterwards the cursor has seen the larger of the two counts.\<close>

theorem delta_counts:
  assumes "raw_ok p"
  shows "delta_count (fst (delta c p)) k = count_of (rp_stacks p) k - seen_count c k
    \<and> seen_count (snd (delta c p)) k = max (seen_count c k) (count_of (rp_stacks p) k)"
  using assms delta_count [of p c "fst (delta c p)" "snd (delta c p)" k] by (simp add: raw_ok_def)

theorem delta_counts_witness:
  "delta_count (fst (delta [(1, [16]) \<mapsto> 1] (demo_raw [5, 6, 7]))) (1, [16]) = 2"
  using delta_counts [of "demo_raw [5, 6, 7]" "[(1, [16]) \<mapsto> 1]" "(1, [16])"]
    demo_raw_ok [of "[5, 6, 7]"]
  by (simp add: timed_ok_def demo_raw_def series_timed_def count_of_def seen_count_def
      cursor_previous_def)

text \<open>C9: over any sequence of snapshots, what the deltas report of a thread and stack adds up,
  with what had been seen before, to the largest count any snapshot had: nothing is reported
  twice and nothing is lost.\<close>

theorem deltas_conserve_counts:
  assumes "list_all raw_ok ps"
  shows "seen_count c k + sum_list (map (\<lambda>d. delta_count d k) (fst (deltas c ps)))
    = fold (\<lambda>p. max (count_of (rp_stacks p) k)) ps (seen_count c k)"
  using deltas_sum [OF assms] deltas_seen [OF assms] by simp

theorem deltas_conserve_counts_witness:
  "sum_list (map (\<lambda>d. delta_count d (1, [16]))
     (fst (deltas cursor_default [demo_raw [5], demo_raw [5], demo_raw [5, 6, 7]]))) = 3"
  using deltas_conserve_counts [of "[demo_raw [5], demo_raw [5], demo_raw [5, 6, 7]]"
      cursor_default "(1, [16])"] demo_raw_ok [of "[5]"] demo_raw_ok [of "[5, 6, 7]"]
  by (simp add: timed_ok_def demo_raw_def series_timed_def count_of_def seen_count_def
      cursor_default_def cursor_previous_def)

text \<open>when the timestamps of a thread and stack only ever get longer, as in one recording, the
  timestamps of the deltas, one delta after the other, are exactly the timestamps of the last
  snapshot, in order.\<close>

theorem deltas_conserve_timestamps:
  assumes "list_all timed_ok (p # ps)" and "grows k (p # ps)"
  shows "concat (map (\<lambda>d. delta_times d k) (fst (deltas cursor_default (p # ps))))
    = times_of (rp_stacks (last (p # ps))) k"
  by (rule deltas_times_start [OF assms])

theorem deltas_conserve_timestamps_witness:
  "concat (map (\<lambda>d. delta_times d (1, [16]))
     (fst (deltas cursor_default [demo_raw [5], demo_raw [5, 6, 7]]))) = [5, 6, 7]"
  using deltas_conserve_timestamps [of "demo_raw [5]" "[demo_raw [5, 6, 7]]" "(1, [16])"]
    demo_raw_ok [of "[5]"] demo_raw_ok [of "[5, 6, 7]"]
  by (simp add: grows_def times_of_def demo_raw_def series_timed_def)

end
