(* ===== verification/Symbolize.thy ===== *)
theory Symbolize
  imports Sampler
begin

text \<open>
  Symbolication (\<open>src/symbolicate.rs\<close>): the symbolizer chain, the batch resolver that
  sorts addresses into images, and the incremental \<open>NativeSymbolizer\<close>.

  Object files are read by third-party crates (\<open>object\<close>, \<open>memmap2\<close>, \<open>addr2line\<close>,
  \<open>rustc_demangle\<close>). What those crates report of a file is a parameter: \<open>disk\<close> gives the
  content at a path, \<open>object_file\<close> the parsed object, and \<open>demangle\<close> the readable name.
\<close>

section \<open>Symbolizers\<close>

record frame_info =
  fi_function :: string
  fi_file :: string
  fi_line :: u32

type_synonym symbolizer = "u64 \<Rightarrow> frame_info option"

text \<open>\<open>SymbolizerChain::symbolize_frame\<close>: the first symbolizer that knows the address.\<close>

fun chain_symbolize :: "symbolizer list \<Rightarrow> symbolizer" where
  "chain_symbolize [] address = None"
| "chain_symbolize (s # ss) address =
     (case s address of Some info \<Rightarrow> Some info | None \<Rightarrow> chain_symbolize ss address)"

lemma chain_symbolize_append:
  "chain_symbolize (ss @ ts) a =
     (case chain_symbolize ss a of Some i \<Rightarrow> Some i | None \<Rightarrow> chain_symbolize ts a)"
  by (induction ss) (auto split: option.splits)

lemma chain_symbolize_None: "chain_symbolize ss a = None \<longleftrightarrow> (\<forall>s\<in>set ss. s a = None)"
  by (induction ss) (auto split: option.splits)

lemma chain_symbolize_Some:
  "chain_symbolize ss a = Some i \<longleftrightarrow>
     (\<exists>n<length ss. (ss ! n) a = Some i \<and> (\<forall>m<n. (ss ! m) a = None))"
proof (induction ss)
  case (Cons s ss)
  then show ?case
    by (cases "s a") (auto simp: Ex_less_Suc2 All_less_Suc2)
qed simp

section \<open>Objects\<close>

datatype architecture = Aarch64 | X86_64 | OtherArchitecture

record dwarf_frame =
  df_function :: "string option"
  df_location :: "(string option \<times> u32 option) option"

record object_file =
  of_len :: nat
  of_segments :: "(string option \<times> u64) list"
  of_symbols :: "(u64 \<times> string option) list"
  of_context :: "(u64 \<Rightarrow> dwarf_frame option) option"

text \<open>A file is a universal Mach-O, one slice per architecture, or a single object.\<close>

datatype file_content =
    MachOFat "(architecture \<times> object_file option) list"
  | Single object_file

type_synonym disk = "string \<Rightarrow> file_content option"

type_synonym demangler = "string \<Rightarrow> string"

text \<open>\<open>demangle\<close> away from macOS, over the two third-party schemes: Rust's first, then C++'s, whose
  printing may fail; a name of neither is left as it is.\<close>

record demangling_schemes =
  ds_rust :: "string \<Rightarrow> string option"
  ds_cpp :: "string \<Rightarrow> string option option"

definition demangle_with :: "demangling_schemes \<Rightarrow> demangler" where
  "demangle_with d name =
     (case ds_rust d name of
        Some text \<Rightarrow> text
      | None \<Rightarrow>
          (case ds_cpp d name of
             Some printed \<Rightarrow> (case printed of Some text \<Rightarrow> text | None \<Rightarrow> name)
           | None \<Rightarrow> name))"

record image_info =
  ii_load_address :: u64
  ii_text_vmaddr :: u64
  ii_object :: object_file

definition native_macho_slice :: "architecture \<Rightarrow> file_content \<Rightarrow> object_file option" where
  "native_macho_slice native content =
     (case content of
        MachOFat arches \<Rightarrow>
          (case find (\<lambda>(a, _). a = native) arches of None \<Rightarrow> None | Some (_, data) \<Rightarrow> data)
      | Single obj \<Rightarrow> Some obj)"

definition text_segment_vmaddr :: "object_file \<Rightarrow> u64" where
  "text_segment_vmaddr obj =
     (case find (\<lambda>(name, _). name = Some ''__TEXT'') (of_segments obj) of
        Some (_, address) \<Rightarrow> address
      | None \<Rightarrow>
        (case of_segments obj of [] \<Rightarrow> 0
         | s # ss \<Rightarrow> fold (\<lambda>t m. min m (snd t)) ss (snd s)))"

definition open_image :: "disk \<Rightarrow> architecture \<Rightarrow> string \<Rightarrow> u64 \<Rightarrow> image_info option" where
  "open_image disk native path load_address =
     (case disk path of
        None \<Rightarrow> None
      | Some content \<Rightarrow>
        (case native_macho_slice native content of
           None \<Rightarrow> None
         | Some obj \<Rightarrow>
             Some \<lparr>ii_load_address = load_address, ii_text_vmaddr = text_segment_vmaddr obj,
                   ii_object = obj\<rparr>))"

section \<open>Names\<close>

text \<open>\<open>{:016x}\<close>.\<close>

definition hex_digit :: "nat \<Rightarrow> char" where
  "hex_digit d = ''0123456789abcdef'' ! d"

definition hex16 :: "u64 \<Rightarrow> string" where
  "hex16 w = map (\<lambda>i. hex_digit (unat (drop_bit (4 * i) w AND 15))) (rev [0..<16])"

definition hex_name :: "u64 \<Rightarrow> string" where
  "hex_name address = ''0x'' @ hex16 address"

definition build_symbol_index :: "object_file \<Rightarrow> (u64 \<times> string) list" where
  "build_symbol_index obj =
     sort_key fst (List.map_filter
       (\<lambda>(address, name). case name of None \<Rightarrow> None
          | Some n \<Rightarrow> if address \<noteq> 0 \<and> n \<noteq> [] then Some (address, n) else None)
       (of_symbols obj))"

text \<open>
  \<open>partition_point\<close>: the number of elements before the first that fails the predicate. Its
  binary search finds that point on lists the predicate partitions, as all lists here are.
\<close>

definition partition_point :: "('a \<Rightarrow> bool) \<Rightarrow> 'a list \<Rightarrow> nat" where
  "partition_point P xs = length (takeWhile P xs)"

definition resolve_via_symbol_index ::
    "demangler \<Rightarrow> (u64 \<times> string) list \<Rightarrow> u64 \<Rightarrow> frame_info option" where
  "resolve_via_symbol_index demangle symbols file_addr =
     (let index = partition_point (\<lambda>(address, _). address \<le> file_addr) symbols in
      if index = 0 then None
      else Some \<lparr>fi_function = demangle (snd (symbols ! (index - 1))), fi_file = [], fi_line = 0\<rparr>)"

definition resolve_with_ctx :: "demangler \<Rightarrow> (u64 \<Rightarrow> dwarf_frame option) \<Rightarrow> u64 \<Rightarrow> u64
    \<Rightarrow> frame_info option" where
  "resolve_with_ctx demangle ctx file_addr orig_addr =
     (case ctx file_addr of
        None \<Rightarrow> None
      | Some frame \<Rightarrow>
        let function = (case df_function frame of Some n \<Rightarrow> demangle n | None \<Rightarrow> hex_name orig_addr);
            (file, line) = (case df_location frame of None \<Rightarrow> ([], 0)
              | Some (f, l) \<Rightarrow> (case f of None \<Rightarrow> [] | Some f \<Rightarrow> f, case l of None \<Rightarrow> 0 | Some l \<Rightarrow> l))
        in Some \<lparr>fi_function = function, fi_file = file, fi_line = line\<rparr>)"

section \<open>Resolving a batch\<close>

definition max_dwarf_bytes :: nat where
  "max_dwarf_bytes = 50 * 1024 * 1024"

text \<open>The body of the loop of \<open>resolve_for_image\<close>, for one address.\<close>

definition resolve_in_image :: "demangler \<Rightarrow> image_info \<Rightarrow> u64 \<Rightarrow> frame_info option" where
  "resolve_in_image demangle img addr =
     (let obj = ii_object img;
          file_addr = addr - ii_load_address img + ii_text_vmaddr img;
          ctx = (if of_len obj \<le> max_dwarf_bytes then of_context obj else None);
          symbols = build_symbol_index obj in
      case ctx of
        Some ctx \<Rightarrow>
          (case resolve_with_ctx demangle ctx file_addr addr of
             Some info \<Rightarrow> Some info
           | None \<Rightarrow> resolve_via_symbol_index demangle symbols file_addr)
      | None \<Rightarrow> resolve_via_symbol_index demangle symbols file_addr)"

type_synonym resolved = "u64 \<rightharpoonup> frame_info"

definition resolve_for_image :: "demangler \<Rightarrow> image_info \<Rightarrow> u64 list \<Rightarrow> resolved \<Rightarrow> resolved" where
  "resolve_for_image demangle img addrs out =
     fold (\<lambda>addr out. case resolve_in_image demangle img addr of
       Some info \<Rightarrow> out(addr \<mapsto> info) | None \<Rightarrow> out) addrs out"

definition open_images :: "disk \<Rightarrow> architecture \<Rightarrow> loaded_image list \<Rightarrow> image_info list" where
  "open_images disk native images =
     sort_key ii_load_address
       (List.map_filter (\<lambda>img. open_image disk native (im_path img) (im_load_address img))
         (sort_key im_load_address images))"

text \<open>The bucket of an address: the last image that starts at or below it and covers it.\<close>

definition image_index :: "image_info list \<Rightarrow> u64 \<Rightarrow> nat option" where
  "image_index infos addr =
     (let idx = partition_point (\<lambda>img. ii_load_address img \<le> addr) infos in
      if idx > 0 then
        let img = infos ! (idx - 1) in
        if unat (addr - ii_load_address img) < of_len (ii_object img) then Some (idx - 1) else None
      else None)"

definition bucket_addresses :: "image_info list \<Rightarrow> u64 list \<Rightarrow> u64 list list" where
  "bucket_addresses infos addrs =
     fold (\<lambda>addr by_image. case image_index infos addr of
         Some i \<Rightarrow> by_image[i := by_image ! i @ [addr]] | None \<Rightarrow> by_image)
       addrs (replicate (length infos) [])"

definition resolve_all :: "demangler \<Rightarrow> disk \<Rightarrow> architecture \<Rightarrow> loaded_image list \<Rightarrow> u64 list
    \<Rightarrow> resolved" where
  "resolve_all demangle disk native images addresses =
     (if addresses = [] then Map.empty
      else
        let image_infos = open_images disk native images;
            by_image = bucket_addresses image_infos addresses in
        fold (\<lambda>(img, addrs) result.
            if addrs = [] then result else resolve_for_image demangle img addrs result)
          (zip image_infos by_image) Map.empty)"

text \<open>What it means to resolve one address, without batches.\<close>

definition resolve_address :: "demangler \<Rightarrow> disk \<Rightarrow> architecture \<Rightarrow> loaded_image list
    \<Rightarrow> symbolizer" where
  "resolve_address demangle disk native images addr =
     (let infos = open_images disk native images in
      case image_index infos addr of
        None \<Rightarrow> None
      | Some i \<Rightarrow> resolve_in_image demangle (infos ! i) addr)"

lemma resolve_for_image_lookup:
  "resolve_for_image demangle img addrs out a =
     (if a \<in> set addrs \<and> resolve_in_image demangle img a \<noteq> None
      then resolve_in_image demangle img a else out a)"
  unfolding resolve_for_image_def
  by (induction addrs arbitrary: out) (auto split: option.splits)

lemma partition_point_le: "partition_point P xs \<le> length xs"
  by (simp add: partition_point_def length_takeWhile_le)

lemma image_index_less: "image_index infos a = Some i \<Longrightarrow> i < length infos"
  using partition_point_le [of "\<lambda>img. ii_load_address img \<le> a" infos]
  by (auto simp: image_index_def Let_def split: if_splits)

lemma bucket_loop:
  assumes "length bs = length infos"
  shows "fold (\<lambda>addr by_image. case image_index infos addr of
         Some i \<Rightarrow> by_image[i := by_image ! i @ [addr]] | None \<Rightarrow> by_image) addrs bs
    = map (\<lambda>i. bs ! i @ filter (\<lambda>a. image_index infos a = Some i) addrs) [0..<length infos]"
  using assms
proof (induction addrs arbitrary: bs)
  case Nil
  then show ?case using map_nth [of bs] by simp
next
  case (Cons a addrs)
  show ?case
  proof (cases "image_index infos a")
    case None
    then show ?thesis using Cons by simp
  next
    case (Some i)
    then show ?thesis
      using Cons image_index_less [OF Some] by (auto simp: nth_list_update intro!: map_cong)
  qed
qed

lemma bucket_addresses_eq:
  "bucket_addresses infos addrs =
     map (\<lambda>i. filter (\<lambda>a. image_index infos a = Some i) addrs) [0..<length infos]"
  unfolding bucket_addresses_def by (subst bucket_loop) (auto intro!: map_cong)

definition resolve_step :: "demangler \<Rightarrow> image_info list \<Rightarrow> u64 list \<Rightarrow> nat \<Rightarrow> resolved
    \<Rightarrow> resolved" where
  "resolve_step demangle infos addrs i result =
     (if filter (\<lambda>a. image_index infos a = Some i) addrs = [] then result
      else resolve_for_image demangle (infos ! i)
        (filter (\<lambda>a. image_index infos a = Some i) addrs) result)"

lemma resolve_step_lookup:
  "resolve_step demangle infos addrs i result a =
     (if image_index infos a = Some i \<and> a \<in> set addrs
        \<and> resolve_in_image demangle (infos ! i) a \<noteq> None
      then resolve_in_image demangle (infos ! i) a else result a)"
proof (cases "filter (\<lambda>a. image_index infos a = Some i) addrs = []")
  case True
  then have "\<not> (image_index infos a = Some i \<and> a \<in> set addrs)"
    by (auto simp: filter_empty_conv)
  then show ?thesis using True by (auto simp: resolve_step_def)
next
  case False
  then show ?thesis by (auto simp: resolve_step_def resolve_for_image_lookup)
qed

lemma resolve_steps_lookup:
  "fold (resolve_step demangle infos addrs) js out a =
     (case image_index infos a of
        Some i \<Rightarrow> if i \<in> set js \<and> a \<in> set addrs \<and> resolve_in_image demangle (infos ! i) a \<noteq> None
                  then resolve_in_image demangle (infos ! i) a else out a
      | None \<Rightarrow> out a)"
proof (induction js arbitrary: out)
  case Nil
  show ?case by (simp split: option.split)
next
  case (Cons j js)
  show ?case
    unfolding fold_Cons comp_apply Cons.IH
    by (cases "image_index infos a") (auto simp: resolve_step_lookup [of _ _ _ _ _ a])
qed

lemma resolve_images_steps:
  "fold (\<lambda>(img, addrs) result.
        if addrs = [] then result else resolve_for_image demangle img addrs result)
      (map (\<lambda>i. (infos ! i, filter (\<lambda>a. image_index infos a = Some i) addrs)) js) out
    = fold (resolve_step demangle infos addrs) js out"
  unfolding fold_map comp_def prod.case by (simp only: resolve_step_def [abs_def])

lemma zip_map_upt: "zip xs (map f [0..<length xs]) = map (\<lambda>i. (xs ! i, f i)) [0..<length xs]"
  by (rule nth_equalityI) simp_all

lemma resolve_all_lookup:
  "resolve_all demangle disk native images addrs a =
     (if a \<in> set addrs then resolve_address demangle disk native images a else None)"
proof (cases "addrs = []")
  case True
  then show ?thesis by (simp add: resolve_all_def)
next
  case False
  let ?infos = "open_images disk native images"
  have "resolve_all demangle disk native images addrs a =
      fold (resolve_step demangle ?infos addrs) [0..<length ?infos] Map.empty a"
    unfolding resolve_all_def Let_def bucket_addresses_eq zip_map_upt resolve_images_steps
    using False by simp
  also have "\<dots> = (if a \<in> set addrs then resolve_address demangle disk native images a else None)"
    unfolding resolve_steps_lookup resolve_address_def Let_def
    using image_index_less [of ?infos a] by (auto split: option.split)
  finally show ?thesis .
qed


section \<open>The incremental symbolizer\<close>

record native_symbolizer =
  ns_images :: "loaded_image list"
  ns_resolved :: resolved
  ns_attempted :: "u64 set"

definition native_new :: "demangler \<Rightarrow> disk \<Rightarrow> architecture \<Rightarrow> loaded_image list \<Rightarrow> u64 list
    \<Rightarrow> native_symbolizer" where
  "native_new demangle disk native images addresses =
     \<lparr>ns_images = images, ns_resolved = resolve_all demangle disk native images addresses,
      ns_attempted = set addresses\<rparr>"

text \<open>The \<open>filter\<close> of \<open>resolve_more\<close>: keep an address when inserting it is new.\<close>

fun pending_addresses :: "u64 set \<Rightarrow> u64 list \<Rightarrow> u64 list \<times> u64 set" where
  "pending_addresses attempted [] = ([], attempted)"
| "pending_addresses attempted (a # as) =
     (let (rest, attempted') = pending_addresses (insert a attempted) as in
      (if a \<in> attempted then rest else a # rest, attempted'))"

definition resolve_more :: "demangler \<Rightarrow> disk \<Rightarrow> architecture \<Rightarrow> u64 list \<Rightarrow> native_symbolizer
    \<Rightarrow> native_symbolizer" where
  "resolve_more demangle disk native addresses s =
     (let (pending, attempted) = pending_addresses (ns_attempted s) addresses;
          s = s\<lparr>ns_attempted := attempted\<rparr> in
      if pending \<noteq> [] then
        s\<lparr>ns_resolved := ns_resolved s ++ resolve_all demangle disk native (ns_images s) pending\<rparr>
      else s)"

definition refresh_images :: "loaded_image list \<Rightarrow> native_symbolizer \<Rightarrow> native_symbolizer" where
  "refresh_images images s =
     (if images = [] \<or> images = ns_images s then s
      else s\<lparr>ns_images := images,
             ns_attempted := Set.filter (\<lambda>a. ns_resolved s a \<noteq> None) (ns_attempted s)\<rparr>)"

definition native_symbolize :: "native_symbolizer \<Rightarrow> symbolizer" where
  "native_symbolize s address =
     map_option (\<lambda>info. \<lparr>fi_function = fi_function info, fi_file = fi_file info,
                         fi_line = fi_line info\<rparr>) (ns_resolved s address)"

lemma native_symbolize_eq [simp]: "native_symbolize s = ns_resolved s"
proof
  show "native_symbolize s a = ns_resolved s a" for a
    by (cases "ns_resolved s a") (simp_all add: native_symbolize_def)
qed

lemma pending_addresses_eq:
  "set (fst (pending_addresses t as)) = set as - t \<and> snd (pending_addresses t as) = t \<union> set as"
  by (induction t as rule: pending_addresses.induct) (simp_all add: Let_def split_beta, blast)

text \<open>
  Between two changes of the image set, the symbolizer knows of every address it has tried
  exactly what resolving that address alone would give.
\<close>

definition native_ok :: "demangler \<Rightarrow> disk \<Rightarrow> architecture \<Rightarrow> native_symbolizer \<Rightarrow> bool" where
  "native_ok demangle disk native s \<longleftrightarrow>
     dom (ns_resolved s) \<subseteq> ns_attempted s
     \<and> (\<forall>a\<in>ns_attempted s. ns_resolved s a = None \<longrightarrow>
          resolve_address demangle disk native (ns_images s) a = None)"

lemma native_new_ok: "native_ok demangle disk native (native_new demangle disk native images as)"
  by (auto simp: native_ok_def native_new_def resolve_all_lookup split: if_splits)

lemma resolve_more_lookup:
  "ns_resolved (resolve_more demangle disk native as s) a =
     (if a \<in> set as - ns_attempted s
        \<and> resolve_address demangle disk native (ns_images s) a \<noteq> None
      then resolve_address demangle disk native (ns_images s) a else ns_resolved s a)"
  and resolve_more_attempted:
  "ns_attempted (resolve_more demangle disk native as s) = ns_attempted s \<union> set as"
  and resolve_more_images: "ns_images (resolve_more demangle disk native as s) = ns_images s"
proof -
  obtain pending attempted where p: "pending_addresses (ns_attempted s) as = (pending, attempted)"
    by (cases "pending_addresses (ns_attempted s) as")
  then have set: "set pending = set as - ns_attempted s" "attempted = ns_attempted s \<union> set as"
    using pending_addresses_eq [of "ns_attempted s" as] by auto
  show "ns_resolved (resolve_more demangle disk native as s) a =
     (if a \<in> set as - ns_attempted s
        \<and> resolve_address demangle disk native (ns_images s) a \<noteq> None
      then resolve_address demangle disk native (ns_images s) a else ns_resolved s a)"
    unfolding set(1) [symmetric]
    by (auto simp: resolve_more_def p Let_def map_add_def resolve_all_lookup split: option.split)
  show "ns_attempted (resolve_more demangle disk native as s) = ns_attempted s \<union> set as"
    "ns_images (resolve_more demangle disk native as s) = ns_images s"
    by (simp_all add: resolve_more_def p Let_def set)
qed

lemma resolve_more_ok:
  "native_ok demangle disk native s \<Longrightarrow>
     native_ok demangle disk native (resolve_more demangle disk native as s)"
  by (auto simp: native_ok_def resolve_more_lookup resolve_more_attempted resolve_more_images
      split: if_splits)

lemma refresh_images_ok:
  "native_ok demangle disk native s \<Longrightarrow> native_ok demangle disk native (refresh_images images s)"
  by (auto simp: native_ok_def refresh_images_def)

text \<open>Batches are irrelevant: only the set of addresses tried matters.\<close>

lemma resolve_more_batches:
  "resolve_more demangle disk native bs (resolve_more demangle disk native as s)
    = resolve_more demangle disk native (as @ bs) s"
proof -
  have "ns_resolved (resolve_more demangle disk native bs (resolve_more demangle disk native as s))
      = ns_resolved (resolve_more demangle disk native (as @ bs) s)"
    by (rule ext) (auto simp: resolve_more_lookup resolve_more_attempted resolve_more_images)
  then show ?thesis
    by (intro native_symbolizer.equality)
       (auto simp: resolve_more_attempted resolve_more_images)
qed

section \<open>Searching sorted tables\<close>

lemma partition_point_split:
  assumes "sorted (map f xs)" and "partition_point (\<lambda>x. f x \<le> a) xs = n"
  shows "i < n \<Longrightarrow> i < length xs \<and> f (xs ! i) \<le> a"
    and "n \<le> i \<Longrightarrow> i < length xs \<Longrightarrow> a < f (xs ! i)"
proof -
  have n: "n = length (takeWhile (\<lambda>x. f x \<le> a) xs)" using assms(2) by (simp add: partition_point_def)
  show "i < length xs \<and> f (xs ! i) \<le> a" if "i < n"
  proof -
    have "takeWhile (\<lambda>x. f x \<le> a) xs ! i = xs ! i" "i < length xs"
      using that n by (simp_all add: takeWhile_nth order_less_le_trans [OF _ length_takeWhile_le])
    then show ?thesis using that n by (metis nth_mem set_takeWhileD)
  qed
  show "a < f (xs ! i)" if "n \<le> i" "i < length xs"
  proof -
    have "n < length xs" using that by simp
    then have "\<not> f (xs ! n) \<le> a" using n nth_length_takeWhile by blast
    moreover have "f (xs ! n) \<le> f (xs ! i)"
      using sorted_nth_mono [OF assms(1), of n i] that by simp
    ultimately show ?thesis by simp
  qed
qed

text \<open>The element before the partition point is the greatest that is not above \<open>a\<close>.\<close>

lemma partition_point_greatest:
  assumes "sorted (map f xs)" and "partition_point (\<lambda>x. f x \<le> a) xs = n" and "0 < n"
  shows "xs ! (n - 1) \<in> set xs" and "f (xs ! (n - 1)) \<le> a"
    and "x \<in> set xs \<Longrightarrow> f x \<le> a \<Longrightarrow> f x \<le> f (xs ! (n - 1))"
proof -
  note split = partition_point_split [OF assms(1,2)]
  show "xs ! (n - 1) \<in> set xs" "f (xs ! (n - 1)) \<le> a"
    using split(1) [of "n - 1"] assms(3) by auto
  assume "x \<in> set xs" "f x \<le> a"
  then obtain i where i: "i < length xs" "xs ! i = x" by (auto simp: in_set_conv_nth)
  then have "i < n" using split(2) [of i] \<open>f x \<le> a\<close> by (meson not_le)
  then show "f x \<le> f (xs ! (n - 1))"
    using sorted_nth_mono [OF assms(1), of i "n - 1"] split(1) [of "n - 1"] assms(3) i by auto
qed

lemma sorted_open_images: "sorted (map ii_load_address (open_images disk native images))"
  by (simp add: open_images_def)

section \<open>A history of one symbolizer\<close>

datatype native_call = ResolveMore "u64 list" | RefreshImages "loaded_image list"

fun native_op :: "demangler \<Rightarrow> disk \<Rightarrow> architecture \<Rightarrow> native_call \<Rightarrow> native_symbolizer
    \<Rightarrow> native_symbolizer" where
  "native_op demangle disk native (ResolveMore as) s = resolve_more demangle disk native as s"
| "native_op demangle disk native (RefreshImages images) s = refresh_images images s"

definition native_run :: "demangler \<Rightarrow> disk \<Rightarrow> architecture \<Rightarrow> loaded_image list \<Rightarrow> u64 list
    \<Rightarrow> native_call list \<Rightarrow> native_symbolizer" where
  "native_run demangle disk native images as ops =
     fold (native_op demangle disk native) ops (native_new demangle disk native images as)"

lemma native_run_ok: "native_ok demangle disk native (native_run demangle disk native images as ops)"
proof -
  have "native_ok demangle disk native s \<Longrightarrow>
      native_ok demangle disk native (fold (native_op demangle disk native) ops s)" for s
  proof (induction ops arbitrary: s)
    case (Cons x xs)
    then show ?case by (cases x) (simp_all add: resolve_more_ok refresh_images_ok)
  qed simp
  then show ?thesis by (simp add: native_run_def native_new_ok)
qed

section \<open>Properties\<close>

text \<open>a chain of symbolizers answers with the first of them, in order, that knows the address,
  and knows nothing exactly when none of them does.\<close>

theorem chain_first_wins:
  "(chain_symbolize ss a = Some i \<longleftrightarrow>
      (\<exists>n<length ss. (ss ! n) a = Some i \<and> (\<forall>m<n. (ss ! m) a = None)))
   \<and> (chain_symbolize ss a = None \<longleftrightarrow> (\<forall>s\<in>set ss. s a = None))"
  using chain_symbolize_Some chain_symbolize_None by blast

theorem chain_first_wins_witness:
  "chain_symbolize [\<lambda>a. None, \<lambda>a. Some \<lparr>fi_function = ''f'', fi_file = '''', fi_line = 1\<rparr>] 7
    = Some \<lparr>fi_function = ''f'', fi_file = '''', fi_line = 1\<rparr>"
  using chain_first_wins
    [of "[\<lambda>a. None, \<lambda>a. Some \<lparr>fi_function = ''f'', fi_file = '''', fi_line = 1\<rparr>]" 7
        "\<lparr>fi_function = ''f'', fi_file = '''', fi_line = 1\<rparr>"]
  by simp

text \<open>An executable of 256 bytes loaded at 4096, with two symbols and no debug information.\<close>

definition demo_object :: object_file where
  "demo_object = \<lparr>of_len = 256, of_segments = [(Some ''__TEXT'', 0)],
     of_symbols = [(32, Some ''g''), (16, Some ''f'')], of_context = None\<rparr>"

definition demo_disk :: disk where
  "demo_disk = (\<lambda>path. if path = ''/bin/app'' then Some (Single demo_object) else None)"

definition demo_image :: loaded_image where
  "demo_image = \<lparr>im_load_address = 4096, im_path = ''/bin/app''\<rparr>"

lemma demo_resolve:
  "resolve_address (\<lambda>s. s) demo_disk X86_64 [demo_image] 4114
    = Some \<lparr>fi_function = ''f'', fi_file = [], fi_line = 0\<rparr>"
  by (simp add: resolve_address_def open_images_def demo_image_def open_image_def demo_disk_def
      native_macho_slice_def text_segment_vmaddr_def demo_object_def image_index_def Let_def
      partition_point_def resolve_in_image_def resolve_via_symbol_index_def
      build_symbol_index_def max_dwarf_bytes_def List.map_filter_simps)

text \<open>C21: resolving a batch, sorted into buckets by image, is resolving each address on its own:
  the image search, the buckets and the order of the batch leave no trace in the result.\<close>

theorem resolve_all_pointwise:
  "resolve_all demangle disk native images addrs a =
     (if a \<in> set addrs then resolve_address demangle disk native images a else None)"
  by (rule resolve_all_lookup)

text \<open>an address is resolved only inside the image that holds it: the one with the greatest
  load address not above it, within that file's length.\<close>

theorem resolved_in_covering_image:
  assumes "resolve_address demangle disk native images addr = Some info"
  shows "\<exists>img\<in>set (open_images disk native images).
    ii_load_address img \<le> addr \<and> unat (addr - ii_load_address img) < of_len (ii_object img)
    \<and> resolve_in_image demangle img addr = Some info
    \<and> (\<forall>other\<in>set (open_images disk native images).
         ii_load_address other \<le> addr \<longrightarrow> ii_load_address other \<le> ii_load_address img)"
proof -
  let ?infos = "open_images disk native images"
  define n where "n = partition_point (\<lambda>img. ii_load_address img \<le> addr) ?infos"
  have n: "0 < n" "unat (addr - ii_load_address (?infos ! (n - 1))) < of_len (ii_object (?infos ! (n - 1)))"
    "resolve_in_image demangle (?infos ! (n - 1)) addr = Some info"
    using assms by (auto simp: resolve_address_def image_index_def Let_def n_def
        split: option.splits if_splits)
  note last = partition_point_greatest [OF sorted_open_images n_def [symmetric] n(1)]
  show ?thesis by (rule bexI [OF _ last(1)]) (use n last in blast)
qed

theorem resolved_in_covering_image_witness:
  "\<exists>img\<in>set (open_images demo_disk X86_64 [demo_image]). ii_load_address img \<le> 4114"
  using resolved_in_covering_image [OF demo_resolve] by blast

text \<open>without debug information an address is named after the nearest symbol at or below it.\<close>

theorem nearest_symbol:
  assumes "resolve_via_symbol_index demangle (build_symbol_index obj) file_addr = Some info"
  shows "\<exists>(address, name)\<in>set (build_symbol_index obj).
    address \<le> file_addr \<and> fi_function info = demangle name
    \<and> (\<forall>(other, _)\<in>set (build_symbol_index obj). other \<le> file_addr \<longrightarrow> other \<le> address)"
proof -
  let ?syms = "build_symbol_index obj"
  define n where "n = partition_point (\<lambda>s. fst s \<le> file_addr) ?syms"
  have n: "0 < n" "fi_function info = demangle (snd (?syms ! (n - 1)))"
    using assms by (auto simp: resolve_via_symbol_index_def Let_def n_def case_prod_unfold
        split: if_splits)
  have "sorted (map fst ?syms)" by (simp add: build_symbol_index_def)
  note last = partition_point_greatest [OF this n_def [symmetric] n(1)]
  show ?thesis by (rule bexI [OF _ last(1)]) (use n last in \<open>auto simp: case_prod_unfold\<close>)
qed

theorem nearest_symbol_witness:
  "\<exists>(address, name)\<in>set (build_symbol_index demo_object). address \<le> 20 \<and> name = ''f''"
proof -
  have "resolve_via_symbol_index (\<lambda>s. s) (build_symbol_index demo_object) 20
      = Some \<lparr>fi_function = ''f'', fi_file = [], fi_line = 0\<rparr>"
    by (simp add: resolve_via_symbol_index_def build_symbol_index_def demo_object_def
        partition_point_def List.map_filter_simps)
  from nearest_symbol [OF this] show ?thesis by auto
qed

text \<open>C20: the incremental symbolizer never keeps a stale miss: whatever batches and image refreshes
  came before, once asked for an address that its current images can resolve, it has an answer.\<close>

theorem no_stale_miss:
  assumes "s = resolve_more demangle disk native as (native_run demangle disk native images as0 ops)"
    and "a \<in> set as" and "resolve_address demangle disk native (ns_images s) a = Some info"
  shows "native_symbolize s a \<noteq> None"
  using resolve_more_ok [OF native_run_ok, of demangle disk native as images as0 ops] assms
  by (auto simp: native_ok_def resolve_more_attempted)

theorem no_stale_miss_witness:
  "native_symbolize (resolve_more (\<lambda>s. s) demo_disk X86_64 [4114]
     (native_run (\<lambda>s. s) demo_disk X86_64 [] [4114] [RefreshImages [demo_image]])) 4114 \<noteq> None"
  by (rule no_stale_miss [OF refl _, where info = "\<lparr>fi_function = ''f'', fi_file = [], fi_line = 0\<rparr>"])
     (simp_all add: resolve_more_images native_run_def native_new_def refresh_images_def demo_resolve)

text \<open>resolving in batches is resolving everything at once: two successive calls leave the
  symbolizer in the state of one call on both batches.\<close>

theorem symbolizer_batches:
  "resolve_more demangle disk native bs (resolve_more demangle disk native as s)
    = resolve_more demangle disk native (as @ bs) s"
  by (rule resolve_more_batches)

end
