(* ===== verification/Symbolicated.thy ===== *)
theory Symbolicated
  imports Symbolize
begin

text \<open>
  The symbolicated profile and its lazy call tree (\<open>src/symbolicated.rs\<close>).

  The serde helpers at the end of the file only choose a JSON form and are not modelled.
  \<open>SystemTime\<close> is a number of nanoseconds, negative before the epoch.
\<close>

section \<open>Data\<close>

datatype unresolved = Hex | Skip

record stack_frame =
  sf_address :: u64
  sf_function :: string
  sf_file :: string
  sf_line :: u32

record sym_sample =
  ss_thread_id :: u64
  ss_stack :: "u64 list"
  ss_count :: u64
  ss_timestamp :: "u64 option"

record symbolicated_profile =
  sp_images :: "loaded_image list"
  sp_frames :: "u64 \<rightharpoonup> stack_frame"
  sp_threads :: "(u64 \<times> string) list"
  sp_samples :: "sym_sample list"
  sp_start_time :: int
  sp_duration :: nat
  sp_freq_hz :: u32

section \<open>Construction\<close>

definition all_addresses :: "raw_profile \<Rightarrow> u64 list" where
  "all_addresses raw = remdups (concat (map (\<lambda>((_, stack), _). stack) (rp_stacks raw)))"

text \<open>The loop over the addresses, which fills \<open>frames\<close> and \<open>skip_set\<close>.\<close>

definition frame_step :: "symbolizer \<Rightarrow> unresolved \<Rightarrow> u64
    \<Rightarrow> (u64 \<rightharpoonup> stack_frame) \<times> u64 set \<Rightarrow> (u64 \<rightharpoonup> stack_frame) \<times> u64 set" where
  "frame_step symbolize unresolved addr fs =
     (let (frames, skip_set) = fs in
      case symbolize addr of
        Some info \<Rightarrow>
          (frames(addr \<mapsto> \<lparr>sf_address = addr, sf_function = fi_function info,
             sf_file = fi_file info, sf_line = fi_line info\<rparr>), skip_set)
      | None \<Rightarrow>
        (case unresolved of
           Skip \<Rightarrow> (frames, insert addr skip_set)
         | Hex \<Rightarrow>
             (frames(addr \<mapsto> \<lparr>sf_address = addr, sf_function = hex_name addr, sf_file = [],
                sf_line = 0\<rparr>), skip_set)))"

definition symbolize_addresses :: "symbolizer \<Rightarrow> unresolved \<Rightarrow> u64 list
    \<Rightarrow> (u64 \<rightharpoonup> stack_frame) \<times> u64 set" where
  "symbolize_addresses symbolize unresolved addrs =
     fold (frame_step symbolize unresolved) addrs (Map.empty, {})"

definition samples_of_series :: "u64 set \<Rightarrow> stack_key \<times> raw_sample_series \<Rightarrow> sym_sample list" where
  "samples_of_series skip_set e =
     (let ((thread_id, stack_addrs), series) = e;
          stack = filter (\<lambda>a. a \<notin> skip_set) stack_addrs in
      if stack = [] then []
      else
        (case rs_timestamps series of
           Some timestamps \<Rightarrow>
             map (\<lambda>t. \<lparr>ss_thread_id = thread_id, ss_stack = stack, ss_count = 1,
                       ss_timestamp = Some t\<rparr>) timestamps
         | None \<Rightarrow>
             [\<lparr>ss_thread_id = thread_id, ss_stack = stack, ss_count = rs_count series,
               ss_timestamp = None\<rparr>]))"

text \<open>\<open>Instant::duration_since\<close> saturates at zero, as the truncated subtraction does.\<close>

definition from_raw_with_symbolizer :: "raw_profile \<Rightarrow> symbolizer \<Rightarrow> unresolved \<Rightarrow> u32 \<Rightarrow> int
    \<Rightarrow> symbolicated_profile" where
  "from_raw_with_symbolizer raw symbolize unresolved freq_hz start_wall =
     (let (frames, skip_set) = symbolize_addresses symbolize unresolved (all_addresses raw) in
      \<lparr>sp_images = rp_images raw, sp_frames = frames, sp_threads = rp_thread_names raw,
       sp_samples = concat (map (samples_of_series skip_set) (rp_stacks raw)),
       sp_start_time = start_wall, sp_duration = rp_end_time raw - rp_start_time raw,
       sp_freq_hz = freq_hz\<rparr>)"

definition resolve_stack :: "symbolicated_profile \<Rightarrow> sym_sample \<Rightarrow> stack_frame list" where
  "resolve_stack p s = List.map_filter (sp_frames p) (ss_stack s)"

section \<open>The lazy tree\<close>

record tree_node =
  tn_address :: u64
  tn_prefix :: "u64 list"

text \<open>A loop that pushes what is not yet contained.\<close>

definition push_new :: "'a \<Rightarrow> 'a list \<Rightarrow> 'a list" where
  "push_new x xs = (if x \<in> set xs then xs else xs @ [x])"

definition root_step :: "sym_sample \<Rightarrow> u64 list \<Rightarrow> u64 list" where
  "root_step s roots = (if ss_stack s = [] then roots else push_new (last (ss_stack s)) roots)"

definition roots :: "symbolicated_profile \<Rightarrow> tree_node list" where
  "roots p = map (\<lambda>addr. \<lparr>tn_address = addr, tn_prefix = [addr]\<rparr>)
     (fold root_step (sp_samples p) [])"

definition node_frame :: "symbolicated_profile \<Rightarrow> tree_node \<Rightarrow> stack_frame option" where
  "node_frame p n = sp_frames p (tn_address n)"

definition self_count :: "symbolicated_profile \<Rightarrow> tree_node \<Rightarrow> u64" where
  "self_count p n =
     sum_list (map ss_count (filter
       (\<lambda>s. let r = rev (ss_stack s) in length r = length (tn_prefix n) \<and> r = tn_prefix n)
       (sp_samples p)))"

definition total_count :: "symbolicated_profile \<Rightarrow> tree_node \<Rightarrow> u64" where
  "total_count p n =
     sum_list (map ss_count (filter (\<lambda>s. prefix (tn_prefix n) (rev (ss_stack s))) (sp_samples p)))"

definition child_step :: "u64 list \<Rightarrow> sym_sample \<Rightarrow> u64 list \<Rightarrow> u64 list" where
  "child_step pre s addrs =
     (let r = rev (ss_stack s) in
      if length r > length pre \<and> prefix pre r then push_new (r ! length pre) addrs else addrs)"

definition children :: "symbolicated_profile \<Rightarrow> tree_node \<Rightarrow> tree_node list" where
  "children p n = map (\<lambda>addr. \<lparr>tn_address = addr, tn_prefix = tn_prefix n @ [addr]\<rparr>)
     (fold (child_step (tn_prefix n)) (sp_samples p) [])"

section \<open>Frames and samples\<close>

text \<open>The frame of one address, as the documentation of \<open>Unresolved\<close> describes it.\<close>

definition frame_of :: "symbolizer \<Rightarrow> unresolved \<Rightarrow> u64 \<Rightarrow> stack_frame option" where
  "frame_of symbolize unresolved addr =
     (case symbolize addr of
        Some info \<Rightarrow> Some \<lparr>sf_address = addr, sf_function = fi_function info,
          sf_file = fi_file info, sf_line = fi_line info\<rparr>
      | None \<Rightarrow> (if unresolved = Hex then Some \<lparr>sf_address = addr, sf_function = hex_name addr,
          sf_file = [], sf_line = 0\<rparr> else None))"

lemma frame_loop:
  "fold (frame_step symbolize u) addrs (fs, sk) =
     (\<lambda>a. if a \<in> set addrs \<and> frame_of symbolize u a \<noteq> None then frame_of symbolize u a else fs a,
      sk \<union> {a \<in> set addrs. frame_of symbolize u a = None})"
proof (induction addrs arbitrary: fs sk)
  case (Cons a addrs)
  show ?case
  proof (cases "frame_of symbolize u a")
    case None
    then have "frame_step symbolize u a (fs, sk) = (fs, insert a sk)"
      by (cases u) (auto simp: frame_step_def frame_of_def split: option.splits)
    then show ?thesis using None Cons by (auto simp: fun_eq_iff)
  next
    case (Some f)
    then have "frame_step symbolize u a (fs, sk) = (fs(a \<mapsto> f), sk)"
      by (cases u) (auto simp: frame_step_def frame_of_def split: option.splits)
    then show ?thesis using Some Cons by (auto simp: fun_eq_iff)
  qed
qed simp

lemma symbolize_addresses_eq:
  "symbolize_addresses symbolize u addrs =
     (\<lambda>a. if a \<in> set addrs then frame_of symbolize u a else None,
      {a \<in> set addrs. frame_of symbolize u a = None})"
  by (auto simp: symbolize_addresses_def frame_loop fun_eq_iff)

lemma samples_of_series_stack:
  "s \<in> set (samples_of_series sk ((tid, stack), series)) \<Longrightarrow>
     ss_stack s = filter (\<lambda>a. a \<notin> sk) stack \<and> ss_stack s \<noteq> [] \<and> ss_thread_id s = tid"
  by (auto simp: samples_of_series_def Let_def split: option.splits if_splits)

text \<open>Every address left in a sample has its frame.\<close>

lemma from_raw_stacks:
  assumes "s \<in> set (sp_samples (from_raw_with_symbolizer raw symbolize u freq wall))"
  shows "ss_stack s \<noteq> [] \<and> (\<forall>a\<in>set (ss_stack s).
    sp_frames (from_raw_with_symbolizer raw symbolize u freq wall) a = frame_of symbolize u a
      \<and> frame_of symbolize u a \<noteq> None)"
proof -
  obtain tid stack series where e: "((tid, stack), series) \<in> set (rp_stacks raw)"
    and s: "s \<in> set (samples_of_series {a \<in> set (all_addresses raw). frame_of symbolize u a = None}
      ((tid, stack), series))"
    using assms by (auto simp: from_raw_with_symbolizer_def symbolize_addresses_eq)
  have "set stack \<subseteq> set (all_addresses raw)"
    using e by (force simp: all_addresses_def)
  then show ?thesis
    using samples_of_series_stack [OF s]
    by (auto simp: from_raw_with_symbolizer_def symbolize_addresses_eq)
qed

lemma map_filter_all: "(\<And>x. x \<in> set xs \<Longrightarrow> f x = Some (g x)) \<Longrightarrow> List.map_filter f xs = map g xs"
  by (induction xs) (simp_all add: List.map_filter_simps)

section \<open>Counts\<close>

lemma push_new_distinct: "distinct xs \<Longrightarrow> distinct (push_new x xs)"
  by (simp add: push_new_def)

lemma push_new_set [simp]: "set (push_new x xs) = insert x (set xs)"
  by (auto simp: push_new_def)

lemma next_prefix:
  "prefix (pre @ [a]) r \<longleftrightarrow> length pre < length r \<and> prefix pre r \<and> r ! length pre = a"
proof
  assume "length pre < length r \<and> prefix pre r \<and> r ! length pre = a"
  then obtain zs where "r = pre @ zs" "zs \<noteq> []" "zs ! 0 = a" by (auto simp: prefix_def nth_append)
  then show "prefix (pre @ [a]) r" by (cases zs) auto
qed (auto simp: prefix_def nth_append)

lemma child_loop:
  "distinct xs \<Longrightarrow> distinct (fold (child_step pre) ss xs)
   \<and> set (fold (child_step pre) ss xs) =
       set xs \<union> {a. \<exists>s\<in>set ss. prefix (pre @ [a]) (rev (ss_stack s))}"
proof (induction ss arbitrary: xs)
  case (Cons s ss)
  have "set (child_step pre s xs) = set xs \<union> {a. prefix (pre @ [a]) (rev (ss_stack s))}"
    unfolding child_step_def Let_def next_prefix by auto
  moreover have "distinct (child_step pre s xs)"
    using Cons.prems by (simp add: child_step_def Let_def push_new_distinct)
  ultimately show ?case using Cons.IH by auto
qed simp

lemma root_child_step: "root_step = child_step []"
proof (intro ext)
  show "root_step s xs = child_step [] s xs" for s xs
    by (cases "ss_stack s" rule: rev_cases)
       (simp_all add: root_step_def child_step_def)
qed

text \<open>The samples below a node are its own and, one child each, those below its children.\<close>

lemma sum_by_next:
  fixes w :: "'a \<Rightarrow> u64"
  assumes "distinct as" and "\<And>x. x \<in> set xs \<Longrightarrow> P x \<Longrightarrow> key x \<in> set as"
  shows "sum_list (map (\<lambda>a. sum_list (map w (filter (\<lambda>x. P x \<and> key x = a) xs))) as)
    = sum_list (map w (filter P xs))"
  using assms(2)
proof (induction xs)
  case (Cons x xs)
  have pick: "sum_list (map (\<lambda>a. if a = k then c else 0) as) = c" if "k \<in> set as" for k and c :: u64
    using assms(1) that by (simp add: sum_list_distinct_conv_sum_set)
  have "sum_list (map (\<lambda>a. sum_list (map w (filter (\<lambda>x. P x \<and> key x = a) (x # xs)))) as)
      = sum_list (map (\<lambda>a. (if a = key x then if P x then w x else 0 else 0)
          + sum_list (map w (filter (\<lambda>x. P x \<and> key x = a) xs))) as)"
    by (intro arg_cong [of _ _ sum_list] map_cong) auto
  also have "\<dots> = (if P x then w x else 0) + sum_list (map w (filter P xs))"
    using Cons pick [of "key x" "w x"] by (simp add: sum_list_addf)
  finally show ?case by simp
qed simp

definition below :: "u64 list \<Rightarrow> sym_sample \<Rightarrow> bool" where
  "below pre s \<longleftrightarrow> strict_prefix pre (rev (ss_stack s))"

lemma strict_prefix_length: "strict_prefix xs ys \<longleftrightarrow> length xs < length ys \<and> prefix xs ys"
  by (metis less_irrefl prefix_length_less prefix_order.less_le)

lemma below_child:
  "prefix (pre @ [a]) (rev (ss_stack s)) \<longleftrightarrow> below pre s \<and> rev (ss_stack s) ! length pre = a"
  unfolding next_prefix below_def strict_prefix_length by auto

lemma below_sum:
  "sum_list (map (\<lambda>a. sum_list (map ss_count (filter (\<lambda>s. prefix (pre @ [a]) (rev (ss_stack s))) ss)))
      (fold (child_step pre) ss []))
    = sum_list (map ss_count (filter (below pre) ss))"
  unfolding below_child
proof (rule sum_by_next)
  show "distinct (fold (child_step pre) ss [])" using child_loop [of "[]" pre ss] by simp
  show "rev (ss_stack s) ! length pre \<in> set (fold (child_step pre) ss [])"
    if "s \<in> set ss" "below pre s" for s
    using child_loop [of "[]" pre ss] that by (auto simp: below_child)
qed

lemma total_count_children:
  "total_count p n = self_count p n + sum_list (map (total_count p) (children p n))"
proof -
  have split: "sum_list (map ss_count (filter (\<lambda>s. prefix pre (rev (ss_stack s))) ss)) =
      sum_list (map ss_count (filter (\<lambda>s. rev (ss_stack s) = pre) ss))
      + sum_list (map ss_count (filter (below pre) ss))" for pre ss
    by (induction ss) (auto simp: below_def prefix_order.le_less)
  have same_length: "(length (ss_stack s) = length pre \<and> rev (ss_stack s) = pre)
      = (rev (ss_stack s) = pre)" for s pre
    by auto
  show ?thesis
    using split [of "tn_prefix n" "sp_samples p"] below_sum [of "tn_prefix n" "sp_samples p"]
    by (simp add: total_count_def self_count_def children_def comp_def Let_def same_length)
qed

lemma total_count_roots:
  "sum_list (map (total_count p) (roots p)) =
     sum_list (map ss_count (filter (\<lambda>s. ss_stack s \<noteq> []) (sp_samples p)))"
  using below_sum [of "[]" "sp_samples p"]
  by (simp add: total_count_def roots_def comp_def root_child_step below_def [abs_def]
      strict_prefix_def eq_commute [of "[]"])

section \<open>From the recording to the roots\<close>

text \<open>Without skipped addresses, the samples of a series carry all of its observations.\<close>

lemma samples_of_series_count:
  assumes "series_ok series"
  shows "sum_list (map ss_count (samples_of_series {} ((tid, stack), series)))
    = (if stack = [] then 0 else rs_count series)"
proof (cases "rs_timestamps series")
  case None
  then show ?thesis by (simp add: samples_of_series_def)
next
  case (Some ts)
  then have "unat (rs_count series) = length ts" using assms by (simp add: series_ok_def)
  then have "word_of_nat (length ts) = rs_count series" by (metis of_nat_unat ucast_id)
  then show ?thesis using Some by (simp add: samples_of_series_def comp_def sum_list_triv)
qed

lemma sum_list_samples: "sum_list (map w (concat (map g es))) = sum_list (map (\<lambda>e. sum_list (map w (g e))) es)"
  by (induction es) simp_all

lemma samples_nonempty: "s \<in> set (samples_of_series sk e) \<Longrightarrow> ss_stack s \<noteq> []"
  by (cases e) (auto dest: samples_of_series_stack)

section \<open>Properties\<close>

text \<open>every sample of a symbolicated profile has a stack, and each address left in it has
  its frame in the table: the symbolizer's, or the hexadecimal name where nothing is known and
  unresolved addresses are kept.\<close>

theorem samples_have_frames:
  assumes "s \<in> set (sp_samples (from_raw_with_symbolizer raw symbolize u freq wall))"
  shows "ss_stack s \<noteq> [] \<and> (\<forall>a\<in>set (ss_stack s).
    sp_frames (from_raw_with_symbolizer raw symbolize u freq wall) a = frame_of symbolize u a
      \<and> frame_of symbolize u a \<noteq> None)"
  by (rule from_raw_stacks [OF assms])

theorem samples_have_frames_witness:
  "sp_frames (from_raw_with_symbolizer (demo_raw [5]) Map.empty Hex 99 0) 16 \<noteq> None"
proof -
  have "\<lparr>ss_thread_id = 1, ss_stack = [16], ss_count = 1, ss_timestamp = Some 5\<rparr>
      \<in> set (sp_samples (from_raw_with_symbolizer (demo_raw [5]) Map.empty Hex 99 0))"
    by (simp add: from_raw_with_symbolizer_def symbolize_addresses_def demo_raw_def all_addresses_def
        frame_step_def samples_of_series_def series_timed_def)
  from samples_have_frames [OF this] show ?thesis by simp
qed

text \<open>in the call tree the total of a node is its own count plus the totals of its children.\<close>

theorem total_is_self_plus_children:
  "total_count p n = self_count p n + sum_list (map (total_count p) (children p n))"
  by (rule total_count_children)

text \<open>C27: when unresolved addresses are kept, the totals at the roots of the call tree add up to
  the observations of the recording (in \<open>u64\<close>): symbolication and the tree lose none.\<close>

theorem roots_conserve_observations:
  assumes "raw_ok raw"
  shows "sum_list (map (total_count (from_raw_with_symbolizer raw symbolize Hex freq wall))
      (roots (from_raw_with_symbolizer raw symbolize Hex freq wall)))
    = sum_list (map (\<lambda>((_, stack), series). if stack = [] then 0 else rs_count series) (rp_stacks raw))"
proof -
  define p where "p = from_raw_with_symbolizer raw symbolize Hex freq wall"
  have none: "{a \<in> set (all_addresses raw). frame_of symbolize Hex a = None} = {}"
    by (simp add: frame_of_def split: option.split)
  have samples: "sp_samples p = concat (map (samples_of_series {}) (rp_stacks raw))"
    by (simp add: p_def from_raw_with_symbolizer_def symbolize_addresses_eq none)
  then have "filter (\<lambda>s. ss_stack s \<noteq> []) (sp_samples p) = sp_samples p"
    using samples_nonempty by (auto simp: filter_id_conv)
  then have "sum_list (map (total_count p) (roots p)) = sum_list (map ss_count (sp_samples p))"
    by (simp add: total_count_roots)
  also have "\<dots> = sum_list (map (\<lambda>e. sum_list (map ss_count (samples_of_series {} e))) (rp_stacks raw))"
    by (simp add: samples sum_list_samples)
  also have "\<dots> = sum_list (map (\<lambda>((_, stack), series). if stack = [] then 0 else rs_count series)
      (rp_stacks raw))"
    using assms by (intro arg_cong [of _ _ sum_list] map_cong)
      (auto simp: raw_ok_def list_all_iff samples_of_series_count)
  finally show ?thesis by (simp add: p_def)
qed

theorem roots_conserve_observations_witness:
  "sum_list (map (total_count (from_raw_with_symbolizer (demo_raw [5, 6]) Map.empty Hex 99 0))
      (roots (from_raw_with_symbolizer (demo_raw [5, 6]) Map.empty Hex 99 0))) = 2"
  using roots_conserve_observations [of "demo_raw [5, 6]" Map.empty 99 0] demo_raw_ok [of "[5, 6]"]
  by (simp add: timed_ok_def demo_raw_def series_timed_def)

end
