(* ===== verification/Encode.thy ===== *)
theory Encode
  imports Pprof_View Symbolicated
begin

text \<open>
  The CPU profile builder (\<open>src/encode.rs\<close>, \<open>build_proto\<close>): strings are interned, functions
  and locations deduplicated by address and numbered from one, samples given their labels and
  their two values. The size of a file on disk (\<open>std::fs::metadata\<close>) is the parameter
  \<open>file_size\<close>.
\<close>

section \<open>The builder\<close>

text \<open>The state of the loops: the \<open>ProfileEncoder\<close> and the two maps from addresses to identifiers.\<close>

record encoder =
  en_profile :: profile
  en_func_ids :: "u64 \<rightharpoonup> u64"
  en_loc_ids :: "u64 \<rightharpoonup> u64"

definition word_min_i64 :: "u64 \<Rightarrow> i64" where
  "word_min_i64 n = min n 0x7FFFFFFFFFFFFFFF"

definition memory_limit :: "(string \<Rightarrow> u64 option) \<Rightarrow> loaded_image list \<Rightarrow> nat \<Rightarrow> loaded_image
    \<Rightarrow> u64" where
  "memory_limit file_size images index img =
     (if index + 1 < length images then im_load_address (images ! (index + 1))
      else
        (case file_size (im_path img) of
           Some n \<Rightarrow> saturating_add_u64 (im_load_address img) n
         | None \<Rightarrow> saturating_add_u64 (im_load_address img) 1))"

definition mapping_step :: "(string \<Rightarrow> u64 option) \<Rightarrow> loaded_image list \<Rightarrow> nat \<Rightarrow> profile \<Rightarrow> profile" where
  "mapping_step file_size images index p =
     (let img = images ! index;
          (filename, p) = profile_intern p (im_path img)
      in p\<lparr>p_mappings := p_mappings p @
            [mp_default\<lparr>mp_id := word_of_nat (index + 1),
              mp_memory_start := im_load_address img,
              mp_memory_limit := memory_limit file_size images index img,
              mp_file_offset := 0, mp_filename := filename, mp_build_id := 0\<rparr>]\<rparr>)"

text \<open>The inner \<open>or_insert_with\<close>: the function of an address.\<close>

definition encode_function :: "u64 \<Rightarrow> stack_frame \<Rightarrow> encoder \<Rightarrow> u64 \<times> encoder" where
  "encode_function addr frame en =
     (case en_func_ids en addr of
        Some fid \<Rightarrow> (fid, en)
      | None \<Rightarrow>
        let p = en_profile en;
            fid = word_of_nat (length (p_functions p) + 1);
            (name_idx, p) = profile_intern p (sf_function frame);
            (file_idx, p) = profile_intern p (sf_file frame);
            p = p\<lparr>p_functions := p_functions p @
                  [\<lparr>fn_id = fid, fn_name = name_idx, fn_system_name = name_idx,
                    fn_filename = file_idx, fn_start_line = 0\<rparr>]\<rparr>
        in (fid, en\<lparr>en_profile := p, en_func_ids := (en_func_ids en)(addr \<mapsto> fid)\<rparr>))"

definition encode_location :: "loaded_image list \<Rightarrow> u64 \<Rightarrow> stack_frame \<Rightarrow> encoder \<Rightarrow> u64 \<times> encoder" where
  "encode_location images addr frame en =
     (case en_loc_ids en addr of
        Some lid \<Rightarrow> (lid, en)
      | None \<Rightarrow>
        let (func_id, en) = encode_function addr frame en;
            p = en_profile en;
            lid = word_of_nat (length (p_locations p) + 1);
            p = p\<lparr>p_locations := p_locations p @
                  [loc_default\<lparr>loc_id := lid,
                    loc_mapping_id :=
                      word_of_nat (partition_point (\<lambda>img. im_load_address img \<le> addr) images),
                    loc_address := addr,
                    loc_lines := [ln_default\<lparr>ln_function_id := func_id, ln_line := ucast (sf_line frame)\<rparr>]\<rparr>]\<rparr>
        in (lid, en\<lparr>en_profile := p, en_loc_ids := (en_loc_ids en)(addr \<mapsto> lid)\<rparr>))"

fun encode_stack :: "(u64 \<rightharpoonup> stack_frame) \<Rightarrow> loaded_image list \<Rightarrow> u64 list \<Rightarrow> encoder
    \<Rightarrow> u64 list \<times> encoder" where
  "encode_stack frames images [] en = ([], en)"
| "encode_stack frames images (addr # addrs) en =
     (case frames addr of
        None \<Rightarrow> encode_stack frames images addrs en
      | Some frame \<Rightarrow>
          let (lid, en) = encode_location images addr frame en;
              (lids, en) = encode_stack frames images addrs en
          in (lid # lids, en))"

text \<open>The strings interned before anything else, by the role of their identifier.\<close>

record encode_keys =
  k_samples :: u64
  k_count :: u64
  k_wall :: u64
  k_nanoseconds :: u64
  k_thread_id :: u64
  k_thread_name :: u64
  k_timestamp :: u64
  k_nanoseconds_label :: u64

definition sample_labels :: "encode_keys \<Rightarrow> (u64 \<times> string) list \<Rightarrow> sym_sample \<Rightarrow> profile
    \<Rightarrow> label list \<times> profile" where
  "sample_labels k threads s p =
     (let thread_name = (case map_of threads (ss_thread_id s) of None \<Rightarrow> [] | Some n \<Rightarrow> n);
          labels = [\<lparr>lb_key = k_thread_id k, lb_str_index = 0, lb_num = ss_thread_id s,
                     lb_num_unit = 0\<rparr>];
          (labels, p) =
            (if thread_name \<noteq> [] then
               let (name_idx, p) = profile_intern p thread_name in
               (labels @ [\<lparr>lb_key = k_thread_name k, lb_str_index = name_idx, lb_num = 0,
                           lb_num_unit = 0\<rparr>], p)
             else (labels, p))
      in (case ss_timestamp s of
            None \<Rightarrow> labels
          | Some t \<Rightarrow> labels @ [\<lparr>lb_key = k_timestamp k, lb_str_index = 0, lb_num = word_min_i64 t,
                                 lb_num_unit = k_nanoseconds_label k\<rparr>], p))"

definition encode_sample :: "encode_keys \<Rightarrow> i64 \<Rightarrow> symbolicated_profile \<Rightarrow> loaded_image list
    \<Rightarrow> sym_sample \<Rightarrow> encoder \<Rightarrow> encoder" where
  "encode_sample k period_ns sp images s en =
     (let (location_ids, en) = encode_stack (sp_frames sp) images (ss_stack s) en in
      if location_ids = [] then en
      else
        let (labels, p) = sample_labels k (sp_threads sp) s (en_profile en);
            count = word_min_i64 (ss_count s)
        in en\<lparr>en_profile := p\<lparr>p_samples := p_samples p @
                [\<lparr>sm_location_ids = location_ids,
                  sm_values = [count, saturating_mul count period_ns], sm_labels = labels\<rparr>]\<rparr>\<rparr>)"

definition encode_strings :: "profile \<Rightarrow> encode_keys \<times> profile" where
  "encode_strings p =
     (let (s_samples, p) = profile_intern p ''samples'';
          (s_count, p) = profile_intern p ''count'';
          (s_wall, p) = profile_intern p ''wall'';
          (s_nanoseconds, p) = profile_intern p ''nanoseconds'';
          (s_thread_id, p) = profile_intern p ''thread_id'';
          (s_thread_name, p) = profile_intern p ''thread_name'';
          (s_timestamp, p) = profile_intern p ''pprofessor::timestamp'';
          (s_nanoseconds_label, p) = profile_intern p ''nanoseconds''
      in (\<lparr>k_samples = s_samples, k_count = s_count, k_wall = s_wall,
           k_nanoseconds = s_nanoseconds, k_thread_id = s_thread_id,
           k_thread_name = s_thread_name, k_timestamp = s_timestamp,
           k_nanoseconds_label = s_nanoseconds_label\<rparr>, p))"

definition encode_header :: "symbolicated_profile \<Rightarrow> i64 \<Rightarrow> encode_keys \<Rightarrow> profile \<Rightarrow> profile" where
  "encode_header sp period_ns k p =
     p\<lparr>p_value_types := p_value_types p @
         [\<lparr>vt_type = k_samples k, vt_unit = k_count k\<rparr>,
          \<lparr>vt_type = k_wall k, vt_unit = k_nanoseconds k\<rparr>],
       p_period_type := \<lparr>vt_type = k_wall k, vt_unit = k_nanoseconds k\<rparr>,
       p_period := period_ns,
       p_duration_nanos := word_of_nat (sp_duration sp),
       p_time_nanos := word_of_int (max 0 (sp_start_time sp))\<rparr>"

text \<open>The division by \<open>freq_hz\<close> panics when it is zero.\<close>

definition build_profile :: "(string \<Rightarrow> u64 option) \<Rightarrow> symbolicated_profile \<Rightarrow> profile result" where
  "build_profile file_size sp =
     (if sp_freq_hz sp = 0 then Inl Panic
      else
        let (k, p) = encode_strings profile_new;
            period_ns = word_of_int (1000000000 div uint (sp_freq_hz sp));
            p = encode_header sp period_ns k p;
            images = sort_key im_load_address (sp_images sp);
            p = fold (mapping_step file_size images) [0..<length images] p;
            en = fold (encode_sample k period_ns sp images) (sp_samples sp)
              \<lparr>en_profile = p, en_func_ids = Map.empty, en_loc_ids = Map.empty\<rparr>
        in Inr (en_profile en))"

definition build_proto :: "(string \<Rightarrow> u64 option) \<Rightarrow> symbolicated_profile \<Rightarrow> u8 list result" where
  "build_proto file_size sp = bindr (build_profile file_size sp) (\<lambda>p. Inr (profile_encode p))"

section \<open>Locations mean their frames\<close>

type_synonym frame_view = "u64 \<times> (string \<times> string \<times> i64) list"

definition view :: "stack_frame \<Rightarrow> frame_view" where
  "view f = (sf_address f, [(sf_function f, sf_file f, ucast (sf_line f))])"

definition encoder_small :: "encoder \<Rightarrow> bool" where
  "encoder_small en \<longleftrightarrow> st_small (p_strings (en_profile en))
     \<and> length (p_functions (en_profile en)) < 2 ^ 64 \<and> length (p_locations (en_profile en)) < 2 ^ 64"

text \<open>
  The invariant of the loops: identifiers are consecutive, and every identifier in the map of
  locations resolves, through the tables built so far, to the frame of its address.
\<close>

definition encoder_ok :: "(u64 \<rightharpoonup> stack_frame) \<Rightarrow> encoder \<Rightarrow> bool" where
  "encoder_ok frames en \<longleftrightarrow>
     st_ok (p_strings (en_profile en))
     \<and> numbered (map fn_id (p_functions (en_profile en)))
     \<and> numbered (map loc_id (p_locations (en_profile en)))
     \<and> (\<forall>a. en_loc_ids en a = None \<longrightarrow> en_func_ids en a = None)
     \<and> (\<forall>a lid. en_loc_ids en a = Some lid \<longrightarrow>
          (\<exists>f. frames a = Some f \<and> resolve_location (en_profile en) lid = Some (view f)))"

definition frames_ok :: "(u64 \<rightharpoonup> stack_frame) \<Rightarrow> bool" where
  "frames_ok frames \<longleftrightarrow> (\<forall>a f. frames a = Some f \<longrightarrow> sf_address f = a)"

lemma encode_function_new:
  assumes "en_func_ids en addr = None"
  obtains p fid where "encode_function addr frame en =
      (fid, en\<lparr>en_profile := p, en_func_ids := (en_func_ids en)(addr \<mapsto> fid)\<rparr>)"
    "fid = word_of_nat (Suc (length (p_functions (en_profile en))))"
    "extends (en_profile en) p"
    "p_locations p = p_locations (en_profile en)" "p_samples p = p_samples (en_profile en)"
    "map fn_id (p_functions p) = map fn_id (p_functions (en_profile en)) @ [fid]"
    "st_ok (p_strings (en_profile en)) \<longrightarrow> st_ok (p_strings p)"
    "st_ok (p_strings (en_profile en)) \<longrightarrow> st_small (p_strings p) \<longrightarrow>
       numbered (map fn_id (p_functions (en_profile en))) \<longrightarrow> length (p_functions p) < 2 ^ 64 \<longrightarrow>
       resolve_function p fid = Some (sf_function frame, sf_file frame)"
proof -
  let ?p0 = "en_profile en"
  define fid :: u64 where "fid = word_of_nat (Suc (length (p_functions ?p0)))"
  define p1 where "p1 = snd (profile_intern ?p0 (sf_function frame))"
  define p2 where "p2 = snd (profile_intern p1 (sf_file frame))"
  define n where "n = fst (profile_intern ?p0 (sf_function frame))"
  define m where "m = fst (profile_intern p1 (sf_file frame))"
  define fn where "fn = \<lparr>fn_id = fid, fn_name = n, fn_system_name = n, fn_filename = m, fn_start_line = 0\<rparr>"
  define p where "p = p2\<lparr>p_functions := p_functions p2 @ [fn]\<rparr>"
  have eq: "encode_function addr frame en =
      (fid, en\<lparr>en_profile := p, en_func_ids := (en_func_ids en)(addr \<mapsto> fid)\<rparr>)"
    using assms by (simp add: encode_function_def Let_def split_beta p_def fn_def n_def m_def
        p2_def p1_def fid_def)
  have same: "p_functions p2 = p_functions ?p0" "p_locations p2 = p_locations ?p0"
      "p_samples p2 = p_samples ?p0"
    by (simp_all add: p2_def p1_def profile_intern_def split_beta Let_def)
  have ext: "extends ?p0 p2"
    using extends_trans [OF extends_intern extends_intern] by (simp add: p2_def p1_def)
  have "extends p2 p" by (simp add: p_def extends_def)
  with ext have ext': "extends ?p0 p" by (rule extends_trans)
  have ok: "st_ok (p_strings ?p0) \<longrightarrow> st_ok (p_strings p)"
    by (auto simp: p_def p2_def p1_def intro: profiles.ok_intern)
  have res: "resolve_function p fid = Some (sf_function frame, sf_file frame)"
    if "st_ok (p_strings ?p0)" "st_small (p_strings p)" "numbered (map fn_id (p_functions ?p0))"
      "length (p_functions p) < 2 ^ 64"
  proof -
    have small: "st_small (p_strings p2)" using that(2) by (simp add: p_def)
    have ok1: "st_ok (p_strings p1)" using that(1) by (auto simp: p1_def intro: profiles.ok_intern)
    have small1: "st_small (p_strings p1)" using small profiles.small_intern by (simp add: p2_def)
    have m: "profile_get p2 m = Some (sf_file frame)"
      using profiles.get_intern [OF ok1] small by (simp add: m_def p2_def)
    have "profile_get p1 n = Some (sf_function frame)"
      using profiles.get_intern [OF that(1)] small1 by (simp add: n_def p1_def)
    then have n: "profile_get p2 n = Some (sf_function frame)"
      using profiles.get_stable by (simp add: p2_def)
    have "find (\<lambda>f. fn_id f = fid) (p_functions p) = Some fn"
      using find_numbered_snoc [OF that(3), of fn] that(4)
      by (simp add: p_def same fn_def fid_def del: of_nat_Suc)
    then show ?thesis
      using m n by (simp add: resolve_function_def fn_def profile_get_def p_def)
  qed
  show thesis
    by (rule that [OF eq fid_def ext']) (use ok res in \<open>simp_all add: p_def same fn_def\<close>)
qed


lemma encoder_small_extends:
  "extends (en_profile a) (en_profile b) \<Longrightarrow> encoder_small b \<Longrightarrow> encoder_small a"
  by (auto simp: encoder_small_def intro: small_extends)
     (auto simp: extends_def dest!: prefix_length_le)

lemma resolve_location_new:
  assumes "numbered (map loc_id (p_locations p))" and "length (p_locations p) + 1 < 2 ^ 64"
    and "loc_id l = word_of_nat (Suc (length (p_locations p)))"
  shows "resolve_location (p\<lparr>p_locations := p_locations p @ [l]\<rparr>) (loc_id l)
    = map_option (Pair (loc_address l)) (those (map (resolve_line p) (loc_lines l)))"
proof -
  have "resolve_line (p\<lparr>p_locations := ls\<rparr>) = resolve_line p" for ls
    by (auto simp: fun_eq_iff resolve_line_def resolve_function_def profile_get_def
        split: option.splits)
  then show ?thesis
    using find_numbered_snoc [OF assms] assms(3)
    by (simp add: resolve_location_def del: of_nat_Suc)
qed

lemma encode_function_extends:
  "extends (en_profile en) (en_profile (snd (encode_function addr frame en)))
   \<and> p_samples (en_profile (snd (encode_function addr frame en))) = p_samples (en_profile en)"
proof (cases "en_func_ids en addr")
  case None
  then obtain p fid where "encode_function addr frame en =
      (fid, en\<lparr>en_profile := p, en_func_ids := (en_func_ids en)(addr \<mapsto> fid)\<rparr>)"
    "extends (en_profile en) p" "p_samples p = p_samples (en_profile en)"
    by (rule encode_function_new)
  then show ?thesis by simp
qed (simp add: encode_function_def)

lemma encode_location_extends:
  "extends (en_profile en) (en_profile (snd (encode_location images addr frame en)))
   \<and> p_samples (en_profile (snd (encode_location images addr frame en))) = p_samples (en_profile en)"
proof (cases "en_loc_ids en addr")
  case None
  have push: "extends p q \<Longrightarrow> extends p (q\<lparr>p_locations := p_locations q @ ls\<rparr>)" for p q ls
    by (auto simp: extends_def intro: prefix_order.trans)
  then show ?thesis
    using None encode_function_extends [of en addr frame]
    by (simp add: encode_location_def split_beta Let_def)
qed (simp add: encode_location_def)

lemma encode_location_correct:
  assumes ok: "encoder_ok frames en" and frame: "frames addr = Some frame" "sf_address frame = addr"
    and en': "encode_location images addr frame en = (lid, en')" and small: "encoder_small en'"
  shows "encoder_ok frames en' \<and> resolve_location (en_profile en') lid = Some (view frame)"
proof (cases "en_loc_ids en addr")
  case None
  then have "en_func_ids en addr = None" using ok by (simp add: encoder_ok_def)
  then obtain p fid where fn: "encode_function addr frame en =
      (fid, en\<lparr>en_profile := p, en_func_ids := (en_func_ids en)(addr \<mapsto> fid)\<rparr>)"
    and fid: "fid = word_of_nat (Suc (length (p_functions (en_profile en))))"
    and ext: "extends (en_profile en) p" and locs: "p_locations p = p_locations (en_profile en)"
    and ids: "map fn_id (p_functions p) = map fn_id (p_functions (en_profile en)) @ [fid]"
    and st: "st_ok (p_strings (en_profile en)) \<longrightarrow> st_ok (p_strings p)"
    and res: "st_ok (p_strings (en_profile en)) \<longrightarrow> st_small (p_strings p) \<longrightarrow>
       numbered (map fn_id (p_functions (en_profile en))) \<longrightarrow> length (p_functions p) < 2 ^ 64 \<longrightarrow>
       resolve_function p fid = Some (sf_function frame, sf_file frame)"
    by (rule encode_function_new)
  define l where "l = loc_default\<lparr>loc_id := lid,
    loc_mapping_id := word_of_nat (partition_point (\<lambda>img. im_load_address img \<le> addr) images),
    loc_address := addr,
    loc_lines := [ln_default\<lparr>ln_function_id := fid, ln_line := ucast (sf_line frame)\<rparr>]\<rparr>"
  define q where "q = p\<lparr>p_locations := p_locations p @ [l]\<rparr>"
  have lid: "lid = word_of_nat (Suc (length (p_locations p)))"
    and en'_eq: "en' = en\<lparr>en_profile := q, en_func_ids := (en_func_ids en)(addr \<mapsto> fid),
      en_loc_ids := (en_loc_ids en)(addr \<mapsto> lid)\<rparr>"
    using en' None fn by (simp_all add: encode_location_def Let_def q_def l_def) auto
  have numbered: "numbered (map loc_id (p_locations p))"
    using ok locs by (simp add: encoder_ok_def)
  have "st_small (p_strings p)" "length (p_functions p) < 2 ^ 64" "length (p_locations p) + 1 < 2 ^ 64"
    using small by (simp_all add: encoder_small_def en'_eq q_def)
  then have "resolve_location q lid = Some (view frame)"
    using resolve_location_new [OF numbered, of l] res ok lid frame(2)
    by (simp add: q_def l_def encoder_ok_def resolve_line_def view_def ln_default_def)
  moreover have "extends (en_profile en) q"
    using ext by (auto simp: extends_def q_def locs)
  then have "resolve_location q i = Some x" if "resolve_location (en_profile en) i = Some x" for i x
    using that by (rule resolve_location_extends)
  then have "\<exists>f. frames a = Some f \<and> resolve_location q i = Some (view f)"
    if "en_loc_ids en a = Some i" for a i
    using ok that unfolding encoder_ok_def by blast
  moreover have "st_ok (p_strings q)" using ok st by (simp add: encoder_ok_def q_def)
  moreover have "numbered (map loc_id (p_locations q))" "map fn_id (p_functions q) =
      map fn_id (p_functions (en_profile en)) @ [fid]"
    using numbered lid by (simp_all add: q_def l_def ids del: of_nat_Suc)
  ultimately show ?thesis
    using ok frame(1) fid by (simp add: encoder_ok_def en'_eq del: of_nat_Suc)
next
  case (Some i)
  then have "\<exists>f. frames addr = Some f \<and> resolve_location (en_profile en) i = Some (view f)"
    using ok unfolding encoder_ok_def by blast
  then show ?thesis using Some ok en' frame(1) by (simp add: encode_location_def)
qed

lemma encode_stack_extends:
  "extends (en_profile en) (en_profile (snd (encode_stack frames images addrs en)))
   \<and> p_samples (en_profile (snd (encode_stack frames images addrs en))) = p_samples (en_profile en)"
proof (induction addrs arbitrary: en)
  case (Cons a addrs)
  show ?case
  proof (cases "frames a")
    case (Some f)
    then show ?thesis
      using encode_location_extends [of en images a f]
        Cons.IH [of "snd (encode_location images a f en)"]
      by (auto simp: Let_def split_beta intro: extends_trans)
  qed (simp add: Cons.IH)
qed simp

lemma encode_stack_correct:
  assumes "encoder_ok frames en" and "frames_ok frames"
    and "encode_stack frames images addrs en = (lids, en')" and "encoder_small en'"
  shows "encoder_ok frames en'
    \<and> map (resolve_location (en_profile en')) lids = map (Some \<circ> view) (List.map_filter frames addrs)"
  using assms
proof (induction addrs arbitrary: en lids)
  case (Cons a addrs)
  show ?case
  proof (cases "frames a")
    case None
    then show ?thesis using Cons by (simp add: List.map_filter_simps)
  next
    case (Some f)
    obtain lid en1 where lid: "encode_location images a f en = (lid, en1)"
      by (cases "encode_location images a f en")
    obtain lids' where rest: "encode_stack frames images addrs en1 = (lids', en')"
      and lids: "lids = lid # lids'"
      using Cons.prems(3) Some lid by (auto simp: Let_def split: prod.splits)
    have ext: "extends (en_profile en1) (en_profile en')"
      using encode_stack_extends [of en1 frames images addrs] rest by simp
    have "sf_address f = a" using Cons.prems(2) Some by (simp add: frames_ok_def)
    then have "encoder_ok frames en1 \<and> resolve_location (en_profile en1) lid = Some (view f)"
      using encode_location_correct [OF Cons.prems(1) Some _ lid]
        encoder_small_extends [OF ext Cons.prems(4)] by blast
    then show ?thesis
      using Cons.IH [OF _ Cons.prems(2) rest Cons.prems(4)] resolve_location_extends [OF ext] Some
      by (simp add: lids List.map_filter_simps)
  qed
qed (simp add: List.map_filter_simps)


section \<open>Samples\<close>

text \<open>What a sample of the profile says: its frames, its values and its thread.\<close>

definition sample_view :: "profile \<Rightarrow> sample \<Rightarrow> frame_view option list \<times> i64 list" where
  "sample_view p s = (map (resolve_location p) (sm_location_ids s), sm_values s)"

definition expected_view :: "i64 \<Rightarrow> symbolicated_profile \<Rightarrow> sym_sample
    \<Rightarrow> frame_view option list \<times> i64 list" where
  "expected_view period_ns sp s =
     (map (Some \<circ> view) (resolve_stack sp s),
      [word_min_i64 (ss_count s), saturating_mul (word_min_i64 (ss_count s)) period_ns])"

lemma sample_view_extends:
  assumes "extends p q" and "sample_view p s = expected_view n sp t"
  shows "sample_view q s = expected_view n sp t"
proof -
  have "map (resolve_location p) ids = map (Some \<circ> view) fs \<Longrightarrow>
      map (resolve_location q) ids = map (Some \<circ> view) fs" for ids fs
    by (induction ids arbitrary: fs) (auto simp: Cons_eq_map_conv intro: resolve_location_extends [OF assms(1)])
  then show ?thesis using assms(2) by (simp add: sample_view_def expected_view_def)
qed

lemma sample_views_extends:
  "extends p q \<Longrightarrow> map (sample_view p) xs = map (expected_view n sp) ys \<Longrightarrow>
     map (sample_view q) xs = map (expected_view n sp) ys"
  by (induction xs arbitrary: ys) (auto simp: Cons_eq_map_conv intro: sample_view_extends)

lemma sample_labels_extends:
  "extends p (snd (sample_labels k threads s p))
   \<and> p_samples (snd (sample_labels k threads s p)) = p_samples p
   \<and> p_functions (snd (sample_labels k threads s p)) = p_functions p
   \<and> p_locations (snd (sample_labels k threads s p)) = p_locations p
   \<and> (st_ok (p_strings p) \<longrightarrow> st_ok (p_strings (snd (sample_labels k threads s p))))"
  using extends_intern profiles.ok_intern
  by (auto simp: sample_labels_def Let_def split_beta) (simp_all add: profile_intern_def split_beta)

text \<open>The state after the samples \<open>ss\<close>: what was built, against what was asked for.\<close>

definition built :: "i64 \<Rightarrow> symbolicated_profile \<Rightarrow> sym_sample list \<Rightarrow> encoder \<Rightarrow> bool" where
  "built n sp ss en \<longleftrightarrow> encoder_ok (sp_frames sp) en
     \<and> map (sample_view (en_profile en)) (p_samples (en_profile en))
       = map (expected_view n sp) (filter (\<lambda>s. resolve_stack sp s \<noteq> []) ss)"

lemma encode_sample_extends:
  "extends (en_profile en) (en_profile (encode_sample k n sp images s en))"
proof -
  obtain lids en1 where stack: "encode_stack (sp_frames sp) images (ss_stack s) en = (lids, en1)"
    by (cases "encode_stack (sp_frames sp) images (ss_stack s) en")
  obtain ls p where labels: "sample_labels k (sp_threads sp) s (en_profile en1) = (ls, p)"
    by (cases "sample_labels k (sp_threads sp) s (en_profile en1)")
  have "extends (en_profile en) (en_profile en1)"
    using encode_stack_extends [of en "sp_frames sp" images "ss_stack s"] stack by simp
  moreover have "extends (en_profile en1) p"
    using sample_labels_extends [of "en_profile en1" k "sp_threads sp" s] labels by simp
  ultimately show ?thesis
    by (auto simp: encode_sample_def stack labels Let_def extends_def intro: prefix_order.trans)
qed

lemma encode_sample_built:
  assumes "built n sp ss en" and "frames_ok (sp_frames sp)"
    and "encoder_small (encode_sample k n sp images s en)"
  shows "built n sp (ss @ [s]) (encode_sample k n sp images s en)"
proof -
  obtain lids en1 where stack: "encode_stack (sp_frames sp) images (ss_stack s) en = (lids, en1)"
    by (cases "encode_stack (sp_frames sp) images (ss_stack s) en")
  obtain ls p where labels: "sample_labels k (sp_threads sp) s (en_profile en1) = (ls, p)"
    by (cases "sample_labels k (sp_threads sp) s (en_profile en1)")
  let ?en = "encode_sample k n sp images s en"
  have en: "?en = (if lids = [] then en1 else en1\<lparr>en_profile := p\<lparr>p_samples := p_samples p @
      [\<lparr>sm_location_ids = lids, sm_values = [word_min_i64 (ss_count s),
         saturating_mul (word_min_i64 (ss_count s)) n], sm_labels = ls\<rparr>]\<rparr>\<rparr>)"
    by (simp add: encode_sample_def stack labels Let_def)
  have ext1: "extends (en_profile en) (en_profile en1)"
    and samples1: "p_samples (en_profile en1) = p_samples (en_profile en)"
    using encode_stack_extends [of en "sp_frames sp" images "ss_stack s"] stack by auto
  have ext2: "extends (en_profile en1) p" and same: "p_samples p = p_samples (en_profile en1)"
      "p_functions p = p_functions (en_profile en1)" "p_locations p = p_locations (en_profile en1)"
    and st: "st_ok (p_strings (en_profile en1)) \<longrightarrow> st_ok (p_strings p)"
    using sample_labels_extends [of "en_profile en1" k "sp_threads sp" s] labels by auto
  have ext2': "extends (en_profile en1) (en_profile ?en)"
    using ext2 by (auto simp: en extends_def)
  have "encoder_small en1" by (rule encoder_small_extends [OF ext2' assms(3)])
  then have ok: "encoder_ok (sp_frames sp) en1"
    and res: "map (resolve_location (en_profile en1)) lids = map (Some \<circ> view) (resolve_stack sp s)"
    using encode_stack_correct [OF _ assms(2) stack] assms(1) by (auto simp: built_def resolve_stack_def)
  have old: "map (sample_view (en_profile ?en)) (p_samples (en_profile en))
      = map (expected_view n sp) (filter (\<lambda>s. resolve_stack sp s \<noteq> []) ss)"
    by (rule sample_views_extends [OF encode_sample_extends]) (use assms(1) in \<open>simp add: built_def\<close>)
  show ?thesis
  proof (cases "lids = []")
    case True
    then show ?thesis
      using old ok res by (simp add: built_def en samples1)
  next
    case False
    then have "resolve_stack sp s \<noteq> []" using res by auto
    moreover have "encoder_ok (sp_frames sp) ?en"
      using ok st same False resolve_location_extends [OF ext2']
      unfolding encoder_ok_def by (simp add: en) blast
    moreover have "sample_view (en_profile ?en) (last (p_samples (en_profile ?en))) = expected_view n sp s"
      by (rule sample_view_extends [OF ext2'])
         (use res False in \<open>simp add: en sample_view_def expected_view_def\<close>)
    ultimately show ?thesis
      using old False by (simp add: built_def) (simp add: en same samples1)
  qed
qed

lemma encode_samples_built:
  assumes "built n sp pre en" and "frames_ok (sp_frames sp)"
    and "encoder_small (fold (encode_sample k n sp images) ss en)"
  shows "built n sp (pre @ ss) (fold (encode_sample k n sp images) ss en)"
  using assms
proof (induction ss arbitrary: en pre)
  case (Cons s ss)
  have later: "extends (en_profile e) (en_profile (fold (encode_sample k n sp images) ts e))" for e ts
    by (induction ts arbitrary: e) (auto intro: extends_trans encode_sample_extends)
  have "encoder_small (encode_sample k n sp images s en)"
    using encoder_small_extends [OF later] Cons.prems(3) by simp
  then have "built n sp (pre @ [s]) (encode_sample k n sp images s en)"
    by (rule encode_sample_built [OF Cons.prems(1,2)])
  then show ?case using Cons.IH [of "pre @ [s]"] Cons.prems by simp
qed simp

section \<open>The whole profile\<close>

lemma encode_strings_profile:
  assumes "st_ok (p_strings p)"
  obtains st where "snd (encode_strings p) = p\<lparr>p_strings := st\<rparr>" "st_ok st"
proof -
  have "snd (encode_strings p) = p\<lparr>p_strings := p_strings (snd (encode_strings p))\<rparr>
      \<and> st_ok (p_strings (snd (encode_strings p)))"
    using assms by (simp add: encode_strings_def profile_intern_def split_beta Let_def intern_st_ok)
  then show thesis using that by blast
qed

lemma mapping_steps:
  "p_samples (fold (mapping_step fs images) is p) = p_samples p
   \<and> p_functions (fold (mapping_step fs images) is p) = p_functions p
   \<and> p_locations (fold (mapping_step fs images) is p) = p_locations p
   \<and> (st_ok (p_strings p) \<longrightarrow> st_ok (p_strings (fold (mapping_step fs images) is p)))"
  by (induction "is" arbitrary: p)
     (simp_all add: mapping_step_def profile_intern_def split_beta Let_def intern_st_ok)

lemma build_profile_views:
  assumes "build_profile file_size sp = Inr p" and "frames_ok (sp_frames sp)"
    and "st_small (p_strings p)" and "length (p_functions p) < 2 ^ 64"
    and "length (p_locations p) < 2 ^ 64"
  shows "map (sample_view p) (p_samples p)
    = map (expected_view (word_of_int (1000000000 div uint (sp_freq_hz sp))) sp)
        (filter (\<lambda>s. resolve_stack sp s \<noteq> []) (sp_samples sp))"
proof -
  define n :: i64 where "n = word_of_int (1000000000 div uint (sp_freq_hz sp))"
  define images where "images = sort_key im_load_address (sp_images sp)"
  obtain k p0 where keys: "encode_strings profile_new = (k, p0)"
    by (cases "encode_strings profile_new")
  define p1 where "p1 = fold (mapping_step file_size images) [0..<length images] (encode_header sp n k p0)"
  define en0 where "en0 = \<lparr>en_profile = p1, en_func_ids = Map.empty, en_loc_ids = Map.empty\<rparr>"
  define en where "en = fold (encode_sample k n sp images) (sp_samples sp) en0"
  have p: "p = en_profile en"
    using assms(1) by (simp add: build_profile_def keys Let_def n_def images_def p1_def en0_def en_def
        split: if_splits)
  obtain st where "p0 = profile_new\<lparr>p_strings := st\<rparr>" "st_ok st"
    using encode_strings_profile [of profile_new] st_ok_new keys by (auto simp: profile_new_def)
  then have "built n sp [] en0"
    using mapping_steps [of file_size images "[0..<length images]" "encode_header sp n k p0"]
    by (simp add: built_def encoder_ok_def en0_def p1_def encode_header_def profile_new_def)
  then have "built n sp (sp_samples sp) en"
    using encode_samples_built [of n sp "[]" en0 k images "sp_samples sp"] assms(2-5) p
    by (simp add: en_def encoder_small_def)
  then show ?thesis by (simp add: built_def p n_def)
qed

section \<open>Properties\<close>

lemma from_raw_frames_ok: "frames_ok (sp_frames (from_raw_with_symbolizer raw symbolize u freq wall))"
  by (auto simp: frames_ok_def from_raw_with_symbolizer_def symbolize_addresses_eq frame_of_def
      split: if_splits option.splits)

lemma from_raw_resolve_stack:
  assumes "s \<in> set (sp_samples (from_raw_with_symbolizer raw symbolize u freq wall))"
  shows "resolve_stack (from_raw_with_symbolizer raw symbolize u freq wall) s
    = map (the \<circ> frame_of symbolize u) (ss_stack s)" and "ss_stack s \<noteq> []"
  using from_raw_stacks [OF assms] by (auto simp: resolve_stack_def intro!: map_filter_all)

text \<open>One observation of one frame without a name, for the witnesses.\<close>

lemma demo_symbolicated:
  "from_raw_with_symbolizer (demo_raw [5]) Map.empty Hex 100 0 =
     \<lparr>sp_images = [],
      sp_frames = [16 \<mapsto> \<lparr>sf_address = 16, sf_function = hex_name 16, sf_file = [], sf_line = 0\<rparr>],
      sp_threads = [],
      sp_samples = [\<lparr>ss_thread_id = 1, ss_stack = [16], ss_count = 1, ss_timestamp = Some 5\<rparr>],
      sp_start_time = 0, sp_duration = 10, sp_freq_hz = 100\<rparr>"
  by (simp add: from_raw_with_symbolizer_def symbolize_addresses_def demo_raw_def all_addresses_def
      frame_step_def samples_of_series_def series_timed_def)

lemma demo_build:
  "\<exists>p. build_profile (\<lambda>_. None) (from_raw_with_symbolizer (demo_raw [5]) Map.empty Hex 100 0) = Inr p
    \<and> st_small (p_strings p) \<and> length (p_functions p) < 2 ^ 64 \<and> length (p_locations p) < 2 ^ 64"
  by (simp add: demo_symbolicated build_profile_def encode_strings_def profile_intern_def
      profile_new_def st_new_def st_empty_def intern_def encode_header_def encode_sample_def
      encode_location_def encode_function_def sample_labels_def st_small_def Let_def hex_name_def)

text \<open>C7: from a recording to the profile that is written: whenever \<open>build_proto\<close>'s profile is
  built, its samples are those of the symbolicated profile in order, and each, looked up through
  the location, function and string tables, gives the addresses, names, files and lines of its
  stack, its count, and the count times the period.\<close>

theorem recording_to_profile:
  assumes "build_profile file_size (from_raw_with_symbolizer raw symbolize u freq wall) = Inr p"
    and "st_small (p_strings p)" and "length (p_functions p) < 2 ^ 64"
    and "length (p_locations p) < 2 ^ 64"
  shows "map (sample_view p) (p_samples p)
    = map (\<lambda>s. (map (\<lambda>a. Some (view (the (frame_of symbolize u a)))) (ss_stack s),
               [word_min_i64 (ss_count s), saturating_mul (word_min_i64 (ss_count s))
                  (word_of_int (1000000000 div uint freq))]))
        (sp_samples (from_raw_with_symbolizer raw symbolize u freq wall))"
proof -
  let ?sp = "from_raw_with_symbolizer raw symbolize u freq wall"
  have freq: "sp_freq_hz ?sp = freq"
    by (simp add: from_raw_with_symbolizer_def split_beta)
  have "filter (\<lambda>s. resolve_stack ?sp s \<noteq> []) (sp_samples ?sp) = sp_samples ?sp"
    using from_raw_resolve_stack by (simp add: filter_id_conv)
  then show ?thesis
    using build_profile_views [OF assms(1) from_raw_frames_ok assms(2-4)] from_raw_resolve_stack(1)
    by (simp add: expected_view_def freq)
qed

theorem recording_to_profile_witness:
  "\<exists>p. build_profile (\<lambda>_. None) (from_raw_with_symbolizer (demo_raw [5]) Map.empty Hex 100 0) = Inr p
     \<and> map (sample_view p) (p_samples p) = [([Some (16, [(hex_name 16, [], 0)])], [1, 10000000])]"
proof -
  obtain p where p: "build_profile (\<lambda>_. None) (from_raw_with_symbolizer (demo_raw [5]) Map.empty Hex 100 0) = Inr p"
    and small: "st_small (p_strings p)" "length (p_functions p) < 2 ^ 64" "length (p_locations p) < 2 ^ 64"
    using demo_build by blast
  show ?thesis
    using recording_to_profile [OF p small] p
    by (simp add: demo_symbolicated frame_of_def view_def word_min_i64_def saturating_mul_def
        sat_i64_def i64_clamp_def i64_min_def i64_max_def)
qed

end
