(* ===== verification/Stream.thy ===== *)
theory Stream
  imports Prelude
begin

text \<open>
  The session stream (\<open>src/stream.rs\<close>): frame kinds, the 28-byte big-endian header, and the
  \<open>SessionPublisher\<close> state machine that connects, greets, frames and disconnects.

  A \<open>TcpStream\<close> is the list of bytes written to it since it was opened. What the operating
  system and \<open>serde_json\<close> answer (does the connect succeed, does a write fail and after how
  many bytes) is a parameter, the record \<open>environment\<close>, which may differ in every call.
\<close>

section \<open>Frame kinds\<close>

datatype frame_kind =
    Hello | ProfileCheckpoint | ProfileDelta | Finalizing | FinalProfile | Failed | Heartbeat
  | Acknowledged | Stop | ProtocolError

fun frame_code :: "frame_kind \<Rightarrow> u16" where
  "frame_code Hello = 1"
| "frame_code ProfileCheckpoint = 2"
| "frame_code ProfileDelta = 3"
| "frame_code Finalizing = 4"
| "frame_code FinalProfile = 5"
| "frame_code Failed = 6"
| "frame_code Heartbeat = 7"
| "frame_code Acknowledged = 101"
| "frame_code Stop = 102"
| "frame_code ProtocolError = 103"

definition frame_kind_try_from :: "u16 \<Rightarrow> frame_kind result" where
  "frame_kind_try_from v =
     (if v = 1 then Inr Hello
      else if v = 2 then Inr ProfileCheckpoint
      else if v = 3 then Inr ProfileDelta
      else if v = 4 then Inr Finalizing
      else if v = 5 then Inr FinalProfile
      else if v = 6 then Inr Failed
      else if v = 7 then Inr Heartbeat
      else if v = 101 then Inr Acknowledged
      else if v = 102 then Inr Stop
      else if v = 103 then Inr ProtocolError
      else Inl UnknownFrameKind)"

lemma frame_kind_code [simp]: "frame_kind_try_from (frame_code k) = Inr k"
  by (cases k) (simp_all add: frame_kind_try_from_def)

lemma frame_code_kind: "frame_kind_try_from v = Inr k \<Longrightarrow> v = frame_code k"
  by (auto simp: frame_kind_try_from_def split: if_splits)

section \<open>Big-endian integers\<close>

text \<open>\<open>to_be_bytes\<close> and \<open>from_be_bytes\<close> of the integer types, \<open>n\<close> the number of bytes.\<close>

fun be_bytes :: "nat \<Rightarrow> 'a::len word \<Rightarrow> u8 list" where
  "be_bytes 0 w = []"
| "be_bytes (Suc n) w = be_bytes n (drop_bit 8 w) @ [ucast w]"

definition be_word :: "u8 list \<Rightarrow> 'a::len word" where
  "be_word bs = fold (\<lambda>b w. push_bit 8 w OR ucast b) bs 0"

lemma length_be_bytes [simp]: "length (be_bytes n w) = n"
  by (induction n arbitrary: w) simp_all

lemma be_word_Nil: "be_word [] = 0"
  by (simp add: be_word_def)

lemma be_word_snoc: "be_word (bs @ [b]) = push_bit 8 (be_word bs) OR ucast b"
  by (simp add: be_word_def)

lemma be_word_bytes_take: "(be_word (be_bytes n w) :: 'a::len word) = take_bit (8 * n) w"
proof (induction n arbitrary: w)
  case (Suc n)
  have "push_bit 8 (take_bit (8 * n) (drop_bit 8 w)) OR ucast (ucast w :: u8)
      = take_bit (8 * Suc n) w"
    by (rule bit_word_eqI) (auto simp: bit_simps)
  then show ?case by (simp add: be_word_snoc Suc)
qed (simp add: be_word_Nil)

lemma be_word_bytes:
  "LENGTH('a) \<le> 8 * n \<Longrightarrow> (be_word (be_bytes n w) :: 'a::len word) = w"
  by (simp add: be_word_bytes_take take_bit_word_eq_self)

lemma be_word_take_bit: "take_bit (8 * length bs) (be_word bs :: 'a::len word) = be_word bs"
proof (induction bs rule: rev_induct)
  case (snoc b bs)
  have "take_bit (8 * Suc (length bs)) (push_bit 8 w OR ucast b) = push_bit 8 w OR ucast b"
    if "take_bit (8 * length bs) w = w" for w :: "'a word"
  proof (rule bit_word_eqI)
    fix i assume i: "i < LENGTH('a)"
    have w: "\<not> bit w j" if "8 * length bs \<le> j" for j
      using \<open>take_bit (8 * length bs) w = w\<close> that by (metis bit_take_bit_iff not_less)
    then show "bit (take_bit (8 * Suc (length bs)) (push_bit 8 w OR ucast b)) i
        = bit (push_bit 8 w OR ucast b) i"
      using i w [of "i - 8"] bit_imp_le_length [of b i]
      by (cases "i < 8 + 8 * length bs") (auto simp: bit_simps)
  qed
  then show ?case using snoc by (simp add: be_word_snoc)
qed (simp add: be_word_Nil)

lemma be_bytes_word:
  "8 * length bs \<le> LENGTH('a) \<Longrightarrow> be_bytes (length bs) (be_word bs :: 'a::len word) = bs"
proof (induction bs rule: rev_induct)
  case (snoc b bs)
  have "drop_bit 8 (push_bit 8 w OR ucast b) = w" and "ucast (push_bit 8 w OR ucast b) = b"
    if "take_bit (8 * length bs) w = w" for w :: "'a word"
  proof -
    have w: "\<not> bit w j" if "8 * length bs \<le> j" for j
      using \<open>take_bit (8 * length bs) w = w\<close> that by (metis bit_take_bit_iff not_less)
    show "drop_bit 8 (push_bit 8 w OR ucast b) = w"
    proof (rule bit_word_eqI)
      fix i assume "i < LENGTH('a)"
      then show "bit (drop_bit 8 (push_bit 8 w OR ucast b)) i = bit w i"
        using w [of i] snoc.prems bit_imp_le_length [of b "8 + i"]
        by (cases "i < 8 * length bs") (auto simp: bit_simps)
    qed
    show "ucast (push_bit 8 w OR ucast b) = b"
      using snoc.prems by (intro bit_word_eqI) (auto simp: bit_simps)
  qed
  then show ?case using snoc be_word_take_bit [of bs, where ?'a = 'a] by (simp add: be_word_snoc)
qed simp

section \<open>The header\<close>

record stream_header =
  sh_major :: u16
  sh_minor :: u16
  sh_kind :: frame_kind
  sh_flags :: u16
  sh_sequence :: u64
  sh_payload_len :: u64

definition stream_header_len :: nat where
  "stream_header_len = 28"

definition magic :: "u8 list" where
  "magic = str_bytes ''PPRS''"

definition header_encode :: "stream_header \<Rightarrow> u8 list" where
  "header_encode h =
     magic @ be_bytes 2 (sh_major h) @ be_bytes 2 (sh_minor h)
       @ be_bytes 2 (frame_code (sh_kind h)) @ be_bytes 2 (sh_flags h)
       @ be_bytes 8 (sh_sequence h) @ be_bytes 8 (sh_payload_len h)"

text \<open>\<open>&bytes[a..b]\<close>.\<close>

definition slice :: "nat \<Rightarrow> nat \<Rightarrow> 'a list \<Rightarrow> 'a list" where
  "slice a b xs = take (b - a) (drop a xs)"

definition header_decode :: "u8 list \<Rightarrow> stream_header result" where
  "header_decode bytes =
     (if length bytes \<noteq> stream_header_len then Inl InvalidHeaderLength
      else if slice 0 4 bytes \<noteq> magic then Inl InvalidMagic
      else bindr (frame_kind_try_from (be_word (slice 8 10 bytes))) (\<lambda>kind.
        Inr \<lparr>sh_major = be_word (slice 4 6 bytes), sh_minor = be_word (slice 6 8 bytes),
          sh_kind = kind, sh_flags = be_word (slice 10 12 bytes),
          sh_sequence = be_word (slice 12 20 bytes),
          sh_payload_len = be_word (slice 20 28 bytes)\<rparr>))"

lemma length_magic [simp]: "length magic = 4"
  by (simp add: magic_def)

lemma length_header_encode [simp]: "length (header_encode h) = stream_header_len"
  by (simp add: header_encode_def stream_header_len_def)

lemma header_decode_encode [simp]: "header_decode (header_encode h) = Inr h"
  by (cases h) (simp add: header_decode_def header_encode_def slice_def stream_header_len_def
      be_word_bytes)

lemma length_slice: "b \<le> length xs \<Longrightarrow> length (slice a b xs) = b - a"
  by (simp add: slice_def)

lemma slice_append: "a \<le> b \<Longrightarrow> b \<le> c \<Longrightarrow> slice a b xs @ slice b c xs = slice a c xs"
  using take_add [of "b - a" "c - b" "drop a xs"] by (simp add: slice_def)

lemma be_bytes_slice:
  "b \<le> length xs \<Longrightarrow> n = b - a \<Longrightarrow> 8 * n \<le> LENGTH('a) \<Longrightarrow>
     be_bytes n (be_word (slice a b xs) :: 'a::len word) = slice a b xs"
  using be_bytes_word [of "slice a b xs", where ?'a = 'a] by (simp add: length_slice)

lemma header_encode_decode:
  assumes "header_decode bytes = Inr h"
  shows "bytes = header_encode h"
proof -
  have len: "length bytes = 28" and magic: "slice 0 4 bytes = magic"
    and kind: "frame_kind_try_from (be_word (slice 8 10 bytes)) = Inr (sh_kind h)"
    and h: "h = \<lparr>sh_major = be_word (slice 4 6 bytes), sh_minor = be_word (slice 6 8 bytes),
          sh_kind = sh_kind h, sh_flags = be_word (slice 10 12 bytes),
          sh_sequence = be_word (slice 12 20 bytes),
          sh_payload_len = be_word (slice 20 28 bytes)\<rparr>"
    using assms by (auto simp: header_decode_def stream_header_len_def bindr_Inr_iff
        split: if_splits)
  have "header_encode h = slice 0 4 bytes @ slice 4 6 bytes @ slice 6 8 bytes @ slice 8 10 bytes
      @ slice 10 12 bytes @ slice 12 20 bytes @ slice 20 28 bytes"
    by (subst h) (simp add: header_encode_def magic be_bytes_slice len
        frame_code_kind [OF kind, symmetric])
  also have "\<dots> = slice 0 28 bytes" by (simp add: slice_append)
  finally show ?thesis using len by (simp add: slice_def)
qed


section \<open>The publisher\<close>

text \<open>The kinds of \<open>std::io::Error\<close> that the code tells apart.\<close>

datatype io_error = ConnectionRefused | ConnectionReset | BrokenPipe | TimedOut | WouldBlock | OtherIo

record session_hello =
  hl_session_id :: string
  hl_mode :: string
  hl_pid :: u32
  hl_process_name :: string
  hl_frequency_hz :: u32

definition session_hello_new :: "string \<Rightarrow> string \<Rightarrow> u32 \<Rightarrow> string \<Rightarrow> u32 \<Rightarrow> session_hello" where
  "session_hello_new session_id mode pid process_name frequency_hz =
     \<lparr>hl_session_id = session_id, hl_mode = mode, hl_pid = pid,
      hl_process_name = process_name, hl_frequency_hz = frequency_hz\<rparr>"

text \<open>
  \<open>env_connect\<close>, \<open>env_write_timeout\<close> and \<open>env_nodelay\<close> answer the calls of the same
  names; \<open>env_write sent bytes\<close> is the failure of a \<open>write_all\<close>, with the number of bytes
  that reached the stream before it; \<open>env_json\<close> is \<open>serde_json::to_vec\<close>.
\<close>

record environment =
  env_connect :: "io_error option"
  env_write_timeout :: "io_error option"
  env_nodelay :: "io_error option"
  env_write :: "u8 list \<Rightarrow> u8 list \<Rightarrow> (nat \<times> io_error) option"
  env_json :: "session_hello \<Rightarrow> io_error + u8 list"

record publisher =
  pub_address :: u16
  pub_hello :: session_hello
  pub_stream :: "u8 list option"
  pub_sequence :: u64
  pub_just_connected :: bool

definition default_session_port :: u16 where
  "default_session_port = 57557"

text \<open>The address is the localhost port: the only host the program connects to.\<close>

definition publisher_new :: "u16 \<Rightarrow> session_hello \<Rightarrow> publisher" where
  "publisher_new address hello =
     \<lparr>pub_address = address, pub_hello = hello, pub_stream = None, pub_sequence = 0,
      pub_just_connected = False\<rparr>"

definition take_just_connected :: "publisher \<Rightarrow> bool \<times> publisher" where
  "take_just_connected p = (pub_just_connected p, p\<lparr>pub_just_connected := False\<rparr>)"

definition write_all ::
    "environment \<Rightarrow> u8 list \<Rightarrow> u8 list \<Rightarrow> (io_error + unit) \<times> u8 list" where
  "write_all env stream bytes =
     (case env_write env stream bytes of
        None \<Rightarrow> (Inr (), stream @ bytes)
      | Some (n, e) \<Rightarrow> (Inl e, stream @ take n bytes))"

definition frame_header :: "frame_kind \<Rightarrow> u64 \<Rightarrow> u8 list \<Rightarrow> stream_header" where
  "frame_header kind sequence payload =
     \<lparr>sh_major = 1, sh_minor = 0, sh_kind = kind, sh_flags = 0, sh_sequence = sequence,
      sh_payload_len = word_of_nat (length payload)\<rparr>"

definition write_frame :: "environment \<Rightarrow> u8 list \<Rightarrow> frame_kind \<Rightarrow> u64 \<Rightarrow> u8 list
    \<Rightarrow> (io_error + unit) \<times> u8 list" where
  "write_frame env stream kind sequence payload =
     (let (r, stream) = write_all env stream (header_encode (frame_header kind sequence payload))
      in case r of
           Inl e \<Rightarrow> (Inl e, stream)
         | Inr _ \<Rightarrow> write_all env stream payload)"

definition connect :: "environment \<Rightarrow> publisher \<Rightarrow> (io_error + bool) \<times> publisher" where
  "connect env p =
     (case env_connect env of
        Some e \<Rightarrow> if e \<in> {ConnectionRefused, TimedOut} then (Inr False, p) else (Inl e, p)
      | None \<Rightarrow>
        (case env_write_timeout env of
           Some e \<Rightarrow> (Inl e, p)
         | None \<Rightarrow>
           (case env_nodelay env of
              Some e \<Rightarrow> (Inl e, p)
            | None \<Rightarrow>
              (case env_json env (pub_hello p) of
                 Inl e \<Rightarrow> (Inl OtherIo, p)
               | Inr hello \<Rightarrow>
                 let p = p\<lparr>pub_sequence := saturating_add_u64 (pub_sequence p) 1\<rparr>;
                     (r, stream) = write_frame env [] Hello (pub_sequence p) hello
                 in case r of
                      Inl e \<Rightarrow> (Inl e, p)
                    | Inr _ \<Rightarrow> (Inr True, p\<lparr>pub_stream := Some stream,
                                            pub_just_connected := True\<rparr>)))))"

definition ensure_connected :: "environment \<Rightarrow> publisher \<Rightarrow> (io_error + bool) \<times> publisher" where
  "ensure_connected env p =
     (if pub_stream p \<noteq> None then (Inr True, p) else connect env p)"

text \<open>The second half of \<open>send\<close>, once there is a stream.\<close>

definition send_frame :: "environment \<Rightarrow> frame_kind \<Rightarrow> u8 list \<Rightarrow> publisher
    \<Rightarrow> (io_error + bool) \<times> publisher" where
  "send_frame env kind payload p =
     (let p = p\<lparr>pub_sequence := saturating_add_u64 (pub_sequence p) 1\<rparr>;
          (r, stream) = write_frame env (the (pub_stream p)) kind (pub_sequence p) payload
      in case r of
           Inl e \<Rightarrow>
             (if e \<in> {BrokenPipe, ConnectionReset, TimedOut, WouldBlock} then Inr False else Inl e,
              p\<lparr>pub_stream := None\<rparr>)
         | Inr _ \<Rightarrow> (Inr True, p\<lparr>pub_stream := Some stream\<rparr>))"

definition send :: "environment \<Rightarrow> frame_kind \<Rightarrow> u8 list \<Rightarrow> publisher
    \<Rightarrow> (io_error + bool) \<times> publisher" where
  "send env kind payload p =
     (if pub_stream p = None then
        (case connect env p of
           (Inl e, p') \<Rightarrow> (Inl e, p')
         | (Inr False, p') \<Rightarrow> (Inr False, p')
         | (Inr True, p') \<Rightarrow> send_frame env kind payload p')
      else send_frame env kind payload p)"

section \<open>What a connection carries\<close>

definition frame_bytes :: "frame_kind \<Rightarrow> u64 \<Rightarrow> u8 list \<Rightarrow> u8 list" where
  "frame_bytes kind sequence payload = header_encode (frame_header kind sequence payload) @ payload"

text \<open>The reader's side: one header, then as many bytes as it announces.\<close>

definition read_frame :: "u8 list \<Rightarrow> ((stream_header \<times> u8 list) \<times> u8 list) result" where
  "read_frame bytes =
     bindr (header_decode (take stream_header_len bytes)) (\<lambda>h.
       let rest = drop stream_header_len bytes; n = unat (sh_payload_len h)
       in if length rest < n then Inl TruncatedField
          else Inr ((h, take n rest), drop n rest))"

lemma read_frame_bytes:
  assumes "length payload < 2 ^ 64"
  shows "read_frame (frame_bytes kind sequence payload @ rest)
    = Inr ((frame_header kind sequence payload, payload), rest)"
proof -
  have "take stream_header_len (header_encode h @ r) = header_encode h"
    and "drop stream_header_len (header_encode h @ r) = r" for h r
    by (metis append_eq_conv_conj length_header_encode)+
  then show ?thesis
    using assms by (simp add: read_frame_def frame_bytes_def frame_header_def Let_def unat_of_nat)
qed

text \<open>
  A connection is in order when its bytes are whole frames, the greeting first, and the
  sequence numbers grow, up to \<open>hi\<close> (they stick at the largest \<open>u64\<close>).
\<close>

type_synonym frame = "frame_kind \<times> u64 \<times> u8 list"

definition frames_bytes :: "frame list \<Rightarrow> u8 list" where
  "frames_bytes fs = concat (map (\<lambda>(k, n, payload). frame_bytes k n payload) fs)"

definition sequence_before :: "u64 \<Rightarrow> u64 \<Rightarrow> bool" where
  "sequence_before a b \<longleftrightarrow> a < b \<or> b = 0xFFFFFFFFFFFFFFFF"

definition in_order :: "frame list \<Rightarrow> u64 \<Rightarrow> bool" where
  "in_order fs hi \<longleftrightarrow>
     fs \<noteq> [] \<and> fst (hd fs) = Hello
     \<and> sorted_wrt (\<lambda>f g. sequence_before (fst (snd f)) (fst (snd g))) fs
     \<and> list_all (\<lambda>f. fst (snd f) \<le> hi) fs"

definition publisher_ok :: "publisher \<Rightarrow> bool" where
  "publisher_ok p \<longleftrightarrow>
     (case pub_stream p of None \<Rightarrow> True
      | Some sent \<Rightarrow> (\<exists>fs. sent = frames_bytes fs \<and> in_order fs (pub_sequence p)))"

lemma sequence_before_saturating: "a \<le> b \<Longrightarrow> sequence_before a (saturating_add_u64 b 1)"
proof (cases "unat b + 1 < 2 ^ 64")
  case True
  assume "a \<le> b"
  have "unat (saturating_add_u64 b 1) = unat b + 1"
    using True by (simp add: unat_saturating_add_u64)
  then show ?thesis using \<open>a \<le> b\<close> by (simp add: sequence_before_def word_less_nat_alt word_le_nat_alt)
next
  case False
  then show ?thesis by (simp add: sequence_before_def saturating_add_u64_def)
qed

lemma le_saturating_add: "a \<le> saturating_add_u64 a b"
  using unsigned_less [of a, where ?'a = nat]
  by (simp add: word_le_nat_alt unat_saturating_add_u64)

lemma in_order_snoc:
  assumes "in_order fs hi"
  shows "in_order (fs @ [(k, saturating_add_u64 hi 1, payload)]) (saturating_add_u64 hi 1)"
  using assms le_saturating_add [of hi 1]
  by (auto simp: in_order_def sorted_wrt_append list_all_iff sequence_before_saturating
      intro: order_trans)

lemma publisher_ok_snoc:
  assumes "publisher_ok p" and "pub_stream p = Some sent"
  shows "publisher_ok (p\<lparr>pub_sequence := saturating_add_u64 (pub_sequence p) 1,
    pub_stream := Some (sent @ frame_bytes k (saturating_add_u64 (pub_sequence p) 1) payload)\<rparr>)"
proof -
  obtain fs where "sent = frames_bytes fs" "in_order fs (pub_sequence p)"
    using assms by (auto simp: publisher_ok_def)
  then show ?thesis
    using in_order_snoc [of fs "pub_sequence p" k payload]
    by (auto simp: publisher_ok_def frames_bytes_def
        intro!: exI [of _ "fs @ [(k, saturating_add_u64 (pub_sequence p) 1, payload)]"])
qed

lemma write_frame_ok:
  "write_frame env stream k n payload = (Inr u, stream') \<Longrightarrow> stream' = stream @ frame_bytes k n payload"
  by (auto simp: write_frame_def write_all_def frame_bytes_def split: option.splits)

lemma connect_cases:
  obtains (connected) hello where "env_json env (pub_hello p) = Inr hello"
      "connect env p = (Inr True, p\<lparr>pub_sequence := saturating_add_u64 (pub_sequence p) 1,
         pub_stream := Some (frame_bytes Hello (saturating_add_u64 (pub_sequence p) 1) hello),
         pub_just_connected := True\<rparr>)"
    | (failed) r q where "connect env p = (r, q)" "r \<noteq> Inr True" "pub_stream q = pub_stream p"
        "pub_hello q = pub_hello p" "pub_just_connected q = pub_just_connected p"
proof (cases "fst (connect env p) = Inr True")
  case True
  then show ?thesis
    by (intro connected [of "projr (env_json env (pub_hello p))"])
       (auto simp: connect_def Let_def dest: write_frame_ok
        split: option.splits sum.splits prod.splits if_splits)
next
  case False
  then show ?thesis
    by (intro failed [of "fst (connect env p)" "snd (connect env p)"])
       (auto simp: connect_def Let_def split: option.splits sum.splits prod.splits if_splits)
qed

lemma send_frame_cases:
  assumes "pub_stream p = Some sent"
  obtains (sent) "send_frame env k payload p = (Inr True,
        p\<lparr>pub_sequence := saturating_add_u64 (pub_sequence p) 1,
          pub_stream := Some (sent @ frame_bytes k (saturating_add_u64 (pub_sequence p) 1) payload)\<rparr>)"
    | (failed) r where "send_frame env k payload p = (r,
        p\<lparr>pub_sequence := saturating_add_u64 (pub_sequence p) 1, pub_stream := None\<rparr>)"
        "r \<noteq> Inr True"
proof (cases "fst (send_frame env k payload p) = Inr True")
  case True
  then show ?thesis
    using assms by (intro sent)
       (auto simp: send_frame_def Let_def dest: write_frame_ok split: sum.splits prod.splits if_splits)
next
  case False
  then show ?thesis
    by (intro failed [of "fst (send_frame env k payload p)"])
       (auto simp: send_frame_def Let_def split: sum.splits prod.splits if_splits)
qed


lemma send_cases:
  obtains (delivered) pre where
      "fst (send env k payload p) = Inr True"
      "pub_stream (snd (send env k payload p)) = Some (pre @
         frame_bytes k (pub_sequence (snd (send env k payload p))) payload)"
      "publisher_ok p \<longrightarrow> publisher_ok (snd (send env k payload p))"
    | (lost) "fst (send env k payload p) \<noteq> Inr True"
      "pub_stream (snd (send env k payload p)) = None"
proof -
  have framed: thesis
    if "publisher_ok p \<longrightarrow> publisher_ok q" "pub_stream q = Some sent"
      "send env k payload p = send_frame env k payload q" for q sent
  proof (cases rule: send_frame_cases [OF that(2), of env k payload])
    case 1
    then have "publisher_ok q \<longrightarrow> publisher_ok (snd (send_frame env k payload q))"
      using publisher_ok_snoc [OF _ that(2)] by simp
    then show ?thesis using 1 that delivered [of sent] by simp
  next
    case (2 r)
    then show ?thesis using that lost by simp
  qed
  show thesis
  proof (cases "pub_stream p")
    case (Some sent)
    then show ?thesis using framed [of p sent] by (simp add: send_def)
  next
    case None
    show ?thesis
    proof (cases env p rule: connect_cases)
      case (connected hello)
      define q where "q = snd (connect env p)"
      let ?n = "saturating_add_u64 (pub_sequence p) 1"
      have "publisher_ok q" "pub_stream q = Some (frame_bytes Hello ?n hello)"
        using connected by (auto simp: q_def publisher_ok_def frames_bytes_def in_order_def
            intro: exI [of _ "[(Hello, ?n, hello)]"])
      moreover have "send env k payload p = send_frame env k payload q"
        using None connected by (simp add: send_def q_def)
      ultimately show ?thesis using framed [of q] by blast
    next
      case (failed r q)
      then show ?thesis
        using None lost by (auto simp: send_def split: sum.splits bool.splits)
    qed
  qed
qed

text \<open>The calls a client can make, each against any environment.\<close>

inductive publisher_step :: "publisher \<Rightarrow> publisher \<Rightarrow> bool" where
  send: "publisher_step p (snd (send env k payload p))"
| ensure: "publisher_step p (snd (ensure_connected env p))"
| take: "publisher_step p (snd (take_just_connected p))"

inductive_cases publisher_stepE: "publisher_step p q"

inductive publisher_reach :: "u16 \<Rightarrow> session_hello \<Rightarrow> publisher \<Rightarrow> bool" for a h where
  start: "publisher_reach a h (publisher_new a h)"
| step: "publisher_reach a h p \<Longrightarrow> publisher_step p q \<Longrightarrow> publisher_reach a h q"

lemma send_ok: "publisher_ok p \<Longrightarrow> publisher_ok (snd (send env k payload p))"
  by (cases env k payload p rule: send_cases) (auto simp: publisher_ok_def)

lemma connect_ok:
  assumes "publisher_ok p"
  shows "publisher_ok (snd (connect env p))"
proof (cases env p rule: connect_cases)
  case (connected hello)
  then show ?thesis
    by (auto simp: publisher_ok_def frames_bytes_def in_order_def
        intro: exI [of _ "[(Hello, saturating_add_u64 (pub_sequence p) 1, hello)]"])
next
  case (failed r q)
  have "pub_sequence p \<le> pub_sequence (snd (connect env p))"
    by (auto simp: connect_def Let_def le_saturating_add
        split: option.splits sum.splits prod.splits)
  then show ?thesis
    using assms failed
    by (fastforce simp: publisher_ok_def in_order_def list_all_iff split: option.splits)
qed

lemma publisher_step_ok: "publisher_step p q \<Longrightarrow> publisher_ok p \<Longrightarrow> publisher_ok q"
  by (erule publisher_step.cases)
     (simp_all add: send_ok connect_ok ensure_connected_def take_just_connected_def,
      simp add: publisher_ok_def split: option.splits)

lemma publisher_reach_ok: "publisher_reach a h p \<Longrightarrow> publisher_ok p"
proof (induction rule: publisher_reach.induct)
  case start
  then show ?case by (simp add: publisher_ok_def publisher_new_def)
next
  case (step p q)
  then show ?case using publisher_step_ok by blast
qed

section \<open>Delivery\<close>

text \<open>A network on which every call succeeds.\<close>

definition healthy :: "environment \<Rightarrow> u8 list \<Rightarrow> bool" where
  "healthy env hello \<longleftrightarrow> env_connect env = None \<and> env_write_timeout env = None
     \<and> env_nodelay env = None \<and> (\<forall>sent bytes. env_write env sent bytes = None)
     \<and> (\<forall>h. env_json env h = Inr hello)"

lemma healthy_write_frame:
  "healthy env hello \<Longrightarrow>
     write_frame env stream k n payload = (Inr (), stream @ frame_bytes k n payload)"
  by (simp add: healthy_def write_frame_def write_all_def frame_bytes_def)

lemma send_healthy:
  assumes "healthy env hello"
  shows "fst (send env kind payload p) = Inr True
    \<and> pub_stream (snd (send env kind payload p)) = Some (
        (case pub_stream p of
           Some sent \<Rightarrow> sent
         | None \<Rightarrow> frame_bytes Hello (saturating_add_u64 (pub_sequence p) 1) hello)
        @ frame_bytes kind (pub_sequence (snd (send env kind payload p))) payload)"
proof (cases "pub_stream p")
  case None
  have "connect env p = (Inr True, p\<lparr>pub_sequence := saturating_add_u64 (pub_sequence p) 1,
      pub_stream := Some (frame_bytes Hello (saturating_add_u64 (pub_sequence p) 1) hello),
      pub_just_connected := True\<rparr>)"
    using assms healthy_write_frame [OF assms, of "[]"] by (simp add: connect_def healthy_def Let_def)
  then show ?thesis
    using None by (simp add: send_def send_frame_def healthy_write_frame [OF assms] Let_def)
next
  case (Some sent)
  then show ?thesis
    by (simp add: send_def send_frame_def healthy_write_frame [OF assms] Let_def)
qed

section \<open>Properties\<close>

text \<open>a header survives the wire, and no two byte strings decode to the same header: the
  bytes accepted as a header are exactly its encoding.\<close>

theorem header_round_trip:
  "header_decode bytes = Inr h \<longleftrightarrow> bytes = header_encode h"
  using header_encode_decode [of bytes h] by auto

text \<open>a reader that takes one header and then as many bytes as it announces gets back the
  frame that was written, and is left at the start of the next one.\<close>

theorem frame_round_trip:
  assumes "length payload < 2 ^ 64"
  shows "read_frame (frame_bytes kind sequence payload @ rest)
    = Inr ((frame_header kind sequence payload, payload), rest)"
  by (rule read_frame_bytes [OF assms])

theorem frame_round_trip_witness:
  "read_frame (frame_bytes Stop 7 [1, 2] @ [9])
    = Inr ((frame_header Stop 7 [1, 2], [1, 2]), [9])"
  by (rule frame_round_trip) simp

definition demo_hello :: session_hello where
  "demo_hello = session_hello_new ''s'' ''attach'' 42 ''app'' 99"

definition demo_network :: environment where
  "demo_network = \<lparr>env_connect = None, env_write_timeout = None, env_nodelay = None,
     env_write = \<lambda>sent bytes. None, env_json = \<lambda>h. Inr [123, 125]\<rparr>"

text \<open>C3: whatever calls a client makes and however connects and writes fail, the open connection
  of a publisher carries whole frames only, the greeting first, with growing sequence numbers.\<close>

theorem publisher_streams_in_order:
  assumes "publisher_reach address hello p" and "pub_stream p = Some sent"
  shows "\<exists>fs. sent = frames_bytes fs \<and> in_order fs (pub_sequence p)"
  using publisher_reach_ok [OF assms(1)] assms(2) by (simp add: publisher_ok_def)

theorem publisher_streams_in_order_witness:
  "\<exists>fs. frames_bytes [(Hello, 1, [123, 125]), (Heartbeat, 2, [])] = frames_bytes fs
     \<and> in_order fs 2"
proof -
  define p where "p = snd (send demo_network Heartbeat [] (publisher_new 57557 demo_hello))"
  have "publisher_reach 57557 demo_hello p"
    unfolding p_def by (rule publisher_reach.step [OF publisher_reach.start publisher_step.send])
  moreover have "pub_stream p = Some (frames_bytes [(Hello, 1, [123, 125]), (Heartbeat, 2, [])])"
    and "pub_sequence p = 2"
    by (simp_all add: p_def send_def connect_def send_frame_def write_frame_def write_all_def
        publisher_new_def demo_network_def frames_bytes_def frame_bytes_def saturating_add_u64_def)
  ultimately show ?thesis using publisher_streams_in_order by fastforce
qed

text \<open>C31: \<open>send\<close> reports success exactly when the whole frame, numbered with the publisher's
  sequence, is the last thing on the connection; on every failure the connection is given up, so
  that no later frame follows a partial one.\<close>

theorem send_outcome:
  "if fst (send env kind payload p) = Inr True then
     (\<exists>before. pub_stream (snd (send env kind payload p)) = Some (before @
        frame_bytes kind (pub_sequence (snd (send env kind payload p))) payload))
   else pub_stream (snd (send env kind payload p)) = None"
  by (cases env kind payload p rule: send_cases) auto

text \<open>on a network that works every \<open>send\<close> delivers its frame: after what the connection
  already carries, or after the greeting on a fresh connection.\<close>

theorem send_delivers:
  assumes "healthy env hello"
  shows "fst (send env kind payload p) = Inr True
    \<and> pub_stream (snd (send env kind payload p)) = Some (
        (case pub_stream p of
           Some sent \<Rightarrow> sent
         | None \<Rightarrow> frame_bytes Hello (saturating_add_u64 (pub_sequence p) 1) hello)
        @ frame_bytes kind (pub_sequence (snd (send env kind payload p))) payload)"
  by (rule send_healthy [OF assms])

theorem send_delivers_witness:
  "fst (send demo_network FinalProfile [1] (publisher_new 57557 demo_hello)) = Inr True"
  using send_delivers [of demo_network "[123, 125]" FinalProfile "[1]" "publisher_new 57557 demo_hello"]
  by (simp add: healthy_def demo_network_def)

end
