(* ===== verification/Heap_Validate.thy ===== *)
theory Heap_Validate
  imports Pprof_View
begin

text \<open>
  The shape every heap profile must have (\<open>validate_profile\<close> in \<open>src/heap/mod.rs\<close>): the checks
  in their order, each with its error, and the condition they amount to.
\<close>

section \<open>The checks\<close>

definition valid_string :: "profile \<Rightarrow> u64 \<Rightarrow> bool" where
  "valid_string p i \<longleftrightarrow> unat i < length (st_strings (p_strings p))"

definition check_string :: "profile \<Rightarrow> u64 \<Rightarrow> unit result" where
  "check_string p i = ensure (valid_string p i) (BadStringIndex i)"

definition unique_ids :: "u64 list \<Rightarrow> u64 set result" where
  "unique_ids ids =
     bindr (ensure (card (set ids) = length ids \<and> 0 \<notin> set ids) DuplicateIdentifier)
       (\<lambda>_. Inr (set ids))"

text \<open>\<open>strings.get(id as usize).map(String::as_str).unwrap_or("")\<close>.\<close>

definition profile_string :: "profile \<Rightarrow> u64 \<Rightarrow> string" where
  "profile_string p i = (case profile_get p i of None \<Rightarrow> [] | Some s \<Rightarrow> s)"

definition heap_metric :: "string \<Rightarrow> string \<Rightarrow> bool" where
  "heap_metric name unit \<longleftrightarrow>
     (name \<in> {''alloc_space'', ''inuse_space''} \<and> unit = ''bytes'')
     \<or> (name \<in> {''alloc_objects'', ''inuse_objects''} \<and> unit = ''count'')"

definition check_metric :: "profile \<Rightarrow> string set \<Rightarrow> value_type \<Rightarrow> string set result" where
  "check_metric p seen m =
     bindr (check_string p (vt_type m)) (\<lambda>_.
     bindr (check_string p (vt_unit m)) (\<lambda>_.
       let name = profile_string p (vt_type m) in
       bindr (ensure (name \<notin> seen) DuplicateMetric) (\<lambda>_.
         let unit = profile_string p (vt_unit m) in
         bindr (ensure (heap_metric name unit) (UnsupportedMetric name unit)) (\<lambda>_.
           Inr (insert name seen)))))"

definition check_location :: "u64 set \<Rightarrow> u64 set \<Rightarrow> location \<Rightarrow> unit result" where
  "check_location mappings functions l =
     bindr (ensure (loc_mapping_id l = 0 \<or> loc_mapping_id l \<in> mappings) MissingMapping) (\<lambda>_.
       all_result (\<lambda>ln. ensure (ln_function_id ln \<in> functions) MissingFunction) (loc_lines l))"

definition check_sample :: "profile \<Rightarrow> u64 set \<Rightarrow> sample \<Rightarrow> unit result" where
  "check_sample p locations s =
     bindr (all_result (\<lambda>i. ensure (i \<in> locations) MissingLocation) (sm_location_ids s)) (\<lambda>_.
       all_result (\<lambda>l. all_result (check_string p) [lb_key l, lb_str_index l, lb_num_unit l])
         (sm_labels s))"

definition validate_profile :: "profile \<Rightarrow> unit result" where
  "validate_profile p =
     bindr (ensure (case st_strings (p_strings p) of [] \<Rightarrow> False | s # _ \<Rightarrow> s = []) BadStringTable) (\<lambda>_.
     bindr (unique_ids (map mp_id (p_mappings p))) (\<lambda>mappings.
     bindr (unique_ids (map fn_id (p_functions p))) (\<lambda>functions.
     bindr (unique_ids (map loc_id (p_locations p))) (\<lambda>locations.
     bindr (all_result (\<lambda>m. all_result (check_string p) [mp_filename m, mp_build_id m])
       (p_mappings p)) (\<lambda>_.
     bindr (all_result (\<lambda>f. all_result (check_string p) [fn_name f, fn_system_name f, fn_filename f])
       (p_functions p)) (\<lambda>_.
     bindr (all_result (check_location mappings functions) (p_locations p)) (\<lambda>_.
     bindr (all_result (check_sample p locations) (p_samples p)) (\<lambda>_.
     bindr (all_result (check_string p) (p_comments p @
       [p_default_sample_type p, p_doc_url p, p_drop_frames p, p_keep_frames p,
        vt_type (p_period_type p), vt_unit (p_period_type p)])) (\<lambda>_.
     bindr (ensure (p_value_types p \<noteq> []) NoSampleTypes) (\<lambda>_.
     bindr (fold_result (check_metric p) {} (p_value_types p)) (\<lambda>_.
       all_result (\<lambda>s. ensure (length (sm_values s) = length (p_value_types p)) MetricCountMismatch)
         (p_samples p))))))))))))"

section \<open>What they establish\<close>

definition ids_ok :: "u64 list \<Rightarrow> bool" where
  "ids_ok ids \<longleftrightarrow> distinct ids \<and> 0 \<notin> set ids"

definition mapping_valid :: "profile \<Rightarrow> mapping \<Rightarrow> bool" where
  "mapping_valid p m \<longleftrightarrow> valid_string p (mp_filename m) \<and> valid_string p (mp_build_id m)"

definition function_valid :: "profile \<Rightarrow> func \<Rightarrow> bool" where
  "function_valid p f \<longleftrightarrow>
     valid_string p (fn_name f) \<and> valid_string p (fn_system_name f) \<and> valid_string p (fn_filename f)"

definition location_valid :: "profile \<Rightarrow> location \<Rightarrow> bool" where
  "location_valid p l \<longleftrightarrow>
     (loc_mapping_id l = 0 \<or> loc_mapping_id l \<in> mp_id ` set (p_mappings p))
     \<and> (\<forall>ln\<in>set (loc_lines l). ln_function_id ln \<in> fn_id ` set (p_functions p))"

definition label_valid :: "profile \<Rightarrow> label \<Rightarrow> bool" where
  "label_valid p l \<longleftrightarrow>
     valid_string p (lb_key l) \<and> valid_string p (lb_str_index l) \<and> valid_string p (lb_num_unit l)"

definition sample_valid :: "profile \<Rightarrow> sample \<Rightarrow> bool" where
  "sample_valid p s \<longleftrightarrow>
     set (sm_location_ids s) \<subseteq> loc_id ` set (p_locations p)
     \<and> (\<forall>l\<in>set (sm_labels s). label_valid p l)
     \<and> length (sm_values s) = length (p_value_types p)"

definition metrics_valid :: "profile \<Rightarrow> value_type list \<Rightarrow> bool" where
  "metrics_valid p ms \<longleftrightarrow>
     (\<forall>m\<in>set ms. valid_string p (vt_type m) \<and> valid_string p (vt_unit m)
        \<and> heap_metric (profile_string p (vt_type m)) (profile_string p (vt_unit m)))
     \<and> distinct (map (\<lambda>m. profile_string p (vt_type m)) ms)"

definition tables_valid :: "profile \<Rightarrow> bool" where
  "tables_valid p \<longleftrightarrow>
     st_strings (p_strings p) \<noteq> [] \<and> hd (st_strings (p_strings p)) = []
     \<and> ids_ok (map mp_id (p_mappings p)) \<and> ids_ok (map fn_id (p_functions p))
     \<and> ids_ok (map loc_id (p_locations p))
     \<and> (\<forall>m\<in>set (p_mappings p). mapping_valid p m)
     \<and> (\<forall>f\<in>set (p_functions p). function_valid p f)
     \<and> (\<forall>l\<in>set (p_locations p). location_valid p l)"

definition header_valid :: "profile \<Rightarrow> bool" where
  "header_valid p \<longleftrightarrow>
     (\<forall>i\<in>set (p_comments p). valid_string p i)
     \<and> valid_string p (p_default_sample_type p) \<and> valid_string p (p_doc_url p)
     \<and> valid_string p (p_drop_frames p) \<and> valid_string p (p_keep_frames p)
     \<and> valid_string p (vt_type (p_period_type p)) \<and> valid_string p (vt_unit (p_period_type p))
     \<and> p_value_types p \<noteq> [] \<and> metrics_valid p (p_value_types p)"

definition heap_valid :: "profile \<Rightarrow> bool" where
  "heap_valid p \<longleftrightarrow> tables_valid p \<and> header_valid p \<and> (\<forall>s\<in>set (p_samples p). sample_valid p s)"

lemma check_string_Inr [simp]: "check_string p i = Inr u \<longleftrightarrow> valid_string p i"
  by (simp add: check_string_def)

lemma unique_ids_Inr: "unique_ids ids = Inr s \<longleftrightarrow> ids_ok ids \<and> s = set ids"
  by (auto simp: unique_ids_def ids_ok_def bindr_Inr_iff card_distinct distinct_card)

lemma check_metric_Inr:
  "check_metric p seen m = Inr seen' \<longleftrightarrow>
     metrics_valid p [m] \<and> profile_string p (vt_type m) \<notin> seen
     \<and> seen' = insert (profile_string p (vt_type m)) seen"
  by (auto simp: check_metric_def metrics_valid_def bindr_Inr_iff Let_def)

lemma check_metrics_Inr:
  "(\<exists>seen'. fold_result (check_metric p) seen ms = Inr seen') \<longleftrightarrow>
     metrics_valid p ms \<and> (\<forall>m\<in>set ms. profile_string p (vt_type m) \<notin> seen)"
proof (induction ms arbitrary: seen)
  case (Cons m ms)
  have "(\<exists>seen'. fold_result (check_metric p) seen (m # ms) = Inr seen') \<longleftrightarrow>
      metrics_valid p [m] \<and> profile_string p (vt_type m) \<notin> seen
      \<and> (\<exists>seen'. fold_result (check_metric p) (insert (profile_string p (vt_type m)) seen) ms = Inr seen')"
    by (auto simp: bindr_Inr_iff check_metric_Inr)
  also have "\<dots> \<longleftrightarrow> metrics_valid p (m # ms)
      \<and> (\<forall>m\<in>set (m # ms). profile_string p (vt_type m) \<notin> seen)"
    unfolding Cons by (auto simp: metrics_valid_def image_iff)
  finally show ?case .
qed (simp add: metrics_valid_def)

lemma check_location_Inr:
  "check_location ms fs l = Inr u \<longleftrightarrow>
     (loc_mapping_id l = 0 \<or> loc_mapping_id l \<in> ms) \<and> (\<forall>ln\<in>set (loc_lines l). ln_function_id ln \<in> fs)"
  by (auto simp: check_location_def bindr_Inr_iff all_result_Inr_iff)

lemma check_sample_Inr:
  "check_sample p ls s = Inr u \<longleftrightarrow> set (sm_location_ids s) \<subseteq> ls \<and> (\<forall>l\<in>set (sm_labels s). label_valid p l)"
  by (auto simp: check_sample_def bindr_Inr_iff all_result_Inr_iff label_valid_def)

lemma check_strings_Inr: "all_result (check_string p) is = Inr u \<longleftrightarrow> (\<forall>i\<in>set is. valid_string p i)"
  by (simp add: all_result_Inr_iff)

lemma validate_profile_iff: "validate_profile p = Inr () \<longleftrightarrow> heap_valid p"
proof -
  have first: "(case st_strings (p_strings p) of [] \<Rightarrow> False | s # _ \<Rightarrow> s = []) \<longleftrightarrow>
      st_strings (p_strings p) \<noteq> [] \<and> hd (st_strings (p_strings p)) = []"
    by (cases "st_strings (p_strings p)") auto
  have metrics: "(\<exists>x. fold_result (check_metric p) {} (p_value_types p) = Inr x \<and> Q) \<longleftrightarrow>
      metrics_valid p (p_value_types p) \<and> Q" for Q
    using check_metrics_Inr [of p "{}" "p_value_types p"] by auto
  show ?thesis
    unfolding validate_profile_def bindr_Inr_iff unique_ids_Inr check_strings_Inr metrics
      all_result_Inr_iff ensure_Inr_iff check_location_Inr check_sample_Inr first
      heap_valid_def tables_valid_def header_valid_def sample_valid_def location_valid_def
      mapping_valid_def function_valid_def
    by auto
qed

section \<open>Selecting a domain\<close>

definition is_heap_profile :: "profile \<Rightarrow> bool" where
  "is_heap_profile p \<longleftrightarrow>
     list_ex (\<lambda>v. case profile_get p (vt_type v) of
        None \<Rightarrow> False
      | Some s \<Rightarrow> s \<in> {''alloc_space'', ''inuse_space'', ''alloc_objects'', ''inuse_objects''})
     (p_value_types p)"

definition sample_domain :: "profile \<Rightarrow> sample \<Rightarrow> string" where
  "sample_domain p s =
     (case find (\<lambda>l. profile_get p (lb_key l) = Some ''heap'') (sm_labels s) of
        None \<Rightarrow> ''[unspecified heap]''
      | Some l \<Rightarrow>
          (case profile_get p (lb_str_index l) of
             None \<Rightarrow> ''[unspecified heap]''
           | Some s \<Rightarrow> s))"

definition select_domain :: "string option \<Rightarrow> profile \<Rightarrow> profile result" where
  "select_domain requested p =
     (if \<not> is_heap_profile p then
        bindr (ensure (requested = None) HeapSelectionNeedsHeap) (\<lambda>_. Inr p)
      else
        let domains = sorted_list_of_set (set (map (sample_domain p) (p_samples p))) in
        bindr (ensure (length domains \<le> 1 \<or> requested \<noteq> None) (OverlappingDomains domains)) (\<lambda>_.
          (case requested of
             None \<Rightarrow> Inr p
           | Some r \<Rightarrow>
               bindr (ensure (r \<in> set domains) (UnknownDomain r)) (\<lambda>_.
                 Inr (p\<lparr>p_samples := filter (\<lambda>s. sample_domain p s = r) (p_samples p)\<rparr>)))))"

lemma sample_domain_samples [simp]: "sample_domain (p\<lparr>p_samples := ss\<rparr>) s = sample_domain p s"
  by (simp add: sample_domain_def profile_get_def cong: option.case_cong)

lemma is_heap_profile_samples [simp]: "is_heap_profile (p\<lparr>p_samples := ss\<rparr>) = is_heap_profile p"
  by (simp add: is_heap_profile_def profile_get_def)

text \<open>After a selection every sample is of one domain, and no sample of that domain is lost.\<close>

lemma select_domain_one:
  assumes "select_domain r p = Inr q" and "is_heap_profile p"
  shows "\<exists>d. p_samples q = filter (\<lambda>s. sample_domain p s = d) (p_samples p)
    \<and> (\<forall>s\<in>set (p_samples q). sample_domain q s = d) \<and> q = p\<lparr>p_samples := p_samples q\<rparr>"
proof (cases r)
  case None
  let ?D = "set (map (sample_domain p) (p_samples p))"
  have q: "q = p" and card: "length (sorted_list_of_set ?D) \<le> 1"
    using assms None by (auto simp: select_domain_def Let_def bindr_Inr_iff)
  have "card ?D \<le> 1" using card by (simp only: length_sorted_list_of_set)
  then have "\<exists>d. \<forall>x\<in>?D. x = d" by (metis card_le_Suc0_iff_eq finite_set One_nat_def)
  then obtain d where "\<forall>s\<in>set (p_samples p). sample_domain p s = d" by auto
  then show ?thesis by (intro exI [of _ d]) (simp add: q filter_id_conv)
next
  case (Some d)
  then show ?thesis using assms by (auto simp: select_domain_def Let_def bindr_Inr_iff)
qed

lemma select_domain_idem:
  assumes "select_domain (Some d) p = Inr q" and "is_heap_profile p"
  shows "select_domain (Some d) q = Inr q" and "select_domain None q = Inr q"
proof -
  have q: "q = p\<lparr>p_samples := filter (\<lambda>s. sample_domain p s = d) (p_samples p)\<rparr>"
    and d: "d \<in> sample_domain p ` set (p_samples p)"
    using assms by (auto simp: select_domain_def Let_def bindr_Inr_iff)
  have "set (map (sample_domain q) (p_samples q)) = {d}"
    using d by (auto simp: q)
  then show "select_domain (Some d) q = Inr q" "select_domain None q = Inr q"
    using assms(2) by (simp_all add: select_domain_def Let_def) (simp_all add: q filter_id_conv)
qed

section \<open>Properties\<close>

text \<open>Two heaps in one profile.\<close>

definition demo_domains :: profile where
  "demo_domains = profile_new\<lparr>
     p_strings := snd (intern_all intern st_new [''inuse_space'', ''heap'', ''a'', ''b'', ''bytes'']),
     p_value_types := [\<lparr>vt_type = 1, vt_unit = 5\<rparr>],
     p_samples := [\<lparr>sm_location_ids = [], sm_values = [5], sm_labels = [lb_default\<lparr>lb_key := 2, lb_str_index := 3\<rparr>]\<rparr>,
                   \<lparr>sm_location_ids = [], sm_values = [7], sm_labels = [lb_default\<lparr>lb_key := 2, lb_str_index := 4\<rparr>]\<rparr>]\<rparr>"

lemma demo_domains_facts:
  "is_heap_profile demo_domains"
  "map (sample_domain demo_domains) (p_samples demo_domains) = [''a'', ''b'']"
  by (simp_all add: is_heap_profile_def sample_domain_def demo_domains_def profile_get_def st_get_def
      st_new_def intern_def st_empty_def profile_new_def)

text \<open>C22: a profile is accepted as a heap profile exactly when its tables are sound (unique
  non-zero identifiers, every reference and string index resolving), its metrics are distinct
  heap metrics with their units, and every sample has one value per metric.\<close>

theorem validate_exactly_heap_valid: "validate_profile p = Inr () \<longleftrightarrow> heap_valid p"
  by (rule validate_profile_iff)

text \<open>what a selection lets through is one heap domain: all of its samples, in order, no sample
  of another domain, and nothing else of the profile changed.\<close>

theorem selection_is_one_domain:
  assumes "select_domain r p = Inr q" and "is_heap_profile p"
  shows "\<exists>d. p_samples q = filter (\<lambda>s. sample_domain p s = d) (p_samples p)
    \<and> (\<forall>s\<in>set (p_samples q). sample_domain q s = d) \<and> q = p\<lparr>p_samples := p_samples q\<rparr>"
  by (rule select_domain_one [OF assms])

theorem selection_is_one_domain_witness:
  "\<exists>q d. select_domain (Some ''a'') demo_domains = Inr q
     \<and> p_samples q = filter (\<lambda>s. sample_domain demo_domains s = d) (p_samples demo_domains)"
proof -
  have "set (map (sample_domain demo_domains) (p_samples demo_domains)) = {''a'', ''b''}"
    by (simp only: demo_domains_facts) simp
  then have "select_domain (Some ''a'') demo_domains = Inr (demo_domains\<lparr>p_samples :=
      filter (\<lambda>s. sample_domain demo_domains s = ''a'') (p_samples demo_domains)\<rparr>)"
    using demo_domains_facts(1) by (simp add: select_domain_def Let_def)
  then show ?thesis using selection_is_one_domain [OF _ demo_domains_facts(1)] by blast
qed

text \<open>a heap profile that mixes domains is refused unless one is named, and the refusal lists
  the domains it holds.\<close>

theorem mixed_domains_refused:
  assumes "is_heap_profile p" and "s \<in> set (p_samples p)" and "t \<in> set (p_samples p)"
    and "sample_domain p s \<noteq> sample_domain p t"
  shows "\<exists>ds. select_domain None p = Inl (OverlappingDomains ds)
    \<and> sorted ds \<and> distinct ds \<and> set ds = sample_domain p ` set (p_samples p)"
proof -
  let ?D = "set (map (sample_domain p) (p_samples p))"
  have "\<not> card ?D \<le> 1"
    using assms(2-4) card_le_Suc0_iff_eq [of ?D] by auto
  then have "\<not> length (sorted_list_of_set ?D) \<le> 1" by simp
  then show ?thesis
    using assms(1) by (auto simp: select_domain_def Let_def intro!: exI [of _ "sorted_list_of_set ?D"])
qed

theorem mixed_domains_refused_witness:
  "\<exists>ds. select_domain None demo_domains = Inl (OverlappingDomains ds) \<and> set ds = {''a'', ''b''}"
proof -
  obtain s t where st: "p_samples demo_domains = [s, t]" by (simp add: demo_domains_def)
  then have "sample_domain demo_domains s = ''a''" "sample_domain demo_domains t = ''b''"
    using demo_domains_facts(2) by simp_all
  then show ?thesis using mixed_domains_refused [OF demo_domains_facts(1), of s t] st by auto
qed

end
