(* ===== verification/Compare.thy ===== *)
theory Compare
  imports Heap_Validate Ordered_Map
begin

text \<open>
  The signed difference of two heap snapshots (\<open>src/heap/compare.rs\<close>). Samples are matched by
  a key, the JSON text of their resolved stack and labels; \<open>serde_json::to_string\<close> is the
  parameter \<open>json\<close>. An index out of range, which Rust turns into a panic, is the error
  \<open>Panic\<close>.
\<close>

section \<open>Sample keys\<close>

type_synonym line_key = "string \<times> string \<times> string \<times> i64 \<times> i64 \<times> i64"
type_synonym location_key = "string \<times> u64 \<times> line_key list"
type_synonym label_key = "string \<times> string \<times> i64 \<times> string"
type_synonym sample_key = "location_key list \<times> label_key list"
type_synonym json = "sample_key \<Rightarrow> string"

definition key_string :: "profile \<Rightarrow> u64 \<Rightarrow> string result" where
  "key_string p i = context_opt (profile_get p i) (BadStringIndex i)"

definition starts_0x :: "string \<Rightarrow> bool" where
  "starts_0x s \<longleftrightarrow> prefix ''0x'' s"

definition line_key :: "profile \<Rightarrow> line \<Rightarrow> line_key result" where
  "line_key p ln =
     bindr (context_opt (index_by fn_id (p_functions p) (ln_function_id ln)) MissingFunction) (\<lambda>f.
     bindr (key_string p (fn_name f)) (\<lambda>name.
     bindr (key_string p (fn_system_name f)) (\<lambda>system_name.
     bindr (key_string p (fn_filename f)) (\<lambda>filename.
       Inr (name, system_name, filename, fn_start_line f, ln_line ln, ln_column ln)))))"

definition location_binary :: "profile \<Rightarrow> mapping option \<Rightarrow> string result" where
  "location_binary p m =
     (case m of
        None \<Rightarrow> Inr []
      | Some m \<Rightarrow>
          bindr (if mp_build_id m \<noteq> 0 then bindr (key_string p (mp_build_id m)) (\<lambda>b. Inr (b \<noteq> []))
                 else Inr False)
            (\<lambda>by_id. if by_id then key_string p (mp_build_id m) else key_string p (mp_filename m)))"

definition unknown_name :: "string \<Rightarrow> string" where
  "unknown_name s = (if starts_0x s then ''[unknown]'' else s)"

definition location_key :: "profile \<Rightarrow> u64 \<Rightarrow> location_key result" where
  "location_key p i =
     bindr (context_opt (index_by loc_id (p_locations p) i) MissingLocation) (\<lambda>l.
     bindr (collect_result (line_key p) (loc_lines l)) (\<lambda>lines.
       let m = index_by mp_id (p_mappings p) (loc_mapping_id l) in
       bindr (location_binary p m) (\<lambda>binary.
         let address =
           (if lines = [] \<or> list_all (\<lambda>l. starts_0x (fst l)) lines then
              (case m of
                 Some m \<Rightarrow> saturating_add_u64 (saturating_sub_u64 (loc_address l) (mp_memory_start m))
                             (mp_file_offset m)
               | None \<Rightarrow> loc_address l)
            else 0)
         in Inr (binary, address,
              map (\<lambda>(name, system_name, rest). (unknown_name name, unknown_name system_name, rest)) lines))))"

definition label_key :: "profile \<Rightarrow> label \<Rightarrow> label_key result" where
  "label_key p l =
     bindr (key_string p (lb_key l)) (\<lambda>k.
     bindr (key_string p (lb_str_index l)) (\<lambda>s.
     bindr (key_string p (lb_num_unit l)) (\<lambda>u. Inr (k, s, lb_num l, u))))"

text \<open>\<open>labels.sort()\<close>: tuples in lexicographic order, the number signed.\<close>

definition label_order :: "label_key \<Rightarrow> string \<times> string \<times> int \<times> string" where
  "label_order = (\<lambda>(k, s, n, u). (k, s, sint n, u))"

definition sample_key :: "json \<Rightarrow> profile \<Rightarrow> sample \<Rightarrow> string result" where
  "sample_key json p s =
     bindr (collect_result (location_key p) (sm_location_ids s)) (\<lambda>stack.
     bindr (collect_result (label_key p) (sm_labels s)) (\<lambda>labels.
       Inr (json (stack, sort_key label_order labels))))"

section \<open>Adding values\<close>

fun add_values :: "bool \<Rightarrow> i64 list \<Rightarrow> i64 list \<Rightarrow> i64 list result" where
  "add_values up (a # as) (b # bs) =
     bindr (context_opt (if up then checked_add_i64 a b else checked_sub_i64 a b) DifferenceOverflow)
       (\<lambda>c. bindr (add_values up as bs) (\<lambda>cs. Inr (c # cs)))"
| "add_values up as _ = Inr as"

lemma add_values_Inr:
  "add_values up as bs = Inr cs \<Longrightarrow> length as = length bs \<Longrightarrow>
     map sint cs = map2 (if up then (+) else (-)) (map sint as) (map sint bs)"
proof (induction up as bs arbitrary: cs rule: add_values.induct)
  case (1 up a as b bs)
  then show ?case
    by (cases up) (auto simp: bindr_Inr_iff checked_add_i64_Some checked_sub_i64_Some sint_add_i64 sint_sub_i64)
qed auto

lemma add_values_length: "add_values up as bs = Inr cs \<Longrightarrow> length cs = length as"
  by (induction up as bs arbitrary: cs rule: add_values.induct) (auto simp: bindr_Inr_iff)

section \<open>Copying the tables of the base\<close>

definition index_result :: "'a list \<Rightarrow> u64 \<Rightarrow> 'a result" where
  "index_result xs i = (if unat i < length xs then Inr (xs ! unat i) else Inl Panic)"

definition next_id :: "u64 \<Rightarrow> u64 result" where
  "next_id n = context_opt (checked_add_u64 n 1) IdentifierOverflow"

definition max_id :: "u64 list \<Rightarrow> u64" where
  "max_id ids = fold max ids 0"

text \<open>The state of the three loops: the identifiers given so far, the last one, the output.\<close>

type_synonym renaming = "(u64 \<rightharpoonup> u64) \<times> u64 \<times> profile"

definition copy_mapping :: "u64 list \<Rightarrow> renaming \<Rightarrow> mapping \<Rightarrow> renaming result" where
  "copy_mapping strings s m =
     (let (ids, next, out) = s in
      bindr (next_id next) (\<lambda>next.
      bindr (index_result strings (mp_filename m)) (\<lambda>filename.
      bindr (index_result strings (mp_build_id m)) (\<lambda>build_id.
        Inr (ids(mp_id m \<mapsto> next), next,
          out\<lparr>p_mappings := p_mappings out @
            [m\<lparr>mp_id := next, mp_filename := filename, mp_build_id := build_id\<rparr>]\<rparr>)))))"

definition copy_function :: "u64 list \<Rightarrow> renaming \<Rightarrow> func \<Rightarrow> renaming result" where
  "copy_function strings s f =
     (let (ids, next, out) = s in
      bindr (next_id next) (\<lambda>next.
      bindr (index_result strings (fn_name f)) (\<lambda>name.
      bindr (index_result strings (fn_system_name f)) (\<lambda>system_name.
      bindr (index_result strings (fn_filename f)) (\<lambda>filename.
        Inr (ids(fn_id f \<mapsto> next), next,
          out\<lparr>p_functions := p_functions out @
            [f\<lparr>fn_id := next, fn_name := name, fn_system_name := system_name,
               fn_filename := filename\<rparr>]\<rparr>))))))"

definition copy_location :: "(u64 \<rightharpoonup> u64) \<Rightarrow> (u64 \<rightharpoonup> u64) \<Rightarrow> renaming \<Rightarrow> location \<Rightarrow> renaming result" where
  "copy_location mapping_ids function_ids s l =
     (let (ids, next, out) = s in
      bindr (next_id next) (\<lambda>next.
      bindr (context_opt (mapping_ids (loc_mapping_id l)) MissingMapping) (\<lambda>mapping_id.
      bindr (collect_result (\<lambda>ln. bindr (context_opt (function_ids (ln_function_id ln)) MissingFunction)
          (\<lambda>f. Inr (ln\<lparr>ln_function_id := f\<rparr>))) (loc_lines l)) (\<lambda>lines.
        Inr (ids(loc_id l \<mapsto> next), next,
          out\<lparr>p_locations := p_locations out @
            [l\<lparr>loc_id := next, loc_mapping_id := mapping_id, loc_lines := lines\<rparr>]\<rparr>)))))"

section \<open>The difference\<close>

type_synonym sample_map = "(string \<times> sample) list"

definition current_step :: "json \<Rightarrow> profile \<Rightarrow> sample_map \<Rightarrow> sample \<Rightarrow> sample_map result" where
  "current_step json current samples s =
     bindr (sample_key json current s) (\<lambda>key.
       case map_of samples key of
         Some existing \<Rightarrow>
           bindr (add_values True (sm_values existing) (sm_values s)) (\<lambda>vs.
             Inr (bt_insert key (existing\<lparr>sm_values := vs\<rparr>) samples))
       | None \<Rightarrow> Inr (bt_insert key s samples))"

definition renamed_label :: "u64 list \<Rightarrow> label \<Rightarrow> label result" where
  "renamed_label strings l =
     bindr (index_result strings (lb_key l)) (\<lambda>k.
     bindr (index_result strings (lb_str_index l)) (\<lambda>s.
     bindr (index_result strings (lb_num_unit l)) (\<lambda>u.
       Inr (l\<lparr>lb_key := k, lb_str_index := s, lb_num_unit := u\<rparr>))))"

definition base_step :: "json \<Rightarrow> profile \<Rightarrow> nat list \<Rightarrow> u64 list \<Rightarrow> (u64 \<rightharpoonup> u64) \<Rightarrow> sample_map
    \<Rightarrow> sample \<Rightarrow> sample_map result" where
  "base_step json base order strings location_ids samples s =
     bindr (sample_key json base s) (\<lambda>key.
     bindr (collect_result (\<lambda>i. if i < length (sm_values s) then Inr (sm_values s ! i) else Inl Panic)
       order) (\<lambda>values.
       case map_of samples key of
         Some existing \<Rightarrow>
           bindr (add_values False (sm_values existing) values) (\<lambda>vs.
             Inr (bt_insert key (existing\<lparr>sm_values := vs\<rparr>) samples))
       | None \<Rightarrow>
           bindr (collect_result (\<lambda>v. context_opt (checked_neg_i64 v) DifferenceOverflow) values) (\<lambda>negated.
           bindr (collect_result (\<lambda>i. context_opt (location_ids i) MissingLocation) (sm_location_ids s)) (\<lambda>ids.
           bindr (collect_result (renamed_label strings) (sm_labels s)) (\<lambda>labels.
             Inr (bt_insert key \<lparr>sm_location_ids = ids, sm_values = negated, sm_labels = labels\<rparr> samples))))))"

definition metric_types :: "profile \<Rightarrow> (string \<times> string) list" where
  "metric_types p = map (\<lambda>v. (profile_string p (vt_type v), profile_string p (vt_unit v))) (p_value_types p)"

definition heap_domains :: "profile \<Rightarrow> string set" where
  "heap_domains p = (\<Union>s\<in>set (p_samples p).
     (\<lambda>l. profile_string p (lb_str_index l)) `
       {l \<in> set (sm_labels s). profile_string p (lb_key l) = ''heap''})"

definition difference_note :: string where
  "difference_note = ''Signed heap difference: current snapshot minus base snapshot.''"

text \<open>\<open>order\<close>: where each metric of \<open>current\<close> is among those of \<open>base\<close>.\<close>

definition metric_order :: "(string \<times> string) list \<Rightarrow> (string \<times> string) list \<Rightarrow> nat list result" where
  "metric_order a b = collect_result (\<lambda>metric. context_opt (position ((=) metric) a) Panic) b"

text \<open>The part that copies the strings, mappings, functions and locations of the base.\<close>

definition copy_tables :: "profile \<Rightarrow> profile \<Rightarrow> (u64 list \<times> (u64 \<rightharpoonup> u64) \<times> profile) result" where
  "copy_tables base out =
     (let (strings, st) = intern_all intern (p_strings out) (st_strings (p_strings base));
          out = out\<lparr>p_strings := st\<rparr> in
      bindr (fold_result (copy_mapping strings) ([0 \<mapsto> 0], max_id (map mp_id (p_mappings out)), out)
        (p_mappings base)) (\<lambda>(mapping_ids, _, out).
      bindr (fold_result (copy_function strings) ([0 \<mapsto> 0], max_id (map fn_id (p_functions out)), out)
        (p_functions base)) (\<lambda>(function_ids, _, out).
      bindr (fold_result (copy_location mapping_ids function_ids)
        (Map.empty, max_id (map loc_id (p_locations out)), out) (p_locations base))
        (\<lambda>(location_ids, _, out). Inr (strings, location_ids, out)))))"

text \<open>The lines after the loops: the non-zero samples, and the comment.\<close>

definition difference_output :: "sample_map \<Rightarrow> profile \<Rightarrow> profile" where
  "difference_output samples out =
     (let (c, st) = intern (p_strings out) difference_note in
      out\<lparr>p_samples := filter (\<lambda>s. list_ex (\<lambda>v. v \<noteq> 0) (sm_values s)) (map snd samples),
          p_strings := st, p_comments := p_comments out @ [c]\<rparr>)"

lemma difference_output_samples [simp]:
  "p_samples (difference_output samples out) =
     filter (\<lambda>s. list_ex (\<lambda>v. v \<noteq> 0) (sm_values s)) (map snd samples)"
  by (simp add: difference_output_def split_beta)

definition difference :: "json \<Rightarrow> profile \<Rightarrow> profile \<Rightarrow> profile result" where
  "difference json base current =
     bindr (validate_profile base) (\<lambda>_.
     bindr (validate_profile current) (\<lambda>_.
       let a = metric_types base; b = metric_types current in
       bindr (ensure (length a = length b \<and> set a = set b) IncompatibleTypes) (\<lambda>_.
       bindr (ensure (heap_domains base = heap_domains current) DifferentDomains) (\<lambda>_.
       bindr (metric_order a b) (\<lambda>order.
       bindr (fold_result (current_step json current) [] (p_samples current)) (\<lambda>samples.
       bindr (copy_tables base (current\<lparr>p_samples := []\<rparr>)) (\<lambda>(strings, location_ids, out).
       bindr (fold_result (base_step json base order strings location_ids) samples (p_samples base)) (\<lambda>samples.
         Inr (difference_output samples out)))))))))"

section \<open>What the maps of samples hold\<close>

definition value_at :: "sample_map \<Rightarrow> string \<Rightarrow> nat \<Rightarrow> int" where
  "value_at samples key j =
     (case map_of samples key of None \<Rightarrow> 0 | Some s \<Rightarrow> sint (sm_values s ! j))"

definition key_total :: "json \<Rightarrow> profile \<Rightarrow> string \<Rightarrow> nat \<Rightarrow> sample list \<Rightarrow> int" where
  "key_total json p key j ss =
     sum_list (map (\<lambda>s. sint (sm_values s ! j)) (filter (\<lambda>s. sample_key json p s = Inr key) ss))"

definition samples_ok :: "nat \<Rightarrow> sample_map \<Rightarrow> bool" where
  "samples_ok n samples \<longleftrightarrow> bt_ok samples \<and> (\<forall>k s. map_of samples k = Some s \<longrightarrow> length (sm_values s) = n)"

lemma samples_ok_insert:
  "samples_ok n samples \<Longrightarrow> length (sm_values s) = n \<Longrightarrow> samples_ok n (bt_insert k s samples)"
  by (auto simp: samples_ok_def map_of_bt_insert split: if_splits)

lemma value_at_insert:
  "samples_ok n samples \<Longrightarrow> value_at (bt_insert k s samples) k' j =
     (if k' = k then sint (sm_values s ! j) else value_at samples k' j)"
  by (simp add: samples_ok_def value_at_def map_of_bt_insert)

lemma value_at_None: "map_of samples k = None \<Longrightarrow> value_at samples k j = 0"
  by (simp add: value_at_def)

lemma value_at_Some: "map_of samples k = Some s \<Longrightarrow> value_at samples k j = sint (sm_values s ! j)"
  by (simp add: value_at_def)

lemma add_values_nth:
  assumes "add_values up as bs = Inr cs" and "length as = length bs" and "j < length as"
  shows "sint (cs ! j) = (if up then sint (as ! j) + sint (bs ! j) else sint (as ! j) - sint (bs ! j))"
proof -
  have "sint (cs ! j) = map sint cs ! j"
    using add_values_length [OF assms(1)] assms(3) by simp
  also have "\<dots> = (if up then sint (as ! j) + sint (bs ! j) else sint (as ! j) - sint (bs ! j))"
    using add_values_Inr [OF assms(1,2)] assms(2,3) by simp
  finally show ?thesis .
qed

lemma current_step_values:
  assumes "current_step json p samples s = Inr samples'" and "samples_ok n samples"
    and "length (sm_values s) = n"
  shows "samples_ok n samples' \<and> (\<forall>k j. j < n \<longrightarrow>
    value_at samples' k j = value_at samples k j + key_total json p k j [s])"
proof -
  obtain key where key: "sample_key json p s = Inr key"
    using assms(1) by (auto simp: current_step_def bindr_Inr_iff)
  show ?thesis
  proof (cases "map_of samples key")
    case None
    then have "samples' = bt_insert key s samples"
      using assms(1) key by (simp add: current_step_def)
    then show ?thesis
      using assms(2,3) value_at_None [OF None]
      by (auto simp: samples_ok_insert value_at_insert key_total_def key)
  next
    case (Some e)
    then obtain vs where vs: "add_values True (sm_values e) (sm_values s) = Inr vs"
      and s': "samples' = bt_insert key (e\<lparr>sm_values := vs\<rparr>) samples"
      using assms(1) key by (auto simp: current_step_def bindr_Inr_iff)
    have len: "length (sm_values e) = n" using assms(2) Some by (simp add: samples_ok_def)
    then have "samples_ok n samples'"
      using assms(2) add_values_length [OF vs] by (simp add: s' samples_ok_insert)
    moreover have "value_at samples' k j = value_at samples k j + key_total json p k j [s]" if "j < n" for k j
      using add_values_nth [OF vs, of j] that len assms(3) value_at_Some [OF Some]
      by (auto simp: s' value_at_insert [OF assms(2)] key_total_def key)
    ultimately show ?thesis by blast
  qed
qed

lemma current_loop_values:
  assumes "fold_result (current_step json p) samples ss = Inr samples'" and "samples_ok n samples"
    and "\<forall>s\<in>set ss. length (sm_values s) = n"
  shows "samples_ok n samples' \<and> (\<forall>k j. j < n \<longrightarrow>
    value_at samples' k j = value_at samples k j + key_total json p k j ss)"
  using assms
proof (induction ss arbitrary: samples)
  case (Cons s ss)
  obtain mid where mid: "current_step json p samples s = Inr mid"
    and rest: "fold_result (current_step json p) mid ss = Inr samples'"
    using Cons.prems(1) by (auto simp: bindr_Inr_iff)
  have step: "samples_ok n mid \<and> (\<forall>k j. j < n \<longrightarrow>
      value_at mid k j = value_at samples k j + key_total json p k j [s])"
    by (rule current_step_values [OF mid Cons.prems(2)]) (use Cons.prems(3) in simp)
  then show ?case
    using Cons.IH [OF rest] Cons.prems(3) by (auto simp: key_total_def)
qed (simp add: key_total_def)

lemma base_step_values:
  assumes "base_step json p order strings ids samples s = Inr samples'" and "samples_ok (length order) samples"
  shows "samples_ok (length order) samples' \<and> (\<forall>k j. j < length order \<longrightarrow>
    value_at samples' k j = value_at samples k j - key_total json p k (order ! j) [s])"
proof -
  obtain key vs where key: "sample_key json p s = Inr key"
    and vs: "list_all2 (\<lambda>i v. i < length (sm_values s) \<and> v = sm_values s ! i) order vs"
    and found: "(case map_of samples key of
         Some existing \<Rightarrow>
           bindr (add_values False (sm_values existing) vs) (\<lambda>vs.
             Inr (bt_insert key (existing\<lparr>sm_values := vs\<rparr>) samples))
       | None \<Rightarrow>
           bindr (collect_result (\<lambda>v. context_opt (checked_neg_i64 v) DifferenceOverflow) vs) (\<lambda>negated.
           bindr (collect_result (\<lambda>i. context_opt (ids i) MissingLocation) (sm_location_ids s)) (\<lambda>ids.
           bindr (collect_result (renamed_label strings) (sm_labels s)) (\<lambda>labels.
             Inr (bt_insert key \<lparr>sm_location_ids = ids, sm_values = negated, sm_labels = labels\<rparr> samples)))))
       = Inr samples'"
  proof -
    obtain key vs where "sample_key json p s = Inr key"
      "collect_result (\<lambda>i. if i < length (sm_values s) then Inr (sm_values s ! i) else Inl Panic) order = Inr vs"
      using assms(1) by (auto simp: base_step_def bindr_Inr_iff)
    moreover from this(2) have "list_all2 (\<lambda>i v. i < length (sm_values s) \<and> v = sm_values s ! i) order vs"
      unfolding collect_result_Inr_iff by (rule list_all2_mono) (auto split: if_splits)
    ultimately show thesis using assms(1) that by (auto simp: base_step_def)
  qed
  have len: "length vs = length order" and nth: "j < length order \<Longrightarrow> vs ! j = sm_values s ! (order ! j)" for j
    using vs by (auto simp: list_all2_conv_all_nth)
  show ?thesis
  proof (cases "map_of samples key")
    case None
    then obtain neg smp where neg: "list_all2 (\<lambda>v w. checked_neg_i64 v = Some w) vs neg"
      and s': "samples' = bt_insert key smp samples" and smp: "sm_values smp = neg"
      using found by (auto simp: bindr_Inr_iff collect_result_Inr_iff)
    have "length neg = length order" and "j < length order \<Longrightarrow> sint (neg ! j) = - sint (vs ! j)" for j
      using neg len by (auto simp: list_all2_conv_all_nth checked_neg_i64_Some sint_neg_i64)
    then show ?thesis
      using assms(2) value_at_None [OF None] nth
      by (auto simp: s' samples_ok_insert value_at_insert key_total_def key smp)
  next
    case (Some e)
    then obtain ws where ws: "add_values False (sm_values e) vs = Inr ws"
      and s': "samples' = bt_insert key (e\<lparr>sm_values := ws\<rparr>) samples"
      using found by (auto simp: bindr_Inr_iff)
    have len_e: "length (sm_values e) = length order" using assms(2) Some by (simp add: samples_ok_def)
    then have "samples_ok (length order) samples'"
      using assms(2) add_values_length [OF ws] by (simp add: s' samples_ok_insert)
    moreover have "value_at samples' k j = value_at samples k j - key_total json p k (order ! j) [s]"
      if "j < length order" for k j
      using add_values_nth [OF ws, of j] that len len_e nth [OF that] value_at_Some [OF Some]
      by (auto simp: s' value_at_insert [OF assms(2)] key_total_def key)
    ultimately show ?thesis by blast
  qed
qed

lemma base_loop_values:
  assumes "fold_result (base_step json p order strings ids) samples ss = Inr samples'"
    and "samples_ok (length order) samples"
  shows "samples_ok (length order) samples' \<and> (\<forall>k j. j < length order \<longrightarrow>
    value_at samples' k j = value_at samples k j - key_total json p k (order ! j) ss)"
  using assms
proof (induction ss arbitrary: samples)
  case (Cons s ss)
  obtain mid where mid: "base_step json p order strings ids samples s = Inr mid"
    and rest: "fold_result (base_step json p order strings ids) mid ss = Inr samples'"
    using Cons.prems(1) by (auto simp: bindr_Inr_iff)
  show ?case
    using Cons.IH [OF rest] base_step_values [OF mid Cons.prems(2)] by (auto simp: key_total_def)
qed (simp add: key_total_def)


section \<open>The result\<close>

lemma copy_tables_samples:
  assumes "copy_tables base out = Inr (strings, ids, out')"
  shows "p_samples out' = p_samples out"
proof -
  have map: "fold_result (copy_mapping strs) s ms = Inr s' \<Longrightarrow> p_samples (snd (snd s')) = p_samples (snd (snd s))"
    for strs s ms s'
    by (erule fold_result_invariant [where P = "\<lambda>t. p_samples (snd (snd t)) = p_samples (snd (snd s))"])
       (auto simp: copy_mapping_def bindr_Inr_iff split: prod.splits)
  have func: "fold_result (copy_function strs) s ms = Inr s' \<Longrightarrow> p_samples (snd (snd s')) = p_samples (snd (snd s))"
    for strs s ms s'
    by (erule fold_result_invariant [where P = "\<lambda>t. p_samples (snd (snd t)) = p_samples (snd (snd s))"])
       (auto simp: copy_function_def bindr_Inr_iff split: prod.splits)
  have loc: "fold_result (copy_location m f) s ms = Inr s' \<Longrightarrow> p_samples (snd (snd s')) = p_samples (snd (snd s))"
    for m f s ms s'
    by (erule fold_result_invariant [where P = "\<lambda>t. p_samples (snd (snd t)) = p_samples (snd (snd s))"])
       (auto simp: copy_location_def bindr_Inr_iff split: prod.splits)
  show ?thesis
    using assms by (auto simp: copy_tables_def Let_def bindr_Inr_iff split: prod.splits dest!: map func loc)
qed

lemma difference_values:
  assumes "difference json base current = Inr out"
  obtains order samples where
    "metric_order (metric_types base) (metric_types current) = Inr order"
    "samples_ok (length (p_value_types current)) samples"
    "p_samples out = filter (\<lambda>s. list_ex (\<lambda>v. v \<noteq> 0) (sm_values s)) (map snd samples)"
    "\<forall>k j. j < length (p_value_types current) \<longrightarrow> value_at samples k j =
       key_total json current k j (p_samples current) - key_total json base k (order ! j) (p_samples base)"
proof -
  obtain order cur strings ids tab samples where valid: "validate_profile current = Inr ()"
    and order: "metric_order (metric_types base) (metric_types current) = Inr order"
    and cur: "fold_result (current_step json current) [] (p_samples current) = Inr cur"
    and tab: "copy_tables base (current\<lparr>p_samples := []\<rparr>) = Inr (strings, ids, tab)"
    and samples: "fold_result (base_step json base order strings ids) cur (p_samples base) = Inr samples"
    and out: "p_samples out = filter (\<lambda>s. list_ex (\<lambda>v. v \<noteq> 0) (sm_values s)) (map snd samples)"
    using assms by (auto simp: difference_def bindr_Inr_iff Let_def split: prod.splits)
  have len: "length order = length (p_value_types current)"
    using order by (auto simp: metric_order_def metric_types_def collect_result_Inr_iff dest: list_all2_lengthD)
  have "\<forall>s\<in>set (p_samples current). length (sm_values s) = length order"
    using valid by (simp add: validate_profile_iff heap_valid_def sample_valid_def len)
  moreover have "samples_ok n []" for n by (simp add: samples_ok_def)
  ultimately have 1: "samples_ok (length order) cur" "j < length order \<Longrightarrow>
      value_at cur k j = key_total json current k j (p_samples current)" for k j
    using current_loop_values [OF cur, of "length order"] by (auto simp: value_at_None)
  show thesis
    by (rule that [OF order _ out]) (use base_loop_values [OF samples 1(1)] 1(2) len in auto)
qed

lemma metric_order_self:
  assumes "distinct ms" shows "metric_order ms ms = Inr [0..<length ms]"
proof -
  have "position ((=) (ms ! i)) ms = Some i" if "i < length ms" for i
  proof (cases "position ((=) (ms ! i)) ms")
    case None
    then show ?thesis using that by (auto simp: position_None)
  next
    case (Some j)
    then show ?thesis using position_Some [OF Some] assms that by (auto simp: nth_eq_iff_index_eq)
  qed
  then show ?thesis
    by (simp add: metric_order_def collect_result_Inr_iff list_all2_conv_all_nth)
qed

text \<open>A snapshot compared with itself differs nowhere.\<close>

lemma difference_self_empty:
  assumes "difference json p p = Inr out"
  shows "p_samples out = []"
proof -
  obtain order samples where order: "metric_order (metric_types p) (metric_types p) = Inr order"
    and ok: "samples_ok (length (p_value_types p)) samples"
    and out: "p_samples out = filter (\<lambda>s. list_ex (\<lambda>v. v \<noteq> 0) (sm_values s)) (map snd samples)"
    and vals: "\<forall>k j. j < length (p_value_types p) \<longrightarrow> value_at samples k j =
       key_total json p k j (p_samples p) - key_total json p k (order ! j) (p_samples p)"
    by (rule difference_values [OF assms])
  have "validate_profile p = Inr ()"
    using assms by (auto simp: difference_def bindr_Inr_iff)
  then have "distinct (map fst (metric_types p))"
    by (simp add: validate_profile_iff heap_valid_def header_valid_def metrics_valid_def metric_types_def comp_def)
  then have "distinct (metric_types p)" by (simp add: distinct_map)
  then have order_id: "order ! j = j" if "j < length (p_value_types p)" for j
    using order metric_order_self that by (auto simp: metric_types_def)
  have zero: "sm_values s ! j = 0" if "s \<in> set (map snd samples)" "j < length (sm_values s)" for s j
  proof -
    have "\<exists>k. (k, s) \<in> set samples" using that(1) by auto
    then obtain k where k: "(k, s) \<in> set samples" ..
    then have m: "map_of samples k = Some s" using ok by (simp add: samples_ok_def map_of_SomeI)
    then have "sint (sm_values s ! j) = 0"
      using vals value_at_Some [OF m, of j] that(2) ok order_id by (simp add: samples_ok_def)
    then show ?thesis by (intro signed_word_eqI) simp
  qed
  have "\<not> list_ex (\<lambda>v. v \<noteq> 0) (sm_values s)" if "s \<in> set (map snd samples)" for s
    using zero [OF that] by (auto simp: list_ex_iff in_set_conv_nth [of _ "sm_values s"])
  then show ?thesis by (simp add: out filter_empty_conv)
qed

section \<open>Properties\<close>

text \<open>A snapshot and a later one, and a key made of the domains alone.\<close>

definition demo_json :: json where
  "demo_json = (\<lambda>(stack, labels). concat (map (\<lambda>(_, domain, _). domain) labels))"

definition demo_later :: profile where
  "demo_later = demo_domains\<lparr>p_samples :=
     map (\<lambda>s. if sm_values s = [5] then s\<lparr>sm_values := [9]\<rparr> else s) (p_samples demo_domains)\<rparr>"

lemma demo_valid: "validate_profile demo_domains = Inr ()" "validate_profile demo_later = Inr ()"
  by (simp_all add: validate_profile_iff heap_valid_def tables_valid_def header_valid_def ids_ok_def
      metrics_valid_def valid_string_def sample_valid_def label_valid_def heap_metric_def
      profile_string_def profile_get_def st_get_def demo_later_def demo_domains_def profile_new_def
      lb_default_def vt_default_def st_new_def intern_def st_empty_def)

text \<open>The intermediate results, step by step.\<close>

lemmas demo_defs = demo_later_def demo_domains_def profile_new_def st_new_def st_empty_def
  intern_def lb_default_def

lemma demo_strings:
  "st_strings (p_strings demo_domains) = ['''', ''inuse_space'', ''heap'', ''a'', ''b'', ''bytes'']"
  "p_strings demo_later = p_strings demo_domains"
  by (simp_all add: demo_defs)

lemma demo_get:
  "profile_get demo_domains 0 = Some ''''" "profile_get demo_domains 1 = Some ''inuse_space''"
  "profile_get demo_domains 2 = Some ''heap''" "profile_get demo_domains 3 = Some ''a''"
  "profile_get demo_domains 4 = Some ''b''" "profile_get demo_domains 5 = Some ''bytes''"
  "profile_get demo_later i = profile_get demo_domains i"
  by (simp_all add: profile_get_def st_get_def demo_strings)

definition demo_sample :: "i64 \<Rightarrow> u64 \<Rightarrow> sample" where
  "demo_sample v d = \<lparr>sm_location_ids = [], sm_values = [v],
     sm_labels = [\<lparr>lb_key = 2, lb_str_index = d, lb_num = 0, lb_num_unit = 0\<rparr>]\<rparr>"

lemma demo_samples:
  "p_samples demo_domains = [demo_sample 5 3, demo_sample 7 4]"
  "p_samples demo_later = [demo_sample 9 3, demo_sample 7 4]"
  "metric_types demo_domains = [(''inuse_space'', ''bytes'')]"
  "metric_types demo_later = [(''inuse_space'', ''bytes'')]"
  by (simp_all add: demo_sample_def metric_types_def profile_string_def)
     (simp_all add: demo_defs profile_get_def st_get_def)

lemma demo_keys:
  "sample_key demo_json demo_domains (demo_sample v 3) = Inr ''a''"
  "sample_key demo_json demo_domains (demo_sample v 4) = Inr ''b''"
  "sample_key demo_json demo_later (demo_sample v 3) = Inr ''a''"
  "sample_key demo_json demo_later (demo_sample v 4) = Inr ''b''"
  by (simp_all add: sample_key_def demo_sample_def label_key_def key_string_def demo_get demo_json_def)

lemma demo_heap_domains:
  "heap_domains demo_domains = {''a'', ''b''}" "heap_domains demo_later = {''a'', ''b''}"
  by (auto simp: heap_domains_def demo_samples demo_sample_def profile_string_def demo_get)

lemma demo_copy:
  "p_mappings p = [] \<Longrightarrow> p_functions p = [] \<Longrightarrow> p_locations p = [] \<Longrightarrow>
     \<exists>strings ids out. copy_tables p q = Inr (strings, ids, out) \<and> p_samples out = p_samples q"
  by (simp add: copy_tables_def Let_def split_beta)

lemma demo_difference:
  "\<exists>out. difference demo_json demo_domains demo_later = Inr out
     \<and> map sm_values (p_samples out) = [[4]]"
  "\<exists>out. difference demo_json demo_domains demo_domains = Inr out"
proof -
  have tables: "p_mappings demo_domains = []" "p_functions demo_domains = []" "p_locations demo_domains = []"
    by (simp_all add: demo_defs)
  have vals: "sm_values (demo_sample v d) = [v]" for v d by (simp add: demo_sample_def)
  note eval = difference_def demo_valid demo_samples demo_heap_domains metric_order_def
    current_step_def demo_keys base_step_def vals checked_sub_i64_def i64_range_def
    i64_min_def i64_max_def
  show "\<exists>out. difference demo_json demo_domains demo_later = Inr out
     \<and> map sm_values (p_samples out) = [[4]]"
    using demo_copy [OF tables, of "demo_later\<lparr>p_samples := []\<rparr>"] by (auto simp: eval)
  show "\<exists>out. difference demo_json demo_domains demo_domains = Inr out"
    using demo_copy [OF tables, of "demo_domains\<lparr>p_samples := []\<rparr>"] by (auto simp: eval)
qed

text \<open>C4: for every key and metric, the difference is the current snapshot's total minus the base's,
  the base's metrics reordered to the current's; entries whose metrics are all zero are dropped,
  and every key occurs once.\<close>

theorem difference_is_exact:
  assumes "difference json base current = Inr out"
  shows "\<exists>order samples. metric_order (metric_types base) (metric_types current) = Inr order
    \<and> samples_ok (length (p_value_types current)) samples
    \<and> p_samples out = filter (\<lambda>s. list_ex (\<lambda>v. v \<noteq> 0) (sm_values s)) (map snd samples)
    \<and> (\<forall>k j. j < length (p_value_types current) \<longrightarrow> value_at samples k j =
         key_total json current k j (p_samples current)
         - key_total json base k (order ! j) (p_samples base))"
  by (rule difference_values [OF assms]) blast

theorem difference_is_exact_witness:
  "\<exists>out order samples. difference demo_json demo_domains demo_later = Inr out
     \<and> map sm_values (p_samples out) = [[4]] \<and> samples_ok 1 samples
     \<and> value_at samples ''a'' 0 = key_total demo_json demo_later ''a'' 0 (p_samples demo_later)
         - key_total demo_json demo_domains ''a'' (order ! 0) (p_samples demo_domains)"
proof -
  obtain out where out: "difference demo_json demo_domains demo_later = Inr out"
    "map sm_values (p_samples out) = [[4]]"
    using demo_difference(1) by (elim exE conjE)
  have n: "length (p_value_types demo_later) = 1" by (simp add: demo_later_def demo_domains_def)
  obtain order samples where ok: "samples_ok (length (p_value_types demo_later)) samples"
    and vals: "\<forall>k j. j < length (p_value_types demo_later) \<longrightarrow> value_at samples k j =
         key_total demo_json demo_later k j (p_samples demo_later)
         - key_total demo_json demo_domains k (order ! j) (p_samples demo_domains)"
    using difference_is_exact [OF out(1)] by (elim exE conjE)
  show ?thesis
  proof (intro exI conjI)
    show "difference demo_json demo_domains demo_later = Inr out" "map sm_values (p_samples out) = [[4]]"
      by (fact out)+
    show "samples_ok 1 samples" using ok by (simp only: n)
    show "value_at samples ''a'' 0 = key_total demo_json demo_later ''a'' 0 (p_samples demo_later)
         - key_total demo_json demo_domains ''a'' (order ! 0) (p_samples demo_domains)"
      using vals n by simp
  qed
qed

text \<open>a snapshot compared with itself has no differences.\<close>

theorem difference_with_itself:
  assumes "difference json p p = Inr out"
  shows "p_samples out = []"
  by (rule difference_self_empty [OF assms])


theorem difference_with_itself_witness:
  "\<exists>out. difference demo_json demo_domains demo_domains = Inr out \<and> p_samples out = []"
  using demo_difference(2) difference_with_itself by blast

end
