(* ===== verification/Heap.thy ===== *)
theory Heap
  imports Ordered_Map
begin

text \<open>
  Heap measurements (\<open>src/heap/mod.rs\<close>): the frames with their derived order, the checked
  arithmetic of \<open>HeapValues\<close>, the samples of a \<open>HeapProfile\<close> and the allocation accounting
  of \<open>NativeHeapTracker\<close>, which is proved to implement a specification over the event log.
\<close>

section \<open>Frames\<close>

datatype heap_mapping = HeapMapping
  (hm_memory_start: u64) (hm_memory_limit: u64) (hm_file_offset: u64)
  (hm_filename: string) (hm_build_id: string)

datatype heap_frame = HeapFrame
  (hf_address: u64) (hf_function: string) (hf_file: string) (hf_line: i64)
  (hf_mapping: "heap_mapping option")

text \<open>\<open>#[derive(PartialOrd, Ord)]\<close>: lexicographic in the order of the fields, \<open>line\<close> signed.\<close>

definition mapping_key :: "heap_mapping \<Rightarrow> u64 \<times> u64 \<times> u64 \<times> string \<times> string" where
  "mapping_key m = (hm_memory_start m, hm_memory_limit m, hm_file_offset m, hm_filename m,
     hm_build_id m)"

lemma mapping_key_inject: "mapping_key a = mapping_key b \<longleftrightarrow> a = b"
  by (cases a; cases b) (simp add: mapping_key_def)

instantiation heap_mapping :: linorder
begin

definition less_eq_heap_mapping :: "heap_mapping \<Rightarrow> heap_mapping \<Rightarrow> bool" where
  "less_eq_heap_mapping a b \<longleftrightarrow> mapping_key a \<le> mapping_key b"

definition less_heap_mapping :: "heap_mapping \<Rightarrow> heap_mapping \<Rightarrow> bool" where
  "less_heap_mapping a b \<longleftrightarrow> mapping_key a < mapping_key b"

instance
  by intro_classes
     (auto simp: less_eq_heap_mapping_def less_heap_mapping_def mapping_key_inject
       simp flip: mapping_key_inject)

end

definition frame_key :: "heap_frame \<Rightarrow> u64 \<times> string \<times> string \<times> int \<times> heap_mapping option" where
  "frame_key f = (hf_address f, hf_function f, hf_file f, sint (hf_line f), hf_mapping f)"

lemma frame_key_inject: "frame_key a = frame_key b \<longleftrightarrow> a = b"
  by (cases a; cases b) (auto simp: frame_key_def intro: signed_word_eqI)

instantiation heap_frame :: linorder
begin

definition less_eq_heap_frame :: "heap_frame \<Rightarrow> heap_frame \<Rightarrow> bool" where
  "less_eq_heap_frame a b \<longleftrightarrow> frame_key a \<le> frame_key b"

definition less_heap_frame :: "heap_frame \<Rightarrow> heap_frame \<Rightarrow> bool" where
  "less_heap_frame a b \<longleftrightarrow> frame_key a < frame_key b"

instance
  by intro_classes
     (auto simp: less_eq_heap_frame_def less_heap_frame_def simp flip: frame_key_inject)

end

type_synonym heap_stack = "heap_frame list"

section \<open>Values\<close>

record heap_values =
  hv_alloc_objects :: u64
  hv_alloc_space :: u64
  hv_inuse_objects :: u64
  hv_inuse_space :: u64

definition hv_zero :: heap_values where
  "hv_zero = \<lparr>hv_alloc_objects = 0, hv_alloc_space = 0, hv_inuse_objects = 0, hv_inuse_space = 0\<rparr>"

definition hv_values :: "heap_values \<Rightarrow> u64 list" where
  "hv_values v = [hv_alloc_objects v, hv_alloc_space v, hv_inuse_objects v, hv_inuse_space v]"

definition measure_add :: "u64 \<times> u64 \<Rightarrow> u64 result" where
  "measure_add = (\<lambda>(a, b).
     case checked_add_u64 a b of
       Some v \<Rightarrow> if v \<le> 0x7FFFFFFFFFFFFFFF then Inr v else Inl MeasurementOverflow
     | None \<Rightarrow> Inl MeasurementOverflow)"

definition hv_checked_add :: "heap_values \<Rightarrow> heap_values \<Rightarrow> heap_values result" where
  "hv_checked_add a b =
     bindr (collect_result measure_add (zip (hv_values a) (hv_values b))) (\<lambda>result.
       Inr \<lparr>hv_alloc_objects = result ! 0, hv_alloc_space = result ! 1,
            hv_inuse_objects = result ! 2, hv_inuse_space = result ! 3\<rparr>)"

text \<open>The four measures as unbounded numbers, and what \<open>checked_add\<close> computes on them.\<close>

definition measures :: "heap_values \<Rightarrow> nat list" where
  "measures v = map unat (hv_values v)"

definition in_i64 :: "nat list \<Rightarrow> bool" where
  "in_i64 ns \<longleftrightarrow> list_all (\<lambda>n. n < 2 ^ 63) ns"

lemma measure_add_Inr:
  "measure_add (a, b) = Inr v \<longleftrightarrow> unat a + unat b < 2 ^ 63 \<and> v = a + b"
proof -
  have le: "a + b \<le> 0x7FFFFFFFFFFFFFFF \<longleftrightarrow> unat a + unat b < 2 ^ 63" if "unat a + unat b < 2 ^ 64"
    using unat_add_u64 [OF that] by (auto simp: word_le_nat_alt)
  show ?thesis
  proof (cases "unat a + unat b < 2 ^ 64")
    case True
    then show ?thesis using le [OF True] by (auto simp: measure_add_def checked_add_u64_def)
  qed (simp add: measure_add_def checked_add_u64_def)
qed

lemma unat_add_u63:
  "unat a + unat b < 9223372036854775808 \<Longrightarrow> unat (a + b :: u64) = unat a + unat b"
  by (rule unat_add_u64) simp

lemma hv_checked_add_Inr:
  "hv_checked_add a b = Inr c \<longleftrightarrow>
     in_i64 (map2 (+) (measures a) (measures b))
     \<and> c = \<lparr>hv_alloc_objects = hv_alloc_objects a + hv_alloc_objects b,
            hv_alloc_space = hv_alloc_space a + hv_alloc_space b,
            hv_inuse_objects = hv_inuse_objects a + hv_inuse_objects b,
            hv_inuse_space = hv_inuse_space a + hv_inuse_space b\<rparr>"
  by (auto simp: hv_checked_add_def hv_values_def measures_def in_i64_def bindr_Inr_iff
      measure_add_Inr)

lemma hv_checked_add_measures:
  assumes "hv_checked_add a b = Inr c"
  shows "measures c = map2 (+) (measures a) (measures b)" and "in_i64 (measures c)"
  using assms by (auto simp: hv_checked_add_Inr measures_def hv_values_def in_i64_def
      unat_add_u63)

lemma hv_checked_add_error: "hv_checked_add a b = Inl e \<Longrightarrow> e = MeasurementOverflow"
  by (auto simp: hv_checked_add_def hv_values_def measure_add_def bindr_Inl_iff
      split: option.splits if_splits)

lemma measures_zero [simp]: "measures hv_zero = [0, 0, 0, 0]"
  by (simp add: measures_def hv_values_def hv_zero_def)

lemma length_measures [simp]: "length (measures v) = 4"
  by (simp add: measures_def hv_values_def)

lemma measures_inject: "measures a = measures b \<longleftrightarrow> a = b"
  by (cases a; cases b) (auto simp: measures_def hv_values_def intro: unsigned_word_eqI)


section \<open>Heap profiles\<close>

record heap_profile =
  hp_domain :: string
  hp_collected_at :: int
  hp_comment :: string
  hp_samples :: "(heap_stack \<times> heap_values) list"

text \<open>\<open>SystemTime::now()\<close> is the argument \<open>now\<close>, in nanoseconds from the epoch.\<close>

definition heap_profile_new :: "int \<Rightarrow> string \<Rightarrow> heap_profile" where
  "heap_profile_new now domain =
     \<lparr>hp_domain = domain, hp_collected_at = now, hp_comment = [], hp_samples = []\<rparr>"

definition value_of :: "(heap_stack \<times> heap_values) list \<Rightarrow> heap_stack \<Rightarrow> heap_values" where
  "value_of samples stack = (case map_of samples stack of None \<Rightarrow> hv_zero | Some v \<Rightarrow> v)"

definition add_sample :: "heap_stack \<Rightarrow> heap_values \<Rightarrow> heap_profile \<Rightarrow> heap_profile result" where
  "add_sample stack values p =
     bindr (ensure (stack \<noteq> []) EmptyStack) (\<lambda>_.
       bindr (hv_checked_add (value_of (hp_samples p) stack) values) (\<lambda>v.
         Inr (p\<lparr>hp_samples := bt_insert stack v (hp_samples p)\<rparr>)))"

definition hp_ok :: "heap_profile \<Rightarrow> bool" where
  "hp_ok p \<longleftrightarrow> bt_ok (hp_samples p) \<and> [] \<notin> fst ` set (hp_samples p)
     \<and> (\<forall>(s, v)\<in>set (hp_samples p). in_i64 (measures v))"

lemma set_bt_insert: "set (bt_insert k v xs) \<subseteq> insert (k, v) (set xs)"
  by (induction k v xs rule: bt_insert.induct) auto

lemma add_sample_ok:
  assumes "hp_ok p" and "add_sample stack v p = Inr q"
  shows "hp_ok q"
    and "measures (value_of (hp_samples q) s) =
      (if s = stack then map2 (+) (measures (value_of (hp_samples p) s)) (measures v)
       else measures (value_of (hp_samples p) s))"
proof -
  obtain w where w: "hv_checked_add (value_of (hp_samples p) stack) v = Inr w"
    and q: "q = p\<lparr>hp_samples := bt_insert stack w (hp_samples p)\<rparr>" and "stack \<noteq> []"
    using assms(2) by (auto simp: add_sample_def bindr_Inr_iff)
  show "hp_ok q"
    using assms(1) \<open>stack \<noteq> []\<close> hv_checked_add_measures [OF w]
      set_bt_insert [of stack w "hp_samples p"]
    unfolding hp_ok_def q by auto
  show "measures (value_of (hp_samples q) s) =
      (if s = stack then map2 (+) (measures (value_of (hp_samples p) s)) (measures v)
       else measures (value_of (hp_samples p) s))"
    using assms(1) hv_checked_add_measures(1) [OF w]
    by (simp add: value_of_def q map_of_bt_insert hp_ok_def)
qed

section \<open>The allocation tracker\<close>

text \<open>
  \<open>HashMap\<close>s that are only looked up are maps; \<open>live\<close>, which \<open>snapshot\<close> iterates, is an
  association list in iteration order.
\<close>

record tracker =
  tr_domain :: string
  tr_stack_ids :: "heap_stack \<rightharpoonup> nat"
  tr_stacks :: "(heap_stack \<times> heap_values) list"
  tr_live :: "(u64 \<times> (u64 \<times> nat)) list"

definition tracker_new :: "string \<Rightarrow> tracker" where
  "tracker_new domain =
     \<lparr>tr_domain = domain, tr_stack_ids = Map.empty, tr_stacks = [], tr_live = []\<rparr>"

text \<open>The inner \<open>if let\<close> of \<open>allocate\<close>: the index of the stack, with the cost charged to it.\<close>

definition charge :: "heap_stack \<Rightarrow> heap_values \<Rightarrow> tracker \<Rightarrow> (nat \<times> tracker) result" where
  "charge stack cost t =
     (case tr_stack_ids t stack of
        Some i \<Rightarrow>
          bindr (hv_checked_add (snd (tr_stacks t ! i)) cost) (\<lambda>v.
            Inr (i, t\<lparr>tr_stacks := (tr_stacks t)[i := (fst (tr_stacks t ! i), v)]\<rparr>))
      | None \<Rightarrow>
          bindr (hv_checked_add hv_zero cost) (\<lambda>cost.
            let i = length (tr_stacks t) in
            Inr (i, t\<lparr>tr_stack_ids := (tr_stack_ids t)(stack \<mapsto> i),
                      tr_stacks := tr_stacks t @ [(stack, cost)]\<rparr>)))"

text \<open>The error branches leave the tracker as it was; on success it is returned updated.\<close>

definition tr_allocate :: "u64 \<Rightarrow> u64 \<Rightarrow> heap_stack \<Rightarrow> tracker \<Rightarrow> tracker result" where
  "tr_allocate address sz stack t =
     bindr (ensure (address \<noteq> 0) NullAllocation) (\<lambda>_.
     bindr (ensure (stack \<noteq> []) EmptyStack) (\<lambda>_.
     bindr (ensure (map_of (tr_live t) address = None) (DuplicateAllocation address)) (\<lambda>_.
       let cost = hv_zero\<lparr>hv_alloc_objects := 1, hv_alloc_space := sz\<rparr> in
       bindr (charge stack cost t)
         (\<lambda>(i, t). Inr (t\<lparr>tr_live := (address, (sz, i)) # tr_live t\<rparr>)))))"

definition tr_release :: "u64 \<Rightarrow> tracker \<Rightarrow> tracker result" where
  "tr_release address t =
     (if address = 0 then Inr t
      else if map_of (tr_live t) address = None then Inl (FreeWithoutHistory address)
      else Inr (t\<lparr>tr_live := filter (\<lambda>e. fst e \<noteq> address) (tr_live t)\<rparr>))"

definition live_step :: "heap_values list \<Rightarrow> u64 \<times> (u64 \<times> nat) \<Rightarrow> heap_values list result" where
  "live_step values = (\<lambda>(_, (sz, i)).
     bindr (hv_checked_add (values ! i) (hv_zero\<lparr>hv_inuse_objects := 1, hv_inuse_space := sz\<rparr>))
       (\<lambda>v. Inr (values[i := v])))"

definition tr_snapshot :: "int \<Rightarrow> tracker \<Rightarrow> heap_profile result" where
  "tr_snapshot now t =
     bindr (fold_result live_step (map snd (tr_stacks t)) (tr_live t)) (\<lambda>values.
       fold_result (\<lambda>p ((stack, _), v). add_sample stack v p)
         (heap_profile_new now (tr_domain t)) (zip (tr_stacks t) values))"

section \<open>The event log\<close>

datatype heap_event = Alloc u64 u64 heap_stack | Free u64

fun tr_event :: "tracker \<Rightarrow> heap_event \<Rightarrow> tracker result" where
  "tr_event t (Alloc address sz stack) = tr_allocate address sz stack t"
| "tr_event t (Free address) = tr_release address t"

definition tr_run :: "string \<Rightarrow> heap_event list \<Rightarrow> tracker result" where
  "tr_run domain events = fold_result tr_event (tracker_new domain) events"

text \<open>
  The specification: what is live after a log (an allocation stays live until its address is
  freed), and the totals a stack has accumulated.
\<close>

fun live_event :: "heap_event \<Rightarrow> (u64 \<rightharpoonup> u64 \<times> heap_stack) \<Rightarrow> (u64 \<rightharpoonup> u64 \<times> heap_stack)" where
  "live_event (Alloc address sz stack) live = live(address \<mapsto> (sz, stack))"
| "live_event (Free address) live = live(address := None)"

definition live_after :: "heap_event list \<Rightarrow> (u64 \<rightharpoonup> u64 \<times> heap_stack)" where
  "live_after log = fold live_event log Map.empty"

fun alloc_of :: "heap_stack \<Rightarrow> heap_event \<Rightarrow> nat list" where
  "alloc_of s (Alloc address sz stack) = (if stack = s then [unat sz] else [])"
| "alloc_of s (Free address) = []"

text \<open>The sizes of the allocations made from a stack, and of those still live.\<close>

definition allocs_of :: "heap_stack \<Rightarrow> heap_event list \<Rightarrow> nat list" where
  "allocs_of s log = concat (map (alloc_of s) log)"

definition live_addresses :: "heap_stack \<Rightarrow> heap_event list \<Rightarrow> u64 set" where
  "live_addresses s log = {a. \<exists>sz. live_after log a = Some (sz, s)}"

definition spec_measures :: "heap_event list \<Rightarrow> heap_stack \<Rightarrow> nat list" where
  "spec_measures log s =
     [length (allocs_of s log), sum_list (allocs_of s log),
      card (live_addresses s log),
      (\<Sum>a\<in>live_addresses s log. unat (fst (the (live_after log a))))]"

lemma allocs_of_snoc [simp]: "allocs_of s (log @ [e]) = allocs_of s log @ alloc_of s e"
  by (simp add: allocs_of_def)

lemma live_after_snoc [simp]: "live_after (log @ [e]) = live_event e (live_after log)"
  by (simp add: live_after_def)

section \<open>The tracker implements the log\<close>

definition tr_totals :: "tracker \<Rightarrow> heap_stack \<Rightarrow> heap_values" where
  "tr_totals t s = (case tr_stack_ids t s of None \<Rightarrow> hv_zero | Some i \<Rightarrow> snd (tr_stacks t ! i))"

definition stacks_ok :: "tracker \<Rightarrow> bool" where
  "stacks_ok t \<longleftrightarrow>
     (\<forall>s i. tr_stack_ids t s = Some i \<longleftrightarrow> i < length (tr_stacks t) \<and> fst (tr_stacks t ! i) = s)
     \<and> [] \<notin> fst ` set (tr_stacks t)"

definition tracker_ok :: "heap_event list \<Rightarrow> tracker \<Rightarrow> bool" where
  "tracker_ok log t \<longleftrightarrow>
     stacks_ok t \<and> distinct (map fst (tr_live t)) \<and> map_of (tr_live t) 0 = None
     \<and> (\<forall>(a, (sz, i))\<in>set (tr_live t). i < length (tr_stacks t))
     \<and> (\<forall>a. live_after log a =
          map_option (\<lambda>(sz, i). (sz, fst (tr_stacks t ! i))) (map_of (tr_live t) a))
     \<and> (\<forall>s. measures (tr_totals t s) = [length (allocs_of s log), sum_list (allocs_of s log), 0, 0])"

lemma tracker_ok_new: "tracker_ok [] (tracker_new domain)"
  by (simp add: tracker_ok_def stacks_ok_def tracker_new_def tr_totals_def live_after_def
      allocs_of_def)

lemma map_of_filter_neq: "map_of (filter (\<lambda>e. fst e \<noteq> a) xs) b = (if b = a then None else map_of xs b)"
  by (induction xs) auto

lemma tr_totals_live [simp]: "tr_totals (t\<lparr>tr_live := l\<rparr>) s = tr_totals t s"
  by (simp add: tr_totals_def split: option.split)

lemma stacks_ok_live [simp]: "stacks_ok (t\<lparr>tr_live := l\<rparr>) = stacks_ok t"
  by (simp add: stacks_ok_def)

lemma tr_release_ok:
  assumes "tracker_ok log t" and "tr_release a t = Inr t'"
  shows "tracker_ok (log @ [Free a]) t'"
proof (cases "a = 0")
  case True
  have "live_after log 0 = None" using assms(1) by (simp add: tracker_ok_def)
  then have "(live_after log)(0 := None) = live_after log" by (simp add: fun_eq_iff)
  then show ?thesis using assms True by (simp add: tracker_ok_def tr_release_def)
next
  case False
  have "t' = t\<lparr>tr_live := filter (\<lambda>e. fst e \<noteq> a) (tr_live t)\<rparr>"
    using assms(2) False by (auto simp: tr_release_def split: if_splits)
  then show ?thesis
    using assms(1) by (auto simp: tracker_ok_def map_of_filter_neq distinct_map_filter)
qed

text \<open>Charging a stack: the stack has its index afterwards, and only its totals grow.\<close>

lemma charge_correct:
  assumes ok: "stacks_ok t" and ch: "charge stack cost t = Inr (i, t')" and "stack \<noteq> []"
  shows "stacks_ok t'"
    and "i < length (tr_stacks t')" and "fst (tr_stacks t' ! i) = stack"
    and "tr_live t' = tr_live t"
    and "j < length (tr_stacks t) \<Longrightarrow> j < length (tr_stacks t') \<and> fst (tr_stacks t' ! j) = fst (tr_stacks t ! j)"
    and "measures (tr_totals t' s) =
      (if s = stack then map2 (+) (measures (tr_totals t stack)) (measures cost)
       else measures (tr_totals t s))"
proof -
  have "stacks_ok t' \<and> i < length (tr_stacks t') \<and> fst (tr_stacks t' ! i) = stack
      \<and> tr_live t' = tr_live t
      \<and> (j < length (tr_stacks t) \<longrightarrow>
          j < length (tr_stacks t') \<and> fst (tr_stacks t' ! j) = fst (tr_stacks t ! j))
      \<and> measures (tr_totals t' s) =
      (if s = stack then map2 (+) (measures (tr_totals t stack)) (measures cost)
       else measures (tr_totals t s))" for s j
  proof (cases "tr_stack_ids t stack")
    case (Some k)
    then obtain v where v: "hv_checked_add (snd (tr_stacks t ! k)) cost = Inr v"
      and i: "i = k" and t': "t' = t\<lparr>tr_stacks := (tr_stacks t)[k := (fst (tr_stacks t ! k), v)]\<rparr>"
      using ch by (auto simp: charge_def bindr_Inr_iff)
    have k: "k < length (tr_stacks t)" "fst (tr_stacks t ! k) = stack"
      using ok Some by (auto simp: stacks_ok_def)
    have fsts: "map fst (tr_stacks t') = map fst (tr_stacks t)"
      using k by (simp add: t' map_update list_update_same_conv)
    have "fst ` set (tr_stacks t') = fst ` set (tr_stacks t)"
      using arg_cong [OF fsts, of set] by simp
    moreover have nth: "fst (tr_stacks t' ! l) = fst (tr_stacks t ! l)" if "l < length (tr_stacks t)" for l
      using that k by (auto simp: t' nth_list_update)
    ultimately have "stacks_ok t'"
      using ok by (auto simp: stacks_ok_def t')
    moreover have "measures (tr_totals t' s) =
      (if s = stack then map2 (+) (measures (tr_totals t stack)) (measures cost)
       else measures (tr_totals t s))"
    proof (cases "s = stack")
      case True
      then show ?thesis
        using Some k hv_checked_add_measures(1) [OF v] by (simp add: tr_totals_def t')
    next
      case False
      then have "tr_stack_ids t s \<noteq> Some k" using ok k by (auto simp: stacks_ok_def)
      then show ?thesis using False by (auto simp: tr_totals_def t' split: option.split)
    qed
    ultimately show ?thesis using k i nth by (auto simp: t')
  next
    case None
    then obtain v where v: "hv_checked_add hv_zero cost = Inr v"
      and i: "i = length (tr_stacks t)"
      and t': "t' = t\<lparr>tr_stack_ids := (tr_stack_ids t)(stack \<mapsto> length (tr_stacks t)),
                  tr_stacks := tr_stacks t @ [(stack, v)]\<rparr>"
      using ch by (auto simp: charge_def bindr_Inr_iff Let_def)
    have new: "fst (tr_stacks t ! l) \<noteq> stack" if "l < length (tr_stacks t)" for l
      using ok None that unfolding stacks_ok_def by (metis option.distinct(1))
    have "stacks_ok t'"
      using ok new \<open>stack \<noteq> []\<close> by (auto simp: stacks_ok_def t' nth_append less_Suc_eq)
    moreover have "measures (tr_totals t' s) =
      (if s = stack then map2 (+) (measures (tr_totals t stack)) (measures cost)
       else measures (tr_totals t s))"
    proof (cases "s = stack")
      case True
      then show ?thesis using None hv_checked_add_measures(1) [OF v] by (simp add: tr_totals_def t')
    next
      case False
      have "k < length (tr_stacks t)" if "tr_stack_ids t s = Some k" for k
        using ok that by (auto simp: stacks_ok_def)
      then show ?thesis using False by (auto simp: tr_totals_def t' nth_append split: option.split)
    qed
    ultimately show ?thesis by (auto simp: t' i nth_append)
  qed
  then show "stacks_ok t'" "i < length (tr_stacks t')" "fst (tr_stacks t' ! i) = stack"
    "tr_live t' = tr_live t"
    "j < length (tr_stacks t) \<Longrightarrow> j < length (tr_stacks t') \<and> fst (tr_stacks t' ! j) = fst (tr_stacks t ! j)"
    "measures (tr_totals t' s) =
      (if s = stack then map2 (+) (measures (tr_totals t stack)) (measures cost)
       else measures (tr_totals t s))"
    by blast+
qed


lemma tr_allocate_ok:
  assumes ok: "tracker_ok log t" and al: "tr_allocate a sz stack t = Inr t'"
  shows "tracker_ok (log @ [Alloc a sz stack]) t'"
proof -
  define cost where "cost = hv_zero\<lparr>hv_alloc_objects := 1, hv_alloc_space := sz\<rparr>"
  obtain i u where ch: "charge stack cost t = Inr (i, u)" and t': "t' = u\<lparr>tr_live := (a, (sz, i)) # tr_live u\<rparr>"
    and a: "a \<noteq> 0" "map_of (tr_live t) a = None" and "stack \<noteq> []"
    using al by (auto simp: tr_allocate_def bindr_Inr_iff cost_def)
  have stacks: "stacks_ok t" using ok by (simp add: tracker_ok_def)
  note c = charge_correct [OF stacks ch \<open>stack \<noteq> []\<close>]
  have cost: "measures cost = [1, unat sz, 0, 0]"
    by (simp add: cost_def measures_def hv_values_def hv_zero_def)
  have "a \<notin> fst ` set (tr_live t)" using a(2) by (simp add: map_of_eq_None_iff)
  moreover have old: "j < length (tr_stacks t)" if "map_of (tr_live t) b = Some (z, j)" for b z j
    using ok map_of_SomeD [OF that] by (auto simp: tracker_ok_def)
  have "live_after (log @ [Alloc a sz stack]) b =
      map_option (\<lambda>(sz, i). (sz, fst (tr_stacks t' ! i))) (map_of (tr_live t') b)" for b
  proof (cases "b = a")
    case False
    then show ?thesis
      using ok c(5) [OF old] c(4)
      by (cases "map_of (tr_live t) b") (auto simp: tracker_ok_def t')
  qed (simp add: t' c(3))
  moreover have "\<forall>(b, (z, j))\<in>set (tr_live t'). j < length (tr_stacks t')"
    using ok c(2,4,5) by (auto simp: tracker_ok_def t')
  moreover have "measures (tr_totals t' s) =
      [length (allocs_of s (log @ [Alloc a sz stack])), sum_list (allocs_of s (log @ [Alloc a sz stack])), 0, 0]" for s
    using ok c(6) [of s] by (auto simp: tracker_ok_def t' cost)
  ultimately show ?thesis
    using ok c(1,4) a by (simp add: tracker_ok_def t')
qed

lemma tr_run_ok: "tr_run domain log = Inr t \<Longrightarrow> tracker_ok log t"
proof (induction log arbitrary: t rule: rev_induct)
  case Nil
  then show ?case using tracker_ok_new [of domain] by (auto simp: tr_run_def)
next
  case (snoc e log)
  then obtain u where "tr_run domain log = Inr u" and e: "tr_event u e = Inr t"
    by (auto simp: tr_run_def fold_result_append bindr_Inr_iff)
  then have "tracker_ok log u" using snoc.IH by blast
  then show ?case using e by (cases e) (auto intro: tr_allocate_ok tr_release_ok)
qed


section \<open>Snapshots\<close>

definition entry_live :: "nat \<Rightarrow> (u64 \<times> (u64 \<times> nat)) list \<Rightarrow> nat list" where
  "entry_live j live = [length (filter (\<lambda>e. snd (snd e) = j) live),
     sum_list (map (\<lambda>e. unat (fst (snd e))) (filter (\<lambda>e. snd (snd e) = j) live))]"

lemma live_loop:
  assumes "fold_result live_step vs live = Inr vs'"
    and "\<forall>e\<in>set live. snd (snd e) < length vs"
  shows "length vs' = length vs \<and> (\<forall>j<length vs.
    measures (vs' ! j) = map2 (+) (measures (vs ! j)) (0 # 0 # entry_live j live))"
  using assms
proof (induction live arbitrary: vs)
  case Nil
  have "map2 (+) (measures v) [0, 0, 0, 0] = measures v" for v
    by (simp add: measures_def hv_values_def)
  then show ?case using Nil by (simp add: entry_live_def)
next
  case (Cons e live)
  obtain a sz i where e: "e = (a, (sz, i))" by (metis prod.exhaust)
  have step: "live_step vs e =
      bindr (hv_checked_add (vs ! i) (hv_zero\<lparr>hv_inuse_objects := 1, hv_inuse_space := sz\<rparr>))
        (\<lambda>v. Inr (vs[i := v]))"
    by (simp add: e live_step_def)
  obtain v where v: "hv_checked_add (vs ! i) (hv_zero\<lparr>hv_inuse_objects := 1, hv_inuse_space := sz\<rparr>) = Inr v"
    and rest: "fold_result live_step (vs[i := v]) live = Inr vs'"
    using Cons.prems(1) unfolding fold_result.simps step by (auto simp: bindr_Inr_iff)
  have m: "measures v = map2 (+) (measures (vs ! i)) [0, 0, 1, unat sz]"
    using hv_checked_add_measures(1) [OF v] by (simp add: measures_def hv_values_def hv_zero_def)
  have assoc: "map2 (+) (map2 (+) (measures w) [0, 0, x, y]) (0 # 0 # [z, u])
      = map2 (+) (measures w) (0 # 0 # [x + z, y + u])" for w x y z u
    by (simp add: measures_def hv_values_def)
  show ?case
    using Cons.IH [OF rest] Cons.prems(2) m
    by (auto simp: e entry_live_def nth_list_update assoc)
qed

lemma snapshot_samples:
  assumes "fold_result (\<lambda>p ((stack, w), v). add_sample stack v p) hp (zip stacks vs) = Inr hp'"
    and "distinct (map fst stacks)" and "hp_ok hp" and "length vs = length stacks"
    and "\<And>s. s \<in> fst ` set stacks \<Longrightarrow> map_of (hp_samples hp) s = None"
  shows "hp_ok hp' \<and> (\<forall>s. measures (value_of (hp_samples hp') s) =
    (case map_of (zip (map fst stacks) vs) s of
       None \<Rightarrow> measures (value_of (hp_samples hp) s) | Some v \<Rightarrow> measures v))
    \<and> fst ` set (hp_samples hp') = fst ` set (hp_samples hp) \<union> fst ` set stacks
    \<and> hp_domain hp' = hp_domain hp \<and> hp_comment hp' = hp_comment hp
    \<and> hp_collected_at hp' = hp_collected_at hp"
  using assms
proof (induction stacks arbitrary: vs hp)
  case (Cons x stacks)
  obtain s w where x: "x = (s, w)" by (cases x)
  obtain v vs' where vs: "vs = v # vs'" using Cons.prems(4) by (cases vs) auto
  obtain hp1 where hp1: "add_sample s v hp = Inr hp1"
    and rest: "fold_result (\<lambda>p ((stack, w), v). add_sample stack v p) hp1 (zip stacks vs') = Inr hp'"
    using Cons.prems(1) by (auto simp: x vs bindr_Inr_iff)
  obtain y where y: "hp1 = hp\<lparr>hp_samples := bt_insert s y (hp_samples hp)\<rparr>"
    using hp1 by (auto simp: add_sample_def bindr_Inr_iff)
  note add = add_sample_ok [OF Cons.prems(3) hp1]
  have "map_of (hp_samples hp) s = None" using Cons.prems(5) [of s] by (simp add: x)
  then have "measures (value_of (hp_samples hp) s) = [0, 0, 0, 0]" by (simp add: value_of_def)
  moreover have "map2 (+) [0, 0, 0, 0] (measures v) = measures v"
    by (simp add: measures_def hv_values_def)
  ultimately have new: "measures (value_of (hp_samples hp1) r) =
      (if r = s then measures v else measures (value_of (hp_samples hp) r))" for r
    using add(2) by simp
  have fresh: "map_of (hp_samples hp1) r = None" if "r \<in> fst ` set stacks" for r
    using Cons.prems(2,3) Cons.prems(5) [of r] that by (auto simp: y x map_of_bt_insert hp_ok_def)
  have none: "map_of (zip (map fst stacks) vs') s = None"
    using Cons.prems(2,4) by (simp add: x vs map_of_zip_is_None)
  have keys: "fst ` set (hp_samples hp1) = insert s (fst ` set (hp_samples hp))"
      "hp_domain hp1 = hp_domain hp" "hp_comment hp1 = hp_comment hp"
      "hp_collected_at hp1 = hp_collected_at hp"
    by (simp_all add: y)
  have "distinct (map fst stacks)" "length vs' = length stacks"
    using Cons.prems(2,4) by (simp_all add: x vs)
  note IH = Cons.IH [OF rest this(1) add(1) this(2) fresh]
  have "measures (value_of (hp_samples hp') r) = (case map_of (zip (map fst (x # stacks)) vs) r of
       None \<Rightarrow> measures (value_of (hp_samples hp) r) | Some v \<Rightarrow> measures v)" for r
    using IH new [of r] none by (cases "r = s") (simp_all add: x vs cong: option.case_cong)
  then show ?case using IH keys by (simp add: x)
qed simp

lemma card_live:
  assumes "distinct (map fst live)"
  shows "card {a. \<exists>e. map_of live a = Some e \<and> P e} = length (filter (P \<circ> snd) live)"
    and "(\<Sum>a\<in>{a. \<exists>e. map_of live a = Some e \<and> P e}. f (the (map_of live a)))
      = sum_list (map (f \<circ> snd) (filter (P \<circ> snd) live))"
proof -
  let ?es = "filter (P \<circ> snd) live"
  have set: "{a. \<exists>e. map_of live a = Some e \<and> P e} = set (map fst ?es)"
    using assms by (auto simp: map_of_eq_Some_iff image_iff)
  have d: "distinct (map fst ?es)" using assms by (rule distinct_map_filter)
  show "card {a. \<exists>e. map_of live a = Some e \<and> P e} = length ?es"
    using distinct_card [OF d] by (simp only: set length_map)
  have "(\<Sum>a\<in>set (map fst ?es). f (the (map_of live a)))
      = sum_list (map (\<lambda>a. f (the (map_of live a))) (map fst ?es))"
    by (rule sum_list_distinct_conv_sum_set [OF d, symmetric])
  also have "map (\<lambda>a. f (the (map_of live a))) (map fst ?es) = map (f \<circ> snd) ?es"
    using assms by (auto simp: map_of_eq_Some_iff)
  finally show "(\<Sum>a\<in>{a. \<exists>e. map_of live a = Some e \<and> P e}. f (the (map_of live a)))
      = sum_list (map (f \<circ> snd) ?es)"
    by (simp only: set)
qed

lemma spec_live:
  assumes "tracker_ok log t" and "tr_stack_ids t s = Some j"
  shows "[card (live_addresses s log), (\<Sum>a\<in>live_addresses s log. unat (fst (the (live_after log a))))]
    = entry_live j (tr_live t)"
proof -
  have idx: "fst (tr_stacks t ! i) = s \<longleftrightarrow> i = j" if "map_of (tr_live t) a = Some (z, i)" for a z i
  proof -
    have "i < length (tr_stacks t)"
      using assms(1) map_of_SomeD [OF that] by (auto simp: tracker_ok_def)
    then show ?thesis using assms unfolding tracker_ok_def stacks_ok_def by (metis option.inject)
  qed
  have set: "live_addresses s log = {a. \<exists>e. map_of (tr_live t) a = Some e \<and> snd e = j}"
    using assms(1) idx by (fastforce simp: live_addresses_def tracker_ok_def)
  have "(\<Sum>a\<in>live_addresses s log. unat (fst (the (live_after log a))))
      = (\<Sum>a\<in>live_addresses s log. unat (fst (the (map_of (tr_live t) a))))"
    using assms(1) by (intro sum.cong) (auto simp: set tracker_ok_def)
  then show ?thesis
    using card_live(1) [of "tr_live t" "\<lambda>e. snd e = j"]
      card_live(2) [of "tr_live t" "\<lambda>e. unat (fst e)" "\<lambda>e. snd e = j"] assms(1)
    by (simp add: set entry_live_def tracker_ok_def comp_def)
qed


text \<open>
  A snapshot of the tracker holds, for every stack, exactly what the log says: how many
  allocations were made there and their total size, and how many of them are still live.
\<close>

lemma tracker_refines_log:
  assumes run: "tr_run domain log = Inr t" and snap: "tr_snapshot now t = Inr hp"
  shows "hp_ok hp \<and> measures (value_of (hp_samples hp) s) = spec_measures log s
    \<and> fst ` set (hp_samples hp) = fst ` set (tr_stacks t)"
proof -
  have ok: "tracker_ok log t" by (rule tr_run_ok [OF run])
  obtain vs where vs: "fold_result live_step (map snd (tr_stacks t)) (tr_live t) = Inr vs"
    and hp: "fold_result (\<lambda>p ((stack, _), v). add_sample stack v p)
      (heap_profile_new now (tr_domain t)) (zip (tr_stacks t) vs) = Inr hp"
    using snap by (auto simp: tr_snapshot_def bindr_Inr_iff)
  have idx: "tr_stack_ids t s = Some i \<longleftrightarrow> i < length (tr_stacks t) \<and> fst (tr_stacks t ! i) = s" for s i
    using ok by (simp add: tracker_ok_def stacks_ok_def)
  have distinct: "distinct (map fst (tr_stacks t))"
    unfolding distinct_conv_nth
  proof (intro allI impI)
    fix i j assume "i < length (map fst (tr_stacks t))" "j < length (map fst (tr_stacks t))" "i \<noteq> j"
    then show "map fst (tr_stacks t) ! i \<noteq> map fst (tr_stacks t) ! j"
      using idx [of "fst (tr_stacks t ! i)" i] idx [of "fst (tr_stacks t ! i)" j] by auto
  qed
  have len: "length vs = length (tr_stacks t)"
    and loop: "j < length (tr_stacks t) \<Longrightarrow>
      measures (vs ! j) = map2 (+) (measures (snd (tr_stacks t ! j))) (0 # 0 # entry_live j (tr_live t))" for j
    using live_loop [OF vs] ok by (auto simp: tracker_ok_def split_beta)
  have new: "hp_ok (heap_profile_new now d)" "hp_samples (heap_profile_new now d) = []" for d
    by (simp_all add: heap_profile_new_def hp_ok_def)
  have hp': "hp_ok hp" "fst ` set (hp_samples hp) = fst ` set (tr_stacks t)"
    "measures (value_of (hp_samples hp) s) = (case map_of (zip (map fst (tr_stacks t)) vs) s of
       None \<Rightarrow> [0, 0, 0, 0] | Some v \<Rightarrow> measures v)"
    using snapshot_samples [OF hp distinct new(1) len] by (simp_all add: new value_of_def cong: option.case_cong)
  have totals: "measures (tr_totals t s) = [length (allocs_of s log), sum_list (allocs_of s log), 0, 0]"
    using ok by (simp add: tracker_ok_def)
  show ?thesis
  proof (cases "tr_stack_ids t s")
    case None
    then have no: "i < length (tr_stacks t) \<Longrightarrow> fst (tr_stacks t ! i) \<noteq> s" for i
      using idx [of s i] by simp
    then have "s \<notin> set (map fst (tr_stacks t))" unfolding in_set_conv_nth by auto
    then have "map_of (zip (map fst (tr_stacks t)) vs) s = None" using len by (simp add: map_of_zip_is_None)
    moreover have "live_after log a \<noteq> Some (z, s)" for a z
    proof
      assume "live_after log a = Some (z, s)"
      then obtain i where i: "map_of (tr_live t) a = Some (z, i)" "fst (tr_stacks t ! i) = s"
        using ok by (auto simp: tracker_ok_def)
      then show False using no [of i] ok map_of_SomeD [OF i(1)] by (auto simp: tracker_ok_def)
    qed
    then have "live_addresses s log = {}" by (simp add: live_addresses_def)
    ultimately show ?thesis
      using hp' totals None by (simp add: spec_measures_def tr_totals_def)
  next
    case (Some j)
    then have j: "j < length (tr_stacks t)" "fst (tr_stacks t ! j) = s" using idx by auto
    have "(s, vs ! j) \<in> set (zip (map fst (tr_stacks t)) vs)"
      using j len by (auto simp: in_set_zip intro!: exI [of _ j])
    then have "map_of (zip (map fst (tr_stacks t)) vs) s = Some (vs ! j)"
      using distinct len by (simp add: map_of_eq_Some_iff)
    then have "measures (value_of (hp_samples hp) s) =
        map2 (+) (measures (tr_totals t s)) (0 # 0 # entry_live j (tr_live t))"
      using hp'(3) loop [OF j(1)] Some by (simp add: tr_totals_def)
    then show ?thesis
      using hp' totals spec_live [OF ok Some] by (simp add: spec_measures_def entry_live_def)
  qed
qed

section \<open>Snapshots never fail\<close>

text \<open>What is live was allocated, so it is bounded by the totals, which \<open>charge\<close> keeps in range.\<close>

definition live_size :: "heap_event list \<Rightarrow> u64 \<Rightarrow> nat" where
  "live_size log a = unat (fst (the (live_after log a)))"

lemma finite_live: "finite (live_addresses s log)"
proof -
  have "finite (dom (live_after log))"
  proof (induction log rule: rev_induct)
    case (snoc e log)
    then show ?case by (cases e) simp_all
  qed (simp add: live_after_def)
  then show ?thesis by (rule finite_subset [rotated]) (auto simp: live_addresses_def)
qed

lemma live_le_allocs:
  "card (live_addresses s log) \<le> length (allocs_of s log)
   \<and> (\<Sum>a\<in>live_addresses s log. live_size log a) \<le> sum_list (allocs_of s log)"
proof (induction log rule: rev_induct)
  case Nil
  show ?case by (simp add: live_addresses_def live_after_def allocs_of_def)
next
  case (snoc e log)
  let ?L = "live_addresses s log"
  have less: "card (?L - {a}) \<le> card ?L" "sum (live_size log) (?L - {a}) \<le> sum (live_size log) ?L" for a
    using finite_live by (auto intro: card_mono sum_mono2)
  have other: "sum (live_size (log @ [e])) (?L - {a}) = sum (live_size log) (?L - {a})"
    if "\<And>b. b \<noteq> a \<Longrightarrow> live_after (log @ [e]) b = live_after log b" for a
    using that by (intro sum.cong) (simp_all add: live_size_def)
  show ?case
  proof (cases e)
    case (Free a)
    then have "live_addresses s (log @ [e]) = ?L - {a}" by (auto simp: live_addresses_def)
    then show ?thesis using snoc less [of a] other [of a] Free by simp
  next
    case (Alloc a n stack)
    show ?thesis
    proof (cases "stack = s")
      case True
      have set: "live_addresses s (log @ [e]) = insert a (?L - {a})"
        using Alloc True by (auto simp: live_addresses_def)
      moreover have "live_size (log @ [e]) a = unat n" using Alloc by (simp add: live_size_def)
      moreover have "finite (?L - {a})" using finite_live by simp
      then have "card (insert a (?L - {a})) = Suc (card (?L - {a}))"
        "sum f (insert a (?L - {a})) = f a + sum f (?L - {a})" for f :: "u64 \<Rightarrow> nat"
        by (simp_all del: insert_Diff_single)
      ultimately show ?thesis
        using snoc less [of a] other [of a] Alloc True by (simp del: insert_Diff_single)
    next
      case False
      then have "live_addresses s (log @ [e]) = ?L - {a}"
        using Alloc by (auto simp: live_addresses_def)
      then show ?thesis using snoc less [of a] other [of a] Alloc False by simp
    qed
  qed
qed

lemma charge_in_range:
  assumes "charge stack cost t = Inr (i, t')" and "\<forall>v\<in>snd ` set (tr_stacks t). in_i64 (measures v)"
  shows "\<forall>v\<in>snd ` set (tr_stacks t'). in_i64 (measures v)"
proof (cases "tr_stack_ids t stack")
  case None
  then show ?thesis
    using assms hv_checked_add_measures(2) by (fastforce simp: charge_def Let_def bindr_Inr_iff)
next
  case (Some k)
  then obtain v where v: "hv_checked_add (snd (tr_stacks t ! k)) cost = Inr v"
    and t': "t' = t\<lparr>tr_stacks := (tr_stacks t)[k := (fst (tr_stacks t ! k), v)]\<rparr>"
    using assms(1) by (auto simp: charge_def bindr_Inr_iff)
  then show ?thesis
    using assms(2) hv_checked_add_measures(2) [OF v] set_update_subset_insert [of "tr_stacks t" k]
    by fastforce
qed

lemma run_in_range:
  "tr_run domain log = Inr t \<Longrightarrow> \<forall>v\<in>snd ` set (tr_stacks t). in_i64 (measures v)"
  unfolding tr_run_def
proof (erule fold_result_invariant [where P = "\<lambda>t. \<forall>v\<in>snd ` set (tr_stacks t). in_i64 (measures v)"])
  show "\<forall>v\<in>snd ` set (tr_stacks (tracker_new domain)). in_i64 (measures v)"
    by (simp add: tracker_new_def)
  fix t e t' assume ok: "\<forall>v\<in>snd ` set (tr_stacks t). in_i64 (measures v)" and e: "tr_event t e = Inr t'"
  show "\<forall>v\<in>snd ` set (tr_stacks t'). in_i64 (measures v)"
  proof (cases e)
    case (Alloc a n stack)
    then obtain i u where "charge stack (hv_zero\<lparr>hv_alloc_objects := 1, hv_alloc_space := n\<rparr>) t = Inr (i, u)"
      and "tr_stacks t' = tr_stacks u"
      using e by (auto simp: tr_allocate_def bindr_Inr_iff Let_def)
    then show ?thesis using charge_in_range [OF _ ok] by simp
  next
    case (Free a)
    then show ?thesis using e ok by (auto simp: tr_release_def split: if_splits)
  qed
qed

lemma live_loop_returns:
  assumes "\<forall>e\<in>set live. snd (snd e) < length vs"
    and "\<And>j. j < length vs \<Longrightarrow> in_i64 (map2 (+) (measures (vs ! j)) (0 # 0 # entry_live j live))"
  shows "\<exists>vs'. fold_result live_step vs live = Inr vs'"
  using assms
proof (induction live arbitrary: vs)
  case (Cons e live)
  obtain a n i where e: "e = (a, (n, i))" by (metis prod.exhaust)
  have i: "i < length vs" using Cons.prems(1) by (simp add: e)
  let ?one = "hv_zero\<lparr>hv_inuse_objects := 1, hv_inuse_space := n\<rparr>"
  have "in_i64 (map2 (+) (measures (vs ! i)) (measures ?one))"
    using Cons.prems(2) [OF i]
    by (simp add: e entry_live_def in_i64_def measures_def hv_values_def hv_zero_def)
  then obtain v where v: "hv_checked_add (vs ! i) ?one = Inr v"
    by (auto simp: hv_checked_add_Inr)
  have m: "measures v = map2 (+) (measures (vs ! i)) [0, 0, 1, unat n]"
    using hv_checked_add_measures(1) [OF v] by (simp add: measures_def hv_values_def hv_zero_def)
  have "in_i64 (map2 (+) (measures (vs[i := v] ! j)) (0 # 0 # entry_live j live))" if "j < length vs" for j
    using Cons.prems(2) [OF that] that m
    by (cases "j = i") (simp_all add: e entry_live_def in_i64_def measures_def hv_values_def)
  then have "\<exists>vs'. fold_result live_step (vs[i := v]) live = Inr vs'"
    using Cons.prems(1) by (intro Cons.IH) simp_all
  moreover have "live_step vs e = Inr (vs[i := v])" using v by (simp add: e live_step_def)
  ultimately show ?case by simp
qed simp

lemma samples_loop_returns:
  assumes "\<And>v. v \<in> set vs \<Longrightarrow> in_i64 (measures v)" and "distinct (map fst stacks)"
    and "[] \<notin> fst ` set stacks" and "bt_ok (hp_samples hp)" and "fst ` set stacks \<inter> fst ` set (hp_samples hp) = {}"
  shows "\<exists>hp'. fold_result (\<lambda>p ((stack, w), v). add_sample stack v p) hp (zip stacks vs) = Inr hp'"
  using assms
proof (induction stacks arbitrary: vs hp)
  case (Cons x stacks)
  obtain s w where x: "x = (s, w)" by (cases x)
  show ?case
  proof (cases vs)
    case (Cons v vs')
    have "value_of (hp_samples hp) s = hv_zero"
      using Cons.prems(5) by (auto simp: x value_of_def image_iff split: option.splits dest!: map_of_SomeD)
    moreover have "in_i64 (map2 (+) (measures hv_zero) (measures v))"
      using Cons.prems(1) [of v] Cons by (simp add: in_i64_def measures_def hv_values_def hv_zero_def)
    then obtain y where "hv_checked_add hv_zero v = Inr y"
      by (auto simp: hv_checked_add_Inr)
    ultimately have hp1: "add_sample s v hp = Inr (hp\<lparr>hp_samples := bt_insert s y (hp_samples hp)\<rparr>)"
      using Cons.prems(3) by (auto simp: add_sample_def x)
    have "\<exists>hp'. fold_result (\<lambda>p ((stack, w), v). add_sample stack v p)
        (hp\<lparr>hp_samples := bt_insert s y (hp_samples hp)\<rparr>) (zip stacks vs') = Inr hp'"
      using Cons.prems Cons by (intro Cons.IH) (auto simp: x)
    then show ?thesis using Cons hp1 by (simp add: x)
  qed simp
qed simp

lemma stacks_ok_distinct: "stacks_ok t \<Longrightarrow> distinct (map fst (tr_stacks t))"
  unfolding stacks_ok_def distinct_conv_nth by (metis length_map nth_map option.inject)

lemma snapshot_returns:
  assumes run: "tr_run domain log = Inr t"
  shows "\<exists>hp. tr_snapshot now t = Inr hp"
proof -
  have ok: "tracker_ok log t" by (rule tr_run_ok [OF run])
  then have stacks: "stacks_ok t" by (simp add: tracker_ok_def)
  have small: "in_i64 (map2 (+) (measures (map snd (tr_stacks t) ! j)) (0 # 0 # entry_live j (tr_live t)))"
    if j: "j < length (tr_stacks t)" for j
  proof -
    let ?s = "fst (tr_stacks t ! j)"
    have id: "tr_stack_ids t ?s = Some j" using stacks j by (auto simp: stacks_ok_def)
    then have m: "measures (snd (tr_stacks t ! j)) = [length (allocs_of ?s log), sum_list (allocs_of ?s log), 0, 0]"
      using ok by (auto simp: tracker_ok_def tr_totals_def split: option.splits dest: spec [of _ ?s])
    have "in_i64 (measures (snd (tr_stacks t ! j)))" using run_in_range [OF run] j by simp
    then have "length (allocs_of ?s log) < 2 ^ 63" "sum_list (allocs_of ?s log) < 2 ^ 63"
      by (simp_all add: m in_i64_def)
    then show ?thesis
      using live_le_allocs [of ?s log] spec_live [OF ok id] j
      by (simp add: m in_i64_def entry_live_def live_size_def)
  qed
  obtain vs where vs: "fold_result live_step (map snd (tr_stacks t)) (tr_live t) = Inr vs"
    using live_loop_returns [of "tr_live t" "map snd (tr_stacks t)"] small ok
    by (auto simp: tracker_ok_def split_beta)
  have "in_i64 (measures v)" if "v \<in> set vs" for v
    using that live_loop [OF vs] small ok
    by (auto simp: tracker_ok_def split_beta in_set_conv_nth)
  then have "\<exists>hp. fold_result (\<lambda>p ((stack, w), v). add_sample stack v p)
      (heap_profile_new now (tr_domain t)) (zip (tr_stacks t) vs) = Inr hp"
    using stacks_ok_distinct [OF stacks] stacks
    by (intro samples_loop_returns) (simp_all add: stacks_ok_def heap_profile_new_def)
  then show ?thesis by (simp add: tr_snapshot_def vs)
qed

section \<open>Properties\<close>

text \<open>adding two sets of measures gives the four sums exactly, or fails with the overflow
  error, which happens precisely when one of the sums leaves \<open>i64\<close>, the range pprof can hold.\<close>

theorem checked_add_exact:
  "if in_i64 (map2 (+) (measures a) (measures b)) then
     (\<exists>c. hv_checked_add a b = Inr c \<and> measures c = map2 (+) (measures a) (measures b))
   else hv_checked_add a b = Inl MeasurementOverflow"
proof (cases "hv_checked_add a b")
  case (Inl e)
  have "\<not> in_i64 (map2 (+) (measures a) (measures b))"
  proof
    assume "in_i64 (map2 (+) (measures a) (measures b))"
    then have "\<exists>c. hv_checked_add a b = Inr c" by (simp add: hv_checked_add_Inr)
    then show False using Inl by simp
  qed
  then show ?thesis using hv_checked_add_error [OF Inl] Inl by simp
next
  case (Inr c)
  then have "in_i64 (map2 (+) (measures a) (measures b))" by (simp add: hv_checked_add_Inr)
  then show ?thesis using Inr hv_checked_add_measures(1) [OF Inr] by simp
qed

definition demo_stack :: heap_stack where
  "demo_stack = [HeapFrame 64 ''main'' ''main.rs'' 3 None]"

definition demo_log :: "heap_event list" where
  "demo_log = [Alloc 8 100 demo_stack, Alloc 16 28 demo_stack, Free 8]"

definition demo_tracker :: tracker where
  "demo_tracker = \<lparr>tr_domain = ''app'', tr_stack_ids = [demo_stack \<mapsto> 0],
     tr_stacks = [(demo_stack, \<lparr>hv_alloc_objects = 2, hv_alloc_space = 128, hv_inuse_objects = 0,
       hv_inuse_space = 0\<rparr>)], tr_live = [(16, (28, 0))]\<rparr>"

lemma demo_run: "tr_run ''app'' demo_log = Inr demo_tracker"
  by (simp add: tr_run_def demo_log_def tracker_new_def tr_allocate_def demo_stack_def charge_def
      tr_release_def hv_checked_add_def hv_values_def hv_zero_def measure_add_def
      checked_add_u64_def demo_tracker_def Let_def)

text \<open>C1: a snapshot of the tracker holds, for every stack, what the log of allocations and frees
  says: the number and total size of the allocations made there, and the number and total size of
  those still live; and it holds the tracked stacks and no others.\<close>

theorem snapshot_refines_log:
  assumes "tr_run domain log = Inr t" and "tr_snapshot now t = Inr hp"
  shows "hp_ok hp \<and> measures (value_of (hp_samples hp) s) = spec_measures log s
    \<and> fst ` set (hp_samples hp) = fst ` set (tr_stacks t)"
  by (rule tracker_refines_log [OF assms])

theorem snapshot_refines_log_witness:
  "spec_measures demo_log demo_stack = [2, 128, 1, 28]"
proof -
  define v where "v = \<lparr>hv_alloc_objects = 2, hv_alloc_space = 128, hv_inuse_objects = 1,
    hv_inuse_space = 28\<rparr>"
  have snap: "tr_snapshot 0 demo_tracker = Inr \<lparr>hp_domain = ''app'', hp_collected_at = 0,
      hp_comment = [], hp_samples = [(demo_stack, v)]\<rparr>"
    by (simp add: tr_snapshot_def demo_tracker_def live_step_def hv_checked_add_def hv_values_def
        hv_zero_def measure_add_def checked_add_u64_def heap_profile_new_def add_sample_def
        value_of_def demo_stack_def v_def)
  show ?thesis
    using snapshot_refines_log [OF demo_run snap, of demo_stack]
    by (simp add: value_of_def measures_def hv_values_def v_def)
qed

text \<open>C32: the tracker rejects exactly the events the log cannot explain: freeing an address that is
  not live, and allocating one that still is; the error names the address.\<close>

theorem tracker_rejects_misuse:
  assumes "tr_run domain log = Inr t"
  shows "((\<exists>e. tr_release a t = Inl e) \<longleftrightarrow> a \<noteq> 0 \<and> live_after log a = None)
    \<and> (tr_allocate a n stack t = Inl (DuplicateAllocation a)
      \<longleftrightarrow> a \<noteq> 0 \<and> stack \<noteq> [] \<and> live_after log a \<noteq> None)"
proof -
  have ok: "tracker_ok log t" by (rule tr_run_ok [OF assms])
  then have live: "live_after log a = None \<longleftrightarrow> map_of (tr_live t) a = None"
    by (simp add: tracker_ok_def)
  then have "(\<exists>e. tr_release a t = Inl e) \<longleftrightarrow> a \<noteq> 0 \<and> live_after log a = None"
    by (simp add: tr_release_def)
  moreover have "charge stack c t = Inl e \<Longrightarrow> e = MeasurementOverflow" for c e
    by (auto simp: charge_def Let_def bindr_Inl_iff dest: hv_checked_add_error split: option.splits)
  then have "tr_allocate a n stack t = Inl (DuplicateAllocation a)
      \<longleftrightarrow> a \<noteq> 0 \<and> stack \<noteq> [] \<and> live_after log a \<noteq> None"
    by (auto simp: tr_allocate_def live bindr_Inl_iff ensure_def Let_def)
  ultimately show ?thesis by simp
qed

theorem tracker_rejects_misuse_witness:
  "(\<exists>e. tr_release 8 demo_tracker = Inl e)
    \<and> tr_allocate 16 1 demo_stack demo_tracker = Inl (DuplicateAllocation 16)"
  using tracker_rejects_misuse [OF demo_run]
  by (simp add: demo_log_def live_after_def) (simp add: demo_stack_def)

text \<open>recording a sample adds its values to what the stack already had, leaves every other stack
  alone, and keeps the profile well formed: sorted distinct stacks, none empty, values in range.\<close>

theorem add_sample_accumulates:
  assumes "hp_ok p" and "add_sample stack v p = Inr q"
  shows "hp_ok q \<and> measures (value_of (hp_samples q) s) =
      (if s = stack then map2 (+) (measures (value_of (hp_samples p) s)) (measures v)
       else measures (value_of (hp_samples p) s))"
  using add_sample_ok [OF assms] by simp

theorem add_sample_accumulates_witness:
  "\<exists>q. add_sample demo_stack (hv_zero\<lparr>hv_alloc_space := 7\<rparr>) (heap_profile_new 0 ''app'') = Inr q
     \<and> measures (value_of (hp_samples q) demo_stack) = [0, 7, 0, 0]"
proof -
  have "hp_ok (heap_profile_new 0 ''app'')" by (simp add: hp_ok_def heap_profile_new_def bt_ok_def)
  moreover obtain q where "add_sample demo_stack (hv_zero\<lparr>hv_alloc_space := 7\<rparr>)
      (heap_profile_new 0 ''app'') = Inr q"
    by (simp add: add_sample_def demo_stack_def heap_profile_new_def value_of_def hv_checked_add_def
        hv_values_def hv_zero_def measure_add_def checked_add_u64_def)
  ultimately show ?thesis
    using add_sample_accumulates [of "heap_profile_new 0 ''app''" demo_stack _ q demo_stack]
    by (fastforce simp: heap_profile_new_def value_of_def measures_def hv_values_def hv_zero_def)
qed

text \<open>C33: a snapshot of a tracker that any log of events has led to never fails: what is live is
  bounded by what was allocated, whose totals were checked when they were charged.\<close>

theorem snapshot_never_fails:
  assumes "tr_run domain log = Inr t"
  shows "\<exists>hp. tr_snapshot now t = Inr hp"
  by (rule snapshot_returns [OF assms])

theorem snapshot_never_fails_witness: "\<exists>hp. tr_snapshot 0 demo_tracker = Inr hp"
  by (rule snapshot_never_fails [OF demo_run])

end
