(* ===== verification/Heap_Pprof.thy ===== *)
theory Heap_Pprof
  imports Heap Heap_Validate Symbolize
begin

text \<open>
  Writing a heap profile as pprof (\<open>HeapProfile::to_pprof\<close> in \<open>src/heap/mod.rs\<close>). What is
  built passes \<open>validate_profile\<close>, and its samples stand for the stacks and values of the
  heap profile.
\<close>

section \<open>The builder\<close>

definition push_value_type :: "string \<times> string \<Rightarrow> profile \<Rightarrow> profile" where
  "push_value_type = (\<lambda>(name, unit) p.
     let (t, p) = profile_intern p name; (u, p) = profile_intern p unit in
     p\<lparr>p_value_types := p_value_types p @ [\<lparr>vt_type = t, vt_unit = u\<rparr>]\<rparr>)"

definition heap_types :: "(string \<times> string) list" where
  "heap_types = [(''alloc_objects'', ''count''), (''alloc_space'', ''bytes''),
     (''inuse_objects'', ''count''), (''inuse_space'', ''bytes'')]"

type_synonym image_flags = "bool \<times> bool \<times> bool"

text \<open>\<open>image_flags.entry(image).or_default()\<close>, and the three \<open>|=\<close>.\<close>

definition flag_step :: "heap_frame \<Rightarrow> (heap_mapping \<times> image_flags) list
    \<Rightarrow> (heap_mapping \<times> image_flags) list" where
  "flag_step f flags =
     (case hf_mapping f of
        None \<Rightarrow> flags
      | Some img \<Rightarrow>
          let (a, b, c) = (case map_of flags img of None \<Rightarrow> (False, False, False) | Some x \<Rightarrow> x) in
          bt_insert img (a \<or> hf_function f \<noteq> [], b \<or> hf_file f \<noteq> [], c \<or> hf_line f \<noteq> 0) flags)"

definition heap_mapping_step :: "heap_mapping \<times> image_flags \<Rightarrow> (heap_mapping \<rightharpoonup> u64) \<times> profile
    \<Rightarrow> (heap_mapping \<rightharpoonup> u64) \<times> profile" where
  "heap_mapping_step e s =
     (let (img, (has_functions, has_filenames, has_lines)) = e; (mappings, p) = s;
          i = word_of_nat (length (p_mappings p) + 1);
          (filename, p) = profile_intern p (hm_filename img);
          (build_id, p) = profile_intern p (hm_build_id img)
      in (mappings(img \<mapsto> i),
          p\<lparr>p_mappings := p_mappings p @
            [mp_default\<lparr>mp_id := i, mp_memory_start := hm_memory_start img,
              mp_memory_limit := hm_memory_limit img, mp_file_offset := hm_file_offset img,
              mp_filename := filename, mp_build_id := build_id, mp_has_functions := has_functions,
              mp_has_filenames := has_filenames, mp_has_line_numbers := has_lines\<rparr>]\<rparr>))"

definition frame_name :: "heap_frame \<Rightarrow> string" where
  "frame_name f = (if hf_function f = [] then hex_name (hf_address f) else hf_function f)"

text \<open>\<open>frames.entry(frame).or_insert_with(...)\<close>.\<close>

definition heap_frame_id :: "(heap_mapping \<rightharpoonup> u64) \<Rightarrow> heap_frame \<Rightarrow> (heap_frame \<rightharpoonup> u64) \<times> profile
    \<Rightarrow> u64 \<times> (heap_frame \<rightharpoonup> u64) \<times> profile" where
  "heap_frame_id mappings f s =
     (let (frames, p) = s in
      case frames f of
        Some i \<Rightarrow> (i, frames, p)
      | None \<Rightarrow>
        let i = word_of_nat (length (p_functions p) + 1);
            (name, p) = profile_intern p (frame_name f);
            (filename, p) = profile_intern p (hf_file f);
            p = p\<lparr>p_functions := p_functions p @
                  [fn_default\<lparr>fn_id := i, fn_name := name, fn_system_name := name,
                    fn_filename := filename\<rparr>]\<rparr>;
            mapping_id = (case Option.bind (hf_mapping f) mappings of None \<Rightarrow> 0 | Some m \<Rightarrow> m);
            p = p\<lparr>p_locations := p_locations p @
                  [loc_default\<lparr>loc_id := i, loc_mapping_id := mapping_id, loc_address := hf_address f,
                    loc_lines := [ln_default\<lparr>ln_function_id := i, ln_line := hf_line f\<rparr>]\<rparr>]\<rparr>
        in (i, frames(f \<mapsto> i), p))"

fun heap_stack_ids :: "(heap_mapping \<rightharpoonup> u64) \<Rightarrow> heap_stack \<Rightarrow> (heap_frame \<rightharpoonup> u64) \<times> profile
    \<Rightarrow> u64 list \<times> (heap_frame \<rightharpoonup> u64) \<times> profile" where
  "heap_stack_ids mappings [] s = ([], s)"
| "heap_stack_ids mappings (f # fs) s =
     (let (i, s) = heap_frame_id mappings f s; (is, s) = heap_stack_ids mappings fs s in (i # is, s))"

definition heap_sample_step :: "(heap_mapping \<rightharpoonup> u64) \<Rightarrow> label \<Rightarrow> heap_stack \<times> heap_values
    \<Rightarrow> (heap_frame \<rightharpoonup> u64) \<times> profile \<Rightarrow> (heap_frame \<rightharpoonup> u64) \<times> profile" where
  "heap_sample_step mappings label e s =
     (let (stack, v) = e; (ids, frames, p) = heap_stack_ids mappings stack s in
      (frames, p\<lparr>p_samples := p_samples p @
         [\<lparr>sm_location_ids = ids, sm_values = hv_values v, sm_labels = [label]\<rparr>]\<rparr>))"

text \<open>\<open>duration_since(UNIX_EPOCH)?\<close> and \<open>try_into()?\<close>.\<close>

definition nanos_since_epoch :: "int \<Rightarrow> i64 result" where
  "nanos_since_epoch t =
     (if t < 0 then Inl TimeBeforeEpoch
      else if t > i64_max then Inl TimeOverflow
      else Inr (word_of_int t))"

definition heap_header :: "heap_profile \<Rightarrow> i64 \<Rightarrow> label \<times> profile" where
  "heap_header hp time =
     (let p = fold push_value_type heap_types profile_new;
          (d, p) = profile_intern p ''inuse_space'';
          p = p\<lparr>p_default_sample_type := d\<rparr>;
          p = p\<lparr>p_time_nanos := time\<rparr>;
          (key, p) = profile_intern p ''heap'';
          (str_index, p) = profile_intern p (hp_domain hp);
          label = lb_default\<lparr>lb_key := key, lb_str_index := str_index\<rparr>;
          p = (if hp_comment hp \<noteq> [] then
                 let (c, p) = profile_intern p (hp_comment hp) in
                 p\<lparr>p_comments := p_comments p @ [c]\<rparr>
               else p)
      in (label, p))"

definition to_pprof :: "heap_profile \<Rightarrow> profile result" where
  "to_pprof hp =
     bindr (ensure (hp_domain hp \<noteq> []) EmptyDomain) (\<lambda>_.
     bindr (nanos_since_epoch (hp_collected_at hp)) (\<lambda>time.
       let (label, p) = heap_header hp time;
           image_flags = fold flag_step (concat (map fst (hp_samples hp))) [];
           (mappings, p) = fold heap_mapping_step image_flags (Map.empty, p);
           (frames, p) = fold (heap_sample_step mappings label) (hp_samples hp) (Map.empty, p);
           p = (if p_samples p = [] then
                  p\<lparr>p_samples := p_samples p @
                    [\<lparr>sm_location_ids = [], sm_values = replicate 4 0, sm_labels = [label]\<rparr>]\<rparr>
                else p)
       in Inr p))"

section \<open>Growth\<close>

text \<open>What every step keeps: the tables only grow, and the header stays.\<close>

definition grown :: "profile \<Rightarrow> profile \<Rightarrow> bool" where
  "grown p q \<longleftrightarrow> extends p q \<and> (st_ok (p_strings p) \<longrightarrow> st_ok (p_strings q))
     \<and> prefix (p_mappings p) (p_mappings q)
     \<and> p_value_types q = p_value_types p \<and> p_comments q = p_comments p
     \<and> p_default_sample_type q = p_default_sample_type p \<and> p_doc_url q = p_doc_url p
     \<and> p_drop_frames q = p_drop_frames p \<and> p_keep_frames q = p_keep_frames p
     \<and> p_period_type q = p_period_type p"

lemma grown_refl [simp, intro]: "grown p p"
  by (simp add: grown_def)

lemma grown_trans [trans]: "grown p q \<Longrightarrow> grown q r \<Longrightarrow> grown p r"
  unfolding grown_def by (auto intro: extends_trans prefix_order.trans)

lemma grown_intern [intro]: "grown p (snd (profile_intern p s))"
  using extends_intern [of p s] profiles.ok_intern [of p s] unfolding grown_def
  by (simp add: profile_intern_def split_beta Let_def)

lemma valid_string_extends: "extends p q \<Longrightarrow> valid_string p i \<Longrightarrow> valid_string q i"
  by (auto simp: extends_def valid_string_def dest: prefix_length_le)

lemma valid_string_intern:
  assumes "st_ok (p_strings p)" and "st_small (p_strings (snd (profile_intern p s)))"
  shows "valid_string (snd (profile_intern p s)) (fst (profile_intern p s))"
  using profiles.get_intern [OF assms]
  by (auto simp: valid_string_def profile_get_def st_get_def split: if_splits)


section \<open>Validity is kept\<close>

definition tables_small :: "profile \<Rightarrow> bool" where
  "tables_small p \<longleftrightarrow> st_small (p_strings p) \<and> length (p_mappings p) < 2 ^ 64
     \<and> length (p_functions p) < 2 ^ 64 \<and> length (p_locations p) < 2 ^ 64"

definition building :: "profile \<Rightarrow> bool" where
  "building p \<longleftrightarrow> st_ok (p_strings p)
     \<and> numbered (map mp_id (p_mappings p)) \<and> numbered (map fn_id (p_functions p))
     \<and> numbered (map loc_id (p_locations p)) \<and> length (p_functions p) = length (p_locations p)
     \<and> (\<forall>m\<in>set (p_mappings p). mapping_valid p m)
     \<and> (\<forall>f\<in>set (p_functions p). function_valid p f)
     \<and> (\<forall>l\<in>set (p_locations p). location_valid p l)
     \<and> (\<forall>s\<in>set (p_samples p). sample_valid p s)"

lemma tables_small_grown: "grown p q \<Longrightarrow> tables_small q \<Longrightarrow> tables_small p"
  by (auto simp: tables_small_def grown_def extends_def st_small_def dest!: prefix_length_le)

lemma valid_grown:
  assumes "grown p q"
  shows "mapping_valid p m \<Longrightarrow> mapping_valid q m"
    and "function_valid p f \<Longrightarrow> function_valid q f"
    and "location_valid p l \<Longrightarrow> location_valid q l"
    and "label_valid p b \<Longrightarrow> label_valid q b"
    and "sample_valid p s \<Longrightarrow> sample_valid q s"
proof -
  note str = valid_string_extends [of p q]
  have sub: "set (p_mappings p) \<subseteq> set (p_mappings q)" "set (p_functions p) \<subseteq> set (p_functions q)"
    "set (p_locations p) \<subseteq> set (p_locations q)"
    using assms by (auto simp: grown_def extends_def dest: set_mono_prefix)
  show "mapping_valid p m \<Longrightarrow> mapping_valid q m" "function_valid p f \<Longrightarrow> function_valid q f"
    using assms str by (auto simp: grown_def mapping_valid_def function_valid_def)
  show "location_valid p l \<Longrightarrow> location_valid q l"
    using image_mono [OF sub(1), of mp_id] image_mono [OF sub(2), of fn_id]
    by (auto simp: location_valid_def)
  show label: "label_valid p b \<Longrightarrow> label_valid q b" for b
    using assms str by (auto simp: grown_def label_valid_def)
  show "sample_valid p s \<Longrightarrow> sample_valid q s"
    using image_mono [OF sub(3), of loc_id] label assms by (auto simp: sample_valid_def grown_def)
qed

lemma header_valid_grown:
  assumes "header_valid p" and "grown p q"
  shows "header_valid q"
proof -
  have str: "valid_string p i \<Longrightarrow> valid_string q i" for i
    using assms(2) by (auto simp: grown_def intro: valid_string_extends)
  have name: "profile_string q i = profile_string p i" if "valid_string p i" for i
  proof -
    have "profile_get p i = Some (st_strings (p_strings p) ! unat i)"
      using that by (simp add: valid_string_def profile_get_def st_get_def)
    then show ?thesis
      using assms(2) profile_get_extends [of p q i] by (simp add: grown_def profile_string_def)
  qed
  have "metrics_valid p ms \<Longrightarrow> metrics_valid q ms" for ms
    using str by (auto simp: metrics_valid_def name cong: map_cong)
  then show ?thesis using assms str by (auto simp: header_valid_def grown_def)
qed

lemma building_same_tables:
  assumes "building p" and "grown p q" and "p_mappings q = p_mappings p"
    and "p_functions q = p_functions p" and "p_locations q = p_locations p"
    and "p_samples q = p_samples p"
  shows "building q"
  using assms valid_grown [OF assms(2)] by (auto simp: building_def grown_def)

lemma building_intern: "building p \<Longrightarrow> building (snd (profile_intern p s))"
  by (rule building_same_tables [OF _ grown_intern])
     (simp_all add: profile_intern_def split_beta Let_def)

lemma building_mapping:
  assumes "building p" and "mp_id m = word_of_nat (Suc (length (p_mappings p)))"
    and "mapping_valid p m"
  shows "grown p (p\<lparr>p_mappings := p_mappings p @ [m]\<rparr>)"
    and "building (p\<lparr>p_mappings := p_mappings p @ [m]\<rparr>)"
proof -
  show "grown p (p\<lparr>p_mappings := p_mappings p @ [m]\<rparr>)" by (simp add: grown_def extends_def)
  note valid = valid_grown [OF this]
  then show "building (p\<lparr>p_mappings := p_mappings p @ [m]\<rparr>)"
    using assms by (auto simp: building_def simp del: of_nat_Suc)
qed

lemma building_location:
  assumes "building p" and "fn_id f = word_of_nat (Suc (length (p_functions p)))"
    and "loc_id l = fn_id f" and "function_valid p f"
    and "loc_mapping_id l = 0 \<or> loc_mapping_id l \<in> mp_id ` set (p_mappings p)"
    and "\<forall>ln\<in>set (loc_lines l). ln_function_id ln = fn_id f"
  defines "q \<equiv> p\<lparr>p_functions := p_functions p @ [f], p_locations := p_locations p @ [l]\<rparr>"
  shows "grown p q" and "building q"
proof -
  show g: "grown p q" by (simp add: q_def grown_def extends_def)
  note valid = valid_grown [OF g]
  have new: "location_valid q l" using assms(5,6) by (auto simp: location_valid_def q_def)
  have "building q \<longleftrightarrow> st_ok (p_strings p)
     \<and> numbered (map mp_id (p_mappings p)) \<and> numbered (map fn_id (p_functions p) @ [fn_id f])
     \<and> numbered (map loc_id (p_locations p) @ [fn_id f])
     \<and> length (p_functions p) = length (p_locations p)
     \<and> (\<forall>m\<in>set (p_mappings p). mapping_valid q m)
     \<and> function_valid q f \<and> (\<forall>f\<in>set (p_functions p). function_valid q f)
     \<and> location_valid q l \<and> (\<forall>l\<in>set (p_locations p). location_valid q l)
     \<and> (\<forall>s\<in>set (p_samples p). sample_valid q s)"
    by (auto simp: building_def q_def assms(3))
  then show "building q"
    using assms(1,2,4) new valid by (simp add: building_def del: of_nat_Suc)
qed

lemma building_sample:
  assumes "building p" and "sample_valid p s"
  shows "grown p (p\<lparr>p_samples := p_samples p @ [s]\<rparr>)"
    and "building (p\<lparr>p_samples := p_samples p @ [s]\<rparr>)"
proof -
  show g: "grown p (p\<lparr>p_samples := p_samples p @ [s]\<rparr>)" by (simp add: grown_def extends_def)
  note valid = valid_grown [OF g]
  then show "building (p\<lparr>p_samples := p_samples p @ [s]\<rparr>)"
    using assms by (auto simp: building_def)
qed

lemma numbered_ids_ok: "numbered ids \<Longrightarrow> length ids < 2 ^ 64 \<Longrightarrow> ids_ok ids"
  by (simp add: ids_ok_def numbered_distinct)

lemma building_valid:
  "building p \<Longrightarrow> tables_small p \<Longrightarrow> header_valid p \<Longrightarrow> heap_valid p"
  by (simp add: heap_valid_def tables_valid_def building_def tables_small_def numbered_ids_ok st_ok_def)


section \<open>The loops\<close>

definition mappings_built :: "(heap_mapping \<rightharpoonup> u64) \<times> profile \<Rightarrow> bool" where
  "mappings_built s \<longleftrightarrow> building (snd s)
     \<and> (\<forall>img i. fst s img = Some i \<longrightarrow> i \<in> mp_id ` set (p_mappings (snd s)))"

lemma intern_mappings [simp]:
  "p_mappings (snd (profile_intern p s)) = p_mappings p"
  "p_functions (snd (profile_intern p s)) = p_functions p"
  "p_locations (snd (profile_intern p s)) = p_locations p"
  "p_samples (snd (profile_intern p s)) = p_samples p"
  by (simp_all add: profile_intern_def split_beta Let_def)

lemma intern_two:
  assumes "building p" and "tables_small (snd (profile_intern (snd (profile_intern p s)) t))"
  shows "valid_string (snd (profile_intern (snd (profile_intern p s)) t)) (fst (profile_intern p s))"
    and "valid_string (snd (profile_intern (snd (profile_intern p s)) t))
      (fst (profile_intern (snd (profile_intern p s)) t))"
proof -
  let ?p1 = "snd (profile_intern p s)"
  have "building ?p1" by (rule building_intern [OF assms(1)])
  moreover have "tables_small ?p1" by (rule tables_small_grown [OF grown_intern assms(2)])
  ultimately show "valid_string (snd (profile_intern ?p1 t)) (fst (profile_intern p s))"
    "valid_string (snd (profile_intern ?p1 t)) (fst (profile_intern ?p1 t))"
    using assms valid_string_intern valid_string_extends [OF extends_intern]
    by (auto simp: building_def tables_small_def)
qed

lemma grown_intern2: "grown p (snd (profile_intern (snd (profile_intern p s)) t))"
  by (rule grown_trans [OF grown_intern grown_intern])

lemma grown_mappings: "grown p q \<Longrightarrow> grown p (q\<lparr>p_mappings := p_mappings p @ ms\<rparr>)"
  by (simp add: grown_def extends_def)

lemma grown_locations:
  "grown p q \<Longrightarrow> grown p (q\<lparr>p_functions := p_functions p @ fs, p_locations := p_locations p @ ls\<rparr>)"
  by (simp add: grown_def extends_def)

lemma heap_mapping_step_grown: "grown (snd s) (snd (heap_mapping_step e s))"
  unfolding heap_mapping_step_def
  by (simp add: Let_def split_beta) (intro grown_mappings grown_intern2)

lemma heap_mapping_step_built:
  assumes "mappings_built s" and "tables_small (snd (heap_mapping_step e s))"
  shows "mappings_built (heap_mapping_step e s)"
proof -
  obtain img x y z where e: "e = (img, (x, y, z))" by (metis prod.exhaust)
  obtain mappings p where s: "s = (mappings, p)" by (cases s)
  let ?p1 = "snd (profile_intern p (hm_filename img))"
  let ?p2 = "snd (profile_intern ?p1 (hm_build_id img))"
  define m where "m = mp_default\<lparr>mp_id := word_of_nat (Suc (length (p_mappings p))),
    mp_memory_start := hm_memory_start img, mp_memory_limit := hm_memory_limit img,
    mp_file_offset := hm_file_offset img, mp_filename := fst (profile_intern p (hm_filename img)),
    mp_build_id := fst (profile_intern ?p1 (hm_build_id img)), mp_has_functions := x,
    mp_has_filenames := y, mp_has_line_numbers := z\<rparr>"
  have step: "heap_mapping_step e s = (mappings(img \<mapsto> mp_id m), ?p2\<lparr>p_mappings := p_mappings ?p2 @ [m]\<rparr>)"
    by (simp add: heap_mapping_step_def e s Let_def split_beta m_def)
  have b: "building p" using assms(1) by (simp add: mappings_built_def s)
  then have b2: "building ?p2" by (intro building_intern)
  have "tables_small ?p2"
    using assms(2) by (simp add: step tables_small_def)
  then have "mapping_valid ?p2 m"
    using intern_two [OF b] by (simp add: mapping_valid_def m_def)
  then have "building (?p2\<lparr>p_mappings := p_mappings ?p2 @ [m]\<rparr>)"
    by (intro building_mapping(2) [OF b2]) (simp_all add: m_def)
  then show ?thesis
    unfolding step using assms(1) by (auto simp: mappings_built_def s)
qed

text \<open>
  A loop over a state that holds a profile: each turn lets the tables grow and keeps an
  invariant as long as the tables stay small; then so does the loop.
\<close>

locale table_loop =
  fixes get :: "'s \<Rightarrow> profile"
    and step :: "'e \<Rightarrow> 's \<Rightarrow> 's"
    and inv :: "'s \<Rightarrow> bool"
  assumes step_grown: "grown (get s) (get (step e s))"
    and step_inv: "inv s \<Longrightarrow> tables_small (get (step e s)) \<Longrightarrow> inv (step e s)"
begin

lemma loop_grown: "grown (get s) (get (fold step es s))"
proof (induction es arbitrary: s)
  case (Cons e es)
  show ?case using grown_trans [OF step_grown [of s e] Cons [of "step e s"]] by simp
qed simp

lemma loop_inv: "inv s \<Longrightarrow> tables_small (get (fold step es s)) \<Longrightarrow> inv (fold step es s)"
proof (induction es arbitrary: s)
  case (Cons e es)
  have "tables_small (get (step e s))"
    using tables_small_grown [OF loop_grown] Cons.prems(2) by simp
  then show ?case using Cons step_inv by simp
qed simp

end

interpretation mapping_loop: table_loop snd heap_mapping_step mappings_built
  by unfold_locales (rule heap_mapping_step_grown, rule heap_mapping_step_built)

definition heap_view :: "heap_frame \<Rightarrow> u64 \<times> (string \<times> string \<times> i64) list" where
  "heap_view f = (hf_address f, [(frame_name f, hf_file f, hf_line f)])"

definition frames_built :: "(heap_frame \<rightharpoonup> u64) \<times> profile \<Rightarrow> bool" where
  "frames_built s \<longleftrightarrow> building (snd s)
     \<and> (\<forall>f i. fst s f = Some i \<longrightarrow> resolve_location (snd s) i = Some (heap_view f))"

lemma heap_frame_id_grown: "grown (snd s) (snd (snd (heap_frame_id mappings f s)))"
  unfolding heap_frame_id_def
  by (simp add: Let_def split_beta split: option.split) (intro conjI allI impI grown_locations grown_intern2)

lemma heap_frame_id_built:
  assumes "frames_built s" and "\<And>img i. mappings img = Some i \<Longrightarrow> i \<in> mp_id ` set (p_mappings (snd s))"
    and "tables_small (snd (snd (heap_frame_id mappings f s)))"
  shows "frames_built (snd (heap_frame_id mappings f s))
    \<and> resolve_location (snd (snd (heap_frame_id mappings f s))) (fst (heap_frame_id mappings f s))
      = Some (heap_view f)
    \<and> p_samples (snd (snd (heap_frame_id mappings f s))) = p_samples (snd s)"
proof -
  obtain frames p where s: "s = (frames, p)" by (cases s)
  show ?thesis
  proof (cases "frames f")
    case (Some i)
    then show ?thesis using assms(1) by (simp add: heap_frame_id_def s frames_built_def)
  next
    case None
    let ?p1 = "snd (profile_intern p (frame_name f))"
    let ?p2 = "snd (profile_intern ?p1 (hf_file f))"
    define i :: u64 where "i = word_of_nat (Suc (length (p_functions p)))"
    define fn where "fn = fn_default\<lparr>fn_id := i, fn_name := fst (profile_intern p (frame_name f)),
      fn_system_name := fst (profile_intern p (frame_name f)),
      fn_filename := fst (profile_intern ?p1 (hf_file f))\<rparr>"
    define l where "l = loc_default\<lparr>loc_id := i,
      loc_mapping_id := (case Option.bind (hf_mapping f) mappings of None \<Rightarrow> 0 | Some m \<Rightarrow> m),
      loc_address := hf_address f, loc_lines := [ln_default\<lparr>ln_function_id := i, ln_line := hf_line f\<rparr>]\<rparr>"
    define q where "q = ?p2\<lparr>p_functions := p_functions ?p2 @ [fn], p_locations := p_locations ?p2 @ [l]\<rparr>"
    have step: "heap_frame_id mappings f s = (i, frames(f \<mapsto> i), q)"
      using None by (simp add: heap_frame_id_def s Let_def split_beta q_def l_def fn_def i_def)
    have b: "building p" using assms(1) by (simp add: frames_built_def s)
    then have b2: "building ?p2" by (intro building_intern)
    have small: "tables_small q" using assms(3) by (simp add: step)
    then have small2: "tables_small ?p2" by (simp add: q_def tables_small_def)
    have fn: "function_valid ?p2 fn"
      using intern_two [OF b small2] by (simp add: function_valid_def fn_def)
    have "loc_mapping_id l = 0 \<or> loc_mapping_id l \<in> mp_id ` set (p_mappings ?p2)"
      using assms(2) by (cases "hf_mapping f") (auto simp: l_def s split: option.splits)
    then have q: "building q" "grown ?p2 q"
      unfolding q_def using building_location [OF b2 _ _ fn, of l]
      by (simp_all add: fn_def l_def i_def ln_default_def del: of_nat_Suc)
    have "st_small (p_strings ?p2)" "st_small (p_strings ?p1)"
      using small2 profiles.small_intern [of ?p1 "hf_file f"] by (simp_all add: tables_small_def)
    then have names: "profile_get ?p2 (fn_name fn) = Some (frame_name f)"
      "profile_get ?p2 (fn_filename fn) = Some (hf_file f)"
      using profiles.get_intern [of p "frame_name f"] profiles.get_intern [of ?p1 "hf_file f"] b
        building_intern [OF b] profiles.get_stable [of ?p1]
      by (simp_all add: fn_def building_def)
    have ids: "numbered (map fn_id (p_functions ?p2))" "numbered (map loc_id (p_locations ?p2))"
      "length (p_functions ?p2) = length (p_locations ?p2)"
      using b2 by (simp_all add: building_def)
    have len: "length (p_functions ?p2) + 1 < 2 ^ 64" using small by (simp add: q_def tables_small_def)
    have "find (\<lambda>g. fn_id g = i) (p_functions ?p2 @ [fn]) = Some fn"
      using find_numbered_snoc [OF ids(1) len, of fn] by (simp add: fn_def i_def del: of_nat_Suc)
    moreover have "find (\<lambda>k. loc_id k = i) (p_locations ?p2 @ [l]) = Some l"
      using find_numbered_snoc [OF ids(2), of l] len ids(3) by (simp add: l_def i_def del: of_nat_Suc)
    ultimately have res: "resolve_location q i = Some (heap_view f)"
      using names by (simp add: resolve_location_def resolve_line_def resolve_function_def q_def
          profile_get_def heap_view_def l_def ln_default_def)
    have "extends p q"
      using grown_trans [OF grown_trans [OF grown_intern grown_intern] q(2)] by (simp add: grown_def)
    then have "resolve_location q j = Some (heap_view g)" if "frames g = Some j" for g j
      using assms(1) that by (auto simp: frames_built_def s intro: resolve_location_extends)
    then show ?thesis
      unfolding step using q res by (simp add: frames_built_def s q_def)
  qed
qed


lemma heap_stack_ids_grown: "grown (snd s) (snd (snd (heap_stack_ids mappings fs s)))"
proof (induction fs arbitrary: s)
  case (Cons f fs)
  show ?case
    using grown_trans [OF heap_frame_id_grown [of s mappings f] Cons]
    by (simp add: Let_def split_beta)
qed simp

definition maps_into :: "(heap_mapping \<rightharpoonup> u64) \<Rightarrow> profile \<Rightarrow> bool" where
  "maps_into mappings p \<longleftrightarrow> (\<forall>img i. mappings img = Some i \<longrightarrow> i \<in> mp_id ` set (p_mappings p))"

lemma maps_into_grown:
  assumes "maps_into mappings p" and "grown p q" shows "maps_into mappings q"
proof -
  have "set (p_mappings p) \<subseteq> set (p_mappings q)"
    using assms(2) by (auto simp: grown_def dest: set_mono_prefix)
  then show ?thesis
    using assms(1) image_mono [of "set (p_mappings p)" "set (p_mappings q)" mp_id]
    by (auto simp: maps_into_def)
qed

lemma map_resolve_grown:
  "grown p q \<Longrightarrow> map (resolve_location p) ids = map (Some \<circ> heap_view) fs \<Longrightarrow>
     map (resolve_location q) ids = map (Some \<circ> heap_view) fs"
  by (induction ids arbitrary: fs)
     (auto simp: Cons_eq_map_conv grown_def intro: resolve_location_extends)

lemma heap_stack_ids_built:
  assumes "frames_built s" and "maps_into mappings (snd s)"
    and "tables_small (snd (snd (heap_stack_ids mappings fs s)))"
  shows "frames_built (snd (heap_stack_ids mappings fs s))
    \<and> map (resolve_location (snd (snd (heap_stack_ids mappings fs s)))) (fst (heap_stack_ids mappings fs s))
      = map (Some \<circ> heap_view) fs
    \<and> p_samples (snd (snd (heap_stack_ids mappings fs s))) = p_samples (snd s)"
  using assms
proof (induction fs arbitrary: s)
  case (Cons f fs)
  obtain i s1 where f: "heap_frame_id mappings f s = (i, s1)" by (cases "heap_frame_id mappings f s")
  obtain "is" s2 where fs: "heap_stack_ids mappings fs s1 = (is, s2)"
    by (cases "heap_stack_ids mappings fs s1")
  have g1: "grown (snd s) (snd s1)" using heap_frame_id_grown [of s mappings f] f by simp
  have g2: "grown (snd s1) (snd s2)" using heap_stack_ids_grown [of s1 mappings fs] fs by simp
  have small2: "tables_small (snd s2)" using Cons.prems(3) by (simp add: f fs)
  then have "tables_small (snd s1)" by (rule tables_small_grown [OF g2])
  then have 1: "frames_built s1" "resolve_location (snd s1) i = Some (heap_view f)"
    "p_samples (snd s1) = p_samples (snd s)"
    using heap_frame_id_built [OF Cons.prems(1), of mappings f] Cons.prems(2) by (auto simp: f maps_into_def)
  have "resolve_location (snd s2) i = Some (heap_view f)"
    using 1(2) g2 by (auto simp: grown_def intro: resolve_location_extends)
  then show ?case
    using Cons.IH [OF 1(1) maps_into_grown [OF Cons.prems(2) g1]] small2 1(3)
    by (simp add: f fs)
qed simp

text \<open>What the samples so far stand for.\<close>

definition heap_sample_view :: "profile \<Rightarrow> sample
    \<Rightarrow> (u64 \<times> (string \<times> string \<times> i64) list) option list \<times> i64 list" where
  "heap_sample_view p s = (map (resolve_location p) (sm_location_ids s), sm_values s)"

definition entry_view :: "heap_stack \<times> heap_values
    \<Rightarrow> (u64 \<times> (string \<times> string \<times> i64) list) option list \<times> i64 list" where
  "entry_view e = (map (Some \<circ> heap_view) (fst e), hv_values (snd e))"

definition samples_built :: "(heap_mapping \<rightharpoonup> u64) \<Rightarrow> label \<Rightarrow> (heap_frame \<rightharpoonup> u64) \<times> profile \<Rightarrow> bool" where
  "samples_built mappings label s \<longleftrightarrow>
     frames_built s \<and> maps_into mappings (snd s) \<and> label_valid (snd s) label
     \<and> length (p_value_types (snd s)) = 4
     \<and> (\<forall>smp\<in>set (p_samples (snd s)). sm_labels smp = [label])"

lemma heap_sample_step_grown: "grown (snd s) (snd (heap_sample_step mappings label e s))"
proof -
  have "grown p q \<Longrightarrow> grown p (q\<lparr>p_samples := ss\<rparr>)" for p q ss
    by (simp add: grown_def extends_def)
  then show ?thesis
    using heap_stack_ids_grown [of s mappings "fst e"]
    by (simp add: heap_sample_step_def Let_def split_beta)
qed

lemma resolve_location_samples [simp]: "resolve_location (p\<lparr>p_samples := ss\<rparr>) = resolve_location p"
proof -
  have "resolve_function (p\<lparr>p_samples := ss\<rparr>) = resolve_function p"
    by (simp add: fun_eq_iff resolve_function_def profile_get_def cong: option.case_cong)
  then have "resolve_line (p\<lparr>p_samples := ss\<rparr>) = resolve_line p"
    by (simp add: fun_eq_iff resolve_line_def)
  then show ?thesis unfolding resolve_location_def by (simp cong: option.case_cong)
qed

lemma resolved_ids:
  assumes "map (resolve_location p) ids = map (Some \<circ> heap_view) fs"
  shows "set ids \<subseteq> loc_id ` set (p_locations p)"
proof
  fix i assume "i \<in> set ids"
  then have "resolve_location p i \<in> set (map (Some \<circ> heap_view) fs)"
    unfolding assms [symmetric] by simp
  then have "find (\<lambda>l. loc_id l = i) (p_locations p) \<noteq> None"
    by (auto simp: resolve_location_def split: option.splits)
  then show "i \<in> loc_id ` set (p_locations p)" by (auto simp: find_None_iff)
qed

lemma heap_sample_step_built:
  assumes "samples_built mappings label s"
    and "tables_small (snd (heap_sample_step mappings label e s))"
  shows "samples_built mappings label (heap_sample_step mappings label e s)
    \<and> (\<exists>smp. p_samples (snd (heap_sample_step mappings label e s)) = p_samples (snd s) @ [smp]
         \<and> heap_sample_view (snd (heap_sample_step mappings label e s)) smp = entry_view e)"
proof -
  obtain stack v where e: "e = (stack, v)" by (cases e)
  obtain ids frames p where ids: "heap_stack_ids mappings stack s = (ids, frames, p)"
    by (metis prod.exhaust)
  define smp where "smp = \<lparr>sm_location_ids = ids, sm_values = hv_values v, sm_labels = [label]\<rparr>"
  have step: "heap_sample_step mappings label e s = (frames, p\<lparr>p_samples := p_samples p @ [smp]\<rparr>)"
    by (simp add: heap_sample_step_def e ids smp_def)
  have g: "grown (snd s) p" using heap_stack_ids_grown [of s mappings stack] ids by simp
  have keep: "maps_into mappings p" "label_valid p label" "length (p_value_types p) = 4"
    using assms(1) maps_into_grown [OF _ g] valid_grown(4) [OF g] g
    by (simp_all add: samples_built_def) (simp add: grown_def)
  have labels: "\<forall>smp\<in>set (p_samples (snd s)). sm_labels smp = [label]"
    using assms(1) by (simp add: samples_built_def)
  have "tables_small p" using assms(2) by (simp add: step tables_small_def)
  then have b: "frames_built (frames, p)" "map (resolve_location p) ids = map (Some \<circ> heap_view) stack"
    "p_samples p = p_samples (snd s)"
    using heap_stack_ids_built [of s mappings stack] assms(1) by (auto simp: samples_built_def ids)
  have "sample_valid p smp"
    using resolved_ids [OF b(2)] keep by (simp add: sample_valid_def smp_def hv_values_def)
  then have "building (p\<lparr>p_samples := p_samples p @ [smp]\<rparr>)" "grown p (p\<lparr>p_samples := p_samples p @ [smp]\<rparr>)"
    using building_sample [of p smp] b(1) by (simp_all add: frames_built_def)
  then show ?thesis
    unfolding step using b keep labels valid_grown(4) [of p "p\<lparr>p_samples := p_samples p @ [smp]\<rparr>"]
    by (auto simp: samples_built_def frames_built_def maps_into_def heap_sample_view_def entry_view_def
        e smp_def)
qed

interpretation sample_loop: table_loop snd "heap_sample_step mappings label" "samples_built mappings label"
  for mappings label
  by unfold_locales (rule heap_sample_step_grown, use heap_sample_step_built in blast)

lemma sample_loop_view:
  assumes "samples_built mappings label s"
    and "tables_small (snd (fold (heap_sample_step mappings label) es s))"
  shows "map (heap_sample_view (snd (fold (heap_sample_step mappings label) es s)))
      (p_samples (snd (fold (heap_sample_step mappings label) es s)))
    = map (heap_sample_view (snd (fold (heap_sample_step mappings label) es s))) (p_samples (snd s))
      @ map entry_view es"
  using assms
proof (induction es arbitrary: s)
  case (Cons e es)
  let ?s = "heap_sample_step mappings label e s"
  let ?q = "snd (fold (heap_sample_step mappings label) es ?s)"
  have g: "grown (snd ?s) ?q" by (rule sample_loop.loop_grown)
  have "tables_small (snd ?s)" by (rule tables_small_grown [OF g]) (use Cons.prems(2) in simp)
  then obtain smp where step: "samples_built mappings label ?s"
    "p_samples (snd ?s) = p_samples (snd s) @ [smp]" "heap_sample_view (snd ?s) smp = entry_view e"
    using heap_sample_step_built [OF Cons.prems(1)] by blast
  have "heap_sample_view ?q smp = entry_view e"
    using step(3) map_resolve_grown [OF g] by (auto simp: heap_sample_view_def entry_view_def)
  then show ?case
    using Cons.IH [OF step(1)] step(2) Cons.prems(2) by simp
qed simp


section \<open>The whole profile\<close>

lemma heap_types_profile:
  "fold push_value_type heap_types profile_new = profile_new\<lparr>
     p_strings := p_strings (fold push_value_type heap_types profile_new),
     p_value_types := [\<lparr>vt_type = 1, vt_unit = 2\<rparr>, \<lparr>vt_type = 3, vt_unit = 4\<rparr>,
       \<lparr>vt_type = 5, vt_unit = 2\<rparr>, \<lparr>vt_type = 6, vt_unit = 4\<rparr>]\<rparr>"
  "st_strings (p_strings (fold push_value_type heap_types profile_new)) =
     [[], ''alloc_objects'', ''count'', ''alloc_space'', ''bytes'', ''inuse_objects'', ''inuse_space'']"
  by (simp_all add: push_value_type_def heap_types_def profile_intern_def profile_new_def st_new_def
      st_empty_def intern_def Let_def)

lemma heap_types_ok: "st_ok (p_strings (fold push_value_type heap_types profile_new))"
proof -
  have "grown p (snd (profile_intern (snd (profile_intern p s)) t))" for p s t by (rule grown_intern2)
  then have "st_ok (p_strings p) \<Longrightarrow> st_ok (p_strings (push_value_type x p))" for x p
    by (cases x) (simp add: push_value_type_def Let_def split_beta grown_def)
  then have "st_ok (p_strings p) \<Longrightarrow> st_ok (p_strings (fold push_value_type xs p))" for xs p
    by (induction xs arbitrary: p) simp_all
  then show ?thesis using st_ok_new by (simp add: profile_new_def)
qed

definition header_types :: "value_type list" where
  "header_types = [\<lparr>vt_type = 1, vt_unit = 2\<rparr>, \<lparr>vt_type = 3, vt_unit = 4\<rparr>,
     \<lparr>vt_type = 5, vt_unit = 2\<rparr>, \<lparr>vt_type = 6, vt_unit = 4\<rparr>]"

definition base_strings :: "string list" where
  "base_strings =
     [[], ''alloc_objects'', ''count'', ''alloc_space'', ''bytes'', ''inuse_objects'', ''inuse_space'']"

lemma header_types_valid:
  assumes "p_value_types p = header_types" and "prefix base_strings (st_strings (p_strings p))"
  shows "metrics_valid p (p_value_types p)"
proof -
  obtain rest where "st_strings (p_strings p) = base_strings @ rest"
    using assms(2) by (auto simp: prefix_def)
  then have "profile_string p i = base_strings ! unat i \<and> valid_string p i" if "unat i < 7" for i
    using that by (simp add: profile_string_def profile_get_def st_get_def valid_string_def nth_append)
       (simp add: base_strings_def)
  from this [of 1] this [of 2] this [of 3] this [of 4] this [of 5] this [of 6] show ?thesis
    by (simp add: metrics_valid_def assms(1) header_types_def heap_metric_def base_strings_def)
qed

text \<open>The header, with its string table as a chain of interned strings.\<close>

lemma heap_header_fields:
  assumes "heap_header hp time = (label, p)"
  obtains s0 s1 s2 s3 where "st_ok s0" "st_strings s0 = base_strings"
    "s1 = snd (intern s0 ''inuse_space'')" "s2 = snd (intern s1 ''heap'')"
    "s3 = snd (intern s2 (hp_domain hp))"
    "label = lb_default\<lparr>lb_key := fst (intern s1 ''heap''), lb_str_index := fst (intern s2 (hp_domain hp))\<rparr>"
    "p = profile_new\<lparr>
       p_strings := (if hp_comment hp \<noteq> [] then snd (intern s3 (hp_comment hp)) else s3),
       p_value_types := header_types, p_default_sample_type := fst (intern s0 ''inuse_space''),
       p_time_nanos := time,
       p_comments := (if hp_comment hp \<noteq> [] then [fst (intern s3 (hp_comment hp))] else [])\<rparr>"
proof -
  define s0 where "s0 = p_strings (fold push_value_type heap_types profile_new)"
  have p0: "fold push_value_type heap_types profile_new
      = profile_new\<lparr>p_strings := s0, p_value_types := header_types\<rparr>"
    unfolding s0_def header_types_def by (rule heap_types_profile(1))
  have s0: "st_ok s0" "st_strings s0 = base_strings"
    unfolding s0_def base_strings_def by (rule heap_types_ok, rule heap_types_profile(2))
  show thesis
    by (rule that [OF s0 refl refl refl])
       (use assms [unfolded heap_header_def p0] in
         \<open>auto simp: profile_intern_def Let_def split_beta profile_new_def\<close>)
qed

lemma heap_header_correct:
  assumes h: "heap_header hp time = (label, p)" and small: "tables_small p"
  shows "building p" and "header_valid p" and "label_valid p label" and "length (p_value_types p) = 4"
    and "p_samples p = []"
    and "profile_get p (lb_key label) = Some ''heap''"
    and "profile_get p (lb_str_index label) = Some (hp_domain hp)"
    and "profile_get p (p_default_sample_type p) = Some ''inuse_space''"
proof -
  obtain s0 s1 s2 s3 where s0: "st_ok s0" "st_strings s0 = base_strings"
    and s1: "s1 = snd (intern s0 ''inuse_space'')" and s2: "s2 = snd (intern s1 ''heap'')"
    and s3: "s3 = snd (intern s2 (hp_domain hp))"
    and label: "label = lb_default\<lparr>lb_key := fst (intern s1 ''heap''),
      lb_str_index := fst (intern s2 (hp_domain hp))\<rparr>"
    and p: "p = profile_new\<lparr>
       p_strings := (if hp_comment hp \<noteq> [] then snd (intern s3 (hp_comment hp)) else s3),
       p_value_types := header_types, p_default_sample_type := fst (intern s0 ''inuse_space''),
       p_time_nanos := time,
       p_comments := (if hp_comment hp \<noteq> [] then [fst (intern s3 (hp_comment hp))] else [])\<rparr>"
    by (rule heap_header_fields [OF h])
  have ok: "st_ok s1" "st_ok s2" "st_ok s3" using s0 by (simp_all add: s1 s2 s3 intern_st_ok)
  have small3: "st_small s3" and small4: "hp_comment hp \<noteq> [] \<Longrightarrow> st_small (snd (intern s3 (hp_comment hp)))"
    using small strings.small_intern [of s3 "hp_comment hp"] by (auto simp: p tables_small_def split: if_splits)
  have small2: "st_small s2" "st_small s1"
    using small3 strings.small_intern by (simp_all add: s2 s3, metis)
  have get: "st_get s3 i = Some s \<Longrightarrow> profile_get p i = Some s" for i s
    using strings.get_stable by (simp add: profile_get_def p)
  have valid: "profile_get p i = Some s \<Longrightarrow> valid_string p i" for i s
    by (auto simp: profile_get_def st_get_def valid_string_def split: if_splits)
  show names: "profile_get p (lb_key label) = Some ''heap''"
    "profile_get p (lb_str_index label) = Some (hp_domain hp)"
    using strings.get_intern [OF ok(1), of "''heap''"] strings.get_intern [OF ok(2), of "hp_domain hp"]
      small3 small2 strings.get_stable by (auto simp: label s2 s3 intro!: get)
  show default: "profile_get p (p_default_sample_type p) = Some ''inuse_space''"
  proof -
    have "st_get s1 (fst (intern s0 ''inuse_space'')) = Some ''inuse_space''"
      unfolding s1 by (rule strings.get_intern [OF s0(1) small2(2) [unfolded s1]])
    then have "st_get s3 (fst (intern s0 ''inuse_space'')) = Some ''inuse_space''"
      unfolding s3 s2 by (intro strings.get_stable)
    moreover have "p_default_sample_type p = fst (intern s0 ''inuse_space'')" by (simp add: p)
    ultimately show ?thesis using get by simp
  qed
  have pre: "prefix base_strings (st_strings (p_strings p))"
    using intern_prefix [of s0 "''inuse_space''"] intern_prefix [of s1 "''heap''"]
      intern_prefix [of s2 "hp_domain hp"] intern_prefix [of s3 "hp_comment hp"]
    by (auto simp: p s0(2) s1 [symmetric] s2 [symmetric] s3 [symmetric] intro: prefix_order.trans)
  have zero: "valid_string p 0"
    using prefix_length_le [OF pre] by (auto simp: valid_string_def base_strings_def)
  show "label_valid p label"
    using names [THEN valid] zero by (simp add: label_valid_def label lb_default_def)
  show "length (p_value_types p) = 4" "p_samples p = []"
    by (simp_all add: p header_types_def profile_new_def)
  have st: "st_ok (p_strings p)" using ok by (simp add: p intern_st_ok)
  then show "building p"
    by (simp add: building_def p profile_new_def)
  have "valid_string p c" if "c \<in> set (p_comments p)" for c
    using that strings.get_intern [OF ok(3) small4] by (intro valid) (auto simp: p profile_get_def split: if_splits)
  then show "header_valid p"
    using header_types_valid [OF _ pre] valid [OF default] zero
    by (simp add: header_valid_def p profile_new_def header_types_def vt_default_def)
qed


lemma map_heap_view_grown:
  "grown p q \<Longrightarrow> heap_sample_view p s = entry_view e \<Longrightarrow> heap_sample_view q s = entry_view e"
  using map_resolve_grown by (auto simp: heap_sample_view_def entry_view_def)

text \<open>The intermediate states of \<open>to_pprof\<close>, with what holds of each.\<close>

lemma to_pprof_correct:
  assumes tp: "to_pprof hp = Inr p" and small: "tables_small p"
  shows "heap_valid p"
    and "hp_samples hp \<noteq> [] \<Longrightarrow> map (heap_sample_view p) (p_samples p) = map entry_view (hp_samples hp)"
    and "\<forall>s\<in>set (p_samples p). sample_domain p s = hp_domain hp"
    and "st_ok (p_strings p)"
proof -
  obtain time where "hp_domain hp \<noteq> []" and time: "nanos_since_epoch (hp_collected_at hp) = Inr time"
    using tp by (auto simp: to_pprof_def bindr_Inr_iff)
  obtain label p0 where h: "heap_header hp time = (label, p0)" by (cases "heap_header hp time")
  obtain mappings p1 where m: "fold heap_mapping_step
      (fold flag_step (concat (map fst (hp_samples hp))) []) (Map.empty, p0) = (mappings, p1)"
    by (metis prod.exhaust)
  obtain frames p2 where f: "fold (heap_sample_step mappings label) (hp_samples hp) (Map.empty, p1)
      = (frames, p2)"
    by (metis prod.exhaust)
  have p: "p = (if p_samples p2 = [] then
        p2\<lparr>p_samples := p_samples p2 @
          [\<lparr>sm_location_ids = [], sm_values = replicate 4 0, sm_labels = [label]\<rparr>]\<rparr> else p2)"
    using tp \<open>hp_domain hp \<noteq> []\<close> by (simp add: to_pprof_def time h m f)
  define empty where "empty = \<lparr>sm_location_ids = [], sm_values = replicate 4 (0::i64), sm_labels = [label]\<rparr>"
  have g1: "grown p0 p1" using mapping_loop.loop_grown [of "(Map.empty, p0)"] m by (metis snd_conv)
  have g2: "grown p1 p2"
    using sample_loop.loop_grown [of "(Map.empty, p1)" mappings label "hp_samples hp"] by (simp add: f)
  have small2: "tables_small p2" using small by (auto simp: p tables_small_def split: if_splits)
  have small1: "tables_small p1" by (rule tables_small_grown [OF g2 small2])
  have small0: "tables_small p0" by (rule tables_small_grown [OF g1 small1])
  note header = heap_header_correct [OF h small0]
  have "mappings_built (mappings, p1)"
    using mapping_loop.loop_inv [of "(Map.empty, p0)"] header(1) small1
    by (metis m mappings_built_def fst_conv option.distinct(1) snd_conv)
  moreover have same: "p_samples (snd (fold heap_mapping_step es s)) = p_samples (snd s)" for es s
  proof (induction es arbitrary: s)
    case (Cons e es)
    have "p_samples (snd (heap_mapping_step e s)) = p_samples (snd s)"
      by (simp add: heap_mapping_step_def Let_def split_beta)
    then show ?case using Cons by simp
  qed simp
  ultimately have none: "p_samples p1 = []" and mb: "mappings_built (mappings, p1)"
    using header(5) same [of _ "(Map.empty, p0)"] m by (metis snd_conv, blast)
  have "p_value_types p1 = p_value_types p0" using g1 by (simp add: grown_def)
  then have built1: "samples_built mappings label (Map.empty, p1)"
    using valid_grown(4) [OF g1 header(3)] header(4) mb none
    by (simp add: samples_built_def frames_built_def mappings_built_def maps_into_def)
  have built2: "samples_built mappings label (frames, p2)"
    using sample_loop.loop_inv [OF built1] small2 f by (metis snd_conv)
  have view2: "map (heap_sample_view p2) (p_samples p2) = map entry_view (hp_samples hp)"
    using sample_loop_view [OF built1, of "hp_samples hp"] small2 by (simp add: f none)
  have g3: "grown p2 p" by (simp add: p grown_def extends_def)
  note g = grown_trans [OF g1 grown_trans [OF g2 g3]]
  have "sample_valid p2 empty"
    using built2 by (simp add: samples_built_def sample_valid_def empty_def)
  then have built: "building p"
    using building_sample [of p2 empty] built2
    by (auto simp: p empty_def samples_built_def frames_built_def)
  then show "st_ok (p_strings p)" by (simp add: building_def)
  note built
  moreover have "header_valid p" by (rule header_valid_grown [OF header(2) g])
  ultimately show "heap_valid p" by (rule building_valid [OF _ small])
  show "hp_samples hp \<noteq> [] \<Longrightarrow> map (heap_sample_view p) (p_samples p) = map entry_view (hp_samples hp)"
    using view2 by (auto simp: p)
  have "\<forall>s\<in>set (p_samples p). sm_labels s = [label]"
    using built2 by (auto simp: p samples_built_def)
  then show "\<forall>s\<in>set (p_samples p). sample_domain p s = hp_domain hp"
    using header(6,7) g profile_get_extends [of p0 p] by (auto simp: sample_domain_def grown_def)
qed

section \<open>Properties\<close>

definition demo_heap :: heap_profile where
  "demo_heap = \<lparr>hp_domain = ''app'', hp_collected_at = 5, hp_comment = [],
     hp_samples = [(demo_stack, \<lparr>hv_alloc_objects = 2, hv_alloc_space = 128, hv_inuse_objects = 1,
       hv_inuse_space = 28\<rparr>)]\<rparr>"

lemma demo_to_pprof: "\<exists>p. to_pprof demo_heap = Inr p \<and> tables_small p"
  by (simp add: to_pprof_def demo_heap_def nanos_since_epoch_def heap_header_def heap_types_def
      push_value_type_def profile_intern_def profile_new_def st_new_def st_empty_def intern_def
      demo_stack_def flag_step_def heap_sample_step_def heap_frame_id_def frame_name_def
      tables_small_def st_small_def i64_max_def Let_def)

text \<open>C10: what is written for a heap profile always passes the validation that readers apply.\<close>

theorem written_heap_is_valid:
  assumes "to_pprof hp = Inr p" and "tables_small p"
  shows "validate_profile p = Inr ()"
  using to_pprof_correct(1) [OF assms] by (simp add: validate_profile_iff)

theorem written_heap_is_valid_witness: "\<exists>p. to_pprof demo_heap = Inr p \<and> validate_profile p = Inr ()"
  using demo_to_pprof written_heap_is_valid by blast

text \<open>C23: the written samples are the samples of the heap profile in order: looked up through the
  tables, each gives the frames of its stack and its four values.\<close>

theorem written_heap_samples:
  assumes "to_pprof hp = Inr p" and "tables_small p" and "hp_samples hp \<noteq> []"
  shows "map (heap_sample_view p) (p_samples p) = map entry_view (hp_samples hp)"
  by (rule to_pprof_correct(2) [OF assms])

theorem written_heap_samples_witness:
  "\<exists>p. to_pprof demo_heap = Inr p \<and> map (heap_sample_view p) (p_samples p) =
     [([Some (64, [(''main'', ''main.rs'', 3)])], [2, 128, 1, 28])]"
proof -
  obtain p where p: "to_pprof demo_heap = Inr p" "tables_small p" using demo_to_pprof by blast
  then show ?thesis
    using written_heap_samples [OF p]
    by (simp add: demo_heap_def entry_view_def heap_view_def frame_name_def demo_stack_def hv_values_def)
qed

text \<open>every written sample carries the domain of the heap profile, so that selecting that domain
  keeps the whole profile.\<close>

theorem written_heap_domain:
  assumes "to_pprof hp = Inr p" and "tables_small p"
  shows "\<forall>s\<in>set (p_samples p). sample_domain p s = hp_domain hp"
  using to_pprof_correct(3) [OF assms] .

theorem written_heap_domain_witness:
  "\<exists>p. to_pprof demo_heap = Inr p \<and> (\<forall>s\<in>set (p_samples p). sample_domain p s = ''app'')"
proof -
  obtain p where p: "to_pprof demo_heap = Inr p" "tables_small p" using demo_to_pprof by blast
  then show ?thesis using written_heap_domain [OF p] by (simp add: demo_heap_def)
qed

end
