(* ===== verification/Pprof_Codec.thy ===== *)
theory Pprof_Codec
  imports Pprof
begin

text \<open>
  Round trip of the profile codec. \<open>encode_length_delimited\<close> writes nothing for an empty
  body and \<open>encode_varint_field\<close> nothing for zero, so a repeated submessage with only default
  fields, and a zero comment, do not survive. The theorem says exactly what comes back: the
  profile with those pruned.
\<close>

section \<open>Blank messages and pruning\<close>

definition vt_blank :: "value_type \<Rightarrow> bool" where
  "vt_blank m \<longleftrightarrow> vt_type m = 0 \<and> vt_unit m = 0"

definition ln_blank :: "line \<Rightarrow> bool" where
  "ln_blank m \<longleftrightarrow> ln_function_id m = 0 \<and> ln_line m = 0 \<and> ln_column m = 0"

definition loc_blank :: "location \<Rightarrow> bool" where
  "loc_blank m \<longleftrightarrow> loc_id m = 0 \<and> loc_mapping_id m = 0 \<and> loc_address m = 0
     \<and> list_all ln_blank (loc_lines m) \<and> \<not> loc_is_folded m"

definition loc_prune :: "location \<Rightarrow> location" where
  "loc_prune m = m\<lparr>loc_lines := filter (\<lambda>l. \<not> ln_blank l) (loc_lines m)\<rparr>"

definition mp_blank :: "mapping \<Rightarrow> bool" where
  "mp_blank m \<longleftrightarrow> m = mp_default"

definition fn_blank :: "func \<Rightarrow> bool" where
  "fn_blank m \<longleftrightarrow> m = fn_default"

definition lb_blank :: "label \<Rightarrow> bool" where
  "lb_blank m \<longleftrightarrow> m = lb_default"

definition sm_blank :: "sample \<Rightarrow> bool" where
  "sm_blank m \<longleftrightarrow> sm_location_ids m = [] \<and> sm_values m = [] \<and> list_all lb_blank (sm_labels m)"

definition sm_prune :: "sample \<Rightarrow> sample" where
  "sm_prune m = m\<lparr>sm_labels := filter (\<lambda>l. \<not> lb_blank l) (sm_labels m)\<rparr>"

lemma opt_Nil [simp]: "opt_varint n v = [] \<longleftrightarrow> v = 0" "opt_bytes n bs = [] \<longleftrightarrow> bs = []"
  by (simp_all add: opt_varint_def opt_bytes_def wire_varint_def wire_bytes_def)

lemma field_oks [simp]:
  "field_ok 1" "field_ok 2" "field_ok 3" "field_ok 4" "field_ok 5" "field_ok 6" "field_ok 7"
  "field_ok 8" "field_ok 9" "field_ok 10" "field_ok 11" "field_ok 12" "field_ok 13"
  "field_ok 14" "field_ok 15"
  by (simp_all add: field_ok_def)

lemma u64_of_bool_simps [simp]: "u64_of_bool b = 0 \<longleftrightarrow> \<not> b"
  by (simp add: u64_of_bool_def)

lemma reads_eq: "reads step bs s t \<Longrightarrow> t = s' \<Longrightarrow> reads step bs s s'"
  by simp

section \<open>Leaf messages\<close>

text \<open>
  A message of varint fields only encodes to the list of its numbered values with the zeros
  left out. \<open>steps_to\<close> runs a decoder's body over such a list and checks that a zero value
  would have changed nothing.
\<close>

definition varint_fields :: "(u32 \<times> u64) list \<Rightarrow> u8 list" where
  "varint_fields nvs = concat (map (\<lambda>(n, v). opt_varint n v) nvs)"

primrec steps_to :: "('s \<Rightarrow> field \<Rightarrow> 's result) \<Rightarrow> 's \<Rightarrow> (u32 \<times> u64) list \<Rightarrow> 's \<Rightarrow> bool" where
  "steps_to step s [] s' \<longleftrightarrow> s = s'"
| "steps_to step s (nv # nvs) s' \<longleftrightarrow>
     (case step s \<lparr>number = ucast (fst nv), fvalue = Varint (snd nv)\<rparr> of
        Inl e \<Rightarrow> False
      | Inr t \<Rightarrow> (snd nv = 0 \<longrightarrow> t = s) \<and> steps_to step t nvs s')"

lemma varint_fields_simps [simp]:
  "varint_fields [] = []"
  "varint_fields ((n, v) # nvs) = opt_varint n v @ varint_fields nvs"
  by (simp_all add: varint_fields_def)

lemma varint_fields_Nil: "varint_fields nvs = [] \<longleftrightarrow> (\<forall>nv\<in>set nvs. snd nv = 0)"
  by (induction nvs) auto

lemma reads_varint_fields:
  "\<forall>nv\<in>set nvs. field_ok (fst nv) \<Longrightarrow> steps_to step s nvs s' \<Longrightarrow>
     reads step (varint_fields nvs) s s'"
proof (induction nvs arbitrary: s)
  case Nil
  then show ?case by (simp add: reads_nil)
next
  case (Cons nv nvs)
  obtain n v where [simp]: "nv = (n, v)" by (cases nv)
  obtain t where t: "step s \<lparr>number = ucast n, fvalue = Varint v\<rparr> = Inr t"
    "v = 0 \<Longrightarrow> t = s" "steps_to step t nvs s'"
    using Cons.prems(2) by (auto split: sum.splits)
  have "reads step (opt_varint n v) s t"
    using Cons.prems(1) t by (intro reads_opt_varint) auto
  then show ?case
    using Cons t(3) by (auto intro: reads_append)
qed

definition vt_fields :: "value_type \<Rightarrow> (u32 \<times> u64) list" where
  "vt_fields m = [(1, vt_type m), (2, vt_unit m)]"

definition ln_fields :: "line \<Rightarrow> (u32 \<times> u64) list" where
  "ln_fields m = [(1, ln_function_id m), (2, ln_line m), (3, ln_column m)]"

definition mp_fields :: "mapping \<Rightarrow> (u32 \<times> u64) list" where
  "mp_fields m =
     [(1, mp_id m), (2, mp_memory_start m), (3, mp_memory_limit m), (4, mp_file_offset m),
      (5, mp_filename m), (6, mp_build_id m), (7, u64_of_bool (mp_has_functions m)),
      (8, u64_of_bool (mp_has_filenames m)), (9, u64_of_bool (mp_has_line_numbers m)),
      (10, u64_of_bool (mp_has_inline_frames m))]"

definition fn_fields :: "func \<Rightarrow> (u32 \<times> u64) list" where
  "fn_fields m =
     [(1, fn_id m), (2, fn_name m), (3, fn_system_name m), (4, fn_filename m),
      (5, fn_start_line m)]"

definition lb_fields :: "label \<Rightarrow> (u32 \<times> u64) list" where
  "lb_fields m = [(1, lb_key m), (2, lb_str_index m), (3, lb_num m), (4, lb_num_unit m)]"

lemmas leaf_fields_defs = vt_fields_def ln_fields_def mp_fields_def fn_fields_def lb_fields_def

lemma leaf_encode:
  "vt_encode buf vt = buf @ varint_fields (vt_fields vt)"
  "ln_encode buf ln = buf @ varint_fields (ln_fields ln)"
  "mp_encode buf mp = buf @ varint_fields (mp_fields mp)"
  "fn_encode buf fn = buf @ varint_fields (fn_fields fn)"
  "lb_encode buf lb = buf @ varint_fields (lb_fields lb)"
  by (simp_all add: vt_encode_def ln_encode_def mp_encode_def fn_encode_def lb_encode_def
      encode_appends leaf_fields_defs Let_def)

lemma leaf_field_ok:
  "\<forall>nv\<in>set (vt_fields vt). field_ok (fst nv)"
  "\<forall>nv\<in>set (ln_fields ln). field_ok (fst nv)"
  "\<forall>nv\<in>set (mp_fields mp). field_ok (fst nv)"
  "\<forall>nv\<in>set (fn_fields fn). field_ok (fst nv)"
  "\<forall>nv\<in>set (lb_fields lb). field_ok (fst nv)"
  by (simp_all add: leaf_fields_defs)

lemma leaf_Nil:
  "varint_fields (vt_fields vt) = [] \<longleftrightarrow> vt_blank vt"
  "varint_fields (ln_fields ln) = [] \<longleftrightarrow> ln_blank ln"
  "varint_fields (mp_fields mp) = [] \<longleftrightarrow> mp_blank mp"
  "varint_fields (fn_fields fn) = [] \<longleftrightarrow> fn_blank fn"
  "varint_fields (lb_fields lb) = [] \<longleftrightarrow> lb_blank lb"
  by (auto simp: varint_fields_Nil leaf_fields_defs vt_blank_def ln_blank_def mp_blank_def
      fn_blank_def lb_blank_def mp_default_def fn_default_def lb_default_def)

lemma leaf_steps:
  "steps_to vt_step vt_default (vt_fields vt) vt"
  "steps_to ln_step ln_default (ln_fields ln) ln"
  "steps_to mp_step mp_default (mp_fields mp) mp"
  "steps_to fn_step fn_default (fn_fields fn) fn"
  "steps_to lb_step lb_default (lb_fields lb) lb"
  by (simp_all add: leaf_fields_defs vt_step_def ln_step_def mp_step_def fn_step_def lb_step_def
      vt_default_def ln_default_def mp_default_def fn_default_def lb_default_def)

lemmas leaf_reads = reads_decode [OF reads_varint_fields, OF leaf_field_ok(1) leaf_steps(1)]
  reads_decode [OF reads_varint_fields, OF leaf_field_ok(2) leaf_steps(2)]
  reads_decode [OF reads_varint_fields, OF leaf_field_ok(3) leaf_steps(3)]
  reads_decode [OF reads_varint_fields, OF leaf_field_ok(4) leaf_steps(4)]
  reads_decode [OF reads_varint_fields, OF leaf_field_ok(5) leaf_steps(5)]

interpretation vt: wire_message vt_encode vt_decode "\<lambda>m. m" vt_blank
  by unfold_locales (simp_all add: leaf_encode leaf_Nil vt_decode_def leaf_reads)

interpretation ln: wire_message ln_encode ln_decode "\<lambda>m. m" ln_blank
  by unfold_locales (simp_all add: leaf_encode leaf_Nil ln_decode_def leaf_reads)

interpretation mp: wire_message mp_encode mp_decode "\<lambda>m. m" mp_blank
  by unfold_locales (simp_all add: leaf_encode leaf_Nil mp_decode_def leaf_reads)

interpretation fn: wire_message fn_encode fn_decode "\<lambda>m. m" fn_blank
  by unfold_locales (simp_all add: leaf_encode leaf_Nil fn_decode_def leaf_reads)

interpretation lb: wire_message lb_encode lb_decode "\<lambda>m. m" lb_blank
  by unfold_locales (simp_all add: leaf_encode leaf_Nil lb_decode_def leaf_reads)

section \<open>Messages with submessages\<close>

lemma loc_encode_append:
  "loc_encode buf m = buf @
     varint_fields [(1, loc_id m), (2, loc_mapping_id m), (3, loc_address m)] @
     concat (map (\<lambda>l. opt_bytes 4 (ln_encode [] l)) (loc_lines m)) @
     varint_fields [(5, u64_of_bool (loc_is_folded m))]"
  by (simp add: loc_encode_def encode_appends Let_def)

lemma loc_reads: "reads loc_step (loc_encode [] m) loc_default (loc_prune m)"
  unfolding loc_encode_append append_Nil
proof (intro reads_append)
  let ?a = "loc_default\<lparr>loc_id := loc_id m, loc_mapping_id := loc_mapping_id m,
    loc_address := loc_address m\<rparr>"
  let ?b = "?a\<lparr>loc_lines := filter (\<lambda>l. \<not> ln_blank l) (loc_lines m)\<rparr>"
  show "reads loc_step (varint_fields [(1, loc_id m), (2, loc_mapping_id m), (3, loc_address m)])
      loc_default ?a"
    by (rule reads_varint_fields) (simp_all add: loc_step_def loc_default_def)
  have "reads loc_step (concat (map (\<lambda>l. opt_bytes 4 (ln_encode [] l)) (loc_lines m))) ?a
      (fold (\<lambda>l m. m\<lparr>loc_lines := loc_lines m @ [l]\<rparr>)
        (map (\<lambda>l. l) (filter (\<lambda>l. \<not> ln_blank l) (loc_lines m))) ?a)"
    by (rule ln.reads_repeated) (simp_all add: loc_step_def)
  then show "reads loc_step (concat (map (\<lambda>l. opt_bytes 4 (ln_encode [] l)) (loc_lines m))) ?a ?b"
    by (simp add: fold_push [where get = loc_lines and put = "\<lambda>ls m. m\<lparr>loc_lines := ls\<rparr>"]
        loc_default_def)
  show "reads loc_step (varint_fields [(5, u64_of_bool (loc_is_folded m))]) ?b (loc_prune m)"
    by (rule reads_varint_fields) (simp_all add: loc_step_def loc_default_def loc_prune_def)
qed

interpretation loc: wire_message loc_encode loc_decode loc_prune loc_blank
proof unfold_locales
  show "loc_encode [] m = [] \<longleftrightarrow> loc_blank m" for m
    by (auto simp: loc_encode_append loc_blank_def ln.enc_Nil list_all_iff)
  show "loc_decode (loc_encode [] m) = Inr (loc_prune m)"
    if "length (loc_encode [] m) < 2 ^ 64" for m
    using reads_decode [OF loc_reads that] by (simp add: loc_decode_def)
qed (simp add: loc_encode_append)

lemma sm_encode_append:
  "sm_encode buf m = buf @
     opt_bytes 1 (concat (map varint_bytes (sm_location_ids m))) @
     opt_bytes 2 (concat (map varint_bytes (sm_values m))) @
     concat (map (\<lambda>l. opt_bytes 3 (lb_encode [] l)) (sm_labels m))"
  by (simp add: sm_encode_def encode_appends Let_def)

lemma foldl_push_sample:
  "foldl sm_push_location m vs = m\<lparr>sm_location_ids := sm_location_ids m @ vs\<rparr>"
  "foldl sm_push_value m vs = m\<lparr>sm_values := sm_values m @ vs\<rparr>"
  by (induction vs arbitrary: m; simp add: sm_push_location_def sm_push_value_def)+

lemma sm_reads: "reads sm_step (sm_encode [] m) sm_default (sm_prune m)"
  unfolding sm_encode_append append_Nil
proof (intro reads_append)
  let ?a = "sm_default\<lparr>sm_location_ids := sm_location_ids m\<rparr>"
  let ?b = "?a\<lparr>sm_values := sm_values m\<rparr>"
  show "reads sm_step (opt_bytes 1 (concat (map varint_bytes (sm_location_ids m)))) sm_default ?a"
    by (rule reads_opt_bytes)
       (simp_all add: sm_step_def decode_packed_bytes foldl_push_sample sm_default_def)
  show "reads sm_step (opt_bytes 2 (concat (map varint_bytes (sm_values m)))) ?a ?b"
    by (rule reads_opt_bytes)
       (simp_all add: sm_step_def decode_packed_bytes foldl_push_sample sm_default_def)
  have "reads sm_step (concat (map (\<lambda>l. opt_bytes 3 (lb_encode [] l)) (sm_labels m))) ?b
      (fold (\<lambda>l m. m\<lparr>sm_labels := sm_labels m @ [l]\<rparr>)
        (map (\<lambda>l. l) (filter (\<lambda>l. \<not> lb_blank l) (sm_labels m))) ?b)"
    by (rule lb.reads_repeated) (simp_all add: sm_step_def)
  then show "reads sm_step (concat (map (\<lambda>l. opt_bytes 3 (lb_encode [] l)) (sm_labels m))) ?b
      (sm_prune m)"
    by (cases m)
       (simp add: fold_push [where get = sm_labels and put = "\<lambda>ls m. m\<lparr>sm_labels := ls\<rparr>"]
        sm_default_def sm_prune_def)
qed

interpretation sm: wire_message sm_encode sm_decode sm_prune sm_blank
proof unfold_locales
  show "sm_encode [] m = [] \<longleftrightarrow> sm_blank m" for m
    by (simp add: sm_encode_append sm_blank_def lb.enc_Nil list_all_iff
        concat_varint_bytes_Nil [simplified])
  show "sm_decode (sm_encode [] m) = Inr (sm_prune m)"
    if "length (sm_encode [] m) < 2 ^ 64" for m
    using reads_decode [OF sm_reads that] by (simp add: sm_decode_def)
qed (simp add: sm_encode_append)

section \<open>The profile\<close>

definition profile_prune :: "profile \<Rightarrow> profile" where
  "profile_prune p = p\<lparr>
     p_value_types := filter (\<lambda>m. \<not> vt_blank m) (p_value_types p),
     p_samples := map sm_prune (filter (\<lambda>m. \<not> sm_blank m) (p_samples p)),
     p_mappings := filter (\<lambda>m. \<not> mp_blank m) (p_mappings p),
     p_locations := map loc_prune (filter (\<lambda>m. \<not> loc_blank m) (p_locations p)),
     p_functions := filter (\<lambda>m. \<not> fn_blank m) (p_functions p),
     p_comments := filter (\<lambda>c. c \<noteq> 0) (p_comments p)\<rparr>"

text \<open>The Rust type invariant of \<open>Vec<String>\<close>: every string is valid UTF-8.\<close>

definition utf8_strings :: "profile \<Rightarrow> bool" where
  "utf8_strings p \<longleftrightarrow> list_all (\<lambda>s. utf8_valid (str_bytes s)) (st_strings (p_strings p))"

lemma profile_encode_append:
  "profile_encode p =
     concat (map (\<lambda>m. opt_bytes 1 (vt_encode [] m)) (p_value_types p)) @
     concat (map (\<lambda>m. opt_bytes 2 (sm_encode [] m)) (p_samples p)) @
     concat (map (\<lambda>m. opt_bytes 3 (mp_encode [] m)) (p_mappings p)) @
     concat (map (\<lambda>m. opt_bytes 4 (loc_encode [] m)) (p_locations p)) @
     concat (map (\<lambda>m. opt_bytes 5 (fn_encode [] m)) (p_functions p)) @
     concat (map (\<lambda>s. wire_bytes 6 (str_bytes s)) (st_strings (p_strings p))) @
     varint_fields [(7, p_drop_frames p), (8, p_keep_frames p), (9, p_time_nanos p),
       (10, p_duration_nanos p)] @
     opt_bytes 11 (vt_encode [] (p_period_type p)) @
     varint_fields [(12, p_period p)] @
     concat (map (\<lambda>c. opt_varint 13 c) (p_comments p)) @
     varint_fields [(14, p_default_sample_type p), (15, p_doc_url p)]"
  by (simp add: profile_encode_def encode_appends Let_def)

lemmas fold_push_profile =
  fold_push [where get = p_value_types and put = "\<lambda>ys p. p\<lparr>p_value_types := ys\<rparr>"]
  fold_push [where get = p_samples and put = "\<lambda>ys p. p\<lparr>p_samples := ys\<rparr>"]
  fold_push [where get = p_mappings and put = "\<lambda>ys p. p\<lparr>p_mappings := ys\<rparr>"]
  fold_push [where get = p_locations and put = "\<lambda>ys p. p\<lparr>p_locations := ys\<rparr>"]
  fold_push [where get = p_functions and put = "\<lambda>ys p. p\<lparr>p_functions := ys\<rparr>"]

lemma fold_push_string:
  "fold (\<lambda>s p. push_string p s) ss p =
     p\<lparr>p_strings := (p_strings p)\<lparr>st_strings := st_strings (p_strings p) @ ss\<rparr>\<rparr>"
  by (induction ss arbitrary: p) (simp_all add: push_string_def)

lemma fold_push_comment:
  "fold (\<lambda>c p. if c = 0 then p else push_comment p c) cs p =
     p\<lparr>p_comments := p_comments p @ filter (\<lambda>c. c \<noteq> 0) cs\<rparr>"
  by (induction cs arbitrary: p) (simp_all add: push_comment_def)

lemma profile_reads:
  assumes "utf8_strings p"
  shows "reads profile_step (profile_encode p) (profile_new\<lparr>p_strings := st_empty\<rparr>)
    ((profile_prune p)\<lparr>p_strings := \<lparr>st_strings = st_strings (p_strings p),
       st_indices = Map.empty\<rparr>\<rparr>)"
  unfolding profile_encode_append
proof (intro reads_append)
  let ?p0 = "profile_new\<lparr>p_strings := st_empty\<rparr>"
  let ?p1 = "?p0\<lparr>p_value_types := filter (\<lambda>m. \<not> vt_blank m) (p_value_types p)\<rparr>"
  let ?p2 = "?p1\<lparr>p_samples := map sm_prune (filter (\<lambda>m. \<not> sm_blank m) (p_samples p))\<rparr>"
  let ?p3 = "?p2\<lparr>p_mappings := filter (\<lambda>m. \<not> mp_blank m) (p_mappings p)\<rparr>"
  let ?p4 = "?p3\<lparr>p_locations := map loc_prune (filter (\<lambda>m. \<not> loc_blank m) (p_locations p))\<rparr>"
  let ?p5 = "?p4\<lparr>p_functions := filter (\<lambda>m. \<not> fn_blank m) (p_functions p)\<rparr>"
  let ?p6 = "?p5\<lparr>p_strings := \<lparr>st_strings = st_strings (p_strings p), st_indices = Map.empty\<rparr>\<rparr>"
  let ?p7 = "?p6\<lparr>p_drop_frames := p_drop_frames p, p_keep_frames := p_keep_frames p,
    p_time_nanos := p_time_nanos p, p_duration_nanos := p_duration_nanos p\<rparr>"
  let ?p8 = "?p7\<lparr>p_period_type := p_period_type p\<rparr>"
  let ?p9 = "?p8\<lparr>p_period := p_period p\<rparr>"
  let ?p10 = "?p9\<lparr>p_comments := filter (\<lambda>c. c \<noteq> 0) (p_comments p)\<rparr>"
  show "reads profile_step (concat (map (\<lambda>m. opt_bytes 1 (vt_encode [] m)) (p_value_types p)))
      ?p0 ?p1"
    using vt.reads_repeated [of 1 profile_step "\<lambda>m p. p\<lparr>p_value_types := p_value_types p @ [m]\<rparr>"
        "p_value_types p" ?p0]
    by (simp add: profile_step_def fold_push_profile profile_new_def)
  show "reads profile_step (concat (map (\<lambda>m. opt_bytes 2 (sm_encode [] m)) (p_samples p)))
      ?p1 ?p2"
    using sm.reads_repeated [of 2 profile_step "\<lambda>m p. p\<lparr>p_samples := p_samples p @ [m]\<rparr>"
        "p_samples p" ?p1]
    by (simp add: profile_step_def fold_push_profile profile_new_def)
  show "reads profile_step (concat (map (\<lambda>m. opt_bytes 3 (mp_encode [] m)) (p_mappings p)))
      ?p2 ?p3"
    using mp.reads_repeated [of 3 profile_step "\<lambda>m p. p\<lparr>p_mappings := p_mappings p @ [m]\<rparr>"
        "p_mappings p" ?p2]
    by (simp add: profile_step_def fold_push_profile profile_new_def)
  show "reads profile_step (concat (map (\<lambda>m. opt_bytes 4 (loc_encode [] m)) (p_locations p)))
      ?p3 ?p4"
    using loc.reads_repeated [of 4 profile_step "\<lambda>m p. p\<lparr>p_locations := p_locations p @ [m]\<rparr>"
        "p_locations p" ?p3]
    by (simp add: profile_step_def fold_push_profile profile_new_def)
  show "reads profile_step (concat (map (\<lambda>m. opt_bytes 5 (fn_encode [] m)) (p_functions p)))
      ?p4 ?p5"
    using fn.reads_repeated [of 5 profile_step "\<lambda>m p. p\<lparr>p_functions := p_functions p @ [m]\<rparr>"
        "p_functions p" ?p4]
    by (simp add: profile_step_def fold_push_profile profile_new_def)
  have "reads profile_step (wire_bytes 6 (str_bytes s)) q (push_string q s)"
    if "s \<in> set (st_strings (p_strings p))" for s q
    using assms that
    by (intro reads_bytes) (auto simp: profile_step_def utf8_strings_def list_all_iff)
  then show "reads profile_step
      (concat (map (\<lambda>s. wire_bytes 6 (str_bytes s)) (st_strings (p_strings p)))) ?p5 ?p6"
    using reads_concat [of "st_strings (p_strings p)" profile_step "\<lambda>s. wire_bytes 6 (str_bytes s)"
        "\<lambda>s q. push_string q s" ?p5]
    by (simp add: fold_push_string profile_new_def st_empty_def)
  show "reads profile_step (varint_fields [(7, p_drop_frames p), (8, p_keep_frames p),
      (9, p_time_nanos p), (10, p_duration_nanos p)]) ?p6 ?p7"
    by (rule reads_varint_fields) (simp_all add: profile_step_def profile_new_def)
  have period: "vt_blank (p_period_type p) \<Longrightarrow> p_period_type p = vt_default"
    by (cases "p_period_type p") (simp add: vt_blank_def vt_default_def)
  show "reads profile_step (opt_bytes 11 (vt_encode [] (p_period_type p))) ?p7 ?p8"
  proof (rule reads_eq)
    show "reads profile_step (opt_bytes 11 (vt_encode [] (p_period_type p))) ?p7
        (if vt_blank (p_period_type p) then ?p7 else ?p8)"
      by (rule vt.reads_one [where push = "\<lambda>m p. p\<lparr>p_period_type := m\<rparr>"])
         (simp_all add: profile_step_def)
  qed (simp add: profile_new_def period)
  show "reads profile_step (varint_fields [(12, p_period p)]) ?p8 ?p9"
    by (rule reads_varint_fields) (simp_all add: profile_step_def profile_new_def)
  have "reads profile_step (opt_varint 13 c) q (if c = 0 then q else push_comment q c)" for c q
    by (cases "c = 0") (auto intro!: reads_varint reads_nil simp: profile_step_def opt_varint_def)
  then show "reads profile_step (concat (map (\<lambda>c. opt_varint 13 c) (p_comments p))) ?p9 ?p10"
    using reads_concat [of "p_comments p" profile_step "\<lambda>c. opt_varint 13 c"
        "\<lambda>c q. if c = 0 then q else push_comment q c" ?p9]
    by (simp add: fold_push_comment profile_new_def)
  show "reads profile_step (varint_fields [(14, p_default_sample_type p), (15, p_doc_url p)]) ?p10
      ((profile_prune p)\<lparr>p_strings := \<lparr>st_strings = st_strings (p_strings p),
         st_indices = Map.empty\<rparr>\<rparr>)"
    by (rule reads_varint_fields)
       (simp_all add: profile_step_def profile_new_def profile_prune_def)
qed

lemma profile_decode_encode:
  assumes "st_ok (p_strings p)" and "utf8_strings p" and "length (profile_encode p) < 2 ^ 64"
  shows "profile_decode (profile_encode p) = Inr (profile_prune p)"
  using reads_decode [OF profile_reads [OF assms(2)] assms(3)] from_strings_st_ok [OF assms(1)]
  by (simp add: profile_decode_def profile_prune_def)

section \<open>What every decoded profile satisfies\<close>

lemma decode_packed_from_invariant:
  assumes "\<And>s v. P s \<Longrightarrow> P (visit s v)"
  shows "decode_packed_from data off visit s = Inr s' \<Longrightarrow> P s \<Longrightarrow> P s'"
  using assms
proof (induction data off visit s rule: decode_packed_from.induct)
  case (1 data off visit s)
  have "P (visit s v)" for v using 1 by blast
  then show ?case
    using "1.prems" "1.IH" decode_packed_from.simps [of data off visit s]
    by (auto split: if_splits sum.splits prod.splits)
qed

lemma profile_step_utf8:
  "utf8_strings p \<Longrightarrow> profile_step p f = Inr p' \<Longrightarrow> utf8_strings p'"
proof -
  assume u: "utf8_strings p" and s: "profile_step p f = Inr p'"
  have packed: "utf8_strings p'" if "decode_packed bs push_comment p = Inr p'" for bs
  proof (rule decode_packed_from_invariant [OF _ that [unfolded decode_packed_def]])
    show "utf8_strings (push_comment s v)" if "utf8_strings s" for s v
      using that by (simp add: utf8_strings_def push_comment_def)
  qed (rule u)
  show ?thesis
    using s u
    by (auto simp: profile_step_def utf8_strings_def push_string_def push_comment_def
        list_all_iff split: field_value.splits if_splits elim!: bindr_InrE
        dest!: packed [unfolded utf8_strings_def list_all_iff])
qed

lemma profile_decode_wf:
  assumes "profile_decode bs = Inr p"
  shows "st_ok (p_strings p) \<and> utf8_strings p"
proof -
  obtain q st where q: "fields_loop profile_step (fields_new bs) (profile_new\<lparr>p_strings := st_empty\<rparr>)
      = Inr q" and st: "from_strings (st_strings (p_strings q)) = Inr st"
    and p: "p = q\<lparr>p_strings := st\<rparr>"
    using assms by (auto simp: profile_decode_def bindr_Inr_iff)
  have "utf8_strings q"
  proof (rule fields_loop_invariant [OF _ q])
    show "utf8_strings t" if "utf8_strings s" "profile_step s f = Inr t" for s f t
      using that by (rule profile_step_utf8)
  qed (simp add: utf8_strings_def st_empty_def)
  then show ?thesis using from_strings_ok [OF st] p by (simp add: utf8_strings_def)
qed

text \<open>Pruning is idempotent, and the identity exactly on profiles without blank parts.\<close>

definition lossless :: "profile \<Rightarrow> bool" where
  "lossless p \<longleftrightarrow>
     list_all (\<lambda>m. \<not> vt_blank m) (p_value_types p)
     \<and> list_all (\<lambda>m. \<not> sm_blank m \<and> list_all (\<lambda>l. \<not> lb_blank l) (sm_labels m)) (p_samples p)
     \<and> list_all (\<lambda>m. \<not> mp_blank m) (p_mappings p)
     \<and> list_all (\<lambda>m. \<not> loc_blank m \<and> list_all (\<lambda>l. \<not> ln_blank l) (loc_lines m)) (p_locations p)
     \<and> list_all (\<lambda>m. \<not> fn_blank m) (p_functions p)
     \<and> list_all (\<lambda>c. c \<noteq> 0) (p_comments p)"

lemma map_filter_id:
  "map f (filter P xs) = xs \<longleftrightarrow> list_all (\<lambda>x. P x \<and> f x = x) xs"
proof (induction xs)
  case (Cons x xs)
  have "length (map f (filter P xs)) \<le> length xs" by simp
  then have "map f (filter P xs) \<noteq> x # xs" by (metis Suc_n_not_le_n length_Cons)
  then show ?case using Cons by auto
qed simp

lemma filter_all_iff: "filter P xs = xs \<longleftrightarrow> list_all P xs"
  by (simp add: filter_id_conv list_all_iff)

lemma sm_prune_id: "sm_prune m = m \<longleftrightarrow> list_all (\<lambda>l. \<not> lb_blank l) (sm_labels m)"
  by (cases m) (simp add: sm_prune_def filter_all_iff)

lemma loc_prune_id: "loc_prune m = m \<longleftrightarrow> list_all (\<lambda>l. \<not> ln_blank l) (loc_lines m)"
  by (cases m) (simp add: loc_prune_def filter_all_iff)

lemma profile_prune_id: "profile_prune p = p \<longleftrightarrow> lossless p"
  by (cases p) (simp add: profile_prune_def lossless_def filter_all_iff map_filter_id
      sm_prune_id loc_prune_id)

section \<open>What pruning leaves of the bytes\<close>

lemma opt_bytes_filter:
  assumes "\<And>m. enc m = [] \<longleftrightarrow> blank m"
  shows "concat (map (\<lambda>m. opt_bytes k (enc m)) (filter (\<lambda>m. \<not> blank m) ms)) = concat (map (\<lambda>m. opt_bytes k (enc m)) ms)"
  by (induction ms) (simp_all add: opt_bytes_def assms)

lemma loc_encode_prune: "loc_encode [] (loc_prune m) = loc_encode [] m"
  using opt_bytes_filter [of "ln_encode []" ln_blank 4 "loc_lines m", OF ln.enc_Nil]
  by (simp add: loc_encode_append loc_prune_def)

lemma sm_encode_prune: "sm_encode [] (sm_prune m) = sm_encode [] m"
  using opt_bytes_filter [of "lb_encode []" lb_blank 3 "sm_labels m", OF lb.enc_Nil]
  by (simp add: sm_encode_append sm_prune_def)

text \<open>The encoder skips the same things, so pruning does not change a byte.\<close>

lemma opt_varint_filter:
  "concat (map (\<lambda>c. opt_varint k c) (filter (\<lambda>c. c \<noteq> 0) cs)) = concat (map (\<lambda>c. opt_varint k c) cs)"
  by (induction cs) (simp_all add: opt_varint_def)

lemma profile_encode_prune: "profile_encode (profile_prune p) = profile_encode p"
  using opt_bytes_filter [of "vt_encode []" vt_blank 1 "p_value_types p", OF vt.enc_Nil]
    opt_bytes_filter [of "sm_encode []" sm_blank 2 "p_samples p", OF sm.enc_Nil]
    opt_bytes_filter [of "mp_encode []" mp_blank 3 "p_mappings p", OF mp.enc_Nil]
    opt_bytes_filter [of "loc_encode []" loc_blank 4 "p_locations p", OF loc.enc_Nil]
    opt_bytes_filter [of "fn_encode []" fn_blank 5 "p_functions p", OF fn.enc_Nil]
  by (simp add: profile_encode_append profile_prune_def comp_def loc_encode_prune sm_encode_prune opt_varint_filter)

section \<open>Properties\<close>

text \<open>A small profile, for the witnesses.\<close>

definition demo_profile :: profile where
  "demo_profile = profile_new\<lparr>p_strings := snd (intern st_new ''cpu''),
     p_value_types := [\<lparr>vt_type = 1, vt_unit = 0\<rparr>, vt_default],
     p_samples := [\<lparr>sm_location_ids = [1, 300], sm_values = [5], sm_labels = []\<rparr>],
     p_time_nanos := 300, p_comments := [0, 1]\<rparr>"

lemma demo_profile_ok: "st_ok (p_strings demo_profile)" "utf8_strings demo_profile"
  subgoal by (simp add: demo_profile_def intern_st_ok st_ok_new)
  subgoal by (simp add: demo_profile_def utf8_strings_def st_new_def intern_def
      st_empty_def str_bytes_def byte_of_char_def)
  done

lemma demo_profile_small: "length (profile_encode demo_profile) < 2 ^ 64"
  by (simp add: demo_profile_def profile_new_def profile_encode_append varint_fields_def
      opt_varint_def wire_varint_def opt_bytes_def wire_bytes_def leaf_encode leaf_fields_defs
      vt_default_def sm_encode_append varint_bytes_rec [of 300] varint_bytes_small st_new_def
      intern_def st_empty_def str_bytes_def)

text \<open>C2: decoding the encoding of a profile gives the profile back, except that blank repeated
  submessages and zero comments, which the encoder skips, are gone.\<close>

theorem profile_round_trip:
  assumes "st_ok (p_strings p)" and "utf8_strings p" and "length (profile_encode p) < 2 ^ 64"
  shows "profile_decode (profile_encode p) = Inr (profile_prune p)"
  by (rule profile_decode_encode [OF assms])

theorem profile_round_trip_witness:
  "profile_decode (profile_encode demo_profile) = Inr (profile_prune demo_profile)"
  by (rule profile_round_trip [OF demo_profile_ok demo_profile_small])

text \<open>the codec is reversible on a profile exactly when none of its repeated submessages is
  blank and none of its comments is the empty string; otherwise it loses data.\<close>

theorem profile_round_trip_lossless:
  assumes "st_ok (p_strings p)" and "utf8_strings p" and "length (profile_encode p) < 2 ^ 64"
  shows "profile_decode (profile_encode p) = Inr p \<longleftrightarrow> lossless p"
  by (simp add: profile_decode_encode [OF assms] profile_prune_id)

theorem profile_round_trip_lossless_witness:
  "profile_decode (profile_encode demo_profile) \<noteq> Inr demo_profile"
  using profile_round_trip_lossless [OF demo_profile_ok demo_profile_small]
  by (simp add: lossless_def demo_profile_def vt_blank_def vt_default_def)

text \<open>C38: whatever bytes are accepted, the decoded profile has a well-formed string table (the empty
  string first, the lookup cache agreeing with it) and only UTF-8 strings. Encoding it again gives
  bytes that decode to it without its blank parts, which the encoder skips, and from then on nothing
  changes: that profile has the same encoding, to the byte.\<close>

theorem decoded_profile_wf:
  assumes "profile_decode bs = Inr p" and "length (profile_encode p) < 2 ^ 64"
  shows "st_ok (p_strings p) \<and> utf8_strings p
    \<and> (\<exists>q. profile_decode (profile_encode p) = Inr q \<and> q = profile_prune p \<and> profile_encode q = profile_encode p)"
  using profile_decode_wf [OF assms(1)] profile_decode_encode [OF _ _ assms(2)] profile_encode_prune by simp

theorem decoded_profile_wf_witness:
  "st_ok (p_strings demo_profile) \<and> (\<exists>q. profile_decode (profile_encode (profile_prune demo_profile)) = Inr q
    \<and> profile_encode q = profile_encode (profile_prune demo_profile))"
proof -
  have "length (profile_encode (profile_prune demo_profile)) < 2 ^ 64"
    using demo_profile_small by (simp only: profile_encode_prune)
  then show ?thesis
    using decoded_profile_wf [OF profile_decode_encode [OF demo_profile_ok demo_profile_small]] demo_profile_ok
    by blast
qed

end
