(* ===== verification/Report.thy ===== *)
theory Report
  imports Heap_Validate Symbolize
begin

text \<open>
  Profile analysis (\<open>src/report.rs\<close>): choosing a sample type, resolving stacks, the flat and
  cumulative cost of each function, the ranking, and the call tree.

  The \<open>HashMap\<close>s of the analysis are association lists in iteration order. Costs are summed
  with \<open>saturating_add\<close>; \<open>sat_sum\<close> is such a sum, in the order of the samples.
\<close>

section \<open>Data\<close>

record frame_stat =
  fs_function :: string
  fs_file :: string
  fs_line :: i64
  fs_flat :: i64
  fs_cumulative :: i64

datatype report_frame = ReportFrame (rf_function: string) (rf_file: string) (rf_line: i64)

record stack_stat =
  sk_frames :: "report_frame list"
  sk_value :: i64

record profile_report =
  pr_sample_type :: string
  pr_sample_unit :: string
  pr_available_sample_types :: "string list"
  pr_duration_nanos :: i64
  pr_sample_records :: nat
  pr_total_value :: i64
  pr_top_frames :: "frame_stat list"
  pr_top_stacks :: "stack_stat list"

datatype frame_identity = IdFunction u64 | IdAddress u64

record resolved_frame =
  rv_identity :: frame_identity
  rv_function :: string
  rv_file :: string
  rv_line :: i64

section \<open>Choosing the sample type\<close>

text \<open>\<open>str::parse::<usize>()\<close>: an optional plus sign, digits, no overflow.\<close>

definition digit_value :: "char \<Rightarrow> nat option" where
  "digit_value c = (let n = of_char c :: nat in if 48 \<le> n \<and> n \<le> 57 then Some (n - 48) else None)"

fun parse_digits :: "nat \<Rightarrow> string \<Rightarrow> nat option" where
  "parse_digits acc [] = Some acc"
| "parse_digits acc (c # cs) =
     (case digit_value c of
        None \<Rightarrow> None
      | Some d \<Rightarrow> if acc * 10 + d < 2 ^ 64 then parse_digits (acc * 10 + d) cs else None)"

definition parse_usize :: "string \<Rightarrow> nat option" where
  "parse_usize s =
     (let digits = (case s of c # cs \<Rightarrow> if c = CHR ''+'' then cs else s | [] \<Rightarrow> []) in
      if digits = [] then None else parse_digits 0 digits)"

definition type_position :: "profile \<Rightarrow> string \<Rightarrow> nat option" where
  "type_position p wanted = position (\<lambda>v. profile_string p (vt_type v) = wanted) (p_value_types p)"

definition sample_index :: "profile \<Rightarrow> string option \<Rightarrow> nat result" where
  "sample_index p requested =
     (if p_value_types p = [] then Inl NoSampleTypes
      else
        (case requested of
           Some r \<Rightarrow>
             (case parse_usize r of
                Some i \<Rightarrow> if i < length (p_value_types p) then Inr i else Inl (SampleIndexOutOfRange i)
              | None \<Rightarrow>
                  (case type_position p r of
                     Some i \<Rightarrow> Inr i
                   | None \<Rightarrow> Inl (UnknownSampleType r)))
         | None \<Rightarrow>
             (case (if p_default_sample_type p \<noteq> 0
                    then type_position p (profile_string p (p_default_sample_type p)) else None) of
                Some i \<Rightarrow> Inr i
              | None \<Rightarrow> Inr (length (p_value_types p) - 1))))"

section \<open>Resolving a stack\<close>

definition line_frame :: "profile \<Rightarrow> line \<Rightarrow> resolved_frame option" where
  "line_frame p ln =
     (case index_by fn_id (p_functions p) (ln_function_id ln) of
        None \<Rightarrow> None
      | Some f \<Rightarrow> Some \<lparr>rv_identity = IdFunction (fn_id f), rv_function = profile_string p (fn_name f),
          rv_file = profile_string p (fn_filename f), rv_line = ln_line ln\<rparr>)"

definition location_frames :: "profile \<Rightarrow> u64 \<Rightarrow> resolved_frame list" where
  "location_frames p i =
     (case index_by loc_id (p_locations p) i of
        None \<Rightarrow> []
      | Some l \<Rightarrow>
          if loc_lines l = [] then
            [\<lparr>rv_identity = IdAddress (loc_address l), rv_function = hex_name (loc_address l),
              rv_file = [], rv_line = 0\<rparr>]
          else List.map_filter (line_frame p) (rev (loc_lines l)))"

text \<open>Root first: locations and the lines within them are stored leaf first.\<close>

definition report_stack :: "profile \<Rightarrow> sample \<Rightarrow> resolved_frame list" where
  "report_stack p s = concat (map (location_frames p) (rev (sm_location_ids s)))"

definition stat_of :: "resolved_frame \<Rightarrow> frame_stat" where
  "stat_of f = \<lparr>fs_function = rv_function f, fs_file = rv_file f, fs_line = rv_line f,
     fs_flat = 0, fs_cumulative = 0\<rparr>"

definition report_frame_of :: "resolved_frame \<Rightarrow> report_frame" where
  "report_frame_of f = ReportFrame (rv_function f) (rv_file f) (rv_line f)"

section \<open>The analysis\<close>

type_synonym stats = "(frame_identity \<times> frame_stat) list"
type_synonym stacks = "(frame_identity list \<times> stack_stat) list"

definition add_flat :: "i64 \<Rightarrow> frame_stat \<Rightarrow> frame_stat" where
  "add_flat v s = s\<lparr>fs_flat := saturating_add (fs_flat s) v\<rparr>"

definition add_cumulative :: "i64 \<Rightarrow> frame_stat \<Rightarrow> frame_stat" where
  "add_cumulative v s = s\<lparr>fs_cumulative := saturating_add (fs_cumulative s) v\<rparr>"

definition stack_step :: "i64 \<Rightarrow> resolved_frame list \<Rightarrow> stacks \<Rightarrow> stacks" where
  "stack_step v frames stacks =
     (if frames = [] then stacks
      else alist_upsert (map rv_identity frames)
        \<lparr>sk_frames = map report_frame_of frames, sk_value = 0\<rparr>
        (\<lambda>s. s\<lparr>sk_value := saturating_add (sk_value s) v\<rparr>) stacks)"

definition leaf_step :: "i64 \<Rightarrow> resolved_frame list \<Rightarrow> stats \<Rightarrow> stats" where
  "leaf_step v frames stats =
     (if frames = [] then stats
      else alist_upsert (rv_identity (last frames)) (stat_of (last frames)) (add_flat v) stats)"

text \<open>The loop with \<open>seen\<close>: each identity of the stack is charged once.\<close>

fun cumulative_loop :: "i64 \<Rightarrow> frame_identity set \<Rightarrow> resolved_frame list \<Rightarrow> stats \<Rightarrow> stats" where
  "cumulative_loop v seen [] stats = stats"
| "cumulative_loop v seen (f # fs) stats =
     (if rv_identity f \<in> seen then cumulative_loop v seen fs stats
      else cumulative_loop v (insert (rv_identity f) seen) fs
        (alist_upsert (rv_identity f) (stat_of f) (add_cumulative v) stats))"

definition sample_step :: "profile \<Rightarrow> nat \<Rightarrow> sample \<Rightarrow> stats \<times> stacks \<times> i64 \<Rightarrow> stats \<times> stacks \<times> i64" where
  "sample_step p i s acc =
     (if i < length (sm_values s) then
        let (stats, stacks, total) = acc;
            v = sm_values s ! i;
            total = saturating_add total (saturating_abs v);
            frames = report_stack p s;
            stacks = stack_step v frames stacks;
            stats = leaf_step v frames stats;
            stats = cumulative_loop v {} frames stats
        in (stats, stacks, total)
      else acc)"

definition frame_rank :: "frame_stat \<Rightarrow> int \<times> int \<times> string" where
  "frame_rank s = (- sint (saturating_abs (fs_flat s)), - sint (saturating_abs (fs_cumulative s)),
     fs_function s)"

definition stack_rank :: "stack_stat \<Rightarrow> int \<times> string list" where
  "stack_rank s = (- sint (saturating_abs (sk_value s)), map rf_function (sk_frames s))"

definition analyze :: "profile \<Rightarrow> nat \<Rightarrow> stats \<times> stacks \<times> i64" where
  "analyze p i = fold (sample_step p i) (p_samples p) ([], [], 0)"

definition report_from_profile :: "profile \<Rightarrow> string option \<Rightarrow> profile_report result" where
  "report_from_profile p sample_type =
     bindr (sample_index p sample_type) (\<lambda>i.
     bindr (context_opt (if i < length (p_value_types p) then Some (p_value_types p ! i) else None)
       NoSampleTypes) (\<lambda>selected.
       let (stats, stacks, total) = analyze p i in
       Inr \<lparr>pr_sample_type = profile_string p (vt_type selected),
            pr_sample_unit = profile_string p (vt_unit selected),
            pr_available_sample_types = map (\<lambda>v. profile_string p (vt_type v)) (p_value_types p),
            pr_duration_nanos = p_duration_nanos p,
            pr_sample_records = length (p_samples p),
            pr_total_value = total,
            pr_top_frames = sort_key frame_rank (map snd stats),
            pr_top_stacks = sort_key stack_rank (map snd stacks)\<rparr>))"

section \<open>The call tree\<close>

datatype call_tree = CallTree
  (ct_frame: "report_frame option") (ct_value: i64) (ct_self: i64)
  (ct_children: "(report_frame \<times> call_tree) list")

definition tree_new :: "report_frame option \<Rightarrow> call_tree" where
  "tree_new f = CallTree f 0 0 []"

fun add_value :: "i64 \<Rightarrow> call_tree \<Rightarrow> call_tree" where
  "add_value v (CallTree f val self cs) = CallTree f (saturating_add val v) self cs"

text \<open>Walking down the frames of one stack; every node passed is charged.\<close>

fun insert_path :: "i64 \<Rightarrow> report_frame list \<Rightarrow> call_tree \<Rightarrow> call_tree" where
  "insert_path v [] (CallTree f val self cs) = CallTree f val (saturating_add self v) cs"
| "insert_path v (k # ks) (CallTree f val self cs) =
     CallTree f val self
       (alist_upsert k (tree_new (Some k)) (\<lambda>t. insert_path v ks (add_value v t)) cs)"

definition tree_step :: "stack_stat \<Rightarrow> call_tree \<Rightarrow> call_tree" where
  "tree_step s t = insert_path (sk_value s) (sk_frames s) (add_value (sk_value s) t)"

definition tree_from_stacks :: "stack_stat list \<Rightarrow> call_tree" where
  "tree_from_stacks ss = fold tree_step ss (tree_new None)"

section \<open>Sample types\<close>

lemma sample_index_bound: "sample_index p r = Inr i \<Longrightarrow> i < length (p_value_types p)"
  by (auto simp: sample_index_def type_position_def dest!: position_Some
      split: if_splits option.splits)

lemma report_never_context: "sample_index p r = Inr i \<Longrightarrow>
    report_from_profile p r \<noteq> Inl NoSampleTypes"
  using sample_index_bound [of p r i]
  by (auto simp: report_from_profile_def split: prod.splits)

section \<open>Costs\<close>

definition sat_sum :: "i64 list \<Rightarrow> i64" where
  "sat_sum vs = foldl saturating_add 0 vs"

lemma sat_sum_snoc [simp]: "sat_sum (vs @ [v]) = saturating_add (sat_sum vs) v"
  by (simp add: sat_sum_def)

lemma sat_sum_single [simp]: "sat_sum [v] = saturating_add 0 v"
  by (simp add: sat_sum_def)

lemma sat_sum_Nil [simp]: "sat_sum [] = 0"
  by (simp add: sat_sum_def)

text \<open>Without overflow a saturating sum is the sum.\<close>

lemma sint_sat_sum:
  assumes "\<And>n. n \<le> length vs \<Longrightarrow> i64_range (sum_list (map sint (take n vs)))"
  shows "sint (sat_sum vs) = sum_list (map sint vs)"
  using assms
proof (induction vs rule: rev_induct)
  case (snoc v vs)
  have "sint (sat_sum vs) = sum_list (map sint vs)"
    using snoc.IH snoc.prems by (metis le_SucI length_append_singleton take_append take_all
        append_Nil2 diff_is_0_eq take_0)
  then show ?case
    using snoc.prems [of "Suc (length vs)"] by (simp add: saturating_add_def i64_clamp_id)
qed simp

text \<open>The values that count, with the stack each is charged to.\<close>

definition charged :: "profile \<Rightarrow> nat \<Rightarrow> sample list \<Rightarrow> (resolved_frame list \<times> i64) list" where
  "charged p i ss = map (\<lambda>s. (report_stack p s, sm_values s ! i)) (filter (\<lambda>s. i < length (sm_values s)) ss)"

definition flat_cost :: "(resolved_frame list \<times> i64) list \<Rightarrow> frame_identity \<Rightarrow> i64" where
  "flat_cost cs k = sat_sum (map snd (filter (\<lambda>(fs, v). fs \<noteq> [] \<and> rv_identity (last fs) = k) cs))"

definition cumulative_cost :: "(resolved_frame list \<times> i64) list \<Rightarrow> frame_identity \<Rightarrow> i64" where
  "cumulative_cost cs k = sat_sum (map snd (filter (\<lambda>(fs, v). k \<in> rv_identity ` set fs) cs))"

definition stack_cost :: "(resolved_frame list \<times> i64) list \<Rightarrow> frame_identity list \<Rightarrow> i64" where
  "stack_cost cs ks = sat_sum (map snd (filter (\<lambda>(fs, v). map rv_identity fs = ks) cs))"

definition stat_costs :: "stats \<Rightarrow> frame_identity \<Rightarrow> (i64 \<times> i64) option" where
  "stat_costs stats k = map_option (\<lambda>s. (fs_flat s, fs_cumulative s)) (map_of stats k)"

lemma stat_costs_upsert:
  "stat_costs (alist_upsert k s f stats) k' =
     (if k' = k then Some (case map_of stats k of None \<Rightarrow> (fs_flat (f s), fs_cumulative (f s))
        | Some t \<Rightarrow> (fs_flat (f t), fs_cumulative (f t)))
      else stat_costs stats k')"
  by (simp add: stat_costs_def map_of_alist_upsert split: option.split)

lemma cumulative_loop_costs:
  "stat_costs (cumulative_loop v seen fs stats) k =
     (if k \<in> rv_identity ` set fs - seen then
        Some (case stat_costs stats k of None \<Rightarrow> (0, saturating_add 0 v)
              | Some (fl, cu) \<Rightarrow> (fl, saturating_add cu v))
      else stat_costs stats k)"
proof (induction v seen fs stats rule: cumulative_loop.induct)
  case (2 v seen f fs stats)
  show ?case
  proof (cases "rv_identity f \<in> seen")
    case True
    then show ?thesis using 2(1) by auto
  next
    case False
    have "stat_costs (alist_upsert (rv_identity f) (stat_of f) (add_cumulative v) stats) k =
        (if k = rv_identity f then
           Some (case stat_costs stats k of None \<Rightarrow> (0, saturating_add 0 v)
              | Some (fl, cu) \<Rightarrow> (fl, saturating_add cu v))
         else stat_costs stats k)"
      by (simp add: stat_costs_upsert stat_of_def add_cumulative_def)
         (simp add: stat_costs_def add_cumulative_def split: option.split)
    then show ?thesis using 2(2) [OF False] False by auto
  qed
qed simp


lemma leaf_step_costs:
  "stat_costs (leaf_step v fs stats) k =
     (if fs \<noteq> [] \<and> k = rv_identity (last fs) then
        Some (case stat_costs stats k of None \<Rightarrow> (saturating_add 0 v, 0)
              | Some (fl, cu) \<Rightarrow> (saturating_add fl v, cu))
      else stat_costs stats k)"
  by (simp add: leaf_step_def stat_costs_upsert stat_of_def add_flat_def)
     (simp add: stat_costs_def add_flat_def split: option.split)

definition identities :: "(resolved_frame list \<times> i64) list \<Rightarrow> frame_identity set" where
  "identities cs = (\<Union>(fs, v)\<in>set cs. rv_identity ` set fs)"

definition analyzed :: "(resolved_frame list \<times> i64) list \<Rightarrow> stats \<times> stacks \<times> i64 \<Rightarrow> bool" where
  "analyzed cs = (\<lambda>(stats, stacks, total).
     (\<forall>k. stat_costs stats k =
        (if k \<in> identities cs then Some (flat_cost cs k, cumulative_cost cs k) else None))
     \<and> (\<forall>ks. map_option sk_value (map_of stacks ks) =
        (if ks \<noteq> [] \<and> ks \<in> (\<lambda>(fs, v). map rv_identity fs) ` set cs then Some (stack_cost cs ks) else None))
     \<and> total = sat_sum (map (saturating_abs \<circ> snd) cs)
     \<and> distinct (map fst stats) \<and> distinct (map fst stacks))"

lemma costs_absent:
  assumes "k \<notin> identities cs"
  shows "flat_cost cs k = 0" and "cumulative_cost cs k = 0"
proof -
  have "filter (\<lambda>(fs, v). k \<in> rv_identity ` set fs) cs = []"
    using assms by (fastforce simp: identities_def filter_empty_conv)
  then show "cumulative_cost cs k = 0" by (simp add: cumulative_cost_def)
  have "filter (\<lambda>(fs, v). fs \<noteq> [] \<and> rv_identity (last fs) = k) cs = []"
    using assms by (fastforce simp: identities_def filter_empty_conv)
  then show "flat_cost cs k = 0" by (simp add: flat_cost_def)
qed

lemma stack_cost_absent:
  "ks \<notin> (\<lambda>(fs, v). map rv_identity fs) ` set cs \<Longrightarrow> stack_cost cs ks = 0"
proof -
  assume "ks \<notin> (\<lambda>(fs, v). map rv_identity fs) ` set cs"
  then have "filter (\<lambda>(fs, v). map rv_identity fs = ks) cs = []"
    by (fastforce simp: filter_empty_conv)
  then show ?thesis by (simp add: stack_cost_def)
qed

lemma distinct_cumulative_loop:
  "distinct (map fst stats) \<Longrightarrow> distinct (map fst (cumulative_loop v seen fs stats))"
  by (induction v seen fs stats rule: cumulative_loop.induct) auto

lemma sample_step_analyzed:
  assumes "analyzed cs acc" and "i < length (sm_values s)"
  shows "analyzed (cs @ [(report_stack p s, sm_values s ! i)]) (sample_step p i s acc)"
proof -
  obtain stats stacks total where acc: "acc = (stats, stacks, total)" by (metis prod.exhaust)
  define fs v where "fs = report_stack p s" and "v = sm_values s ! i"
  let ?cs = "cs @ [(fs, v)]"
  have step: "sample_step p i s acc = (cumulative_loop v {} fs (leaf_step v fs stats),
      stack_step v fs stacks, saturating_add total (saturating_abs v))"
    using assms(2) by (simp add: sample_step_def acc Let_def fs_def v_def)
  have old: "stat_costs stats k =
      (if k \<in> identities cs then Some (flat_cost cs k, cumulative_cost cs k) else None)" for k
    using assms(1) by (simp add: analyzed_def acc)
  have flat: "flat_cost ?cs k = (if fs \<noteq> [] \<and> rv_identity (last fs) = k
      then saturating_add (flat_cost cs k) v else flat_cost cs k)" for k
    by (simp add: flat_cost_def)
  have cum: "cumulative_cost ?cs k = (if k \<in> rv_identity ` set fs
      then saturating_add (cumulative_cost cs k) v else cumulative_cost cs k)" for k
    by (simp add: cumulative_cost_def)
  have ids: "identities ?cs = identities cs \<union> rv_identity ` set fs"
    by (auto simp: identities_def)
  have last: "fs \<noteq> [] \<Longrightarrow> rv_identity (last fs) \<in> rv_identity ` set fs" by simp
  have "stat_costs (cumulative_loop v {} fs (leaf_step v fs stats)) k =
      (if k \<in> identities ?cs then Some (flat_cost ?cs k, cumulative_cost ?cs k) else None)" for k
    using costs_absent [of k cs] last
    by (cases "k \<in> identities cs"; cases "k \<in> rv_identity ` set fs")
       (auto simp: cumulative_loop_costs leaf_step_costs old flat cum ids)
  moreover have "map_option sk_value (map_of (stack_step v fs stacks) ks) =
      (if ks \<noteq> [] \<and> ks \<in> (\<lambda>(fs, v). map rv_identity fs) ` set ?cs then Some (stack_cost ?cs ks) else None)" for ks
  proof -
    define K where "K = (\<lambda>(fs, v). map rv_identity fs) ` set cs"
    have o: "map_option sk_value (map_of stacks ks) =
        (if ks \<noteq> [] \<and> ks \<in> K then Some (stack_cost cs ks) else None)"
      using assms(1) by (simp add: analyzed_def acc K_def)
    have mem: "(\<lambda>(fs, v). map rv_identity fs) ` set ?cs = insert (map rv_identity fs) K"
      by (simp add: K_def)
    have c: "stack_cost ?cs ks = (if map rv_identity fs = ks
        then saturating_add (stack_cost cs ks) v else stack_cost cs ks)"
      by (simp add: stack_cost_def)
    have "map_option sk_value (map_of (stack_step v fs stacks) ks) =
        (if ks \<noteq> [] \<and> ks \<in> insert (map rv_identity fs) K then Some (stack_cost ?cs ks) else None)"
    proof (cases "fs \<noteq> [] \<and> ks = map rv_identity fs")
      case True
      then show ?thesis
        using o c stack_cost_absent [of ks cs, folded K_def]
        by (cases "map_of stacks ks") (auto simp: stack_step_def map_of_alist_upsert split: if_splits)
    next
      case False
      then show ?thesis using o c by (auto simp: stack_step_def map_of_alist_upsert)
    qed
    then show ?thesis by (simp only: mem)
  qed
  moreover have "distinct (map fst (leaf_step v fs stats))" "distinct (map fst (stack_step v fs stacks))"
    using assms(1) by (simp_all add: leaf_step_def stack_step_def analyzed_def acc)
  ultimately have "analyzed ?cs (sample_step p i s acc)"
    using assms(1) by (simp add: analyzed_def step distinct_cumulative_loop) (simp add: acc)
  then show ?thesis by (simp add: fs_def v_def)
qed

lemma analyze_samples:
  "analyzed (charged p i ss) (fold (sample_step p i) ss ([], [], 0))"
proof (induction ss rule: rev_induct)
  case Nil
  show ?case by (simp add: analyzed_def charged_def stat_costs_def identities_def)
next
  case (snoc s ss)
  show ?case
  proof (cases "i < length (sm_values s)")
    case True
    then show ?thesis using sample_step_analyzed [OF snoc True, of p] by (simp add: charged_def)
  next
    case False
    then show ?thesis using snoc by (simp add: charged_def sample_step_def)
  qed
qed

section \<open>Trees\<close>

fun node_at :: "report_frame list \<Rightarrow> call_tree \<Rightarrow> call_tree option" where
  "node_at [] t = Some t"
| "node_at (k # ks) t = Option.bind (map_of (ct_children t) k) (node_at ks)"

definition node_costs :: "call_tree \<Rightarrow> report_frame list \<Rightarrow> (i64 \<times> i64) option" where
  "node_costs t path = map_option (\<lambda>n. (ct_value n, ct_self n)) (node_at path t)"

text \<open>What one stack with frames \<open>ks\<close> and value \<open>v\<close> does to the node at a path.\<close>

definition charge_node :: "i64 \<Rightarrow> report_frame list \<Rightarrow> report_frame list \<Rightarrow> (i64 \<times> i64) option
    \<Rightarrow> (i64 \<times> i64) option" where
  "charge_node v ks path c =
     (if prefix path ks then
        (let (a, b) = (case c of None \<Rightarrow> (0, 0) | Some x \<Rightarrow> x) in
         Some (saturating_add a v, if path = ks then saturating_add b v else b))
      else c)"

lemma node_costs_Nil: "node_costs (CallTree f val self cs) [] = Some (val, self)"
  by (simp add: node_costs_def)

lemma node_costs_Cons:
  "node_costs (CallTree f val self cs) (q # qs) = Option.bind (map_of cs q) (\<lambda>t. node_costs t qs)"
  by (cases "map_of cs q") (simp_all add: node_costs_def)

lemma node_costs_new: "node_costs (tree_new f) path = (if path = [] then Some (0, 0) else None)"
  by (cases path) (simp_all add: tree_new_def node_costs_Nil node_costs_Cons)

lemma insert_path_costs:
  "node_costs (insert_path v ks (add_value v t)) path = charge_node v ks path (node_costs t path)"
proof (induction ks arbitrary: t path)
  case Nil
  show ?case
    by (cases t; cases path) (simp_all add: node_costs_Nil node_costs_Cons charge_node_def)
next
  case (Cons k ks)
  obtain f val self cs where t: "t = CallTree f val self cs" by (cases t)
  show ?case
  proof (cases path)
    case Nil
    then show ?thesis by (simp add: t node_costs_Nil charge_node_def)
  next
    case (Cons q qs)
    show ?thesis
    proof (cases "q = k")
      case True
      have "charge_node v ks qs (node_costs (tree_new (Some k)) qs) = charge_node v ks qs None"
        by (simp add: node_costs_new charge_node_def)
      then show ?thesis
        using Cons.IH True by (cases "map_of cs k")
          (simp_all add: t Cons node_costs_Cons map_of_alist_upsert, simp_all add: charge_node_def)
    next
      case False
      then show ?thesis by (simp add: t Cons node_costs_Cons map_of_alist_upsert charge_node_def)
    qed
  qed
qed

definition tree_costs :: "stack_stat list \<Rightarrow> report_frame list \<Rightarrow> (i64 \<times> i64) option" where
  "tree_costs ss path =
     (if path = [] \<or> (\<exists>s\<in>set ss. prefix path (sk_frames s)) then
        Some (sat_sum (map sk_value (filter (\<lambda>s. prefix path (sk_frames s)) ss)),
              sat_sum (map sk_value (filter (\<lambda>s. sk_frames s = path) ss)))
      else None)"

lemma tree_from_stacks_costs: "node_costs (tree_from_stacks ss) path = tree_costs ss path"
proof (induction ss arbitrary: path rule: rev_induct)
  case Nil
  show ?case by (simp add: tree_from_stacks_def node_costs_new tree_costs_def)
next
  case (snoc s ss)
  have "node_costs (tree_from_stacks (ss @ [s])) path
      = charge_node (sk_value s) (sk_frames s) path (tree_costs ss path)"
    using snoc insert_path_costs by (simp add: tree_from_stacks_def tree_step_def)
  also have "\<dots> = tree_costs (ss @ [s]) path"
  proof (cases "path = [] \<or> (\<exists>s\<in>set ss. prefix path (sk_frames s))")
    case True
    then show ?thesis by (auto simp: charge_node_def tree_costs_def)
  next
    case False
    then have "filter (\<lambda>s. prefix path (sk_frames s)) ss = []" "filter (\<lambda>s. sk_frames s = path) ss = []"
      by (auto simp: filter_empty_conv)
    then show ?thesis using False by (auto simp: charge_node_def tree_costs_def)
  qed
  finally show ?case .
qed

lemma report_analysis:
  assumes "report_from_profile p r = Inr rep"
  shows "\<exists>i stats stacks. sample_index p r = Inr i
    \<and> analyzed (charged p i (p_samples p)) (stats, stacks, pr_total_value rep)
    \<and> mset (pr_top_frames rep) = mset (map snd stats)
    \<and> sorted (map frame_rank (pr_top_frames rep))
    \<and> mset (pr_top_stacks rep) = mset (map snd stacks)
    \<and> sorted (map stack_rank (pr_top_stacks rep))"
proof -
  obtain i where i: "sample_index p r = Inr i"
    using assms by (auto simp: report_from_profile_def bindr_Inr_iff)
  obtain stats stacks total where a: "analyze p i = (stats, stacks, total)" by (metis prod.exhaust)
  have "analyzed (charged p i (p_samples p)) (stats, stacks, total)"
    using analyze_samples [of p i "p_samples p"] a by (simp add: analyze_def)
  then show ?thesis
    using assms i a by (auto simp: report_from_profile_def bindr_Inr_iff intro!: exI)
qed

section \<open>Properties\<close>

text \<open>the sample type that is chosen always exists in the profile, so the report of a profile
  whose sample type is accepted is always produced.\<close>

theorem chosen_sample_type_exists:
  assumes "sample_index p r = Inr i"
  shows "i < length (p_value_types p) \<and> (\<exists>rep. report_from_profile p r = Inr rep)"
  using sample_index_bound [OF assms] assms
  by (auto simp: report_from_profile_def split: prod.split)

definition demo_cpu :: profile where
  "demo_cpu = profile_new\<lparr>
     p_value_types := [\<lparr>vt_type = 0, vt_unit = 0\<rparr>],
     p_functions := [fn_default\<lparr>fn_id := 1\<rparr>],
     p_locations := [loc_default\<lparr>loc_id := 1, loc_lines := [ln_default\<lparr>ln_function_id := 1\<rparr>]\<rparr>],
     p_samples := [\<lparr>sm_location_ids = [1, 1], sm_values = [5], sm_labels = []\<rparr>]\<rparr>"

lemma demo_cpu_index: "sample_index demo_cpu None = Inr 0"
  by (simp add: sample_index_def demo_cpu_def profile_new_def)

theorem chosen_sample_type_exists_witness: "\<exists>rep. report_from_profile demo_cpu None = Inr rep"
  using chosen_sample_type_exists [OF demo_cpu_index] by blast

text \<open>C11: a report holds, for every function (or bare address) that occurs, its flat cost (the
  samples it is the leaf of) and its cumulative cost (every sample it occurs in, counted once
  however often it recurs), the cost of every distinct stack, and the total of the magnitudes;
  functions and stacks are each listed once, in descending order of their cost.\<close>

theorem report_costs:
  assumes "report_from_profile p r = Inr rep"
  shows "\<exists>i stats stacks. sample_index p r = Inr i
    \<and> analyzed (charged p i (p_samples p)) (stats, stacks, pr_total_value rep)
    \<and> mset (pr_top_frames rep) = mset (map snd stats)
    \<and> sorted (map frame_rank (pr_top_frames rep))
    \<and> mset (pr_top_stacks rep) = mset (map snd stacks)
    \<and> sorted (map stack_rank (pr_top_stacks rep))"
  by (rule report_analysis [OF assms])

lemma demo_charged:
  "charged demo_cpu 0 (p_samples demo_cpu) =
     [(replicate 2 \<lparr>rv_identity = IdFunction 1, rv_function = [], rv_file = [], rv_line = 0\<rparr>, 5)]"
  by (simp add: charged_def demo_cpu_def report_stack_def location_frames_def index_by_def
      line_frame_def profile_new_def profile_string_def profile_get_def st_get_def st_new_def
      st_empty_def intern_def fn_default_def ln_default_def loc_default_def
      List.map_filter_simps numeral_2_eq_2)

theorem report_costs_witness:
  "\<exists>stats stacks total. analyzed (charged demo_cpu 0 (p_samples demo_cpu)) (stats, stacks, total)
     \<and> stat_costs stats (IdFunction 1) = Some (5, 5)"
proof -
  obtain rep where rep: "report_from_profile demo_cpu None = Inr rep"
    by (simp add: report_from_profile_def demo_cpu_index split_beta) (simp add: demo_cpu_def)
  obtain stats stacks where a: "analyzed (charged demo_cpu 0 (p_samples demo_cpu))
      (stats, stacks, pr_total_value rep)"
    using report_costs [OF rep] demo_cpu_index by auto
  then have "stat_costs stats (IdFunction 1) = Some (5, 5)"
    by (simp add: analyzed_def demo_charged identities_def flat_cost_def cumulative_cost_def
        sat_sum_def saturating_add_def sat_i64_def i64_clamp_def i64_min_def i64_max_def numeral_2_eq_2)
  then show ?thesis using a by blast
qed

text \<open>C35: in the call tree the node at a path is charged every stack that passes through it and,
  as its self value, those that end there; and there is a node exactly for the paths of stacks.\<close>

theorem call_tree_costs: "node_costs (tree_from_stacks ss) path = tree_costs ss path"
  by (rule tree_from_stacks_costs)

end
