(* ===== verification/Linux_Sampler.thy ===== *)
theory Linux_Sampler
  imports Bytes_Le Sampler
begin

text \<open>
  The Linux sampler (\<open>src/sampler/linux.rs\<close>): which threads are sampled, the frame-pointer
  walk, and the recording of samples into the live profile, which is what the cursor of
  \<open>Sampler\<close> reads.

  System calls are parameters: \<open>names\<close> gives a thread's name, \<open>mem\<close> the sixteen bytes that
  \<open>process_vm_readv\<close> reads at an address (\<^const>\<open>None\<close> when it fails). The Linux targets are
  little-endian, so \<open>from_ne_bytes\<close> is \<open>le_word\<close>.
\<close>

section \<open>Selecting threads\<close>

definition thread_matches_filter :: "thread_filter \<Rightarrow> u32 \<Rightarrow> string \<Rightarrow> nat \<Rightarrow> bool" where
  "thread_matches_filter f tid name index =
     (case f of
        All \<Rightarrow> True
      | MainThread \<Rightarrow> index = 0
      | ByName expected \<Rightarrow> sublist expected name
      | ById expected \<Rightarrow> ucast tid = expected
      | ByMachThread _ \<Rightarrow> False)"

definition select_step :: "thread_filter \<Rightarrow> (u32 \<Rightarrow> string) \<Rightarrow> u32 \<Rightarrow> (u32 \<times> string) list
    \<Rightarrow> (u32 \<times> string) list" where
  "select_step f names tid selected =
     (let name = names tid; index = length selected in
      if thread_matches_filter f tid name index then selected @ [(tid, name)] else selected)"

definition selected_threads :: "thread_filter \<Rightarrow> (u32 \<Rightarrow> string) \<Rightarrow> u32 option \<Rightarrow> u32 list
    \<Rightarrow> (u32 \<times> string) list" where
  "selected_threads f names skip_tid threads =
     fold (select_step f names) (filter (\<lambda>tid. Some tid \<noteq> skip_tid) (sort threads)) []"

section \<open>Walking frame pointers\<close>

definition max_depth :: nat where
  "max_depth = 256"

type_synonym memory = "u64 \<Rightarrow> u8 list option"

primrec walk_loop :: "nat \<Rightarrow> memory \<Rightarrow> u64 \<Rightarrow> u64 list \<Rightarrow> u64 list" where
  "walk_loop 0 mem fp stack = stack"
| "walk_loop (Suc n) mem fp stack =
     (if fp = 0 \<or> fp AND 7 \<noteq> 0 then stack
      else
        (case mem fp of
           None \<Rightarrow> stack
         | Some frame \<Rightarrow>
             let previous_fp = le_word (take 8 frame);
                 return_address = le_word (take 8 (drop 8 frame)) in
             if return_address = 0 then stack
             else
               let stack = stack @ [return_address] in
               if previous_fp \<le> fp then stack else walk_loop n mem previous_fp stack))"

definition walk_frame_pointers :: "memory \<Rightarrow> u64 \<Rightarrow> u64 list \<Rightarrow> u64 list" where
  "walk_frame_pointers mem fp stack = walk_loop max_depth mem fp stack"

text \<open>\<open>regs\<close> is the result of \<open>read_registers\<close>, once the thread is attached.\<close>

definition sample_thread :: "(u64 \<times> u64) option \<Rightarrow> memory \<Rightarrow> u64 list option" where
  "sample_thread regs mem =
     (case regs of None \<Rightarrow> None | Some (pc, fp) \<Rightarrow> Some (walk_frame_pointers mem fp [pc]))"

text \<open>The registers and the memory of each thread, and the time each sample is taken.\<close>

definition sample_once :: "thread_filter \<Rightarrow> (u32 \<Rightarrow> string) \<Rightarrow> u32 list option
    \<Rightarrow> (u32 \<Rightarrow> (u64 \<times> u64) option) \<Rightarrow> (u32 \<Rightarrow> memory) \<Rightarrow> (u32 \<Rightarrow> u64) \<Rightarrow> thread_sample list" where
  "sample_once f names threads regs mem now =
     (case threads of
        None \<Rightarrow> []
      | Some ts \<Rightarrow>
          List.map_filter
            (\<lambda>(tid, name). map_option
               (\<lambda>stack. \<lparr>ts_thread_id = ucast tid, ts_thread_name = name, ts_stack = stack,
                         ts_timestamp_nanos = now tid\<rparr>)
               (sample_thread (regs tid) (mem tid)))
            (selected_threads f names None ts))"

section \<open>Recording\<close>

text \<open>\<open>HashMap::insert\<close> keeps the place of a key; \<open>thread_names\<close> is only looked up by key.\<close>

definition record_sample :: "thread_sample \<Rightarrow> raw_profile \<Rightarrow> raw_profile" where
  "record_sample s p =
     (let p = p\<lparr>rp_stacks := alist_upsert (ts_thread_id s, ts_stack s) (series_timed [])
                 (push_timestamp (ts_timestamp_nanos s)) (rp_stacks p)\<rparr> in
      if ts_thread_name s \<noteq> []
      then p\<lparr>rp_thread_names := alist_insert (ts_thread_id s) (ts_thread_name s) (rp_thread_names p)\<rparr>
      else p)"

definition record_round :: "nat \<Rightarrow> thread_sample list \<Rightarrow> raw_profile \<Rightarrow> raw_profile" where
  "record_round now samples p = (fold record_sample samples p)\<lparr>rp_end_time := now\<rparr>"

section \<open>What is selected\<close>

definition thread_wanted :: "thread_filter \<Rightarrow> u32 \<Rightarrow> string \<Rightarrow> bool" where
  "thread_wanted f tid name \<longleftrightarrow>
     (case f of All \<Rightarrow> True | MainThread \<Rightarrow> True | ByName expected \<Rightarrow> sublist expected name
      | ById expected \<Rightarrow> ucast tid = expected | ByMachThread _ \<Rightarrow> False)"

text \<open>The declarative reading: the candidates in order of their identifiers, of which the main
  thread filter keeps the first and every other filter those it wants.\<close>

definition wanted_threads :: "thread_filter \<Rightarrow> (u32 \<Rightarrow> string) \<Rightarrow> u32 option \<Rightarrow> u32 list
    \<Rightarrow> (u32 \<times> string) list" where
  "wanted_threads f names skip threads =
     (let candidates = map (\<lambda>tid. (tid, names tid)) (filter (\<lambda>tid. Some tid \<noteq> skip) (sort threads)) in
      if f = MainThread then take 1 candidates
      else filter (\<lambda>(tid, name). thread_wanted f tid name) candidates)"

lemma select_loop_main:
  "acc \<noteq> [] \<Longrightarrow> fold (select_step MainThread names) tids acc = acc"
  by (induction tids) (simp_all add: select_step_def thread_matches_filter_def)

lemma select_loop_other:
  "f \<noteq> MainThread \<Longrightarrow> fold (select_step f names) tids acc =
     acc @ filter (\<lambda>(tid, name). thread_wanted f tid name) (map (\<lambda>tid. (tid, names tid)) tids)"
  by (induction tids arbitrary: acc)
     (auto simp: select_step_def thread_matches_filter_def thread_wanted_def Let_def
       split: thread_filter.splits)

lemma selected_threads_eq: "selected_threads f names skip threads = wanted_threads f names skip threads"
proof (cases "f = MainThread")
  case True
  then show ?thesis
    by (cases "filter (\<lambda>tid. Some tid \<noteq> skip) (sort threads)")
       (simp_all add: selected_threads_def wanted_threads_def select_step_def
         thread_matches_filter_def select_loop_main)
next
  case False
  then show ?thesis
    by (simp add: selected_threads_def wanted_threads_def select_loop_other Let_def)
qed

section \<open>What the walk follows\<close>

definition frame_at :: "memory \<Rightarrow> u64 \<Rightarrow> (u64 \<times> u64) option" where
  "frame_at mem fp = map_option (\<lambda>b. (le_word (take 8 b), le_word (take 8 (drop 8 b)))) (mem fp)"

text \<open>A chain of frame pointers: readable, aligned, each saved by the one before it.\<close>

fun frame_chain :: "memory \<Rightarrow> (u64 \<times> u64) list \<Rightarrow> bool" where
  "frame_chain mem [] = True"
| "frame_chain mem ((fp, ret) # rest) \<longleftrightarrow>
     fp \<noteq> 0 \<and> fp AND 7 = 0 \<and> ret \<noteq> 0
     \<and> (\<exists>prev. frame_at mem fp = Some (prev, ret)
          \<and> (rest \<noteq> [] \<longrightarrow> prev = fst (hd rest) \<and> fp < prev))
     \<and> frame_chain mem rest"

lemma walk_loop_chain:
  "\<exists>frames. walk_loop n mem fp stack = stack @ map snd frames \<and> length frames \<le> n
     \<and> frame_chain mem frames \<and> (frames \<noteq> [] \<longrightarrow> fst (hd frames) = fp)"
proof (induction n arbitrary: fp stack)
  case 0
  show ?case by (intro exI [of _ "[]"]) simp
next
  case (Suc n)
  have stop: ?case if "walk_loop (Suc n) mem fp stack = stack"
    using that by (intro exI [of _ "[]"]) simp
  consider "fp = 0 \<or> fp AND 7 \<noteq> 0 \<or> frame_at mem fp = None"
    | prev ret where "\<not> (fp = 0 \<or> fp AND 7 \<noteq> 0)" "frame_at mem fp = Some (prev, ret)"
    by (cases "frame_at mem fp") auto
  then show ?case
  proof cases
    case 1
    then show ?thesis by (intro stop) (auto simp: frame_at_def)
  next
    case (2 prev ret)
    then have step: "walk_loop (Suc n) mem fp stack =
        (if ret = 0 then stack else if prev \<le> fp then stack @ [ret]
         else walk_loop n mem prev (stack @ [ret]))"
      by (auto simp: frame_at_def Let_def)
    consider "ret = 0" | "ret \<noteq> 0" "prev \<le> fp" | "ret \<noteq> 0" "fp < prev" by fastforce
    then show ?thesis
    proof cases
      case 1
      then have "walk_loop (Suc n) mem fp stack = stack" unfolding step by simp
      then show ?thesis by (rule stop)
    next
      case 2
      then show ?thesis
        using \<open>\<not> (fp = 0 \<or> fp AND 7 \<noteq> 0)\<close> \<open>frame_at mem fp = Some (prev, ret)\<close> step
        by (intro exI [of _ "[(fp, ret)]"]) simp
    next
      case 3
      obtain frames where "walk_loop n mem prev (stack @ [ret]) = (stack @ [ret]) @ map snd frames"
        "length frames \<le> n" "frame_chain mem frames" "frames \<noteq> [] \<longrightarrow> fst (hd frames) = prev"
        using Suc.IH by blast
      then show ?thesis
        using \<open>\<not> (fp = 0 \<or> fp AND 7 \<noteq> 0)\<close> \<open>frame_at mem fp = Some (prev, ret)\<close> step 3
        by (intro exI [of _ "(fp, ret) # frames"]) simp
    qed
  qed
qed

lemma frame_chain_increasing: "frame_chain mem frames \<Longrightarrow> sorted_wrt (<) (map fst frames)"
proof (induction frames)
  case (Cons f rest)
  obtain fp ret where f: "f = (fp, ret)" by (cases f)
  show ?case
  proof (cases rest)
    case (Cons g gs)
    have "fp < fst g" using Cons.prems Cons by (auto simp: f)
    moreover have "\<forall>x\<in>set (map fst rest). fst g \<le> x"
      using Cons.IH Cons.prems Cons by (auto simp: f)
    ultimately show ?thesis using Cons.IH Cons.prems by (auto simp: f)
  qed simp
qed simp

section \<open>What is recorded\<close>

definition observed :: "stack_key \<Rightarrow> thread_sample list \<Rightarrow> u64 list" where
  "observed k ss = map ts_timestamp_nanos (filter (\<lambda>s. (ts_thread_id s, ts_stack s) = k) ss)"

lemma record_sample_stacks:
  "rp_stacks (record_sample s p) = alist_upsert (ts_thread_id s, ts_stack s) (series_timed [])
     (push_timestamp (ts_timestamp_nanos s)) (rp_stacks p)"
  by (simp add: record_sample_def Let_def)

lemma record_times:
  "times_of (rp_stacks (fold record_sample ss p)) k = times_of (rp_stacks p) k @ observed k ss"
proof (induction ss arbitrary: p)
  case (Cons s ss)
  have "times_of (rp_stacks (record_sample s p)) k = times_of (rp_stacks p) k @ observed k [s]"
    by (auto simp: record_sample_stacks times_of_def map_of_alist_upsert push_timestamp_def
        series_timed_def observed_def split: option.split)
  then show ?case using Cons by (simp add: observed_def)
qed (simp add: observed_def)

lemma timed_ok_iff:
  "timed_ok p \<longleftrightarrow> distinct (map fst (rp_stacks p))
     \<and> list_all (\<lambda>e. series_ok (snd e) \<and> rs_timestamps (snd e) \<noteq> None) (rp_stacks p)"
  unfolding timed_ok_def raw_ok_def list_all_iff split_beta by blast

lemma push_timed:
  assumes "rs_timestamps x = Some ts" and "unat (rs_count x) = length ts" and "length ts + 1 < 2 ^ 64"
  shows "series_ok (push_timestamp t x) \<and> rs_timestamps (push_timestamp t x) \<noteq> None"
  using assms by (simp add: series_ok_def push_timestamp_def unat_saturating_add_u64)

lemma record_sample_timed:
  assumes "timed_ok p" and "length (times_of (rp_stacks p) (ts_thread_id s, ts_stack s)) + 1 < 2 ^ 64"
  shows "timed_ok (record_sample s p)"
proof -
  let ?k = "(ts_thread_id s, ts_stack s)"
  obtain ts where "rs_timestamps (case map_of (rp_stacks p) ?k of None \<Rightarrow> series_timed [] | Some w \<Rightarrow> w) = Some ts"
    "unat (rs_count (case map_of (rp_stacks p) ?k of None \<Rightarrow> series_timed [] | Some w \<Rightarrow> w)) = length ts"
    "length ts + 1 < 2 ^ 64"
  proof (cases "map_of (rp_stacks p) ?k")
    case None
    then show ?thesis using that [of "[]"] by (simp add: series_timed_def)
  next
    case (Some w)
    from timed_series [OF assms(1) Some] obtain ts where
      "rs_timestamps w = Some ts" "unat (rs_count w) = length ts" .
    then show ?thesis using that [of ts] assms(2) Some by (simp add: times_of_def)
  qed
  note good = push_timed [OF this, of "ts_timestamp_nanos s"]
  show ?thesis
    using assms(1) good unfolding timed_ok_iff record_sample_stacks
    by (intro conjI list_all_alist_upsert) simp_all
qed

lemma record_timed:
  assumes "timed_ok p" and "\<And>k. length (times_of (rp_stacks (fold record_sample ss p)) k) < 2 ^ 64"
  shows "timed_ok (fold record_sample ss p)"
  using assms
proof (induction ss arbitrary: p)
  case (Cons s ss)
  have "length (times_of (rp_stacks p) (ts_thread_id s, ts_stack s)) + 1 < 2 ^ 64"
    using Cons.prems(2) [of "(ts_thread_id s, ts_stack s)"]
    unfolding record_times by (simp add: observed_def)
  then have "timed_ok (record_sample s p)" by (rule record_sample_timed [OF Cons.prems(1)])
  then show ?case using Cons.IH [of "record_sample s p"] Cons.prems(2) by simp
qed simp

section \<open>A recording session\<close>

text \<open>The live profile after every round.\<close>

primrec recorded :: "raw_profile \<Rightarrow> (nat \<times> thread_sample list) list \<Rightarrow> raw_profile list" where
  "recorded p [] = []"
| "recorded p (r # rs) =
     (let p = record_round (fst r) (snd r) p in p # recorded p rs)"

lemma record_round_stacks: "rp_stacks (record_round now ss p) = rp_stacks (fold record_sample ss p)"
  by (simp add: record_round_def)

lemma timed_ok_stacks: "rp_stacks p = rp_stacks q \<Longrightarrow> timed_ok p = timed_ok q"
  by (simp add: timed_ok_def raw_ok_def)

lemma recorded_facts:
  assumes "timed_ok p" and "\<And>k. length (times_of (rp_stacks p) k @ observed k (concat (map snd rs))) < 2 ^ 64"
  shows "list_all timed_ok (recorded p rs) \<and> grows k (p # recorded p rs)
    \<and> times_of (rp_stacks (last (p # recorded p rs))) k
        = times_of (rp_stacks p) k @ observed k (concat (map snd rs))"
  using assms
proof (induction rs arbitrary: p)
  case Nil
  show ?case by (simp add: grows_def observed_def)
next
  case (Cons r rs)
  define q where "q = record_round (fst r) (snd r) p"
  have times: "times_of (rp_stacks q) k = times_of (rp_stacks p) k @ observed k (snd r)" for k
    by (simp add: q_def record_round_stacks record_times)
  have split: "observed k (concat (map snd (r # rs))) = observed k (snd r) @ observed k (concat (map snd rs))" for k
    by (simp add: observed_def)
  have "timed_ok (fold record_sample (snd r) p)"
  proof (rule record_timed [OF Cons.prems(1)])
    show "length (times_of (rp_stacks (fold record_sample (snd r) p)) k) < 2 ^ 64" for k
      using Cons.prems(2) [of k] unfolding record_times split by simp
  qed
  then have q: "timed_ok q" by (simp add: q_def timed_ok_stacks [OF record_round_stacks])
  have IH: "list_all timed_ok (recorded q rs) \<and> grows k (q # recorded q rs)
    \<and> times_of (rp_stacks (last (q # recorded q rs))) k
        = times_of (rp_stacks q) k @ observed k (concat (map snd rs))"
  proof (rule Cons.IH [OF q])
    show "length (times_of (rp_stacks q) k @ observed k (concat (map snd rs))) < 2 ^ 64" for k
      using Cons.prems(2) [of k] unfolding times split by simp
  qed
  then have "grows k (p # q # recorded q rs)"
    by (auto simp: grows_def times intro: prefix_order.trans [of _ "times_of (rp_stacks q) k"])
  then show ?case unfolding split using IH q by (simp add: q_def [symmetric] Let_def times)
qed

section \<open>Properties\<close>

text \<open>thread selection picks, in order of their identifiers and without the sampler's own, the
  first thread for the main-thread filter, and for the others exactly the threads they describe.\<close>

theorem thread_selection:
  "selected_threads f names skip threads = wanted_threads f names skip threads"
  by (rule selected_threads_eq)

text \<open>the frame-pointer walk ends after at most 256 frames whatever the target's memory holds:
  it appends the return addresses of a chain of readable, aligned frames, each saved by the one
  before it, at strictly increasing addresses.\<close>

theorem walk_follows_chain:
  "\<exists>frames. walk_frame_pointers mem fp stack = stack @ map snd frames
     \<and> length frames \<le> max_depth \<and> frame_chain mem frames \<and> sorted_wrt (<) (map fst frames)"
  using walk_loop_chain [of max_depth mem fp stack] frame_chain_increasing
  unfolding walk_frame_pointers_def by blast

definition demo_start :: raw_profile where
  "demo_start = \<lparr>rp_stacks = [], rp_thread_names = [], rp_start_time = 0, rp_end_time = 0, rp_images = []\<rparr>"

text \<open>from the rounds of a recording to what its deltas deliver: with one snapshot after each
  round, the timestamps delivered for a thread and stack are the timestamps of all its samples,
  in the order they were taken.\<close>

theorem recording_is_delivered:
  assumes "rp_stacks p = []" and "length (concat (map snd (r # rs))) < 2 ^ 64"
  shows "concat (map (\<lambda>d. delta_times d k) (fst (deltas cursor_default (recorded p (r # rs)))))
    = observed k (concat (map snd (r # rs)))"
proof -
  have p: "timed_ok p" "times_of (rp_stacks p) k' = []" for k'
    using assms(1) by (simp_all add: timed_ok_def raw_ok_def times_of_def)
  have "length (observed k' ss) \<le> length ss" for k' ss
    by (simp add: observed_def)
  then have "length (times_of (rp_stacks p) k' @ observed k' (concat (map snd (r # rs)))) < 2 ^ 64" for k'
    unfolding p(2) append_Nil by (rule le_less_trans [OF _ assms(2)])
  note facts = recorded_facts [OF p(1) this, of k]
  then have ok: "list_all timed_ok (recorded p (r # rs))" and grow: "grows k (recorded p (r # rs))"
    and last: "times_of (rp_stacks (last (recorded p (r # rs)))) k = observed k (concat (map snd (r # rs)))"
    by (simp_all add: grows_def p Let_def)
  obtain q qs where qs: "recorded p (r # rs) = q # qs" by (simp add: Let_def)
  show ?thesis
    using deltas_times_start [of q qs k] ok grow last unfolding qs by simp
qed

theorem recording_is_delivered_witness:
  "concat (map (\<lambda>d. delta_times d (1, [16])) (fst (deltas cursor_default (recorded demo_start
     [(1, [\<lparr>ts_thread_id = 1, ts_thread_name = [], ts_stack = [16], ts_timestamp_nanos = 5\<rparr>]),
      (2, [\<lparr>ts_thread_id = 1, ts_thread_name = [], ts_stack = [16], ts_timestamp_nanos = 9\<rparr>])]))))
    = [5, 9]"
  using recording_is_delivered [of demo_start
      "(1, [\<lparr>ts_thread_id = 1, ts_thread_name = [], ts_stack = [16], ts_timestamp_nanos = 5\<rparr>])"
      "[(2, [\<lparr>ts_thread_id = 1, ts_thread_name = [], ts_stack = [16], ts_timestamp_nanos = 9\<rparr>])]" "(1, [16])"]
  by (simp add: demo_start_def observed_def)

end
