(* ===== verification/Perf_Ring.thy ===== *)
theory Perf_Ring
  imports Bytes_Le Sampler
begin

text \<open>
  In-process sampling on Linux (\<open>src/sampler/linux.rs\<close>): the records that the kernel leaves in the
  ring buffer of a perf event, and their conversion to samples.

  \<open>pr_data\<close> is the data area of the mapping and \<open>pr_head\<close> the kernel's write position, read once
  at the start of a drain; the kernel does not touch the bytes between tail and head until the
  tail is written back. File descriptor and addresses of the mapping are not modelled.
\<close>

section \<open>Records\<close>

record perf_sample =
  ps_thread_id :: u32
  ps_stack :: "u64 list"

definition perf_record_sample :: u32 where
  "perf_record_sample = 9"

definition perf_context_marker_min :: u64 where
  "perf_context_marker_min = 0xFFFFFFFFFFFFF000"

definition take_le :: "nat \<Rightarrow> u8 list \<Rightarrow> nat \<Rightarrow> ('a::len word \<times> nat) option" where
  "take_le n bytes offset =
     (if offset + n \<le> length bytes then Some (le_word (take n (drop offset bytes)), offset + n)
      else None)"

definition take_u64 :: "u8 list \<Rightarrow> nat \<Rightarrow> (u64 \<times> nat) option" where
  "take_u64 bytes offset = take_le 8 bytes offset"

definition take_u32 :: "u8 list \<Rightarrow> nat \<Rightarrow> (u32 \<times> nat) option" where
  "take_u32 bytes offset = take_le 4 bytes offset"

primrec take_frames :: "nat \<Rightarrow> u8 list \<Rightarrow> nat \<Rightarrow> u64 list \<Rightarrow> (u64 list \<times> nat) option" where
  "take_frames 0 bytes offset stack = Some (stack, offset)"
| "take_frames (Suc n) bytes offset stack =
     Option.bind (take_u64 bytes offset) (\<lambda>(address, offset).
       take_frames n bytes offset
         (if address \<noteq> 0 \<and> address < perf_context_marker_min then stack @ [address] else stack))"

definition parse_perf_sample :: "u8 list \<Rightarrow> perf_sample option" where
  "parse_perf_sample bytes =
     Option.bind (take_u64 bytes 8) (\<lambda>(instruction_pointer, offset).
     Option.bind (take_u32 bytes offset) (\<lambda>(_, offset).
     Option.bind (take_u32 bytes offset) (\<lambda>(thread_id, offset).
     Option.bind (take_u64 bytes offset) (\<lambda>(frame_count, offset).
       if frame_count > 4096 then None
       else
         Option.bind (take_frames (unat frame_count) bytes offset []) (\<lambda>(stack, _).
           let first = (case stack of [] \<Rightarrow> None | a # _ \<Rightarrow> Some a) in
           Some \<lparr>ps_thread_id = thread_id,
             ps_stack = (if instruction_pointer \<noteq> 0 \<and> first \<noteq> Some instruction_pointer
                         then instruction_pointer # stack else stack)\<rparr>)))))"

section \<open>The ring\<close>

record perf_ring =
  pr_data :: "u8 list"
  pr_head :: u64
  pr_tail :: u64

definition copy_ring :: "u8 list \<Rightarrow> u64 \<Rightarrow> nat \<Rightarrow> u8 list" where
  "copy_ring ring pos len =
     (let start = unat pos mod length ring;
          first_length = min len (length ring - start)
      in take first_length (drop start ring)
         @ (if first_length < len then take (len - first_length) ring else []))"

lemma tail_advances:
  assumes "n \<le> unat (saturating_sub_u64 head tail)" and "0 < n"
  shows "unat (tail + word_of_nat n) = unat tail + n" and "unat tail + n \<le> unat head"
proof -
  show le: "unat tail + n \<le> unat head"
    using assms by (simp add: unat_saturating_sub_u64)
  have "unat head < 2 ^ 64" using unsigned_less [of head, where ?'a = nat] by simp
  then have n: "unat (word_of_nat n :: u64) = n" using le by (simp add: unat_of_nat)
  then show "unat (tail + word_of_nat n) = unat tail + n"
    using le \<open>unat head < 2 ^ 64\<close> by (simp add: unat_word_ariths)
qed

function drain_loop :: "u8 list \<Rightarrow> u64 \<Rightarrow> u64 \<Rightarrow> perf_sample list \<Rightarrow> perf_sample list \<times> u64" where
  "drain_loop ring head tail samples =
     (if saturating_sub_u64 head tail < 8 then (samples, tail)
      else
        let header = copy_ring ring tail 8;
            record_type = le_word (take 4 header) :: u32;
            record_size = unat (le_word (take 2 (drop 6 header)) :: u16)
        in if record_size < 8 \<or> unat (saturating_sub_u64 head tail) < record_size then (samples, tail)
           else
             let bytes = copy_ring ring tail record_size;
                 tail = tail + word_of_nat record_size;
                 sample = (if record_type = perf_record_sample then parse_perf_sample bytes else None)
             in drain_loop ring head tail
                  (case sample of None \<Rightarrow> samples | Some s \<Rightarrow> samples @ [s]))"
  by pat_completeness auto

termination
proof (relation "measure (\<lambda>(ring, head, tail, samples). unat head - unat tail)", goal_cases)
  case (2 ring head tail samples header record_type record_size bytes tail' sample)
  then have "record_size \<le> unat (saturating_sub_u64 head tail)" "0 < record_size" by auto
  from tail_advances [OF this] \<open>0 < record_size\<close>
  have "unat head - unat (tail + word_of_nat record_size) < unat head - unat tail" by linarith
  then show ?case using 2 by simp
qed simp

declare drain_loop.simps [simp del]

definition drain_samples :: "perf_ring \<Rightarrow> perf_sample list \<times> perf_ring" where
  "drain_samples r =
     (let head = pr_head r; data_size = length (pr_data r);
          tail = (if unat (saturating_sub_u64 head (pr_tail r)) > data_size
                  then head - word_of_nat data_size else pr_tail r);
          (samples, tail) = drain_loop (pr_data r) head tail []
      in (samples, r\<lparr>pr_tail := tail\<rparr>))"

section \<open>Draining into the live profile\<close>

definition record_perf :: "u32 \<Rightarrow> string \<Rightarrow> u64 \<Rightarrow> perf_sample \<Rightarrow> raw_profile \<Rightarrow> raw_profile" where
  "record_perf configured_tid name timestamp s p =
     (let tid = (if ps_thread_id s = 0 then configured_tid else ps_thread_id s) in
      if ps_stack s = [] then p
      else
        let p = p\<lparr>rp_stacks := alist_upsert (ucast tid, ps_stack s) (series_timed [])
                    (push_timestamp timestamp) (rp_stacks p)\<rparr> in
        if name \<noteq> []
        then p\<lparr>rp_thread_names := alist_insert (ucast tid) name (rp_thread_names p)\<rparr>
        else p)"

fun drain_events :: "u64 \<Rightarrow> (u32 \<times> string \<times> perf_ring) list \<Rightarrow> raw_profile
    \<Rightarrow> (u32 \<times> string \<times> perf_ring) list \<times> raw_profile" where
  "drain_events timestamp [] p = ([], p)"
| "drain_events timestamp ((tid, name, ring) # events) p =
     (let (samples, ring) = drain_samples ring;
          p = fold (record_perf tid name timestamp) samples p;
          (events, p) = drain_events timestamp events p
      in ((tid, name, ring) # events, p))"

definition drain_perf_events :: "nat \<Rightarrow> u64 \<Rightarrow> (u32 \<times> string \<times> perf_ring) list \<Rightarrow> raw_profile
    \<Rightarrow> (u32 \<times> string \<times> perf_ring) list \<times> raw_profile" where
  "drain_perf_events now timestamp events p =
     (let (events, p) = drain_events timestamp events p in (events, p\<lparr>rp_end_time := now\<rparr>))"

section \<open>What the ring holds\<close>

text \<open>The bytes from a position on, around the end of the ring.\<close>

definition ring_holds :: "u8 list \<Rightarrow> nat \<Rightarrow> u8 list \<Rightarrow> bool" where
  "ring_holds ring pos bytes \<longleftrightarrow> length bytes \<le> length ring
     \<and> (\<forall>i<length bytes. ring ! ((pos + i) mod length ring) = bytes ! i)"

lemma ring_holds_append:
  "ring_holds ring pos (xs @ ys) \<Longrightarrow> ring_holds ring pos xs \<and> ring_holds ring (pos + length xs) ys"
  unfolding ring_holds_def
proof (intro conjI allI impI)
  assume a: "length (xs @ ys) \<le> length ring
    \<and> (\<forall>i<length (xs @ ys). ring ! ((pos + i) mod length ring) = (xs @ ys) ! i)"
  show "length xs \<le> length ring" "length ys \<le> length ring" using a by auto
  show "ring ! ((pos + i) mod length ring) = xs ! i" if "i < length xs" for i
    using a that by (auto simp: nth_append dest: spec [of _ i])
  show "ring ! ((pos + length xs + i) mod length ring) = ys ! i" if "i < length ys" for i
    using a that by (auto simp: nth_append add.assoc dest: spec [of _ "length xs + i"])
qed

lemma copy_ring_nth:
  assumes "n \<le> length ring"
  shows "length (copy_ring ring pos n) = n"
    and "i < n \<Longrightarrow> copy_ring ring pos n ! i = ring ! ((unat pos + i) mod length ring)"
proof -
  let ?s = "unat pos mod length ring"
  show len: "length (copy_ring ring pos n) = n"
  proof (cases "ring = []")
    case False
    then have "?s < length ring" by simp
    then show ?thesis using assms by (simp add: copy_ring_def Let_def min_def)
  qed (use assms in \<open>simp add: copy_ring_def Let_def\<close>)
  show "copy_ring ring pos n ! i = ring ! ((unat pos + i) mod length ring)" if "i < n"
  proof -
    have s: "?s < length ring" using assms that by (cases "ring = []") simp_all
    have m: "(unat pos + i) mod length ring = (?s + i) mod length ring" by (simp add: mod_add_left_eq)
    show ?thesis
    proof (cases "?s + i < length ring")
      case True
      then have "i < length ring - ?s" by simp
      then show ?thesis using True that s by (simp add: m copy_ring_def Let_def nth_append min_def)
    next
      case False
      then have "(?s + i) mod length ring = ?s + i - length ring"
        using s assms that by (simp add: le_mod_geq)
      then show ?thesis
        using False that s assms unfolding m
        by (auto simp: copy_ring_def Let_def nth_append min_def add.commute)
    qed
  qed
qed

lemma copy_ring_holds:
  assumes "ring_holds ring (unat pos) (xs @ ys)"
  shows "copy_ring ring pos (length xs) = xs"
proof (rule nth_equalityI)
  have h: "ring_holds ring (unat pos) xs" using ring_holds_append [OF assms] by simp
  then have len: "length xs \<le> length ring" by (simp add: ring_holds_def)
  show "length (copy_ring ring pos (length xs)) = length xs" by (rule copy_ring_nth(1) [OF len])
  show "copy_ring ring pos (length xs) ! i = xs ! i"
    if "i < length (copy_ring ring pos (length xs))" for i
    using that h copy_ring_nth [OF len, where pos = pos] by (simp add: ring_holds_def)
qed

section \<open>Whole records\<close>

text \<open>A record as the kernel writes it: type, misc, size, and the body.\<close>

definition record_bytes :: "u32 \<times> u8 list \<Rightarrow> u8 list" where
  "record_bytes r = le_bytes 4 (fst r) @ le_bytes 2 (0 :: u16)
     @ le_bytes 2 (word_of_nat (8 + length (snd r)) :: u16) @ snd r"

definition record_sample_of :: "u32 \<times> u8 list \<Rightarrow> perf_sample option" where
  "record_sample_of r = (if fst r = perf_record_sample then parse_perf_sample (record_bytes r) else None)"

lemma length_record_bytes [simp]: "length (record_bytes r) = 8 + length (snd r)"
  by (simp add: record_bytes_def)

lemma drain_loop_records:
  assumes "ring_holds ring (unat tail) (concat (map record_bytes rs))"
    and "unat head = unat tail + length (concat (map record_bytes rs))"
    and "\<forall>r\<in>set rs. 8 + length (snd r) < 2 ^ 16"
  shows "drain_loop ring head tail samples = (samples @ List.map_filter record_sample_of rs, head)"
  using assms
proof (induction rs arbitrary: tail samples)
  case Nil
  then have "head = tail" by (auto intro: unsigned_word_eqI)
  then show ?case by (simp add: drain_loop.simps saturating_sub_u64_def List.map_filter_simps)
next
  case (Cons r rs)
  let ?n = "8 + length (snd r)"
  have avail: "unat (saturating_sub_u64 head tail) = ?n + length (concat (map record_bytes rs))"
    using Cons.prems(2) by (simp add: unat_saturating_sub_u64)
  then have "\<not> saturating_sub_u64 head tail < 8" by (simp add: word_less_nat_alt)
  have holds: "ring_holds ring (unat tail) (record_bytes r @ concat (map record_bytes rs))"
    using Cons.prems(1) by simp
  have whole: "copy_ring ring tail ?n = record_bytes r"
    using copy_ring_holds [OF holds] by simp
  have "record_bytes r = take 8 (record_bytes r) @ drop 8 (record_bytes r)" by simp
  then have "ring_holds ring (unat tail) (take 8 (record_bytes r) @ drop 8 (record_bytes r) @ concat (map record_bytes rs))"
    using holds by (metis append.assoc)
  from copy_ring_holds [OF this] have header: "copy_ring ring tail 8 = take 8 (record_bytes r)" by simp
  have rtype: "(le_word (take 4 (record_bytes r)) :: u32) = fst r"
    by (simp add: record_bytes_def le_word_bytes)
  have rsize: "(le_word (take 2 (drop 6 (take 8 (record_bytes r)))) :: u16) = word_of_nat ?n"
    by (simp add: record_bytes_def le_word_bytes del: of_nat_add)
  obtain n where n: "n = ?n" by simp
  have n16: "unat (word_of_nat n :: u16) = n"
    using Cons.prems(3) by (simp add: n unat_of_nat del: of_nat_add)
  have tail: "unat (tail + word_of_nat n) = unat tail + n"
    using tail_advances(1) [of n head tail] avail by (simp add: n)
  have "drain_loop ring head tail samples = drain_loop ring head (tail + word_of_nat n)
      (case record_sample_of r of None \<Rightarrow> samples | Some s \<Rightarrow> samples @ [s])"
    using \<open>\<not> saturating_sub_u64 head tail < 8\<close> avail whole
    unfolding drain_loop.simps [of ring head tail] header rsize n [symmetric] Let_def n16
    by (simp add: rtype record_sample_of_def n)
  also have "\<dots> = ((case record_sample_of r of None \<Rightarrow> samples | Some s \<Rightarrow> samples @ [s])
      @ List.map_filter record_sample_of rs, head)"
    by (rule Cons.IH) (use ring_holds_append [OF holds] Cons.prems tail in \<open>simp_all add: n\<close>)
  also have "\<dots> = (samples @ List.map_filter record_sample_of (r # rs), head)"
    by (simp add: List.map_filter_simps split: option.split)
  finally show ?case .
qed


section \<open>Sample records\<close>

text \<open>The body of a sample record, and the call chain it stands for.\<close>

definition sample_body :: "u64 \<Rightarrow> u32 \<Rightarrow> u32 \<Rightarrow> u64 list \<Rightarrow> u8 list" where
  "sample_body ip pid tid chain =
     le_bytes 8 ip @ le_bytes 4 pid @ le_bytes 4 tid @ le_bytes 8 (word_of_nat (length chain) :: u64)
     @ concat (map (le_bytes 8) chain)"

definition user_frames :: "u64 list \<Rightarrow> u64 list" where
  "user_frames chain = filter (\<lambda>a. a \<noteq> 0 \<and> a < perf_context_marker_min) chain"

definition sampled_stack :: "u64 \<Rightarrow> u64 list \<Rightarrow> u64 list" where
  "sampled_stack ip chain =
     (if ip = 0 \<or> (user_frames chain \<noteq> [] \<and> hd (user_frames chain) = ip) then user_frames chain
      else ip # user_frames chain)"

lemma take_le_bytes:
  assumes "drop offset bytes = le_bytes n w @ rest" and "LENGTH('a) \<le> 8 * n" and "0 < n"
  shows "take_le n bytes offset = Some (w :: 'a::len word, offset + n)"
    and "drop (offset + n) bytes = rest"
proof -
  have "length (drop offset bytes) = n + length rest" by (simp add: assms(1))
  then have "offset + n \<le> length bytes" using assms(3) by simp
  then show "take_le n bytes offset = Some (w, offset + n)"
    using assms(1,2) by (simp add: take_le_def le_word_bytes)
  have "drop (offset + n) bytes = drop n (drop offset bytes)" by (simp add: add.commute)
  then show "drop (offset + n) bytes = rest" using assms(1) by simp
qed

lemma take_frames_bytes:
  "drop offset bytes = concat (map (le_bytes 8) chain) \<Longrightarrow>
   \<exists>k. take_frames (length chain) bytes offset stack = Some (stack @ user_frames chain, k)"
proof (induction chain arbitrary: offset stack)
  case (Cons a chain)
  from Cons.prems have d: "drop offset bytes = le_bytes 8 a @ concat (map (le_bytes 8) chain)" by simp
  from take_le_bytes(2) [OF d] have rest: "drop (offset + 8) bytes = concat (map (le_bytes 8) chain)" by simp
  from take_le_bytes(1) [OF d] have a: "take_u64 bytes offset = Some (a, offset + 8)"
    by (simp add: take_u64_def)
  show ?case
    using Cons.IH [OF rest, of stack] Cons.IH [OF rest, of "stack @ [a]"]
    by (cases "a \<noteq> 0 \<and> a < perf_context_marker_min") (auto simp: a user_frames_def)
qed (simp add: user_frames_def)

lemma parse_sample_body:
  assumes "length header = 8" and "length chain \<le> 4096"
  shows "parse_perf_sample (header @ sample_body ip pid tid chain) =
    Some \<lparr>ps_thread_id = tid, ps_stack = sampled_stack ip chain\<rparr>"
proof -
  let ?b = "header @ sample_body ip pid tid chain"
  let ?frames = "concat (map (le_bytes 8) chain)"
  let ?count = "le_bytes 8 (word_of_nat (length chain) :: u64)"
  have d1: "drop 8 ?b = le_bytes 8 ip @ le_bytes 4 pid @ le_bytes 4 tid @ ?count @ ?frames"
    using assms(1) by (simp add: sample_body_def)
  have d2: "drop (8 + 8) ?b = le_bytes 4 pid @ le_bytes 4 tid @ ?count @ ?frames"
    by (rule take_le_bytes(2) [OF d1]) simp_all
  have d3: "drop (8 + 8 + 4) ?b = le_bytes 4 tid @ ?count @ ?frames"
    by (rule take_le_bytes(2) [OF d2]) simp_all
  have d4: "drop (8 + 8 + 4 + 4) ?b = ?count @ ?frames"
    by (rule take_le_bytes(2) [OF d3]) simp_all
  have d5: "drop (8 + 8 + 4 + 4 + 8) ?b = ?frames"
    by (rule take_le_bytes(2) [OF d4]) simp_all
  have fields: "take_u64 ?b 8 = Some (ip, 16)" "take_u32 ?b 16 = Some (pid, 20)"
    "take_u32 ?b 20 = Some (tid, 24)" "take_u64 ?b 24 = Some (word_of_nat (length chain), 32)"
    using take_le_bytes(1) [OF d1] take_le_bytes(1) [OF d2] take_le_bytes(1) [OF d3]
      take_le_bytes(1) [OF d4] by (simp_all add: take_u64_def take_u32_def)
  have small: "\<not> (word_of_nat (length chain) :: u64) > 4096" "unat (word_of_nat (length chain) :: u64) = length chain"
    using assms(2) by (simp_all add: word_less_nat_alt unat_of_nat)
  obtain k where "take_frames (length chain) ?b 32 [] = Some (user_frames chain, k)"
    using take_frames_bytes [OF d5, of "[]"] by (auto simp del: drop_append)
  then show ?thesis
    using small by (simp add: parse_perf_sample_def fields sampled_stack_def split: list.split)
qed

text \<open>A drain of a ring whose bytes between tail and head are whole records, wherever they wrap
  around the end of the ring, returns the samples of its sample records in order and moves the
  tail to the head, so that no record is read twice.\<close>

lemma ring_drained:
  assumes "ring_holds (pr_data ring) (unat (pr_tail ring)) (concat (map record_bytes rs))"
    and "unat (pr_head ring) = unat (pr_tail ring) + length (concat (map record_bytes rs))"
    and "\<forall>r\<in>set rs. length (snd r) \<le> 65527"
  shows "drain_samples ring = (List.map_filter record_sample_of rs, ring\<lparr>pr_tail := pr_head ring\<rparr>)"
proof -
  have fits: "\<not> unat (saturating_sub_u64 (pr_head ring) (pr_tail ring)) > length (pr_data ring)"
    using assms(1,2) by (simp add: ring_holds_def unat_saturating_sub_u64)
  have "\<forall>r\<in>set rs. 8 + length (snd r) < 2 ^ 16" using assms(3) by auto
  from drain_loop_records [OF assms(1,2) this, of "[]"] fits show ?thesis
    by (simp add: drain_samples_def)
qed

section \<open>Properties\<close>

text \<open>a sample record of up to 4096 call-chain entries is read back as its thread and its stack:
  the entries without zeros and context markers, led by the instruction pointer unless that is
  zero or already first.\<close>

theorem sample_record_round_trip:
  assumes "length chain \<le> 4096"
  shows "record_sample_of (9, sample_body ip pid tid chain) =
    Some \<lparr>ps_thread_id = tid, ps_stack = sampled_stack ip chain\<rparr>"
proof -
  let ?h = "le_bytes 4 (9 :: u32) @ le_bytes 2 (0 :: u16)
    @ le_bytes 2 (word_of_nat (8 + length (sample_body ip pid tid chain)) :: u16)"
  have "record_bytes (9, sample_body ip pid tid chain) = ?h @ sample_body ip pid tid chain"
    by (simp add: record_bytes_def)
  then show ?thesis
    using parse_sample_body [of ?h chain ip pid tid] assms
    by (simp add: record_sample_of_def perf_record_sample_def)
qed

theorem sample_record_round_trip_witness:
  "record_sample_of (9, sample_body 7 1 2 [0xFFFFFFFFFFFFFE00, 5, 0]) =
    Some \<lparr>ps_thread_id = 2, ps_stack = [7, 5]\<rparr>"
  using sample_record_round_trip [of "[0xFFFFFFFFFFFFFE00, 5, 0]" 7 1 2]
  by (simp add: sampled_stack_def user_frames_def perf_context_marker_min_def)

end
