(* ===== verification/Proc_Maps.thy ===== *)
theory Proc_Maps
  imports Sampler
begin

text \<open>
  Loaded images of a Linux process, from the text of \<open>/proc/<pid>/maps\<close> (\<open>src/sampler/linux.rs\<close>).
  Text is handled as its UTF-8 bytes. The standard library's string functions are modelled for
  what the parser calls: \<open>lines\<close>, \<open>split_whitespace\<close>, \<open>u64::from_str_radix\<close>, \<open>split_once\<close>,
  \<open>join\<close> and \<open>String::from_utf8_lossy\<close>.
\<close>

section \<open>The standard library's functions\<close>

definition strip_cr :: "u8 list \<Rightarrow> u8 list" where
  "strip_cr l = (if l \<noteq> [] \<and> last l = 13 then butlast l else l)"

fun lines_from :: "u8 list \<Rightarrow> u8 list \<Rightarrow> u8 list list" where
  "lines_from acc [] = (if acc = [] then [] else [acc])"
| "lines_from acc (b # bs) =
     (if b = 10 then strip_cr acc # lines_from [] bs else lines_from (acc @ [b]) bs)"

definition str_lines :: "u8 list \<Rightarrow> u8 list list" where
  "str_lines bs = lines_from [] bs"

text \<open>The length of the white space character that the text starts with, zero for any other.\<close>

fun white_len :: "u8 list \<Rightarrow> nat" where
  "white_len [] = 0"
| "white_len (a # bs) =
     (if (9 \<le> a \<and> a \<le> 13) \<or> a = 32 then 1
      else if a = 0xC2 \<and> take 1 bs \<in> {[0x85], [0xA0]} then 2
      else if a = 0xE1 \<and> take 2 bs = [0x9A, 0x80] then 3
      else if a = 0xE2 \<and> take 1 bs = [0x80]
        \<and> (case drop 1 bs of c # _ \<Rightarrow> (0x80 \<le> c \<and> c \<le> 0x8A) \<or> c \<in> {0xA8, 0xA9, 0xAF} | [] \<Rightarrow> False) then 3
      else if a = 0xE2 \<and> take 2 bs = [0x81, 0x9F] then 3
      else if a = 0xE3 \<and> take 2 bs = [0x80, 0x80] then 3
      else 0)"

function split_from :: "u8 list \<Rightarrow> u8 list \<Rightarrow> u8 list list" where
  "split_from acc bs =
     (if bs = [] then (if acc = [] then [] else [acc])
      else if white_len bs > 0 then
        (if acc = [] then [] else [acc]) @ split_from [] (drop (white_len bs) bs)
      else split_from (acc @ [hd bs]) (tl bs))"
  by pat_completeness auto

termination by (relation "measure (\<lambda>(acc, bs). length bs)") auto

declare split_from.simps [simp del]

definition split_whitespace :: "u8 list \<Rightarrow> u8 list list" where
  "split_whitespace bs = split_from [] bs"

definition hex_value :: "u8 \<Rightarrow> nat option" where
  "hex_value b =
     (if 48 \<le> b \<and> b \<le> 57 then Some (unat b - 48)
      else if 97 \<le> b \<and> b \<le> 102 then Some (unat b - 87)
      else if 65 \<le> b \<and> b \<le> 70 then Some (unat b - 55) else None)"

fun parse_hex_digits :: "nat \<Rightarrow> u8 list \<Rightarrow> nat option" where
  "parse_hex_digits acc [] = Some acc"
| "parse_hex_digits acc (b # bs) =
     (case hex_value b of
        None \<Rightarrow> None
      | Some d \<Rightarrow> if acc * 16 + d < 2 ^ 64 then parse_hex_digits (acc * 16 + d) bs else None)"

definition parse_hex :: "u8 list \<Rightarrow> u64 option" where
  "parse_hex bs =
     (let digits = (case bs of b # r \<Rightarrow> if b = 43 then r else bs | [] \<Rightarrow> []) in
      if digits = [] then None else map_option word_of_nat (parse_hex_digits 0 digits))"

definition split_once :: "u8 \<Rightarrow> u8 list \<Rightarrow> (u8 list \<times> u8 list) option" where
  "split_once sep bs =
     (if sep \<in> set bs
      then Some (takeWhile (\<lambda>b. b \<noteq> sep) bs, tl (dropWhile (\<lambda>b. b \<noteq> sep) bs)) else None)"

fun join_bytes :: "u8 list \<Rightarrow> u8 list list \<Rightarrow> u8 list" where
  "join_bytes sep [] = []"
| "join_bytes sep [x] = x"
| "join_bytes sep (x # y # xs) = x @ sep @ join_bytes sep (y # xs)"

text \<open>The first character: whether it is well formed, and the length of it or of the longest
  prefix of a well-formed character, which \<open>from_utf8_lossy\<close> replaces as a whole.\<close>

definition second_ok :: "u8 \<Rightarrow> u8 \<Rightarrow> bool" where
  "second_ok a b \<longleftrightarrow> utf8_cont b
     \<and> (a = 0xE0 \<longrightarrow> 0xA0 \<le> b) \<and> (a = 0xED \<longrightarrow> b \<le> 0x9F)
     \<and> (a = 0xF0 \<longrightarrow> 0x90 \<le> b) \<and> (a = 0xF4 \<longrightarrow> b \<le> 0x8F)"

definition utf8_width :: "u8 \<Rightarrow> nat" where
  "utf8_width a =
     (if a < 0x80 then 1
      else if 0xC2 \<le> a \<and> a \<le> 0xDF then 2
      else if 0xE0 \<le> a \<and> a \<le> 0xEF then 3
      else if 0xF0 \<le> a \<and> a \<le> 0xF4 then 4 else 0)"

fun utf8_chunk :: "u8 list \<Rightarrow> bool \<times> nat" where
  "utf8_chunk [] = (True, 0)"
| "utf8_chunk (a # bs) =
     (let w = utf8_width a in
      if w = 0 then (False, 1)
      else if w = 1 then (True, 1)
      else
        (case bs of
           [] \<Rightarrow> (False, 1)
         | b # r \<Rightarrow>
             if \<not> second_ok a b then (False, 1)
             else
               let n = length (takeWhile utf8_cont (take (w - 2) r)) in
               if n = w - 2 then (True, w) else (False, 2 + n)))"

lemma utf8_chunk_pos: "bs \<noteq> [] \<Longrightarrow> 0 < snd (utf8_chunk bs)"
  by (cases bs) (auto simp: Let_def split: list.split)

function utf8_lossy :: "u8 list \<Rightarrow> u8 list" where
  "utf8_lossy bs =
     (if bs = [] then []
      else
        let (ok, n) = utf8_chunk bs in
        (if ok then take n bs else [0xEF, 0xBF, 0xBD]) @ utf8_lossy (drop n bs))"
  by pat_completeness auto

termination
proof (relation "measure length")
  show "(drop n bs, bs) \<in> measure length" if "bs \<noteq> []" "x = utf8_chunk bs" "(ok, n) = x" for bs x ok n
    using that utf8_chunk_pos [OF that(1)] by (metis diff_less in_measure length_drop length_greater_0_conv snd_conv)
qed simp

declare utf8_lossy.simps [simp del]

section \<open>The parser\<close>

definition octal_digit :: "u8 \<Rightarrow> bool" where
  "octal_digit b \<longleftrightarrow> 48 \<le> b \<and> b \<le> 55"

text \<open>The arithmetic is on \<open>u8\<close>, so an escape above \<open>\377\<close> wraps (and panics in a build with
  overflow checks).\<close>

function unescape_bytes :: "u8 list \<Rightarrow> u8 list" where
  "unescape_bytes bs =
     (case bs of
        [] \<Rightarrow> []
      | b # r \<Rightarrow>
          if b = 92 \<and> 3 \<le> length r \<and> list_all octal_digit (take 3 r) then
            ((r ! 0 - 48) * 64 + (r ! 1 - 48) * 8 + (r ! 2 - 48)) # unescape_bytes (drop 3 r)
          else b # unescape_bytes r)"
  by pat_completeness auto

termination by (relation "measure length") auto

declare unescape_bytes.simps [simp del]

definition unescape_proc_path :: "u8 list \<Rightarrow> string" where
  "unescape_proc_path path = bytes_str (utf8_lossy (unescape_bytes path))"

text \<open>One turn of the loop: the image a line describes.\<close>

definition image_of_line :: "u8 list \<Rightarrow> (u64 \<times> string) option" where
  "image_of_line line =
     (case split_whitespace line of
        [] \<Rightarrow> None
      | addresses # rest \<Rightarrow>
          (case (case drop 1 rest of [] \<Rightarrow> None | f # _ \<Rightarrow> parse_hex f) of
             None \<Rightarrow> None
           | Some offset \<Rightarrow>
               let path = join_bytes [32] (drop 4 rest) in
               if offset \<noteq> 0 then None
               else if \<not> prefix [47] path \<or> suffix (str_bytes '' (deleted)'') path then None
               else
                 (case Option.bind (split_once 45 addresses) (\<lambda>(start, _). parse_hex start) of
                    None \<Rightarrow> None
                  | Some start \<Rightarrow>
                      if offset \<le> start then Some (start - offset, unescape_proc_path path) else None)))"

definition insert_image :: "u8 list \<Rightarrow> ((u64 \<times> string) \<times> unit) list \<Rightarrow> ((u64 \<times> string) \<times> unit) list" where
  "insert_image line images =
     (case image_of_line line of None \<Rightarrow> images | Some img \<Rightarrow> bt_insert img () images)"

definition parse_loaded_images :: "u8 list \<Rightarrow> loaded_image list" where
  "parse_loaded_images maps =
     map (\<lambda>((load_address, path), _). \<lparr>im_load_address = load_address, im_path = path\<rparr>)
       (fold insert_image (str_lines maps) [])"

section \<open>What is parsed\<close>

definition image_key :: "loaded_image \<Rightarrow> u64 \<times> string" where
  "image_key i = (im_load_address i, im_path i)"

lemma insert_images:
  "bt_ok acc \<Longrightarrow> bt_ok (fold insert_image ls acc)
     \<and> fst ` set (fold insert_image ls acc) = {k. Some k \<in> image_of_line ` set ls} \<union> fst ` set acc"
proof (induction ls arbitrary: acc)
  case (Cons l ls)
  have "bt_ok (insert_image l acc)"
    "fst ` set (insert_image l acc) = {k. image_of_line l = Some k} \<union> fst ` set acc"
    using Cons.prems by (auto simp: insert_image_def split: option.split)
  with Cons.IH show ?case by (auto simp: image_iff)
qed simp


section \<open>Replacing malformed text\<close>

lemma utf8_valid_chunk:
  "utf8_valid bs \<longleftrightarrow> bs = [] \<or> (fst (utf8_chunk bs) \<and> utf8_valid (drop (snd (utf8_chunk bs)) bs))"
proof (cases bs)
  case (Cons a r)
  have "utf8_width a \<in> {0, 1, 2, 3, 4}" by (simp add: utf8_width_def)
  then consider "utf8_width a = 0" | "utf8_width a = 1" | "utf8_width a = 2" | "utf8_width a = 3"
    | "utf8_width a = 4" by (elim insertE emptyE)
  then show ?thesis
  proof cases
    case 1
    then have "\<not> a < 0x80 \<and> \<not> (0xC2 \<le> a \<and> a \<le> 0xDF) \<and> \<not> (0xE0 \<le> a \<and> a \<le> 0xEF) \<and> \<not> (0xF0 \<le> a \<and> a \<le> 0xF4)"
      by (auto simp: utf8_width_def split: if_splits)
    then show ?thesis using 1 by (auto simp: Cons)
  next
    case 2
    then have "a < 0x80" by (auto simp: utf8_width_def split: if_splits)
    then show ?thesis using 2 by (simp add: Cons)
  next
    case 3
    then have range: "\<not> a < 0x80 \<and> (0xC2 \<le> a \<and> a \<le> 0xDF)"
      by (auto simp: utf8_width_def split: if_splits)
    then have v: "utf8_valid (a # r) = (case r of b # t \<Rightarrow> utf8_cont b \<and> utf8_valid t | _ \<Rightarrow> False)"
      by simp
    have "second_ok a b = utf8_cont b" for b using range by (auto simp: second_ok_def)
    then show ?thesis using 3 unfolding Cons v
      by (auto simp: Let_def simp del: utf8_valid.simps(2) split: list.split)
  next
    case 4
    then have range: "\<not> a < 0x80 \<and> \<not> (0xC2 \<le> a \<and> a \<le> 0xDF) \<and> (0xE0 \<le> a \<and> a \<le> 0xEF)"
      by (auto simp: utf8_width_def split: if_splits)
    then have v: "utf8_valid (a # r) = (case r of b # c # t \<Rightarrow> utf8_cont b \<and> utf8_cont c
        \<and> (a = 0xE0 \<longrightarrow> 0xA0 \<le> b) \<and> (a = 0xED \<longrightarrow> b \<le> 0x9F) \<and> utf8_valid t | _ \<Rightarrow> False)"
      by auto
    have "second_ok a b = (utf8_cont b \<and> (a = 0xE0 \<longrightarrow> 0xA0 \<le> b) \<and> (a = 0xED \<longrightarrow> b \<le> 0x9F))" for b
      using range by (auto simp: second_ok_def)
    then show ?thesis using 4 unfolding Cons v
      by (auto simp: Let_def simp del: utf8_valid.simps(2) split: list.split)
  next
    case 5
    then have range: "\<not> a < 0x80 \<and> \<not> (0xC2 \<le> a \<and> a \<le> 0xDF) \<and> \<not> (0xE0 \<le> a \<and> a \<le> 0xEF) \<and> (0xF0 \<le> a \<and> a \<le> 0xF4)"
      by (auto simp: utf8_width_def split: if_splits)
    then have v: "utf8_valid (a # r) = (case r of b # c # d # t \<Rightarrow> utf8_cont b \<and> utf8_cont c \<and> utf8_cont d
        \<and> (a = 0xF0 \<longrightarrow> 0x90 \<le> b) \<and> (a = 0xF4 \<longrightarrow> b \<le> 0x8F) \<and> utf8_valid t | _ \<Rightarrow> False)"
      by auto
    have "second_ok a b = (utf8_cont b \<and> (a = 0xF0 \<longrightarrow> 0x90 \<le> b) \<and> (a = 0xF4 \<longrightarrow> b \<le> 0x8F))" for b
      using range by (auto simp: second_ok_def)
    then show ?thesis using 5 unfolding Cons v
      by (auto simp: Let_def numeral_2_eq_2 simp del: utf8_valid.simps(2) split: list.split)
  qed
qed simp

lemma utf8_lossy_chunk:
  "bs \<noteq> [] \<Longrightarrow> utf8_lossy bs = (if fst (utf8_chunk bs) then take (snd (utf8_chunk bs)) bs
     else [0xEF, 0xBF, 0xBD]) @ utf8_lossy (drop (snd (utf8_chunk bs)) bs)"
  by (subst utf8_lossy.simps) (simp add: split_beta)

lemma chunk_induct [case_names Nil Chunk]:
  assumes "P []" and "\<And>bs. bs \<noteq> [] \<Longrightarrow> P (drop (snd (utf8_chunk bs)) bs) \<Longrightarrow> P bs"
  shows "P bs"
proof (induction "length bs" arbitrary: bs rule: less_induct)
  case less
  then show ?case using assms utf8_chunk_pos [of bs] by (cases "bs = []") simp_all
qed

lemma utf8_lossy_valid: "utf8_valid bs \<Longrightarrow> utf8_lossy bs = bs"
proof (induction bs rule: chunk_induct)
  case (Chunk bs)
  then show ?case using utf8_valid_chunk [of bs] by (simp add: utf8_lossy_chunk)
qed (simp add: utf8_lossy.simps)

lemma utf8_chunk_take:
  assumes "fst (utf8_chunk bs)" and "bs \<noteq> []"
  shows "utf8_chunk (take (snd (utf8_chunk bs)) bs @ rest) = (True, snd (utf8_chunk bs))"
    and "length (take (snd (utf8_chunk bs)) bs) = snd (utf8_chunk bs)"
proof -
  have "utf8_chunk (take (snd (utf8_chunk bs)) bs @ rest) = (True, snd (utf8_chunk bs))
    \<and> length (take (snd (utf8_chunk bs)) bs) = snd (utf8_chunk bs)"
  proof (cases bs)
    case (Cons a r)
    consider "utf8_width a = 1" | b t where "r = b # t" "second_ok a b" "2 \<le> utf8_width a"
      "length (takeWhile utf8_cont (take (utf8_width a - 2) t)) = utf8_width a - 2"
      using assms by (auto simp: Cons Let_def not_less_eq_eq numeral_2_eq_2 split: if_splits list.splits)
    then show ?thesis
    proof cases
      case 2
      let ?x = "take (utf8_width a - 2) t"
      have x: "length ?x = utf8_width a - 2" "takeWhile utf8_cont ?x = ?x"
        using 2(4) by (metis length_takeWhile_le le_antisym length_take min.cobounded2,
            metis length_take length_takeWhile_le min.cobounded2 le_antisym takeWhile_eq_take take_all order_refl)
      have whole: "take (utf8_width a) bs = a # b # ?x"
        using 2(3) by (simp add: Cons 2(1) take_Cons' numeral_2_eq_2)
      have "utf8_chunk (a # b # ?x @ y) = (True, utf8_width a)" for y
        using 2(2,3) x(1) by (simp add: Let_def x(2))
      moreover have "utf8_chunk bs = (True, utf8_width a)"
        using 2(2,3) x(1) by (simp add: Cons 2(1) Let_def x(2))
      ultimately show ?thesis using whole x(1) 2(3) by simp
    qed (simp add: Cons)
  qed (use assms(2) in simp)
  then show "utf8_chunk (take (snd (utf8_chunk bs)) bs @ rest) = (True, snd (utf8_chunk bs))"
    and "length (take (snd (utf8_chunk bs)) bs) = snd (utf8_chunk bs)"
    by simp_all
qed

lemma utf8_lossy_is_valid: "utf8_valid (utf8_lossy bs)"
proof (induction bs rule: chunk_induct)
  case (Chunk bs)
  show ?case
  proof (cases "fst (utf8_chunk bs)")
    case True
    have "drop (snd (utf8_chunk bs)) (take (snd (utf8_chunk bs)) bs @ y) = y" for y
      using utf8_chunk_take(2) [OF True Chunk(1)] by (metis append_eq_conv_conj)
    then show ?thesis
      using Chunk True utf8_chunk_take(1) [OF True Chunk(1), of "utf8_lossy (drop (snd (utf8_chunk bs)) bs)"]
      unfolding utf8_lossy_chunk [OF Chunk(1)] by (subst utf8_valid_chunk) (simp del: drop_append)
  next
    case False
    then show ?thesis using Chunk by (simp add: utf8_lossy_chunk utf8_cont_def)
  qed
qed (simp add: utf8_lossy.simps)

section \<open>Escaped paths\<close>

text \<open>How the kernel writes a path: the bytes of a set as three octal digits.\<close>

definition octal_escape :: "u8 \<Rightarrow> u8 list" where
  "octal_escape b = [92, 48 + b div 64, 48 + b div 8 mod 8, 48 + b mod 8]"

definition mangle_path :: "u8 set \<Rightarrow> u8 list \<Rightarrow> u8 list" where
  "mangle_path esc path = concat (map (\<lambda>b. if b \<in> esc then octal_escape b else [b]) path)"

lemma octal_escape_digits:
  "list_all octal_digit (tl (octal_escape b))"
  "(48 + b div 64 - 48) * 64 + (48 + b div 8 mod 8 - 48) * 8 + (48 + b mod 8 - 48) = (b :: u8)"
proof -
  have n: "unat b < 256" using unsigned_less [of b, where ?'a = nat] by simp
  have parts: "unat (b div 64) = unat b div 64" "unat (b div 8 mod 8) = unat b div 8 mod 8"
    "unat (b mod 8) = unat b mod 8" by (simp_all add: unat_div unat_mod)
  have small: "unat b div 64 \<le> 3" "unat b div 8 mod 8 \<le> 7" "unat b mod 8 \<le> 7" using n by simp_all
  show "list_all octal_digit (tl (octal_escape b))"
    using small by (simp add: octal_escape_def octal_digit_def word_le_nat_alt unat_word_ariths parts)
  have "unat b = unat b div 64 * 64 + unat b div 8 mod 8 * 8 + unat b mod 8"
  proof -
    have "unat b div 8 div 8 = unat b div 64" by (simp flip: div_mult2_eq)
    then show ?thesis
      using div_mult_mod_eq [of "unat b div 8" 8] div_mult_mod_eq [of "unat b" 8] by linarith
  qed
  then have "unat ((b div 64) * 64 + (b div 8 mod 8) * 8 + b mod 8) = unat b"
    using n by (simp add: unat_word_ariths parts)
  then show "(48 + b div 64 - 48) * 64 + (48 + b div 8 mod 8 - 48) * 8 + (48 + b mod 8 - 48) = b"
    by (simp add: word_unat_eq_iff)
qed

lemma unescape_octal: "unescape_bytes (octal_escape b @ rest) = b # unescape_bytes rest"
  using octal_escape_digits [of b]
  by (subst unescape_bytes.simps) (simp add: octal_escape_def)

lemma unescape_plain: "b \<noteq> 92 \<Longrightarrow> unescape_bytes (b # rest) = b # unescape_bytes rest"
  by (subst unescape_bytes.simps) simp

lemma unescape_mangle:
  "(\<forall>b\<in>set path. b = 92 \<longrightarrow> b \<in> esc) \<Longrightarrow> unescape_bytes (mangle_path esc path) = path"
proof (induction path)
  case Nil
  show ?case by (simp add: mangle_path_def unescape_bytes.simps)
next
  case (Cons b path)
  then have "unescape_bytes (mangle_path esc path) = path" by simp
  then show ?case
    using Cons.prems unescape_plain [of b "mangle_path esc path"]
    by (auto simp: mangle_path_def unescape_octal)
qed

section \<open>Lines as the kernel writes them\<close>

definition graphic :: "u8 list \<Rightarrow> bool" where
  "graphic f \<longleftrightarrow> list_all (\<lambda>b. 33 \<le> b \<and> b \<le> 126) f"

lemma white_len_graphic: "33 \<le> b \<Longrightarrow> b \<le> 126 \<Longrightarrow> white_len (b # bs) = 0"
  by (auto simp: word_le_nat_alt)

lemma split_from_graphic:
  "graphic f \<Longrightarrow> split_from acc (f @ bs) = split_from (acc @ f) bs"
proof (induction f arbitrary: acc)
  case (Cons b f)
  then have "white_len (b # f @ bs) = 0" by (intro white_len_graphic) (simp_all add: graphic_def)
  then have "split_from acc ((b # f) @ bs) = split_from (acc @ [b]) (f @ bs)"
    by (subst split_from.simps) simp
  then show ?case using Cons by (simp add: graphic_def)
qed simp

lemma split_from_space: "split_from acc (32 # bs) = (if acc = [] then [] else [acc]) @ split_from [] bs"
  by (subst split_from.simps) simp

lemma split_from_pad: "split_from [] (replicate k 32 @ bs) = split_from [] bs"
  by (induction k) (simp_all add: split_from_space)

definition maps_line :: "u8 list \<Rightarrow> u8 list \<Rightarrow> u8 list \<Rightarrow> u8 list \<Rightarrow> u8 list \<Rightarrow> u8 list \<Rightarrow> nat \<Rightarrow> u8 list \<Rightarrow> u8 list" where
  "maps_line start stop perms offset dev inode pad path =
     start @ 45 # stop @ 32 # perms @ 32 # offset @ 32 # dev @ 32 # inode @ 32 # replicate pad 32 @ path"

lemma split_maps_line:
  assumes "graphic start" "graphic stop" "graphic perms" "graphic offset" "graphic dev" "graphic inode"
    and "graphic path"
    and "perms \<noteq> []" "offset \<noteq> []" "dev \<noteq> []" "inode \<noteq> []" "path \<noteq> []"
  shows "split_whitespace (maps_line start stop perms offset dev inode pad path)
    = [start @ 45 # stop, perms, offset, dev, inode, path]"
proof -
  have "graphic (start @ 45 # stop)" using assms(1,2) by (simp add: graphic_def)
  from split_from_graphic [OF this, of "[]"]
  have "split_from [] (start @ 45 # stop @ bs) = split_from (start @ 45 # stop) bs" for bs by simp
  then show ?thesis
    using assms split_from_graphic [of path "[]" "[]"] split_from.simps [of path "[]"]
    unfolding split_whitespace_def maps_line_def
    by (simp only: split_from_space) (simp add: split_from_graphic split_from_space split_from_pad)
qed

lemma maps_line_image:
  assumes "graphic start" "graphic stop" "graphic perms" "graphic offset" "graphic dev" "graphic inode"
    and "graphic path"
    and "perms \<noteq> []" "dev \<noteq> []" "inode \<noteq> []" "path \<noteq> []"
    and "45 \<notin> set start" "parse_hex start = Some a" "parse_hex offset = Some n"
  shows "image_of_line (maps_line start stop perms offset dev inode pad path) =
    (if n = 0 \<and> hd path = 47 then Some (a, unescape_proc_path path) else None)"
proof -
  have "offset \<noteq> []" using assms(14) by (auto simp: parse_hex_def)
  note fields = split_maps_line [OF assms(1-7,8) this assms(9-11), of pad]
  have "\<not> suffix (str_bytes '' (deleted)'') path"
  proof
    assume "suffix (str_bytes '' (deleted)'') path"
    then have "32 \<in> set path" by (auto simp: suffix_def str_bytes_def byte_of_char_def)
    then show False using assms(7) by (auto simp: graphic_def list_all_iff)
  qed
  moreover have "prefix [47] path \<longleftrightarrow> hd path = 47" using assms(11) by (cases path) auto
  moreover have "takeWhile (\<lambda>b. b \<noteq> 45) (start @ 45 # stop) = start"
  proof -
    have "takeWhile (\<lambda>b. b \<noteq> 45) (start @ 45 # stop) = start @ takeWhile (\<lambda>b. b \<noteq> 45) (45 # stop)"
      using assms(12) by (intro takeWhile_append2) auto
    then show ?thesis by simp
  qed
  ultimately show ?thesis
    using assms(13,14) by (simp add: image_of_line_def fields split_once_def)
qed

section \<open>Properties\<close>

text \<open>the images of a process are those its map lines describe, each once, in the order of their
  load addresses and paths.\<close>

theorem images_of_maps:
  "sorted_wrt (<) (map image_key (parse_loaded_images maps))
    \<and> image_key ` set (parse_loaded_images maps) = {k. Some k \<in> image_of_line ` set (str_lines maps)}"
proof -
  let ?bt = "fold insert_image (str_lines maps) []"
  have keys: "map image_key (parse_loaded_images maps) = map fst ?bt"
    by (simp add: parse_loaded_images_def image_key_def split_beta)
  have "image_key ` set (parse_loaded_images maps) = set (map fst ?bt)"
    unfolding keys [symmetric] by simp
  then show ?thesis
    using insert_images [of "[]" "str_lines maps"] by (simp add: keys bt_ok_def)
qed

text \<open>a path comes back from the kernel's octal escapes, provided that every backslash of it is
  escaped or that it has none, and malformed UTF-8 is replaced: the result is always valid text,
  and equal to the path when the path is.\<close>

theorem path_round_trip:
  assumes "\<forall>b\<in>set path. b = 92 \<longrightarrow> b \<in> esc"
  shows "unescape_proc_path (mangle_path esc path) = bytes_str (utf8_lossy path)
    \<and> utf8_valid (utf8_lossy path) \<and> (utf8_valid path \<longrightarrow> utf8_lossy path = path)"
  by (simp add: unescape_proc_path_def unescape_mangle [OF assms] utf8_lossy_is_valid utf8_lossy_valid)

theorem path_round_trip_witness:
  "unescape_proc_path (mangle_path {10, 32, 92} [47, 97, 32, 92]) = bytes_str (utf8_lossy [47, 97, 32, 92])"
  using path_round_trip [of "[47, 97, 32, 92]" "{10, 32, 92}"] by simp

text \<open>The kernel escapes only line feeds in this file, so a name with a backslash and three octal
  digits in it is not its own escape: it is read back as another name.\<close>

lemma literal_backslash_misread:
  "unescape_bytes (mangle_path {10} (str_bytes (''/tmp/a'' @ [CHR 0x5C] @ ''040b''))) = str_bytes ''/tmp/a b''"
  by code_simp

text \<open>a line as the kernel writes it stands for an image exactly when it maps the start of a file
  with an absolute path: at the start address, under the unescaped path.\<close>

theorem kernel_line_read:
  assumes "graphic start" and "graphic stop" and "graphic perms" and "graphic offset" and "graphic dev"
    and "graphic inode" and "graphic path"
    and "perms \<noteq> []" and "dev \<noteq> []" and "inode \<noteq> []" and "path \<noteq> []"
    and "45 \<notin> set start" and "parse_hex start = Some a" and "parse_hex offset = Some n"
  shows "image_of_line (maps_line start stop perms offset dev inode pad path) =
    (if n = 0 \<and> hd path = 47 then Some (a, unescape_proc_path path) else None)"
  by (rule maps_line_image [OF assms])

theorem kernel_line_read_witness:
  "image_of_line (maps_line [49, 102] [50, 48] [114] [48] [48] [49] 2 [47, 97])
    = Some (31, unescape_proc_path [47, 97])"
proof -
  have hex: "parse_hex [49, 102] = Some 31" "parse_hex [48] = Some 0"
    by (simp_all add: parse_hex_def hex_value_def)
  have "graphic [49, 102]" "graphic [50, 48]" "graphic [114]" "graphic [48]" "graphic [49]" "graphic [47, 97]"
    by (simp_all add: graphic_def)
  then show ?thesis
    using kernel_line_read [of "[49, 102]" "[50, 48]" "[114]" "[48]" "[48]" "[49]" "[47, 97]" 31 0 2] hex
    by simp
qed

end
