(* ===== verification/Publish.thy ===== *)
theory Publish
  imports "HOL-Library.Sublist" Encode Stream Heap_Validate Pprof_Codec
begin

text \<open>
  Live publishing (\<open>src/main.rs\<close> and \<open>publish_heap_checkpoint\<close> of \<open>src/stream.rs\<close>): the cursor,
  the incremental symbolizer and the session publisher working together.

  The environments of \<open>Stream\<close> give what the network answers in each call; the record \<open>host\<close>
  collects the other parameters, which the theories \<open>Symbolize\<close> and \<open>Encode\<close> describe.
\<close>

section \<open>Heap checkpoints\<close>

datatype publish_error = Invalid error | Io io_error

definition publish_heap_checkpoint :: "environment \<Rightarrow> profile \<Rightarrow> publisher
    \<Rightarrow> (publish_error + bool) \<times> publisher" where
  "publish_heap_checkpoint env p publisher =
     (case validate_profile p of
        Inl e \<Rightarrow> (Inl (Invalid e), publisher)
      | Inr _ \<Rightarrow>
          (case send env ProfileCheckpoint (profile_encode p) publisher of
             (Inl e, publisher) \<Rightarrow> (Inl (Io e), publisher)
           | (Inr b, publisher) \<Rightarrow> (Inr b, publisher)))"

section \<open>One update\<close>

record host =
  h_demangle :: demangler
  h_disk :: disk
  h_native :: architecture
  h_file_size :: "string \<Rightarrow> u64 option"

text \<open>The variables of the publishing loops.\<close>

record session =
  se_cursor :: cursor
  se_symbolizer :: "native_symbolizer option"
  se_publisher :: publisher

text \<open>\<open>unwrap_or(false)\<close>.\<close>

definition unwrap_or_false :: "'e + bool \<Rightarrow> bool" where
  "unwrap_or_false r = (case r of Inl _ \<Rightarrow> False | Inr b \<Rightarrow> b)"

definition snapshot_addresses :: "raw_profile \<Rightarrow> u64 list" where
  "snapshot_addresses snapshot = concat (map (\<lambda>((_, stack), _). stack) (rp_stacks snapshot))"

definition update_symbolizer :: "host \<Rightarrow> raw_profile \<Rightarrow> native_symbolizer option \<Rightarrow> native_symbolizer" where
  "update_symbolizer h snapshot symbolizer =
     resolve_more (h_demangle h) (h_disk h) (h_native h) (snapshot_addresses snapshot)
       (refresh_images (rp_images snapshot)
         (case symbolizer of
            Some s \<Rightarrow> s
          | None \<Rightarrow> native_new (h_demangle h) (h_disk h) (h_native h) (rp_images snapshot) []))"

text \<open>The environments answer \<open>ensure_connected\<close> and \<open>send\<close>; the error is the panic of \<open>to_pprof\<close>.\<close>

definition publish_update :: "host \<Rightarrow> u32 \<Rightarrow> int \<Rightarrow> environment \<times> environment \<Rightarrow> raw_profile
    \<Rightarrow> session \<Rightarrow> session result" where
  "publish_update h freq start_wall env snapshot s =
     (let symbolizer = update_symbolizer h snapshot (se_symbolizer s);
          (connected, publisher) = ensure_connected (fst env) (se_publisher s);
          s = s\<lparr>se_symbolizer := Some symbolizer, se_publisher := publisher\<rparr> in
      if \<not> unwrap_or_false connected then Inr s
      else
        (case delta (se_cursor s) snapshot of
           (None, _) \<Rightarrow> Inr s
         | (Some d, candidate) \<Rightarrow>
             let live = from_raw_with_symbolizer d (native_symbolize symbolizer) Hex freq start_wall in
             bindr (build_proto (h_file_size h) live) (\<lambda>payload.
               let (sent, publisher) = send (snd env) ProfileDelta payload (se_publisher s);
                   s = s\<lparr>se_publisher := publisher\<rparr> in
               Inr (if unwrap_or_false sent then s\<lparr>se_cursor := candidate\<rparr> else s))))"

section \<open>A session\<close>

text \<open>The rounds of the loop that publish: the network's answers and the snapshot taken.\<close>

type_synonym round = "(environment \<times> environment) \<times> raw_profile"

definition session_new :: "publisher \<Rightarrow> session" where
  "session_new publisher = \<lparr>se_cursor = cursor_default, se_symbolizer = None, se_publisher = publisher\<rparr>"

text \<open>What a round delivered, read off the connection and not off the cursor: the delta that was due,
  when after the round the connection ends with a whole \<open>ProfileDelta\<close> frame that carries its encoding.
  Every failed write drops the connection, so an earlier frame cannot be taken for this one.\<close>

definition delivered :: "host \<Rightarrow> u32 \<Rightarrow> int \<Rightarrow> session \<Rightarrow> raw_profile \<Rightarrow> session \<Rightarrow> raw_profile option" where
  "delivered h freq wall s snapshot s' =
     (case (fst (delta (se_cursor s) snapshot), pub_stream (se_publisher s')) of
        (Some d, Some connection) \<Rightarrow>
          (case build_proto (h_file_size h) (from_raw_with_symbolizer d
               (native_symbolize (update_symbolizer h snapshot (se_symbolizer s))) Hex freq wall) of
             Inl _ \<Rightarrow> None
           | Inr payload \<Rightarrow>
               if suffix (frame_bytes ProfileDelta (pub_sequence (se_publisher s')) payload) connection
               then Some d else None)
      | _ \<Rightarrow> None)"

fun publish_rounds :: "host \<Rightarrow> u32 \<Rightarrow> int \<Rightarrow> round list \<Rightarrow> session
    \<Rightarrow> (raw_profile option list \<times> session) result" where
  "publish_rounds h freq wall [] s = Inr ([], s)"
| "publish_rounds h freq wall (r # rs) s =
     bindr (publish_update h freq wall (fst r) (snd r) s) (\<lambda>s'.
     bindr (publish_rounds h freq wall rs s') (\<lambda>(ds, t). Inr (delivered h freq wall s (snd r) s' # ds, t)))"

section \<open>What an update does\<close>

lemma ensure_connected_lost:
  assumes "ensure_connected env p = (r, p')" and "\<not> unwrap_or_false r"
  shows "pub_stream p' = None"
proof (cases "pub_stream p")
  case None
  then show ?thesis
    using assms
    by (auto simp: ensure_connected_def connect_def unwrap_or_false_def Let_def
        split: option.splits sum.splits prod.splits if_splits)
qed (use assms in \<open>auto simp: ensure_connected_def unwrap_or_false_def\<close>)

lemma publish_update_cases:
  assumes "publish_update h freq wall env snapshot s = Inr s'"
  obtains (kept) "se_cursor s' = se_cursor s"
      "fst (delta (se_cursor s) snapshot) = None \<or> pub_stream (se_publisher s') = None"
    | (sent) d payload pre where "delta (se_cursor s) snapshot = (Some d, se_cursor s')"
      "build_proto (h_file_size h) (from_raw_with_symbolizer d
         (native_symbolize (update_symbolizer h snapshot (se_symbolizer s))) Hex freq wall) = Inr payload"
      "pub_stream (se_publisher s') =
         Some (pre @ frame_bytes ProfileDelta (pub_sequence (se_publisher s')) payload)"
proof -
  obtain connected publisher where c: "ensure_connected (fst env) (se_publisher s) = (connected, publisher)"
    by (cases "ensure_connected (fst env) (se_publisher s)")
  show thesis
  proof (cases "unwrap_or_false connected \<and> fst (delta (se_cursor s) snapshot) \<noteq> None")
    case False
    then show ?thesis
      using assms c ensure_connected_lost [OF c]
      by (intro kept) (auto simp: publish_update_def Let_def split: prod.splits option.splits if_splits)
  next
    case True
    then obtain d c' where d: "delta (se_cursor s) snapshot = (Some d, c')"
      by (cases "delta (se_cursor s) snapshot") auto
    obtain payload where payload: "build_proto (h_file_size h) (from_raw_with_symbolizer d
         (native_symbolize (update_symbolizer h snapshot (se_symbolizer s))) Hex freq wall) = Inr payload"
      and s': "s' = (let (sent, publisher) = send (snd env) ProfileDelta payload publisher in
        if unwrap_or_false sent
        then s\<lparr>se_symbolizer := Some (update_symbolizer h snapshot (se_symbolizer s)),
               se_publisher := publisher, se_cursor := c'\<rparr>
        else s\<lparr>se_symbolizer := Some (update_symbolizer h snapshot (se_symbolizer s)),
               se_publisher := publisher\<rparr>)"
      using assms True c d by (auto simp: publish_update_def Let_def bindr_Inr_iff split_beta)
    show ?thesis
    proof (cases "fst (send (snd env) ProfileDelta payload publisher) = Inr True")
      case True
      then obtain pre where "pub_stream (snd (send (snd env) ProfileDelta payload publisher)) = Some (pre @
        frame_bytes ProfileDelta (pub_sequence (snd (send (snd env) ProfileDelta payload publisher))) payload)"
        by (cases "snd env" ProfileDelta payload publisher rule: send_cases) auto
      then show ?thesis
        using True d payload by (intro sent) (simp_all add: s' split_beta Let_def unwrap_or_false_def)
    next
      case False
      then have "\<not> unwrap_or_false (fst (send (snd env) ProfileDelta payload publisher))"
        by (auto simp: unwrap_or_false_def split: sum.splits)
      moreover have "pub_stream (snd (send (snd env) ProfileDelta payload publisher)) = None"
        using False by (cases "snd env" ProfileDelta payload publisher rule: send_cases) auto
      ultimately show ?thesis by (intro kept) (simp_all add: s' split_beta Let_def)
    qed
  qed
qed

lemma publish_update_counts:
  assumes "publish_update h freq wall env snapshot s = Inr s'" and "raw_ok snapshot"
  shows "seen_count (se_cursor s) k + delta_count (delivered h freq wall s snapshot s') k = seen_count (se_cursor s') k"
    and "delivered h freq wall s snapshot s' \<noteq> None \<Longrightarrow>
      seen_count (se_cursor s') k = max (seen_count (se_cursor s) k) (count_of (rp_stacks snapshot) k)"
proof -
  have dist: "distinct (map fst (rp_stacks snapshot))" using assms(2) by (simp add: raw_ok_def)
  have "seen_count (se_cursor s) k + delta_count (delivered h freq wall s snapshot s') k = seen_count (se_cursor s') k
    \<and> (delivered h freq wall s snapshot s' \<noteq> None \<longrightarrow>
      seen_count (se_cursor s') k = max (seen_count (se_cursor s) k) (count_of (rp_stacks snapshot) k))"
  proof (cases rule: publish_update_cases [OF assms(1)])
    case 1
    then have "delivered h freq wall s snapshot s' = None" by (auto simp: delivered_def split: option.splits)
    then show ?thesis using 1(1) by (simp add: delta_count_def)
  next
    case (2 d payload pre)
    then have "delivered h freq wall s snapshot s' = Some d" by (simp add: delivered_def suffix_def)
    then show ?thesis using delta_count [OF dist 2(1), of k] by simp
  qed
  then show "seen_count (se_cursor s) k + delta_count (delivered h freq wall s snapshot s') k = seen_count (se_cursor s') k"
    and "delivered h freq wall s snapshot s' \<noteq> None \<Longrightarrow>
      seen_count (se_cursor s') k = max (seen_count (se_cursor s) k) (count_of (rp_stacks snapshot) k)"
    by blast+
qed

lemma publish_rounds_counts:
  assumes "publish_rounds h freq wall rs s = Inr (ds, t)" and "list_all raw_ok (map snd rs)"
  shows "seen_count (se_cursor s) k + sum_list (map (\<lambda>d. delta_count d k) ds) = seen_count (se_cursor t) k"
  using assms
proof (induction rs arbitrary: s ds)
  case (Cons r rs)
  obtain s' ds' where step: "publish_update h freq wall (fst r) (snd r) s = Inr s'"
    and rest: "publish_rounds h freq wall rs s' = Inr (ds', t)" and ds: "ds = delivered h freq wall s (snd r) s' # ds'"
    using Cons.prems(1) by (auto simp: bindr_Inr_iff)
  show ?case
    using Cons.IH [OF rest] Cons.prems(2) publish_update_counts(1) [OF step, of k] by (simp add: ds)
qed simp

lemma publish_rounds_bound:
  assumes "publish_rounds h freq wall rs s = Inr (ds, t)" and "list_all raw_ok (map snd rs)"
    and "seen_count (se_cursor s) k \<le> n" and "\<forall>r\<in>set rs. count_of (rp_stacks (snd r)) k \<le> n"
  shows "seen_count (se_cursor t) k \<le> n"
  using assms
proof (induction rs arbitrary: s ds)
  case (Cons r rs)
  obtain s' ds' where step: "publish_update h freq wall (fst r) (snd r) s = Inr s'"
    and rest: "publish_rounds h freq wall rs s' = Inr (ds', t)"
    using Cons.prems(1) by (auto simp: bindr_Inr_iff)
  have ok: "raw_ok (snd r)" using Cons.prems(2) by simp
  have "seen_count (se_cursor s') k \<le> n"
  proof (cases "delivered h freq wall s (snd r) s'")
    case None
    then show ?thesis
      using publish_update_counts(1) [OF step ok, of k] Cons.prems(3) by (simp add: delta_count_def)
  next
    case (Some d)
    then show ?thesis
      using publish_update_counts(2) [OF step ok, of k] Cons.prems(3,4) by simp
  qed
  then show ?case using Cons.IH [OF rest] Cons.prems(2,4) by simp
qed simp

section \<open>A network that works\<close>

lemma healthy_ensure_connected:
  assumes "healthy env hello"
  shows "\<exists>p'. ensure_connected env p = (Inr True, p')"
  using assms healthy_write_frame [OF assms]
  by (cases "pub_stream p") (auto simp: ensure_connected_def connect_def healthy_def Let_def)

lemma build_proto_total: "sp_freq_hz sp \<noteq> 0 \<Longrightarrow> \<exists>bs. build_proto file_size sp = Inr bs"
  by (auto simp: build_proto_def build_profile_def Let_def split_beta)

lemma publish_update_healthy:
  assumes "healthy (fst env) hello" and "healthy (snd env) hello'" and "freq \<noteq> 0" and "raw_ok snapshot"
  shows "\<exists>s'. publish_update h freq wall env snapshot s = Inr s'
    \<and> (\<forall>k. seen_count (se_cursor s') k = max (seen_count (se_cursor s) k) (count_of (rp_stacks snapshot) k))"
proof -
  have dist: "distinct (map fst (rp_stacks snapshot))" using assms(4) by (simp add: raw_ok_def)
  obtain publisher where conn: "ensure_connected (fst env) (se_publisher s) = (Inr True, publisher)"
    using healthy_ensure_connected [OF assms(1)] by blast
  obtain d c' where delta: "delta (se_cursor s) snapshot = (d, c')" by (cases "delta (se_cursor s) snapshot")
  note counts = delta_count [OF dist delta]
  show ?thesis
  proof (cases d)
    case None
    then have "seen_count (se_cursor s) k \<ge> count_of (rp_stacks snapshot) k" for k
      using counts(1) [of k] by (simp add: delta_count_def)
    then show ?thesis
      using None conn delta
      by (auto simp: publish_update_def Let_def unwrap_or_false_def max_def intro: antisym)
  next
    case (Some d')
    have "sp_freq_hz (from_raw_with_symbolizer d' y Hex freq wall) \<noteq> 0" for y
      using assms(3) by (simp add: from_raw_with_symbolizer_def split_beta)
    then obtain payload where payload: "build_proto (h_file_size h) (from_raw_with_symbolizer d'
        (native_symbolize (update_symbolizer h snapshot (se_symbolizer s))) Hex freq wall) = Inr payload"
      using build_proto_total by blast
    have "fst (send (snd env) ProfileDelta payload publisher) = Inr True"
      by (cases "snd env" ProfileDelta payload publisher rule: send_cases)
         (use send_healthy [OF assms(2)] in auto)
    then have upd: "publish_update h freq wall env snapshot s = Inr (s\<lparr>
        se_symbolizer := Some (update_symbolizer h snapshot (se_symbolizer s)),
        se_publisher := snd (send (snd env) ProfileDelta payload publisher), se_cursor := c'\<rparr>)"
      using Some conn delta payload
      by (simp add: publish_update_def Let_def unwrap_or_false_def split_beta)
    show ?thesis unfolding upd by (simp add: counts(2))
  qed
qed

section \<open>Properties\<close>

text \<open>C18: the cursor moves only when the delta computed from it went out whole: then the last thing on
  the connection is a \<open>ProfileDelta\<close> frame with the encoding of that delta, and otherwise the next
  round computes it again.\<close>

theorem cursor_follows_delivery:
  assumes "publish_update h freq wall env snapshot s = Inr s'"
  shows "if se_cursor s' = se_cursor s then True
    else \<exists>d payload pre. delta (se_cursor s) snapshot = (Some d, se_cursor s')
      \<and> build_proto (h_file_size h) (from_raw_with_symbolizer d
          (native_symbolize (update_symbolizer h snapshot (se_symbolizer s))) Hex freq wall) = Inr payload
      \<and> pub_stream (se_publisher s') =
          Some (pre @ frame_bytes ProfileDelta (pub_sequence (se_publisher s')) payload)"
  by (cases rule: publish_update_cases [OF assms]) auto

definition demo_offline :: environment where
  "demo_offline = demo_network\<lparr>env_connect := Some ConnectionRefused\<rparr>"

definition demo_host :: host where
  "demo_host = \<lparr>h_demangle = \<lambda>n. n, h_disk = \<lambda>_. None, h_native = X86_64, h_file_size = \<lambda>_. None\<rparr>"

definition demo_publisher :: publisher where
  "demo_publisher = publisher_new default_session_port demo_hello"

lemma demo_healthy: "healthy demo_network [123, 125]"
  by (simp add: healthy_def demo_network_def)

lemma demo_raw_5: "raw_ok (demo_raw [5])" "count_of (rp_stacks (demo_raw [5])) (1, [16]) = 1"
  by (simp_all add: demo_raw_def raw_ok_def series_ok_def series_timed_def count_of_def)

theorem cursor_follows_delivery_witness:
  "\<exists>s d payload pre. publish_update demo_host 99 0 (demo_network, demo_network) (demo_raw [5])
      (session_new demo_publisher) = Inr s
    \<and> delta cursor_default (demo_raw [5]) = (Some d, se_cursor s)
    \<and> pub_stream (se_publisher s) =
        Some (pre @ frame_bytes ProfileDelta (pub_sequence (se_publisher s)) payload)"
proof -
  have start: "seen_count (se_cursor (session_new demo_publisher)) k = 0" for k
    by (simp add: session_new_def seen_count_def cursor_default_def cursor_previous_def)
  have "healthy (fst (demo_network, demo_network)) [123, 125]" "healthy (snd (demo_network, demo_network)) [123, 125]"
    using demo_healthy by simp_all
  from publish_update_healthy [OF this _ demo_raw_5(1), of 99 demo_host 0 "session_new demo_publisher"]
  obtain s where s: "publish_update demo_host 99 0 (demo_network, demo_network) (demo_raw [5])
      (session_new demo_publisher) = Inr s"
    and seen: "seen_count (se_cursor s) (1, [16]) = 1"
    using start demo_raw_5(2) by auto
  have "se_cursor s \<noteq> se_cursor (session_new demo_publisher)"
    using seen by (auto simp: session_new_def seen_count_def cursor_default_def cursor_previous_def)
  then show ?thesis
    using cursor_follows_delivery [OF s] s by (auto simp: session_new_def)
qed

text \<open>C17: whatever the network does, the frames a session has put out whole never carry more of a stack
  than its snapshots held, and one round over a working network makes up for every round that was
  lost: it puts out a frame with which the counts of the stack in all the frames that went out add up
  to exactly its count in the latest snapshot. What went out is read off the connection.\<close>

theorem outages_are_made_up:
  assumes "publish_rounds h freq wall rs (session_new publisher) = Inr (ds, s)"
    and "list_all raw_ok (map snd rs)" and "raw_ok snapshot"
    and "\<forall>r\<in>set rs. count_of (rp_stacks (snd r)) k \<le> count_of (rp_stacks snapshot) k"
    and "healthy (fst env) hello" and "healthy (snd env) hello'" and "freq \<noteq> 0"
  shows "sum_list (map (\<lambda>d. delta_count d k) ds) \<le> count_of (rp_stacks snapshot) k
    \<and> (\<exists>s'. publish_update h freq wall env snapshot s = Inr s'
        \<and> sum_list (map (\<lambda>d. delta_count d k) ds) + delta_count (delivered h freq wall s snapshot s') k
            = count_of (rp_stacks snapshot) k)"
proof -
  let ?n = "count_of (rp_stacks snapshot) k"
  have start: "seen_count (se_cursor (session_new publisher)) k = 0"
    by (simp add: session_new_def seen_count_def cursor_default_def cursor_previous_def)
  have sum: "sum_list (map (\<lambda>d. delta_count d k) ds) = seen_count (se_cursor s) k"
    using publish_rounds_counts [OF assms(1,2), of k] start by simp
  have bound: "seen_count (se_cursor s) k \<le> ?n"
    by (rule publish_rounds_bound [OF assms(1,2) _ assms(4)]) (simp add: start)
  obtain s' where s': "publish_update h freq wall env snapshot s = Inr s'"
    "seen_count (se_cursor s') k = max (seen_count (se_cursor s) k) ?n"
    using publish_update_healthy [OF assms(5,6,7,3)] by metis
  show ?thesis
    using publish_update_counts(1) [OF s'(1) assms(3), of k] s' sum bound by auto
qed

theorem outages_are_made_up_witness:
  "\<exists>ds s s'. publish_rounds demo_host 99 0 [((demo_offline, demo_offline), demo_raw [5])]
       (session_new demo_publisher) = Inr (ds, s)
    \<and> publish_update demo_host 99 0 (demo_network, demo_network) (demo_raw [5]) s = Inr s'
    \<and> sum_list (map (\<lambda>d. delta_count d (1, [16])) ds)
        + delta_count (delivered demo_host 99 0 s (demo_raw [5]) s') (1, [16]) = 1"
proof -
  have "\<exists>ds s. publish_rounds demo_host 99 0 [((demo_offline, demo_offline), demo_raw [5])]
      (session_new demo_publisher) = Inr (ds, s)"
    by (simp add: publish_update_def ensure_connected_def session_new_def demo_publisher_def
        publisher_new_def connect_def demo_offline_def unwrap_or_false_def Let_def)
  then obtain ds s where run: "publish_rounds demo_host 99 0 [((demo_offline, demo_offline), demo_raw [5])]
      (session_new demo_publisher) = Inr (ds, s)" by blast
  show ?thesis
    using outages_are_made_up [OF run, of "demo_raw [5]" "(1, [16])" "(demo_network, demo_network)"
        "[123, 125]" "[123, 125]"] run demo_healthy demo_raw_5
    by auto
qed

end
