(* ===== verification/Float64.thy ===== *)
theory Float64
  imports Complex_Main Prelude
begin

text \<open>
  The \<open>f64\<close> arithmetic of the report (\<open>src/report.rs\<close>). The values it computes are zero or lie
  between \<open>10 ^ -19\<close> and \<open>10 ^ 21\<close>, where binary64 has neither subnormal numbers nor infinities,
  so a value is the rational it stands for, and each operation is the exact one followed by
  \<open>f64_round\<close>: to 53 bits, ties to even. Decimal formatting is exact, ties to even as well.
\<close>

section \<open>Rounding\<close>

fun bit_len :: "nat \<Rightarrow> nat" where
  "bit_len n = (if n = 0 then 0 else Suc (bit_len (n div 2)))"

declare bit_len.simps [simp del]

text \<open>The exponent of a positive rational: the largest \<open>e\<close> with \<open>2 ^ e \<le> x\<close>.\<close>

definition rat_exponent :: "rat \<Rightarrow> int" where
  "rat_exponent x =
     (let (p, q) = quotient_of x; e = int (bit_len (nat p)) - int (bit_len (nat q)) in
      if x < 2 powi e then e - 1 else e)"

definition round_half_even :: "rat \<Rightarrow> int" where
  "round_half_even x =
     (let f = \<lfloor>x\<rfloor>; d = x - of_int f in
      if d < 1 / 2 \<or> (d = 1 / 2 \<and> even f) then f else f + 1)"

definition f64_round_pos :: "rat \<Rightarrow> rat" where
  "f64_round_pos x =
     (if x = 0 then 0
      else let u = 2 powi (rat_exponent x - 52) in of_int (round_half_even (x / u)) * u)"

definition f64_round :: "rat \<Rightarrow> rat" where
  "f64_round x = (if x < 0 then - f64_round_pos (- x) else f64_round_pos x)"

definition f64_of_i64 :: "i64 \<Rightarrow> rat" where
  "f64_of_i64 v = f64_round (of_int (sint v))"

text \<open>A parameter of type \<open>f64\<close> may be any value; the comparison \<open>x >= m\<close>.\<close>

datatype f64 = Finite rat | PosInfinity | NegInfinity | NotANumber

fun f64_ge :: "rat \<Rightarrow> f64 \<Rightarrow> bool" where
  "f64_ge x (Finite m) \<longleftrightarrow> m \<le> x"
| "f64_ge x PosInfinity \<longleftrightarrow> False"
| "f64_ge x NegInfinity \<longleftrightarrow> True"
| "f64_ge x NotANumber \<longleftrightarrow> False"

section \<open>Rounding is monotone\<close>

lemma bit_len_bounds: "0 < n \<Longrightarrow> 2 ^ (bit_len n - 1) \<le> n \<and> n < 2 ^ bit_len n"
proof (induction n rule: bit_len.induct)
  case (1 n)
  show ?case
  proof (cases "n div 2 = 0")
    case True
    then have "n = 1" using 1 by auto
    then show ?thesis by (simp add: bit_len.simps)
  next
    case False
    then have "2 ^ (bit_len (n div 2) - 1) \<le> n div 2" "n div 2 < 2 ^ bit_len (n div 2)"
      and "0 < bit_len (n div 2)"
      using 1 bit_len.simps [of "n div 2"] by auto
    then have "2 ^ bit_len (n div 2) \<le> n \<and> n < 2 ^ Suc (bit_len (n div 2))"
      by (cases "bit_len (n div 2)") auto
    then show ?thesis using 1 by (subst (1 2) bit_len.simps) simp
  qed
qed

lemma bit_len_rat:
  assumes "0 < n"
  shows "(2 :: rat) ^ (bit_len n - 1) \<le> of_nat n" and "(of_nat n :: rat) < 2 ^ bit_len n"
proof -
  have "(of_nat (2 ^ (bit_len n - 1)) :: rat) \<le> of_nat n" "(of_nat n :: rat) < of_nat (2 ^ bit_len n)"
    using bit_len_bounds [OF assms] by (simp_all only: of_nat_le_iff of_nat_less_iff)
  then show "(2 :: rat) ^ (bit_len n - 1) \<le> of_nat n" "(of_nat n :: rat) < 2 ^ bit_len n" by simp_all
qed

lemma powi_less_iff: "(2 :: rat) powi a < 2 powi b \<longleftrightarrow> a < b"
  using power_int_increasing [of b a "2 :: rat"] power_int_strict_increasing [of a b "2 :: rat"]
  by fastforce

lemma powi_nat_diff: "(2 :: rat) powi (int a - int b) = 2 ^ a / 2 ^ b"
  by (simp add: power_int_diff)

lemma rat_exponent:
  assumes "0 < x"
  shows "2 powi rat_exponent x \<le> x \<and> x < 2 powi (rat_exponent x + 1)"
proof -
  obtain p q where pq: "quotient_of x = (p, q)" by (cases "quotient_of x")
  then have q: "0 < q" and x: "x = of_int p / of_int q"
    using quotient_of_denom_pos quotient_of_div by blast+
  have p: "0 < p" using assms q by (simp add: x zero_less_divide_iff)
  define m where "m = nat p"
  define n where "n = nat q"
  define a where "a = bit_len m"
  define b where "b = bit_len n"
  have mn: "0 < m" "0 < n" and x: "x = of_nat m / of_nat n" using p q by (simp_all add: m_def n_def x)
  have ab: "a = Suc (a - 1)" "b = Suc (b - 1)"
    using mn bit_len.simps [of m] bit_len.simps [of n] by (simp_all add: a_def b_def)
  note m = bit_len_rat [OF mn(1), folded a_def] and n = bit_len_rat [OF mn(2), folded b_def]
  have low: "2 ^ (a - 1) / 2 ^ b \<le> x"
    unfolding x using m n mn by (intro frac_le) simp_all
  have high: "x < 2 ^ a / 2 ^ (b - 1)"
    unfolding x using m n mn by (intro frac_less) simp_all
  have "int a - int b - 1 = int (a - 1) - int b" "int a - int b + 1 = int a - int (b - 1)"
    using ab by linarith+
  then have "2 powi (int a - int b - 1) \<le> x" "x < 2 powi (int a - int b + 1)"
    using low high by (simp_all only: powi_nat_diff)
  then show ?thesis
    by (simp add: rat_exponent_def pq m_def [symmetric] n_def [symmetric] a_def [symmetric]
        b_def [symmetric] Let_def)
qed

lemma round_half_even_int [simp]: "round_half_even (of_int n) = n"
  by (simp add: round_half_even_def)

lemma round_half_even_mono: "x \<le> y \<Longrightarrow> round_half_even x \<le> round_half_even y"
proof (cases "\<lfloor>x\<rfloor> = \<lfloor>y\<rfloor>")
  case True
  assume "x \<le> y"
  then show ?thesis using True by (auto simp: round_half_even_def Let_def)
next
  case False
  assume "x \<le> y"
  then have "\<lfloor>x\<rfloor> + 1 \<le> \<lfloor>y\<rfloor>" using False floor_mono [of x y] by linarith
  moreover have "round_half_even x \<le> \<lfloor>x\<rfloor> + 1" "\<lfloor>y\<rfloor> \<le> round_half_even y"
    by (simp_all add: round_half_even_def Let_def)
  ultimately show ?thesis by linarith
qed

text \<open>Between two powers of two.\<close>

lemma f64_round_pos_power:
  assumes "2 powi e \<le> x" and "x < 2 powi (e + 1)"
  shows "f64_round_pos x = of_int (round_half_even (x / 2 powi (e - 52))) * 2 powi (e - 52)"
    and "2 powi e \<le> f64_round_pos x" and "f64_round_pos x \<le> 2 powi (e + 1)"
proof -
  let ?u = "(2 :: rat) powi (e - 52)"
  have x: "0 < x" using assms(1) zero_less_power_int [of "2 :: rat" e] by linarith
  have "(2 :: rat) powi rat_exponent x < 2 powi (e + 1)" "(2 :: rat) powi e < 2 powi (rat_exponent x + 1)"
    using rat_exponent [OF x] assms by linarith+
  then have "rat_exponent x < e + 1" "e < rat_exponent x + 1"
    by (simp_all add: powi_less_iff)
  then have "rat_exponent x = e" by linarith
  then show eq: "f64_round_pos x = of_int (round_half_even (x / ?u)) * ?u"
    using x by (simp add: f64_round_pos_def Let_def)
  have u: "0 < ?u" by simp
  have pow: "2 powi e = of_int (2 ^ 52) * ?u" "2 powi (e + 1) = of_int (2 ^ 53) * ?u"
    by (simp_all add: power_int_diff power_int_add)
  have "round_half_even (of_int (2 ^ 52)) \<le> round_half_even (x / ?u)"
    using assms(1) u unfolding pow by (intro round_half_even_mono) (simp add: pos_le_divide_eq)
  then have "2 ^ 52 \<le> round_half_even (x / ?u)" by (simp only: round_half_even_int)
  then show "2 powi e \<le> f64_round_pos x"
    unfolding eq pow by (intro mult_right_mono) (simp_all only: of_int_le_iff less_imp_le [OF u])
  have "round_half_even (x / ?u) \<le> round_half_even (of_int (2 ^ 53))"
    using assms(2) u unfolding pow by (intro round_half_even_mono) (simp add: pos_divide_le_eq)
  then have "round_half_even (x / ?u) \<le> 2 ^ 53" by (simp only: round_half_even_int)
  then show "f64_round_pos x \<le> 2 powi (e + 1)"
    unfolding eq pow by (intro mult_right_mono) (simp_all only: of_int_le_iff less_imp_le [OF u])
qed

lemma f64_round_pos_mono:
  assumes "0 < x" and "x \<le> y"
  shows "f64_round_pos x \<le> f64_round_pos y"
proof -
  let ?e = "rat_exponent x" and ?f = "rat_exponent y"
  note x = rat_exponent [OF assms(1)] and y = rat_exponent [of y]
  have "0 < y" using assms by simp
  note x = rat_exponent [OF assms(1)] and y = rat_exponent [OF \<open>0 < y\<close>]
  note rx = f64_round_pos_power [OF conjunct1 [OF x] conjunct2 [OF x]]
    and ry = f64_round_pos_power [OF conjunct1 [OF y] conjunct2 [OF y]]
  have "(2 :: rat) powi ?e < 2 powi (?f + 1)" using x y assms(2) by linarith
  then have "?e < ?f + 1" by (simp add: powi_less_iff)
  then consider "?e = ?f" | "?e + 1 \<le> ?f" by linarith
  then show ?thesis
  proof cases
    case 1
    have "round_half_even (x / 2 powi (?f - 52)) \<le> round_half_even (y / 2 powi (?f - 52))"
      using assms(2) by (intro round_half_even_mono divide_right_mono) simp_all
    then show ?thesis unfolding rx(1) ry(1) 1 by (intro mult_right_mono) simp_all
  next
    case 2
    then have "(2 :: rat) powi (?e + 1) \<le> 2 powi ?f" by (intro power_int_increasing) simp_all
    then show ?thesis using rx(3) ry(2) by linarith
  qed
qed

lemma f64_round_pos_0 [simp]: "f64_round_pos 0 = 0"
  by (simp add: f64_round_pos_def)

lemma f64_round_pos_le_power: "0 \<le> x \<Longrightarrow> x \<le> 2 powi e \<Longrightarrow> f64_round_pos x \<le> 2 powi e"
proof (cases "x = 0")
  case False
  assume "0 \<le> x" "x \<le> 2 powi e"
  then have x: "0 < x" "2 powi rat_exponent x \<le> x" "x < 2 powi (rat_exponent x + 1)"
    using False rat_exponent [of x] by auto
  note r = f64_round_pos_power [OF x(2,3)]
  show ?thesis
  proof (cases "rat_exponent x + 1 \<le> e")
    case True
    then have "(2 :: rat) powi (rat_exponent x + 1) \<le> 2 powi e" by (intro power_int_increasing) simp_all
    then show ?thesis using r(3) by linarith
  next
    case False
    then have "(2 :: rat) powi e \<le> 2 powi rat_exponent x" by (intro power_int_increasing) simp_all
    then have "x = 2 powi rat_exponent x" "(2 :: rat) powi e = 2 powi rat_exponent x"
      using x(2) \<open>x \<le> 2 powi e\<close> by linarith+
    moreover have "(2 :: rat) powi k / 2 powi (k - 52) = of_int (2 ^ 52)" for k
      by (simp add: power_int_diff)
    ultimately show ?thesis using r(1) by (metis mult.commute nonzero_mult_div_cancel_left order_refl
          power_int_eq_0_iff round_half_even_int times_divide_eq_right zero_neq_numeral)
  qed
qed simp

lemma f64_round_pos_nonneg: "0 \<le> x \<Longrightarrow> 0 \<le> f64_round_pos x"
proof (cases "x = 0")
  case False
  assume "0 \<le> x"
  then have "2 powi rat_exponent x \<le> f64_round_pos x"
    using False rat_exponent [of x] f64_round_pos_power(2) by simp
  then show ?thesis using zero_less_power_int [of "2 :: rat" "rat_exponent x"] by linarith
qed simp

lemma f64_round_pos_pos: "0 < x \<Longrightarrow> 0 < f64_round_pos x"
proof -
  assume "0 < x"
  then have "2 powi rat_exponent x \<le> f64_round_pos x"
    using rat_exponent [of x] f64_round_pos_power(2) by simp
  then show ?thesis using zero_less_power_int [of "2 :: rat" "rat_exponent x"] by linarith
qed

text \<open>A whole number of at most 53 bits is exact.\<close>

lemma f64_round_pos_nat:
  assumes "0 < n" and "n < 2 ^ 53"
  shows "f64_round_pos (of_nat n) = of_nat n"
proof -
  obtain k where k: "bit_len n = Suc k" using assms(1) bit_len.simps [of n] by simp
  have "(2 :: nat) ^ k \<le> n" using bit_len_bounds [OF assms(1)] by (simp add: k)
  then have "(2 :: nat) ^ k < 2 ^ 53" using assms(2) by linarith
  then have "k < 53" by (rule power_less_imp_less_exp [rotated]) simp
  then have e: "int k - 52 = - int (52 - k)" by simp
  have "2 powi int k \<le> (of_nat n :: rat)" "(of_nat n :: rat) < 2 powi (int k + 1)"
    using bit_len_rat [OF assms(1)] by (simp_all add: k power_int_add)
  from f64_round_pos_power(1) [OF this]
  have r: "f64_round_pos (of_nat n) =
      of_int (round_half_even (of_nat n / 2 powi (int k - 52))) * 2 powi (int k - 52)" .
  have u: "(2 :: rat) powi (int k - 52) = inverse (2 ^ (52 - k))"
    unfolding e by (simp only: power_int_minus power_int_of_nat)
  then have "(of_nat n :: rat) / 2 powi (int k - 52) = of_int (int n * 2 ^ (52 - k))" by (simp add: divide_inverse)
  then show ?thesis unfolding r by (simp only: round_half_even_int u) simp
qed

lemma f64_round_pos_le_nat:
  assumes "0 \<le> x" and "x \<le> of_nat n" and "n < 2 ^ 53"
  shows "f64_round_pos x \<le> of_nat n"
proof (cases "x = 0")
  case False
  then have "0 < n" using assms(1,2) by (cases n) auto
  then show ?thesis
    using f64_round_pos_mono [of x "of_nat n"] f64_round_pos_nat [OF _ assms(3)] assms False by simp
qed simp

lemma f64_round_pos_le_100: "0 \<le> x \<Longrightarrow> x \<le> 100 \<Longrightarrow> f64_round_pos x \<le> 100"
  using f64_round_pos_le_nat [of x 100] by simp

section \<open>Percentages\<close>

definition percent :: "i64 \<Rightarrow> i64 \<Rightarrow> rat" where
  "percent v tot =
     (if tot = 0 then 0
      else f64_round (f64_round (f64_of_i64 (saturating_abs v) / f64_of_i64 (saturating_abs tot)) * 100))"

lemma sint_saturating_abs_nonneg: "0 \<le> sint (saturating_abs v)"
  by (simp add: saturating_abs_def i64_clamp_def i64_max_def i64_min_def)

lemma saturating_abs_pos: "v \<noteq> 0 \<Longrightarrow> 0 < sint (saturating_abs v)"
  using sint_i64_bounds [of v]
  by (auto simp: saturating_abs_def i64_clamp_def i64_max_def i64_min_def signed_eq_0_iff)

definition magnitude :: "i64 \<Rightarrow> rat" where
  "magnitude v = of_int (sint (saturating_abs v))"

lemma magnitude_nonneg: "0 \<le> magnitude v"
  using sint_saturating_abs_nonneg [of v] by (simp only: magnitude_def of_int_0_le_iff)

lemma magnitude_pos: "v \<noteq> 0 \<Longrightarrow> 0 < magnitude v"
  unfolding magnitude_def of_int_0_less_iff by (rule saturating_abs_pos)

lemma percent_eq: "percent v tot = (if tot = 0 then 0
  else f64_round_pos (f64_round_pos (f64_round_pos (magnitude v) / f64_round_pos (magnitude tot)) * 100))"
proof -
  have "f64_of_i64 (saturating_abs x) = f64_round_pos (magnitude x)" for x
    unfolding f64_of_i64_def magnitude_def [symmetric] using magnitude_nonneg [of x] by (simp add: f64_round_def)
  moreover have "f64_round x = f64_round_pos x" if "0 \<le> x" for x
    using that by (simp add: f64_round_def)
  ultimately show ?thesis
    by (simp add: percent_def f64_round_pos_nonneg magnitude_nonneg)
qed

lemma percent_nonneg: "0 \<le> percent v tot"
  by (simp add: percent_eq f64_round_pos_nonneg magnitude_nonneg)

lemma percent_le_100:
  assumes "sint (saturating_abs v) \<le> sint (saturating_abs tot)"
  shows "percent v tot \<le> 100"
proof (cases "tot = 0")
  case False
  have le: "magnitude v \<le> magnitude tot" using assms by (simp only: magnitude_def of_int_le_iff)
  note pos = magnitude_pos [OF False] and nonneg = magnitude_nonneg [of v]
  have "f64_round_pos (magnitude v) \<le> f64_round_pos (magnitude tot)"
    using le nonneg f64_round_pos_mono [OF _ le] f64_round_pos_nonneg [of "magnitude tot"] pos
    by (cases "magnitude v = 0") simp_all
  then have d: "0 \<le> f64_round_pos (magnitude v) / f64_round_pos (magnitude tot)"
    "f64_round_pos (magnitude v) / f64_round_pos (magnitude tot) \<le> 1"
    using f64_round_pos_pos [OF pos] f64_round_pos_nonneg [OF nonneg] by simp_all
  have "0 \<le> f64_round_pos (f64_round_pos (magnitude v) / f64_round_pos (magnitude tot))"
    "f64_round_pos (f64_round_pos (magnitude v) / f64_round_pos (magnitude tot)) \<le> 1"
    using f64_round_pos_nonneg [OF d(1)] f64_round_pos_le_power [OF d(1), of 0] d(2) by simp_all
  then show ?thesis using False f64_round_pos_le_100 by (simp add: percent_eq)
qed (simp add: percent_def)

end
