(* ===== verification/Render.thy ===== *)
theory Render
  imports Report Float64
begin

text \<open>
  The text of a report (\<open>src/report.rs\<close>): the formatting of values, the summary, the tables of
  frames and stacks, and the call tree with its limit. A string is its UTF-8 bytes; the box
  drawing characters and arrows are written as such. The children of a tree node are listed in
  the iteration order of their \<open>HashMap\<close>, which only decides between children that have the same
  cost and function name.
\<close>

section \<open>Formatting\<close>

definition nl :: string where
  "nl = [CHR 0x0A]"

fun nat_str :: "nat \<Rightarrow> string" where
  "nat_str n = (if n < 10 then [''0123456789'' ! n] else nat_str (n div 10) @ [''0123456789'' ! (n mod 10)])"

declare nat_str.simps [simp del]

definition int_str :: "int \<Rightarrow> string" where
  "int_str i = (if i < 0 then ''-'' @ nat_str (nat (- i)) else nat_str (nat i))"

text \<open>\<open>{:.2}\<close>.\<close>

definition fixed2 :: "rat \<Rightarrow> string" where
  "fixed2 x =
     (let n = nat (round_half_even (\<bar>x\<bar> * 100)) in
      (if x < 0 then ''-'' else []) @ nat_str (n div 100) @ ''.''
        @ [''0123456789'' ! (n div 10 mod 10), ''0123456789'' ! (n mod 10)])"

text \<open>Padding counts characters, not bytes.\<close>

definition char_count :: "string \<Rightarrow> nat" where
  "char_count s = length (filter (\<lambda>c. \<not> utf8_cont (byte_of_char c)) s)"

definition pad_left :: "nat \<Rightarrow> string \<Rightarrow> string" where
  "pad_left w s = replicate (w - char_count s) (CHR '' '') @ s"

definition pad_right :: "nat \<Rightarrow> string \<Rightarrow> string" where
  "pad_right w s = s @ replicate (w - char_count s) (CHR '' '')"

fun join_str :: "string \<Rightarrow> string list \<Rightarrow> string" where
  "join_str sep [] = []"
| "join_str sep [s] = s"
| "join_str sep (s # t # ss) = s @ sep @ join_str sep (t # ss)"

definition ascii_lowercase :: "string \<Rightarrow> string" where
  "ascii_lowercase s =
     map (\<lambda>c. let n = of_char c :: nat in if 65 \<le> n \<and> n \<le> 90 then char_of (n + 32) else c) s"

definition scaled :: "i64 \<Rightarrow> rat \<Rightarrow> string \<Rightarrow> string" where
  "scaled v divisor suf = fixed2 (f64_round (f64_of_i64 v / divisor)) @ suf"

definition format_value :: "i64 \<Rightarrow> string \<Rightarrow> string" where
  "format_value v unit =
     (let magnitude = sint (saturating_abs v); unit = ascii_lowercase unit in
      if unit \<in> {''nanoseconds'', ''nanosecond'', ''ns''} then
        (if magnitude \<ge> 1000000000 then scaled v 1000000000 ''s''
         else if magnitude \<ge> 1000000 then scaled v 1000000 ''ms''
         else if magnitude \<ge> 1000 then scaled v 1000 ''us''
         else int_str (sint v) @ ''ns'')
      else if unit \<in> {''bytes'', ''byte''} then
        (if magnitude \<ge> 1073741824 then scaled v 1073741824 ''GiB''
         else if magnitude \<ge> 1048576 then scaled v 1048576 ''MiB''
         else if magnitude \<ge> 1024 then scaled v 1024 ''KiB''
         else int_str (sint v) @ ''B'')
      else if unit \<in> {'''', ''count'', ''samples'', ''objects''} then int_str (sint v)
      else int_str (sint v) @ '' '' @ unit)"

definition source_location :: "frame_stat \<Rightarrow> string" where
  "source_location f =
     (if fs_file f = [] then []
      else if fs_line f = 0 then fs_file f
      else fs_file f @ '':'' @ int_str (sint (fs_line f)))"

definition replace_char :: "char \<Rightarrow> string \<Rightarrow> string \<Rightarrow> string" where
  "replace_char c rep s = concat (map (\<lambda>x. if x = c then rep else [x]) s)"

definition backtick :: char where
  "backtick = CHR 0x60"

definition markdown_code :: "string \<Rightarrow> string" where
  "markdown_code s =
     (if backtick \<in> set s then [backtick, backtick, CHR '' ''] @ s @ [CHR '' '', backtick, backtick]
      else [backtick] @ s @ [backtick])"

definition markdown_cell :: "string \<Rightarrow> string" where
  "markdown_cell s =
     replace_char (CHR 0x0A) '' '' (replace_char (CHR ''|'') [CHR 0x5C, CHR ''|'']
       (replace_char (CHR 0x5C) [CHR 0x5C, CHR 0x5C] s))"

definition strip_markdown_code :: "string \<Rightarrow> string" where
  "strip_markdown_code s = replace_char backtick [] s"

text \<open>\<open>round\<close> goes away from zero at a half.\<close>

definition bar_filled :: "rat \<Rightarrow> nat \<Rightarrow> nat" where
  "bar_filled percentage width =
     nat \<lfloor>f64_round (f64_round (max 0 (min 100 percentage) / 100) * of_nat width) + 1 / 2\<rfloor>"

definition full_block :: string where
  "full_block = bytes_str [0xE2, 0x96, 0x88]"

definition hotness_bar :: "rat \<Rightarrow> nat \<Rightarrow> string" where
  "hotness_bar percentage width =
     (let filled = bar_filled percentage width in
      concat (replicate filled full_block) @ replicate (width - filled) (CHR '' ''))"

section \<open>Options\<close>

datatype report_view = Summary | TopFrames | TopCumulative | TopStacks | CallTreeView

datatype report_format = Terminal | Markdown

datatype frame_order = FlatOrder | CumulativeOrder

record render_options =
  ro_view :: report_view
  ro_format :: report_format
  ro_limit :: nat
  ro_min_percent :: f64

definition report_value :: "profile_report \<Rightarrow> i64 \<Rightarrow> string" where
  "report_value r v = format_value v (pr_sample_unit r)"

definition report_percent :: "profile_report \<Rightarrow> i64 \<Rightarrow> string" where
  "report_percent r v = fixed2 (percent v (pr_total_value r))"

definition shown :: "profile_report \<Rightarrow> f64 \<Rightarrow> i64 \<Rightarrow> bool" where
  "shown r min_percent v = f64_ge (percent v (pr_total_value r)) min_percent"

section \<open>Frames\<close>

definition cumulative_rank :: "frame_stat \<Rightarrow> int \<times> int \<times> string" where
  "cumulative_rank f = (- sint (saturating_abs (fs_cumulative f)), - sint (saturating_abs (fs_flat f)),
     fs_function f)"

definition order_value :: "frame_order \<Rightarrow> frame_stat \<Rightarrow> i64" where
  "order_value order f = (case order of FlatOrder \<Rightarrow> fs_flat f | CumulativeOrder \<Rightarrow> fs_cumulative f)"

definition rendered_frames :: "profile_report \<Rightarrow> render_options \<Rightarrow> frame_order \<Rightarrow> frame_stat list" where
  "rendered_frames r opts order =
     take (ro_limit opts)
       (filter (\<lambda>f. shown r (ro_min_percent opts) (order_value order f))
         (if order = CumulativeOrder then sort_key cumulative_rank (pr_top_frames r)
          else pr_top_frames r))"

definition markdown_frame :: "profile_report \<Rightarrow> frame_stat \<Rightarrow> string" where
  "markdown_frame r f =
     ''| '' @ report_value r (fs_flat f) @ '' | '' @ report_percent r (fs_flat f) @ ''% | ''
     @ report_value r (fs_cumulative f) @ '' | '' @ report_percent r (fs_cumulative f) @ ''% | ''
     @ markdown_code (fs_function f) @ '' | '' @ markdown_cell (source_location f) @ '' |'' @ nl"

definition terminal_frame :: "profile_report \<Rightarrow> frame_order \<Rightarrow> frame_stat \<Rightarrow> string" where
  "terminal_frame r order f =
     pad_right 20 (hotness_bar (percent (order_value order f) (pr_total_value r)) 20) @ '' ''
     @ pad_left 9 (report_value r (fs_flat f)) @ '' '' @ pad_left 7 (report_percent r (fs_flat f)) @ ''% ''
     @ pad_left 9 (report_value r (fs_cumulative f)) @ '' ''
     @ pad_left 7 (report_percent r (fs_cumulative f)) @ ''%  ''
     @ fs_function f @ ''  '' @ source_location f @ nl"

definition render_frames :: "profile_report \<Rightarrow> render_options \<Rightarrow> report_format \<Rightarrow> frame_order \<Rightarrow> string" where
  "render_frames r opts format order =
     (let frames = rendered_frames r opts order in
      case format of
        Markdown \<Rightarrow>
          ''| Flat | Flat % | Cumulative | Cumulative % | Function | Source |'' @ nl
          @ ''| ---: | ---: | ---: | ---: | --- | --- |'' @ nl @ concat (map (markdown_frame r) frames)
      | Terminal \<Rightarrow>
          ''HOT                       FLAT     FLAT%       CUM      CUM%  FUNCTION  SOURCE'' @ nl
          @ concat (map (terminal_frame r order) frames))"

section \<open>Stacks\<close>

definition rendered_stacks :: "profile_report \<Rightarrow> render_options \<Rightarrow> stack_stat list" where
  "rendered_stacks r opts =
     take (ro_limit opts) (filter (\<lambda>s. shown r (ro_min_percent opts) (sk_value s)) (pr_top_stacks r))"

definition right_arrow :: string where
  "right_arrow = bytes_str [0xE2, 0x86, 0x92]"

definition markdown_stack :: "profile_report \<Rightarrow> nat \<times> stack_stat \<Rightarrow> string" where
  "markdown_stack r e =
     (let (index, s) = e in
      ''### Stack '' @ nat_str (index + 1) @ nl @ nl
      @ ''- Cost: '' @ report_value r (sk_value s) @ nl
      @ ''- Percent of total: '' @ report_percent r (sk_value s) @ ''%'' @ nl
      @ ''- Frames: '' @ nat_str (length (sk_frames s)) @ nl
      @ ''- Path: '' @ join_str ('' '' @ right_arrow @ '' '')
          (map (\<lambda>f. markdown_code (rf_function f)) (sk_frames s)) @ nl @ nl)"

definition terminal_stack :: "profile_report \<Rightarrow> nat \<times> stack_stat \<Rightarrow> string" where
  "terminal_stack r e =
     (let (index, s) = e in
      pad_left 2 (nat_str (index + 1)) @ ''. '' @ pad_left 9 (report_value r (sk_value s)) @ '' ''
      @ pad_left 7 (report_percent r (sk_value s)) @ ''%  ''
      @ join_str '' -> '' (map rf_function (sk_frames s)) @ nl)"

definition render_stacks :: "profile_report \<Rightarrow> render_options \<Rightarrow> report_format \<Rightarrow> string" where
  "render_stacks r opts format =
     (let stacks = List.enumerate 0 (rendered_stacks r opts) in
      case format of
        Markdown \<Rightarrow> ''Stack direction: root caller '' @ right_arrow @ '' leaf sample.'' @ nl @ nl
          @ concat (map (markdown_stack r) stacks)
      | Terminal \<Rightarrow> ''Stack direction: root caller -> leaf sample.'' @ nl @ nl
          @ concat (map (terminal_stack r) stacks))"

section \<open>The call tree\<close>

fun eligible_node_count :: "profile_report \<Rightarrow> f64 \<Rightarrow> call_tree \<Rightarrow> nat" where
  "eligible_node_count r min_percent (CallTree f v self cs) =
     sum_list (map (\<lambda>(_, child). if shown r min_percent (ct_value child)
       then 1 + eligible_node_count r min_percent child else 0) cs)"

definition child_rank :: "call_tree \<Rightarrow> int \<times> string option" where
  "child_rank t = (- sint (saturating_abs (ct_value t)), map_option rf_function (ct_frame t))"

definition shown_children :: "profile_report \<Rightarrow> f64 \<Rightarrow> call_tree \<Rightarrow> call_tree list" where
  "shown_children r min_percent t =
     sort_key child_rank
       (filter (\<lambda>child. shown r min_percent (ct_value child)) (map snd (ct_children t)))"

fun tree_size :: "call_tree \<Rightarrow> nat" where
  "tree_size (CallTree f v self cs) = Suc (sum_list (map (\<lambda>(_, t). tree_size t) cs))"

lemma tree_size_children: "tree_size t = Suc (sum_list (map tree_size (map snd (ct_children t))))"
  by (cases t) (simp add: case_prod_beta' comp_def)

lemma sum_list_sort_key: "sum_list (map g (sort_key f xs)) = (sum_list (map g xs) :: nat)"
  by (metis mset_map mset_sort sum_mset_sum_list)

lemma sum_list_filter: "sum_list (map g (filter P xs)) \<le> (sum_list (map g xs) :: nat)"
  by (induction xs) auto

lemma shown_children_size: "sum_list (map tree_size (shown_children r m t)) < tree_size t"
proof -
  have "sum_list (map tree_size (shown_children r m t)) \<le> sum_list (map tree_size (map snd (ct_children t)))"
    unfolding shown_children_def sum_list_sort_key by (rule sum_list_filter)
  then show ?thesis by (simp add: tree_size_children)
qed

definition corner :: string where
  "corner = bytes_str [0xE2, 0x94, 0x94, 0xE2, 0x94, 0x80, 0x20]"

definition tee :: string where
  "tee = bytes_str [0xE2, 0x94, 0x9C, 0xE2, 0x94, 0x80, 0x20]"

definition bar_prefix :: string where
  "bar_prefix = bytes_str [0xE2, 0x94, 0x82, 0x20, 0x20]"

definition node_line :: "profile_report \<Rightarrow> string \<Rightarrow> string \<Rightarrow> call_tree \<Rightarrow> report_frame \<Rightarrow> string" where
  "node_line r pre connector child f =
     pre @ connector @ report_value r (ct_value child) @ '' ('' @ report_percent r (ct_value child)
     @ ''%) [self: '' @ report_value r (ct_self child) @ '']  '' @ rf_function f"

text \<open>\<open>render_children\<close> and its loop over the sorted children; the state is the lines pushed and
  the number of nodes emitted.\<close>

function render_children :: "profile_report \<Rightarrow> render_options \<Rightarrow> string \<Rightarrow> call_tree
    \<Rightarrow> string list \<times> nat \<Rightarrow> string list \<times> nat"
  and children_loop :: "profile_report \<Rightarrow> render_options \<Rightarrow> string \<Rightarrow> call_tree list
    \<Rightarrow> string list \<times> nat \<Rightarrow> string list \<times> nat" where
  "render_children r opts pre t acc =
     children_loop r opts pre (shown_children r (ro_min_percent opts) t) acc"
| "children_loop r opts pre [] acc = acc"
| "children_loop r opts pre (child # rest) acc =
     (if snd acc \<ge> ro_limit opts then acc
      else
        let is_last = (rest = []);
            acc = (case ct_frame child of
                Some f \<Rightarrow> (fst acc @ [node_line r pre (if is_last then corner else tee) child f], snd acc + 1)
              | None \<Rightarrow> acc);
            descendant_prefix = pre @ (if is_last then ''   '' else bar_prefix)
        in children_loop r opts pre rest (render_children r opts descendant_prefix child acc))"
  by pat_completeness auto

termination
proof (relation "measure (case_sum (\<lambda>(r, opts, pre, t, acc). 2 * tree_size t - 1)
    (\<lambda>(r, opts, pre, cs, acc). sum_list (map (\<lambda>c. 2 * tree_size c) cs)))", goal_cases)
  case (2 r opts pre t acc)
  have "sum_list (map (\<lambda>c. 2 * tree_size c) cs) = 2 * sum_list (map tree_size cs)" for cs
    by (induction cs) auto
  then show ?case using shown_children_size [of r "ro_min_percent opts" t] by simp
next
  case (3 r opts pre child rest acc)
  then show ?case by (cases child) simp
next
  case (4 r opts pre child rest acc)
  then show ?case by (cases child) simp
qed simp

declare render_children.simps [simp del] children_loop.simps [simp del]

text \<open>The root's own value is what the stacks do not account for.\<close>

definition tree_root :: "profile_report \<Rightarrow> call_tree" where
  "tree_root r =
     (case tree_from_stacks (pr_top_stacks r) of
        CallTree f v self cs \<Rightarrow> CallTree f v (saturating_sub (pr_total_value r) (saturating_abs v)) cs)"

definition ellipsis :: string where
  "ellipsis = bytes_str [0xE2, 0x80, 0xA6]"

definition tree_lines :: "profile_report \<Rightarrow> render_options \<Rightarrow> string list" where
  "tree_lines r opts =
     (let tree = tree_root r;
          first = report_value r (pr_total_value r) @ '' (100.00%) [self: ''
            @ report_value r (ct_self tree) @ '']  all samples'';
          eligible = eligible_node_count r (ro_min_percent opts) tree;
          (lines, emitted) = render_children r opts [] tree ([first], 0);
          omitted = eligible - emitted
      in if omitted > 0
         then lines @ [ellipsis @ '' '' @ nat_str omitted @ '' additional call-tree node''
           @ (if omitted = 1 then [] else ''s'') @ '' omitted by --limit'']
         else lines)"

definition min_percent_note :: "f64 \<Rightarrow> string" where
  "min_percent_note m =
     (case m of
        Finite x \<Rightarrow> if x > 0 then ''- Nodes below '' @ fixed2 x @ ''% of total cost are omitted.'' @ nl else []
      | PosInfinity \<Rightarrow> ''- Nodes below inf% of total cost are omitted.'' @ nl
      | _ \<Rightarrow> [])"

definition fence :: string where
  "fence = [backtick, backtick, backtick]"

definition render_tree :: "profile_report \<Rightarrow> render_options \<Rightarrow> report_format \<Rightarrow> string" where
  "render_tree r opts format =
     (let body = join_str nl (tree_lines r opts) in
      case format of
        Terminal \<Rightarrow>
          ''Direction: callers at the top, callees beneath them.'' @ nl
          @ ''Row format: inclusive cost (percent of total) [self cost] function.'' @ nl
          @ ''At most '' @ nat_str (ro_limit opts) @ '' call-tree nodes are shown, hottest branches first.''
          @ nl @ nl @ body @ nl
      | Markdown \<Rightarrow>
          ''- Direction: callers at the top, callees beneath them.'' @ nl
          @ ''- Row format: '' @ [backtick] @ ''inclusive cost (percent of total) [self cost] function''
          @ [backtick] @ ''.'' @ nl
          @ ''- Inclusive cost includes samples in the function and its descendants.'' @ nl
          @ ''- Self cost includes samples attributed directly to the function.'' @ nl
          @ ''- At most '' @ nat_str (ro_limit opts) @ '' call-tree nodes are shown, hottest branches first.'' @ nl
          @ min_percent_note (ro_min_percent opts)
          @ nl @ fence @ ''text'' @ nl @ body @ nl @ fence @ nl)"

section \<open>The summary\<close>

definition self_observation :: "profile_report \<Rightarrow> string list" where
  "self_observation r =
     (case find (\<lambda>f. fs_flat f \<noteq> 0) (pr_top_frames r) of
        None \<Rightarrow> []
      | Some f \<Rightarrow> [markdown_code (fs_function f) @ '' is the largest self-cost hotspot at ''
          @ report_percent r (fs_flat f) @ ''% ('' @ report_value r (fs_flat f) @ '').''])"

definition bottleneck :: "profile_report \<Rightarrow> frame_stat option" where
  "bottleneck r =
     (let cumulative = sort_key (\<lambda>f. - sint (saturating_abs (fs_cumulative f)))
            (filter (\<lambda>f. fs_cumulative f \<noteq> 0) (pr_top_frames r)) in
      case find (\<lambda>f. sint (saturating_abs (fs_cumulative f)) < sint (pr_total_value r)) cumulative of
        Some f \<Rightarrow> Some f
      | None \<Rightarrow> (case cumulative of [] \<Rightarrow> None | f # _ \<Rightarrow> Some f))"

definition cumulative_observation :: "profile_report \<Rightarrow> string list" where
  "cumulative_observation r =
     (case bottleneck r of
        None \<Rightarrow> []
      | Some f \<Rightarrow> [markdown_code (fs_function f) @ '' is on '' @ report_percent r (fs_cumulative f)
          @ ''% of cumulative cost ('' @ report_value r (fs_cumulative f) @ '').''])"

definition stacks_observation :: "profile_report \<Rightarrow> nat \<Rightarrow> string list" where
  "stacks_observation r limit =
     (let stack_count = min (max 1 (min 3 limit)) (length (pr_top_stacks r)) in
      if stack_count > 0 then
        let v = foldl (\<lambda>sum s. saturating_add sum (saturating_abs (sk_value s))) 0
              (take stack_count (pr_top_stacks r)) in
        [''The top '' @ nat_str stack_count @ '' stack'' @ (if stack_count = 1 then [] else ''s'')
          @ '' account'' @ (if stack_count = 1 then ''s'' else []) @ '' for '' @ report_percent r v
          @ ''% of measured cost.'']
      else [])"

definition observations :: "profile_report \<Rightarrow> nat \<Rightarrow> string list" where
  "observations r limit =
     (if pr_total_value r = 0 then [''The selected sample type has no measured cost.'']
      else self_observation r @ cumulative_observation r @ stacks_observation r limit)"

definition summary_counts :: "profile_report \<Rightarrow> string \<Rightarrow> string" where
  "summary_counts r dash =
     dash @ ''Duration: '' @ format_value (pr_duration_nanos r) ''nanoseconds'' @ nl
     @ dash @ ''Sample records: '' @ nat_str (pr_sample_records r) @ nl
     @ dash @ ''Total cost: '' @ report_value r (pr_total_value r) @ nl
     @ dash @ ''Unique frames: '' @ nat_str (length (pr_top_frames r)) @ nl
     @ dash @ ''Unique stacks: '' @ nat_str (length (pr_top_stacks r)) @ nl @ nl"

definition render_markdown_summary :: "profile_report \<Rightarrow> render_options \<Rightarrow> string" where
  "render_markdown_summary r opts =
     ''# pprof Hotspot Report'' @ nl @ nl
     @ ''- Sample type: '' @ markdown_code (pr_sample_type r) @ '' ('' @ markdown_code (pr_sample_unit r) @ '')'' @ nl
     @ ''- Available sample types: '' @ join_str '', '' (map markdown_code (pr_available_sample_types r)) @ nl
     @ summary_counts r ''- ''
     @ ''## Key observations'' @ nl @ nl
     @ concat (map (\<lambda>line. ''- '' @ line @ nl) (observations r (ro_limit opts))) @ nl
     @ ''## Top frames'' @ nl @ nl @ render_frames r opts Markdown FlatOrder @ nl
     @ ''## Top stacks'' @ nl @ nl @ render_stacks r opts Markdown"

definition render_terminal_summary :: "profile_report \<Rightarrow> render_options \<Rightarrow> string" where
  "render_terminal_summary r opts =
     ''PPROF HOTSPOT REPORT'' @ nl
     @ ''Sample type: '' @ pr_sample_type r @ '' ('' @ pr_sample_unit r @ '')'' @ nl
     @ ''Available sample types: '' @ join_str '', '' (pr_available_sample_types r) @ nl
     @ summary_counts r []
     @ ''KEY OBSERVATIONS'' @ nl
     @ concat (map (\<lambda>line. ''- '' @ strip_markdown_code line @ nl) (observations r (ro_limit opts)))
     @ nl @ ''TOP FRAMES'' @ nl @ render_frames r opts Terminal FlatOrder
     @ nl @ ''TOP STACKS'' @ nl @ render_stacks r opts Terminal"

definition render :: "profile_report \<Rightarrow> render_options \<Rightarrow> string" where
  "render r opts =
     (case ro_view opts of
        Summary \<Rightarrow> (case ro_format opts of
            Markdown \<Rightarrow> render_markdown_summary r opts
          | Terminal \<Rightarrow> render_terminal_summary r opts)
      | TopFrames \<Rightarrow> render_frames r opts (ro_format opts) FlatOrder
      | TopCumulative \<Rightarrow> render_frames r opts (ro_format opts) CumulativeOrder
      | TopStacks \<Rightarrow> render_stacks r opts (ro_format opts)
      | CallTreeView \<Rightarrow> render_tree r opts (ro_format opts))"

section \<open>The limit of the tree\<close>

text \<open>Every node below the root has a frame.\<close>

fun framed :: "call_tree \<Rightarrow> bool" where
  "framed (CallTree f v self cs) \<longleftrightarrow> list_all (\<lambda>(_, t). ct_frame t \<noteq> None \<and> framed t) cs"

lemma framed_children: "framed t \<longleftrightarrow> (\<forall>c\<in>set (map snd (ct_children t)). ct_frame c \<noteq> None \<and> framed c)"
  by (cases t) (auto simp: list_all_iff)

lemma framed_add_value: "framed (add_value v t) = framed t" "ct_frame (add_value v t) = ct_frame t"
  by (cases t; simp)+

lemma insert_path_frame: "ct_frame (insert_path v ks t) = ct_frame t"
  by (cases t; cases ks) simp_all

lemma framed_insert_path: "framed t \<Longrightarrow> framed (insert_path v ks t)"
proof (induction ks arbitrary: t)
  case Nil
  then show ?case by (cases t) simp
next
  case (Cons k ks)
  obtain f val self cs where t: "t = CallTree f val self cs" by (cases t)
  let ?old = "case map_of cs k of None \<Rightarrow> tree_new (Some k) | Some w \<Rightarrow> w"
  have all: "list_all (\<lambda>(_, t). ct_frame t \<noteq> None \<and> framed t) cs" using Cons.prems by (simp add: t)
  have old: "ct_frame ?old \<noteq> None \<and> framed ?old"
    using all by (auto simp: tree_new_def list_all_iff dest!: map_of_SomeD split: option.split)
  have "list_all (\<lambda>(_, t). ct_frame t \<noteq> None \<and> framed t)
      (alist_upsert k (tree_new (Some k)) (\<lambda>t. insert_path v ks (add_value v t)) cs)"
    using old by (intro list_all_alist_upsert all)
      (simp add: insert_path_frame framed_add_value Cons.IH)
  then show ?case by (simp add: t)
qed

lemma framed_tree: "framed (tree_from_stacks ss)"
proof -
  have "framed t \<Longrightarrow> framed (fold tree_step ss t)" for t
    by (induction ss arbitrary: t) (simp_all add: tree_step_def framed_insert_path framed_add_value)
  then show ?thesis by (simp add: tree_from_stacks_def tree_new_def)
qed

lemma eligible_shown:
  "eligible_node_count r m t = sum_list (map (\<lambda>c. 1 + eligible_node_count r m c) (shown_children r m t))"
proof -
  have "sum_list (map (\<lambda>c. if P c then g c else 0) cs) = (sum_list (map g (filter P cs)) :: nat)" for P g and cs :: "call_tree list"
    by (induction cs) auto
  from this [of "\<lambda>c. shown r m (ct_value c)" "\<lambda>c. 1 + eligible_node_count r m c" "map snd (ct_children t)"]
  show ?thesis
    unfolding shown_children_def sum_list_sort_key
    by (cases t) (simp add: case_prod_beta' comp_def cong: if_cong)
qed

lemma render_children_count:
  "framed t \<Longrightarrow> snd acc \<le> ro_limit opts \<Longrightarrow>
     snd (render_children r opts pre t acc) = min (ro_limit opts) (snd acc + eligible_node_count r (ro_min_percent opts) t)
     \<and> length (fst (render_children r opts pre t acc)) + snd acc
         = length (fst acc) + snd (render_children r opts pre t acc)"
  and children_loop_count:
  "\<forall>c\<in>set cs. ct_frame c \<noteq> None \<and> framed c \<Longrightarrow> snd acc \<le> ro_limit opts \<Longrightarrow>
     snd (children_loop r opts pre cs acc)
         = min (ro_limit opts) (snd acc + sum_list (map (\<lambda>c. 1 + eligible_node_count r (ro_min_percent opts) c) cs))
     \<and> length (fst (children_loop r opts pre cs acc)) + snd acc
         = length (fst acc) + snd (children_loop r opts pre cs acc)"
proof (induction r opts pre t acc and r opts pre cs acc rule: render_children_children_loop.induct)
  case (1 r opts pre t acc)
  have "set (shown_children r (ro_min_percent opts) t) \<subseteq> set (map snd (ct_children t))"
    by (auto simp: shown_children_def)
  then have "\<forall>c\<in>set (shown_children r (ro_min_percent opts) t). ct_frame c \<noteq> None \<and> framed c"
    using "1.prems"(1) framed_children [of t] by blast
  then show ?case
    using "1.IH" "1.prems"(2)
    by (simp only: render_children.simps eligible_shown [of r "ro_min_percent opts" t])
next
  case (2 r opts pre acc)
  then show ?case by (simp add: children_loop.simps)
next
  case (3 r opts pre child rest acc)
  show ?case
  proof (cases "ro_limit opts \<le> snd acc")
    case True
    then show ?thesis using "3.prems" by (simp add: children_loop.simps)
  next
    case False
    obtain f where f: "ct_frame child = Some f" using "3.prems"(1) by auto
    define acc' where "acc' = (fst acc @ [node_line r pre (if rest = [] then corner else tee) child f], snd acc + 1)"
    define dp where "dp = pre @ (if rest = [] then ''   '' else bar_prefix)"
    have step: "children_loop r opts pre (child # rest) acc =
        children_loop r opts pre rest (render_children r opts dp child acc')"
      using False f by (simp add: children_loop.simps acc'_def dp_def Let_def)
    have child: "framed child" "snd acc' \<le> ro_limit opts" and rest: "\<forall>c\<in>set rest. ct_frame c \<noteq> None \<and> framed c"
      using "3.prems" False by (simp_all add: acc'_def)
    have IH1: "snd (render_children r opts dp child acc')
        = min (ro_limit opts) (snd acc' + eligible_node_count r (ro_min_percent opts) child)
      \<and> length (fst (render_children r opts dp child acc')) + snd acc'
        = length (fst acc') + snd (render_children r opts dp child acc')"
      using "3.IH"(1) [OF False refl _ refl child(1)] child(2) by (simp add: f acc'_def dp_def)
    then have le: "snd (render_children r opts dp child acc') \<le> ro_limit opts" by simp
    have IH2: "snd (children_loop r opts pre rest (render_children r opts dp child acc'))
        = min (ro_limit opts) (snd (render_children r opts dp child acc')
            + sum_list (map (\<lambda>c. 1 + eligible_node_count r (ro_min_percent opts) c) rest))
      \<and> length (fst (children_loop r opts pre rest (render_children r opts dp child acc')))
          + snd (render_children r opts dp child acc')
        = length (fst (render_children r opts dp child acc'))
          + snd (children_loop r opts pre rest (render_children r opts dp child acc'))"
      using "3.IH"(2) [OF False refl _ refl rest] le by (simp add: f acc'_def dp_def)
    have "snd acc' = snd acc + 1" "length (fst acc') = length (fst acc) + 1" by (simp_all add: acc'_def)
    then show ?thesis unfolding step using IH1 IH2 by auto
  qed
qed

section \<open>Magnitudes\<close>

lemma sint_saturating_add: "sint (saturating_add a b) = i64_clamp (sint a + sint b)"
  by (simp add: saturating_add_def)

lemma sint_saturating_abs: "sint (saturating_abs a) = i64_clamp \<bar>sint a\<bar>"
  by (simp add: saturating_abs_def)

lemma i64_clamp_mono: "x \<le> y \<Longrightarrow> i64_clamp x \<le> i64_clamp y"
  by (simp add: i64_clamp_def)

lemma clamp_abs_clamp: "i64_clamp \<bar>i64_clamp x\<bar> = i64_clamp \<bar>x\<bar>"
  by (simp add: i64_clamp_def i64_max_def i64_min_def min_def max_def abs_if)

lemma clamp_add_clamp: "0 \<le> x \<Longrightarrow> 0 \<le> y \<Longrightarrow> i64_clamp (x + y) = i64_clamp (i64_clamp x + i64_clamp y)"
  by (simp add: i64_clamp_def i64_max_def i64_min_def min_def max_def)

lemma sat_sum_abs:
  "sint (saturating_abs (sat_sum (map snd (filter P cs)))) \<le> sint (sat_sum (map (saturating_abs \<circ> snd) cs))"
proof (induction cs rule: rev_induct)
  case (snoc c cs)
  let ?a = "sint (sat_sum (map snd (filter P cs)))" and ?t = "sint (sat_sum (map (saturating_abs \<circ> snd) cs))"
  let ?v = "if P c then sint (snd c) else 0"
  have a: "i64_clamp \<bar>?a\<bar> \<le> ?t" using snoc by (simp only: sint_saturating_abs)
  have "sint (sat_sum (map snd (filter P (cs @ [c])))) = i64_clamp (?a + ?v)"
    by (simp add: sint_saturating_add i64_clamp_id sint_i64_bounds)
  then have "sint (saturating_abs (sat_sum (map snd (filter P (cs @ [c]))))) = i64_clamp \<bar>?a + ?v\<bar>"
    by (simp only: sint_saturating_abs clamp_abs_clamp)
  also have "\<dots> \<le> i64_clamp (\<bar>?a\<bar> + \<bar>sint (snd c)\<bar>)"
    by (rule i64_clamp_mono) (simp add: abs_triangle_ineq)
  also have "\<dots> = i64_clamp (i64_clamp \<bar>?a\<bar> + i64_clamp \<bar>sint (snd c)\<bar>)"
    by (rule clamp_add_clamp) simp_all
  also have "\<dots> \<le> i64_clamp (?t + i64_clamp \<bar>sint (snd c)\<bar>)"
    using a by (intro i64_clamp_mono) simp
  also have "\<dots> = sint (sat_sum (map (saturating_abs \<circ> snd) (cs @ [c])))"
    by (simp add: sint_saturating_add sint_saturating_abs)
  finally show ?case .
qed (simp add: saturating_abs_def sat_i64_def i64_clamp_def i64_max_def i64_min_def)

lemma sat_sum_abs_le:
  "sint (saturating_abs (sat_sum (map snd (filter P cs))))
     \<le> sint (saturating_abs (sat_sum (map (saturating_abs \<circ> snd) cs)))"
proof -
  have "0 \<le> sint (sat_sum (map (saturating_abs \<circ> snd) cs))"
    using sat_sum_abs [of P cs] sint_saturating_abs_nonneg [of "sat_sum (map snd (filter P cs))"]
    by linarith
  then have "sint (saturating_abs (sat_sum (map (saturating_abs \<circ> snd) cs)))
      = sint (sat_sum (map (saturating_abs \<circ> snd) cs))"
    using sint_i64_bounds [of "sat_sum (map (saturating_abs \<circ> snd) cs)"]
    by (simp add: sint_saturating_abs i64_clamp_id)
  then show ?thesis using sat_sum_abs [of P cs] by simp
qed

definition within_total :: "profile_report \<Rightarrow> i64 \<Rightarrow> bool" where
  "within_total rep v \<longleftrightarrow> 0 \<le> percent v (pr_total_value rep) \<and> percent v (pr_total_value rep) \<le> 100"

lemma report_within_total:
  assumes "report_from_profile p r = Inr rep"
  shows "list_all (\<lambda>f. within_total rep (fs_flat f) \<and> within_total rep (fs_cumulative f)) (pr_top_frames rep)
    \<and> list_all (\<lambda>s. within_total rep (sk_value s)) (pr_top_stacks rep)"
proof -
  obtain i stats stacks where a: "analyzed (charged p i (p_samples p)) (stats, stacks, pr_total_value rep)"
    and frames: "mset (pr_top_frames rep) = mset (map snd stats)"
    and sks: "mset (pr_top_stacks rep) = mset (map snd stacks)"
    using report_analysis [OF assms] by (elim exE conjE)
  let ?cs = "charged p i (p_samples p)"
  have tot: "pr_total_value rep = sat_sum (map (saturating_abs \<circ> snd) ?cs)"
    and dist: "distinct (map fst stats)" "distinct (map fst stacks)"
    using a by (simp_all add: analyzed_def)
  have filt: "within_total rep (sat_sum (map snd (filter P ?cs)))" for P
    using percent_le_100 [OF sat_sum_abs_le [of P ?cs]] percent_nonneg
    by (simp add: within_total_def tot)
  have costs: "within_total rep (flat_cost ?cs k)" "within_total rep (cumulative_cost ?cs k)"
    "within_total rep (stack_cost ?cs ks)" for k ks
    unfolding flat_cost_def cumulative_cost_def stack_cost_def by (rule filt)+
  have "within_total rep (fs_flat f) \<and> within_total rep (fs_cumulative f)" if "f \<in> set (pr_top_frames rep)" for f
  proof -
    have "f \<in> snd ` set stats" using that mset_eq_setD [OF frames] by simp
    then obtain k where "(k, f) \<in> set stats" by auto
    then have "map_of stats k = Some f" using dist by simp
    then have "Some (fs_flat f, fs_cumulative f) = stat_costs stats k" by (simp add: stat_costs_def)
    then have "fs_flat f = flat_cost ?cs k \<and> fs_cumulative f = cumulative_cost ?cs k"
      using a by (simp add: analyzed_def split: if_splits)
    then show ?thesis using costs by simp
  qed
  moreover have "within_total rep (sk_value s)" if "s \<in> set (pr_top_stacks rep)" for s
  proof -
    have "s \<in> snd ` set stacks" using that mset_eq_setD [OF sks] by simp
    then obtain ks where "(ks, s) \<in> set stacks" by auto
    then have "map_of stacks ks = Some s" using dist by simp
    then have "Some (sk_value s) = map_option sk_value (map_of stacks ks)" by simp
    also have "\<dots> = (if ks \<noteq> [] \<and> ks \<in> (\<lambda>(fs, v). map rv_identity fs) ` set ?cs
        then Some (stack_cost ?cs ks) else None)"
      using a by (simp add: analyzed_def)
    finally have "sk_value s = stack_cost ?cs ks" by (simp split: if_splits)
    then show ?thesis using costs by simp
  qed
  ultimately show ?thesis by (simp add: list_all_iff)
qed

lemma bar_filled_le: "bar_filled p 20 \<le> 20"
proof -
  let ?c = "max 0 (min 100 p) / 100"
  have c: "0 \<le> ?c" "?c \<le> of_nat 1" by simp_all
  then have r: "0 \<le> f64_round_pos ?c" "f64_round_pos ?c \<le> of_nat 1"
    using f64_round_pos_nonneg f64_round_pos_le_nat [OF c] by simp_all
  then have "f64_round_pos (f64_round_pos ?c * 20) \<le> of_nat 20" "0 \<le> f64_round_pos (f64_round_pos ?c * 20)"
    by (intro f64_round_pos_le_nat f64_round_pos_nonneg; simp)+
  then have "\<lfloor>f64_round_pos (f64_round_pos ?c * 20) + 1 / 2\<rfloor> \<le> 20" by (simp add: floor_le_iff)
  moreover have "f64_round (f64_round ?c * of_nat 20) = f64_round_pos (f64_round_pos ?c * 20)"
    using c r by (simp add: f64_round_def)
  ultimately show ?thesis by (simp add: bar_filled_def nat_le_iff)
qed

lemma char_count_append [simp]: "char_count (s @ t) = char_count s + char_count t"
  by (simp add: char_count_def)

lemma char_count_blocks: "char_count (concat (replicate n full_block)) = n"
proof (induction n)
  case (Suc n)
  have "char_count full_block = 1"
    by (simp add: char_count_def full_block_def bytes_str_def utf8_cont_def)
  then show ?case using Suc by simp
qed (simp add: char_count_def)

lemma char_count_spaces: "char_count (replicate n (CHR '' '')) = n"
  by (induction n) (simp_all add: char_count_def utf8_cont_def byte_of_char_def)

section \<open>Properties\<close>

text \<open>the call tree is cut at the limit: besides the root it shows as many of the nodes that reach
  the percentage as the limit allows, one line each, and a last line counts exactly those left out.\<close>

theorem tree_is_cut_at_limit:
  "let n = eligible_node_count r (ro_min_percent opts) (tree_root r) in
   if n \<le> ro_limit opts then length (tree_lines r opts) = 1 + n
   else length (tree_lines r opts) = 1 + ro_limit opts + 1
     \<and> (\<exists>rest. last (tree_lines r opts) = ellipsis @ '' '' @ nat_str (n - ro_limit opts) @ rest)"
proof -
  have "framed (tree_root r)"
    using framed_tree [of "pr_top_stacks r"]
    by (cases "tree_from_stacks (pr_top_stacks r)") (simp add: tree_root_def)
  then show ?thesis
    using render_children_count [of "tree_root r" "(s, 0)" opts r "[]" for s]
    by (auto simp: tree_lines_def Let_def split_beta)
qed

text \<open>the percentages of a report are percentages: in binary64 arithmetic, and whatever the signs
  of the samples and the saturation of the sums, the flat and the cumulative cost of every function
  and the cost of every stack lie between 0 and 100 percent of the total.\<close>

theorem report_percentages:
  assumes "report_from_profile p r = Inr rep"
  shows "list_all (\<lambda>f. within_total rep (fs_flat f) \<and> within_total rep (fs_cumulative f)) (pr_top_frames rep)
    \<and> list_all (\<lambda>s. within_total rep (sk_value s)) (pr_top_stacks rep)"
  by (rule report_within_total [OF assms])

theorem report_percentages_witness:
  "\<exists>rep. report_from_profile demo_cpu None = Inr rep
    \<and> list_all (\<lambda>s. within_total rep (sk_value s)) (pr_top_stacks rep)"
proof -
  obtain rep where rep: "report_from_profile demo_cpu None = Inr rep"
    by (simp add: report_from_profile_def demo_cpu_index split_beta) (simp add: demo_cpu_def)
  then show ?thesis using report_percentages [OF rep] by blast
qed

text \<open>a hotness bar is always twenty characters wide, so that the columns after it line up.\<close>

theorem hotness_bar_width: "char_count (hotness_bar p 20) = 20"
  using bar_filled_le [of p]
  by (simp add: hotness_bar_def char_count_blocks char_count_spaces Let_def)

text \<open>The root of a difference report: with one stack up by five and another down by five, no sample
  is outside the stacks, and yet the root is shown with a cost of its own of ten.\<close>

lemma signed_root_self:
  assumes "pr_top_stacks r = [\<lparr>sk_frames = [ReportFrame ''a'' [] 0], sk_value = 5\<rparr>,
      \<lparr>sk_frames = [ReportFrame ''b'' [] 0], sk_value = -5\<rparr>]"
    and "pr_total_value r = 10"
  shows "ct_self (tree_root r) = 10"
  by (simp add: tree_root_def assms tree_from_stacks_def tree_step_def tree_new_def saturating_add_def
      saturating_sub_def saturating_abs_def sat_i64_def i64_clamp_def i64_min_def i64_max_def)

end
