(* ===== verification/Commands.thy ===== *)
theory Commands
  imports Publish Compare Render
begin

text \<open>
  The commands (\<open>src/main.rs\<close>): reading and writing profile files, comparing, analysing and
  publishing them, and the ends of the profiling sessions.

  The file system is \<open>files\<close>: a path names a file, which has bytes. A path is the list of its
  components, which is what \<open>Path\<close>'s equality compares; different paths can name the same file.
  \<open>gzip\<close> stands for the third-party compressor, and the outcome of each write is a parameter.
\<close>

section \<open>Files\<close>

type_synonym path = "string list"

record files =
  fl_file :: "path \<Rightarrow> nat"
  fl_data :: "nat \<rightharpoonup> u8 list"

datatype write_outcome = Written | NotOpened | PartlyWritten nat

datatype command_error =
    OverwritesInput
  | ReadFailed
  | GunzipFailed
  | GzipFailed
  | WriteFailed
  | ProfileError error
  | SendFailed io_error
  | CheckpointFailed publish_error
  | NotListening
  | Disconnected
  | ProcessReplaced
  | ThreadFilterOnHeap
  | BadDuration
  | CaptureFailed "u8 list"

definition lift_error :: "'a result \<Rightarrow> command_error + 'a" where
  "lift_error r = (case r of Inl e \<Rightarrow> Inl (ProfileError e) | Inr x \<Rightarrow> Inr x)"

lemma lift_error_Inr [simp]: "lift_error r = Inr x \<longleftrightarrow> r = Inr x" "lift_error (Inr x) = Inr x"
  by (auto simp: lift_error_def split: sum.splits)

definition read_file :: "files \<Rightarrow> path \<Rightarrow> command_error + u8 list" where
  "read_file files path =
     (case fl_data files (fl_file files path) of None \<Rightarrow> Inl ReadFailed | Some d \<Rightarrow> Inr d)"

definition write_file :: "write_outcome \<Rightarrow> path \<Rightarrow> u8 list \<Rightarrow> files \<Rightarrow> (command_error + unit) \<times> files" where
  "write_file outcome path bytes files =
     (case outcome of
        NotOpened \<Rightarrow> (Inl WriteFailed, files)
      | PartlyWritten n \<Rightarrow>
          (Inl WriteFailed, files\<lparr>fl_data := (fl_data files)(fl_file files path \<mapsto> take n bytes)\<rparr>)
      | Written \<Rightarrow> (Inr (), files\<lparr>fl_data := (fl_data files)(fl_file files path \<mapsto> bytes)\<rparr>))"

record gzip =
  gz_compress :: "u8 list \<Rightarrow> u8 list option"
  gz_decompress :: "u8 list \<Rightarrow> u8 list option"

definition gzip_magic :: "u8 list" where
  "gzip_magic = [0x1f, 0x8b]"

text \<open>What the code relies on of the compressor: the format's magic number, and the round trip.\<close>

definition gzip_ok :: "gzip \<Rightarrow> bool" where
  "gzip_ok z \<longleftrightarrow> (\<forall>bs c. gz_compress z bs = Some c \<longrightarrow> prefix gzip_magic c \<and> gz_decompress z c = Some bs)"

definition gzip_data :: "gzip \<Rightarrow> u8 list \<Rightarrow> command_error + u8 list" where
  "gzip_data z data = (case gz_compress z data of None \<Rightarrow> Inl GzipFailed | Some c \<Rightarrow> Inr c)"

definition write_gzip :: "gzip \<Rightarrow> write_outcome \<Rightarrow> u8 list \<Rightarrow> path \<Rightarrow> files
    \<Rightarrow> (command_error + unit) \<times> files" where
  "write_gzip z outcome data output files =
     (case gzip_data z data of
        Inl e \<Rightarrow> (Inl e, files)
      | Inr compressed \<Rightarrow> write_file outcome output compressed files)"

definition read_profile :: "gzip \<Rightarrow> path \<Rightarrow> files \<Rightarrow> command_error + profile" where
  "read_profile z path files =
     bindr (read_file files path) (\<lambda>data.
     bindr (if prefix gzip_magic data
            then (case gz_decompress z data of None \<Rightarrow> Inl GunzipFailed | Some bytes \<Rightarrow> Inr bytes)
            else Inr data) (\<lambda>bytes.
       lift_error (profile_decode bytes)))"

section \<open>Comparing\<close>

definition compare_command :: "gzip \<Rightarrow> json \<Rightarrow> write_outcome \<Rightarrow> path \<Rightarrow> path \<Rightarrow> path \<Rightarrow> files
    \<Rightarrow> (command_error + unit) \<times> files" where
  "compare_command z json outcome base current output files =
     (if \<not> (output \<noteq> base \<and> output \<noteq> current) then (Inl OverwritesInput, files)
      else
        (case bindr (read_profile z base files) (\<lambda>b.
              bindr (read_profile z current files) (\<lambda>c. lift_error (difference json b c))) of
           Inl e \<Rightarrow> (Inl e, files)
         | Inr profile \<Rightarrow> write_gzip z outcome (profile_encode profile) output files))"

section \<open>Analysing\<close>

datatype analyze_view = ViewSummary | ViewTop | ViewCumulative | ViewStacks | ViewTree

datatype analyze_format = FormatTerminal | FormatMarkdown

fun view_of :: "analyze_view \<Rightarrow> report_view" where
  "view_of ViewSummary = Summary"
| "view_of ViewTop = TopFrames"
| "view_of ViewCumulative = TopCumulative"
| "view_of ViewStacks = TopStacks"
| "view_of ViewTree = CallTreeView"

fun format_of :: "analyze_format \<Rightarrow> report_format" where
  "format_of FormatTerminal = Terminal"
| "format_of FormatMarkdown = Markdown"

text \<open>The result is what is printed.\<close>

definition analyze_command :: "gzip \<Rightarrow> write_outcome \<Rightarrow> path \<Rightarrow> analyze_view \<Rightarrow> analyze_format
    \<Rightarrow> string option \<Rightarrow> string option \<Rightarrow> nat \<Rightarrow> f64 \<Rightarrow> path option \<Rightarrow> files
    \<Rightarrow> (command_error + string) \<times> files" where
  "analyze_command z outcome input shape format sample_type heap limit min_percent output files =
     (if output = Some input then (Inl OverwritesInput, files)
      else
        (case bindr (read_profile z input files) (\<lambda>p.
              lift_error (bindr (select_domain heap p) (\<lambda>p. report_from_profile p sample_type))) of
           Inl e \<Rightarrow> (Inl e, files)
         | Inr report \<Rightarrow>
             let rendered = render report \<lparr>ro_view = view_of shape, ro_format = format_of format,
               ro_limit = limit, ro_min_percent = min_percent\<rparr> in
             (case output of
                Some output \<Rightarrow>
                  (case write_file outcome output (str_bytes rendered) files of
                     (Inl e, files) \<Rightarrow> (Inl e, files)
                   | (Inr _, files) \<Rightarrow> (Inr [], files))
              | None \<Rightarrow> (Inr rendered, files))))"

section \<open>Publishing\<close>

definition send_io :: "environment \<Rightarrow> frame_kind \<Rightarrow> u8 list \<Rightarrow> publisher
    \<Rightarrow> (command_error + bool) \<times> publisher" where
  "send_io env kind payload publisher =
     (case send env kind payload publisher of
        (Inl e, publisher) \<Rightarrow> (Inl (SendFailed e), publisher)
      | (Inr b, publisher) \<Rightarrow> (Inr b, publisher))"

text \<open>\<open>session_id\<close> and \<open>pid\<close> are the results of \<open>Uuid::new_v4\<close> and \<open>process::id\<close>.\<close>

definition publish_command :: "gzip \<Rightarrow> environment \<times> environment \<Rightarrow> string \<Rightarrow> u32 \<Rightarrow> path \<Rightarrow> string
    \<Rightarrow> files \<Rightarrow> (command_error + unit) \<times> publisher option" where
  "publish_command z env session_id pid input name files =
     (case bindr (read_profile z input files) (\<lambda>p. bindr (lift_error (validate_profile p)) (\<lambda>_. Inr p)) of
        Inl e \<Rightarrow> (Inl e, None)
      | Inr profile \<Rightarrow>
          let publisher = publisher_new default_session_port
                (session_hello_new session_id ''runtime'' pid name 0) in
          (case publish_heap_checkpoint (fst env) profile publisher of
             (Inl e, publisher) \<Rightarrow> (Inl (CheckpointFailed e), Some publisher)
           | (Inr False, publisher) \<Rightarrow> (Inl NotListening, Some publisher)
           | (Inr True, publisher) \<Rightarrow>
               (case gzip_data z (profile_encode profile) of
                  Inl e \<Rightarrow> (Inl e, Some publisher)
                | Inr compressed \<Rightarrow>
                    (case send_io (snd env) FinalProfile compressed publisher of
                       (Inl e, publisher) \<Rightarrow> (Inl e, Some publisher)
                     | (Inr False, publisher) \<Rightarrow> (Inl Disconnected, Some publisher)
                     | (Inr True, publisher) \<Rightarrow> (Inr (), Some publisher)))))"

section \<open>Profiling sessions\<close>

definition apply_thread_filter :: "thread_filter \<Rightarrow> string option \<Rightarrow> u64 option \<Rightarrow> bool \<Rightarrow> thread_filter" where
  "apply_thread_filter builder thread thread_id main_thread =
     (if main_thread then MainThread
      else
        (case thread of
           Some name \<Rightarrow> ByName name
         | None \<Rightarrow> (case thread_id of Some i \<Rightarrow> ById i | None \<Rightarrow> builder)))"

definition validate_process_identity :: "u64 \<Rightarrow> u64 option \<Rightarrow> command_error + unit" where
  "validate_process_identity expected actual =
     (if actual \<noteq> Some expected then Inl ProcessReplaced else Inr ())"

text \<open>The end of \<open>run\<close> and \<open>attach\<close>, once the sampler is told to stop: \<open>final\<close> is the result of
  \<open>profile.stop()\<close>.\<close>

definition finish_session :: "gzip \<Rightarrow> (string \<Rightarrow> u64 option) \<Rightarrow> environment \<times> environment
    \<Rightarrow> write_outcome \<Rightarrow> command_error + symbolicated_profile \<Rightarrow> path \<Rightarrow> publisher option \<Rightarrow> files
    \<Rightarrow> (command_error + publisher option) \<times> files" where
  "finish_session z file_size env outcome final output publisher files =
     (let publisher = map_option (\<lambda>p. snd (send (fst env) Finalizing [] p)) publisher in
      case bindr final (\<lambda>sp. lift_error (build_proto file_size sp)) of
        Inl e \<Rightarrow> (Inl e, files)
      | Inr data \<Rightarrow>
          (case write_gzip z outcome data output files of
             (Inl e, files) \<Rightarrow> (Inl e, files)
           | (Inr _, files) \<Rightarrow>
               (case publisher of
                  None \<Rightarrow> (Inr None, files)
                | Some p \<Rightarrow>
                    (case gzip_data z data of
                       Inl e \<Rightarrow> (Inl e, files)
                     | Inr compressed \<Rightarrow>
                         (Inr (Some (snd (send (snd env) FinalProfile compressed p))), files)))))"

section \<open>Heap profiling\<close>

definition check_duration :: "f64 option \<Rightarrow> command_error + unit" where
  "check_duration duration =
     (case duration of
        None \<Rightarrow> Inr ()
      | Some (Finite s) \<Rightarrow> if 0 < s \<and> s < 2 ^ 64 then Inr () else Inl BadDuration
      | Some _ \<Rightarrow> Inl BadDuration)"

text \<open>The closure \<open>checkpoint\<close>: the publisher is made at the first checkpoint, and a failure to
  publish one is ignored.\<close>

definition heap_checkpoint :: "bool \<Rightarrow> string \<Rightarrow> string \<Rightarrow> string \<Rightarrow> environment \<times> u32 \<times> profile
    \<Rightarrow> publisher option \<Rightarrow> publisher option" where
  "heap_checkpoint publish session_id mode name c publisher =
     (let (env, pid, profile) = c in
      if publish then
        let p = (case publisher of
            Some p \<Rightarrow> p
          | None \<Rightarrow> publisher_new default_session_port (session_hello_new session_id mode pid name 0))
        in Some (snd (publish_heap_checkpoint env profile p))
      else publisher)"

text \<open>\<open>capture\<close> is the run of the platform's recorder: the checkpoints it makes and its result.\<close>

definition heap_command :: "gzip \<Rightarrow> f64 option \<Rightarrow> bool \<Rightarrow> string \<Rightarrow> string \<Rightarrow> string
    \<Rightarrow> (environment \<times> u32 \<times> profile) list \<times> (command_error + profile)
    \<Rightarrow> environment \<Rightarrow> (command_error \<Rightarrow> u8 list) \<Rightarrow> write_outcome \<Rightarrow> path \<Rightarrow> files
    \<Rightarrow> (command_error + unit) \<times> publisher option \<times> files" where
  "heap_command z duration publish session_id mode name capture env describe outcome output files =
     (case check_duration duration of
        Inl e \<Rightarrow> (Inl e, None, files)
      | Inr _ \<Rightarrow>
          let publisher = fold (heap_checkpoint publish session_id mode name) (fst capture) None in
          (case snd capture of
             Inr profile \<Rightarrow>
               let bytes = profile_encode profile in
               (case write_gzip z outcome bytes output files of
                  (Inl e, files) \<Rightarrow> (Inl e, publisher, files)
                | (Inr _, files) \<Rightarrow>
                    (case publisher of
                       None \<Rightarrow> (Inr (), None, files)
                     | Some p \<Rightarrow>
                         (case gzip_data z bytes of
                            Inl e \<Rightarrow> (Inl e, publisher, files)
                          | Inr compressed \<Rightarrow>
                              (Inr (), Some (snd (send env FinalProfile compressed p)), files))))
           | Inl e \<Rightarrow>
               (Inl e, map_option (\<lambda>p. snd (send env Failed (describe e) p)) publisher, files)))"

text \<open>Which profiler \<open>run\<close> and \<open>attach\<close> start.\<close>

datatype profile_kind = StackProfile | HeapProfile

definition choose_profiler :: "profile_kind \<Rightarrow> string option \<Rightarrow> u64 option \<Rightarrow> bool
    \<Rightarrow> command_error + profile_kind" where
  "choose_profiler kind thread thread_id main_thread =
     (if kind = HeapProfile then
        (if thread \<noteq> None \<or> thread_id \<noteq> None \<or> main_thread then Inl ThreadFilterOnHeap
         else Inr HeapProfile)
      else Inr StackProfile)"

section \<open>Profiles that can be written\<close>

text \<open>What every decoded profile satisfies, and \<open>difference\<close> keeps.\<close>

definition writable :: "profile \<Rightarrow> bool" where
  "writable p \<longleftrightarrow> st_ok (p_strings p) \<and> utf8_strings p"

lemma read_profile_writable:
  assumes "read_profile z path files = Inr p"
  shows "writable p"
proof -
  obtain bytes where "profile_decode bytes = Inr p"
    using assms by (auto simp: read_profile_def bindr_Inr_iff)
  then show ?thesis using profile_decode_wf by (simp add: writable_def)
qed

lemma intern_strings_set: "set (st_strings (snd (intern st s))) \<subseteq> insert s (set (st_strings st))"
  by (auto simp: intern_def Let_def split: option.splits)

lemma intern_all_strings_set:
  "set (st_strings (snd (intern_all intern st ss))) \<subseteq> set ss \<union> set (st_strings st)"
proof (induction ss arbitrary: st)
  case (Cons s ss)
  then show ?case using intern_strings_set [of st s] by (fastforce simp: Let_def split_beta)
qed simp

lemma copy_tables_strings:
  assumes "copy_tables base out = Inr (strings, ids, q)"
  shows "p_strings q = snd (intern_all intern (p_strings out) (st_strings (p_strings base)))"
proof -
  define st where "st = snd (intern_all intern (p_strings out) (st_strings (p_strings base)))"
  define P where "P = (\<lambda>s :: renaming. p_strings (snd (snd s)) = st)"
  have keeps: "P t" if "fold_result f s xs = Inr t" "P s"
    "\<And>s x t. f s x = Inr t \<Longrightarrow> p_strings (snd (snd t)) = p_strings (snd (snd s))" for f s t and xs :: "'x list"
    by (rule fold_result_invariant [where P = P, OF that(1,2)]) (use that(3) in \<open>simp add: P_def\<close>)
  have steps: "copy_mapping ss s m = Inr t \<Longrightarrow> p_strings (snd (snd t)) = p_strings (snd (snd s))"
    "copy_function ss s fn = Inr t \<Longrightarrow> p_strings (snd (snd t)) = p_strings (snd (snd s))"
    "copy_location mids fids s l = Inr t \<Longrightarrow> p_strings (snd (snd t)) = p_strings (snd (snd s))"
    for ss s m fn l t mids fids
    by (auto simp: copy_mapping_def copy_function_def copy_location_def Let_def split_beta bindr_Inr_iff)
  obtain ms n1 q1 fs n2 q2 n3 where
    1: "fold_result (copy_mapping (fst (intern_all intern (p_strings out) (st_strings (p_strings base)))))
        ([0 \<mapsto> 0], max_id (map mp_id (p_mappings (out\<lparr>p_strings := st\<rparr>))), out\<lparr>p_strings := st\<rparr>)
        (p_mappings base) = Inr (ms, n1, q1)"
    and 2: "fold_result (copy_function (fst (intern_all intern (p_strings out) (st_strings (p_strings base)))))
        ([0 \<mapsto> 0], max_id (map fn_id (p_functions q1)), q1) (p_functions base) = Inr (fs, n2, q2)"
    and 3: "fold_result (copy_location ms fs) (Map.empty, max_id (map loc_id (p_locations q2)), q2)
        (p_locations base) = Inr (ids, n3, q)"
    using assms by (auto simp: copy_tables_def Let_def split_beta bindr_Inr_iff st_def)
  have "P (ms, n1, q1)" by (rule keeps [OF 1]) (auto simp: P_def intro: steps)
  then have "P (fs, n2, q2)" by (intro keeps [OF 2]) (auto simp: P_def intro: steps)
  then have "P (ids, n3, q)" by (intro keeps [OF 3]) (auto simp: P_def intro: steps)
  then show ?thesis by (simp add: P_def st_def)
qed

lemma difference_writable:
  assumes "difference json base current = Inr out" and "writable base" and "writable current"
  shows "writable out"
proof -
  obtain strings ids q samples where q: "copy_tables base (current\<lparr>p_samples := []\<rparr>) = Inr (strings, ids, q)"
    and out: "out = difference_output samples q"
    using assms(1) by (auto simp: difference_def Let_def bindr_Inr_iff)
  let ?t = "snd (intern_all intern (p_strings current) (st_strings (p_strings base)))"
  have strings: "p_strings out = snd (intern ?t difference_note)"
    using copy_tables_strings [OF q] by (simp add: out difference_output_def split_beta)
  have "utf8_valid (str_bytes difference_note)"
    by (simp add: difference_note_def str_bytes_def byte_of_char_def)
  then have "utf8_valid (str_bytes s)" if "s \<in> set (st_strings (p_strings out))" for s
    using that intern_strings_set [of ?t difference_note] assms(2,3)
      intern_all_strings_set [of "p_strings current" "st_strings (p_strings base)"]
    by (auto simp: strings writable_def utf8_strings_def list_all_iff)
  moreover have "st_ok (p_strings out)"
    using assms(3) strings.intern_all_ok by (simp add: strings writable_def intern_st_ok)
  ultimately show ?thesis by (simp add: writable_def utf8_strings_def list_all_iff)
qed

text \<open>A profile that was written is read back.\<close>

lemma write_gzip_read:
  assumes "gzip_ok z" and "write_gzip z outcome (profile_encode p) output files = (Inr (), files')"
    and "writable p" and "length (profile_encode p) < 2 ^ 64"
  shows "read_profile z output files' = Inr (profile_prune p)"
proof -
  obtain c where c: "gz_compress z (profile_encode p) = Some c"
    and w: "write_file outcome output c files = (Inr (), files')"
    using assms(2) by (auto simp: write_gzip_def gzip_data_def split: option.splits)
  have "read_file files' output = Inr c"
    using w by (auto simp: write_file_def read_file_def split: write_outcome.splits)
  moreover have "prefix gzip_magic c" "gz_decompress z c = Some (profile_encode p)"
    using assms(1) c by (simp_all add: gzip_ok_def)
  ultimately show ?thesis
    using profile_decode_encode assms(3,4) by (simp add: read_profile_def writable_def lift_error_def)
qed

lemma write_file_elsewhere:
  "fl_file files p \<noteq> fl_file files path \<Longrightarrow> read_file (snd (write_file outcome path bytes files)) p = read_file files p"
  by (auto simp: write_file_def read_file_def split: write_outcome.split)

lemma compare_command_Inr:
  assumes "compare_command z json outcome base current output files = (Inr (), files')"
  obtains b c out where "read_profile z base files = Inr b" "read_profile z current files = Inr c"
    "difference json b c = Inr out"
    "write_gzip z outcome (profile_encode out) output files = (Inr (), files')"
  using assms by (auto simp: compare_command_def bindr_Inr_iff split: if_splits sum.splits)

text \<open>On an open connection a delivered frame follows what was sent before.\<close>

lemma send_after:
  assumes "send env k payload p = (Inr True, q)" and "pub_stream p = Some sent"
  shows "pub_stream q = Some (sent @ frame_bytes k (pub_sequence q) payload)"
proof -
  have "send_frame env k payload p = (Inr True, q)" using assms by (simp add: send_def)
  then show ?thesis
    by (cases rule: send_frame_cases [OF assms(2), of env k payload]) auto
qed

lemma send_Inr_True:
  assumes "send env k payload p = (Inr True, q)"
  shows "\<exists>pre. pub_stream q = Some (pre @ frame_bytes k (pub_sequence q) payload)"
  using assms by (cases env k payload p rule: send_cases) auto

section \<open>Properties\<close>

definition demo_gzip :: gzip where
  "demo_gzip = \<lparr>gz_compress = \<lambda>bs. Some (gzip_magic @ bs), gz_decompress = \<lambda>c. Some (drop 2 c)\<rparr>"

lemma demo_gzip_ok: "gzip_ok demo_gzip"
  by (simp add: gzip_ok_def demo_gzip_def gzip_magic_def)

text \<open>Two files, of which the first has two names.\<close>

definition demo_files :: files where
  "demo_files = \<lparr>fl_file = \<lambda>path. if path = [''c''] then 1 else 0,
     fl_data = [0 \<mapsto> profile_encode demo_domains]\<rparr>"

lemma demo_domains_encode:
  "length (profile_encode demo_domains) < 2 ^ 64" "\<not> prefix gzip_magic (profile_encode demo_domains)"
  by (simp_all add: demo_domains_def profile_new_def profile_encode_append varint_fields_def
      opt_varint_def wire_varint_def opt_bytes_def wire_bytes_def leaf_encode leaf_fields_defs
      sm_encode_append varint_bytes_small st_new_def intern_def st_empty_def str_bytes_def
      lb_default_def vt_default_def gzip_magic_def)

lemma demo_domains_read: "read_profile demo_gzip [''a''] demo_files = Inr demo_domains"
proof -
  have ok: "st_ok (p_strings demo_domains)" "utf8_strings demo_domains"
    subgoal by (simp add: demo_domains_def strings.intern_all_ok st_ok_new del: intern_all.simps)
    subgoal by (simp add: demo_domains_def utf8_strings_def st_new_def intern_def st_empty_def
        str_bytes_def byte_of_char_def)
    done
  have "lossless demo_domains"
    by (simp add: lossless_def demo_domains_def profile_new_def vt_blank_def sm_blank_def lb_blank_def
        lb_default_def)
  then show ?thesis
    using profile_decode_encode [OF ok demo_domains_encode(1)] profile_prune_id [of demo_domains]
      demo_domains_encode(2)
    by (simp add: read_profile_def read_file_def demo_files_def)
qed

text \<open>C28: a comparison that succeeds has computed the difference of the two profiles it read, and the
  file it wrote reads back as that difference without its blank parts, which the encoder skips, as
  long as the encoding is shorter than 2^64 bytes.  An input that is another file than the output
  is left as it was; a second name of the same file is overwritten
  (\<open>second_name_overwrites_input\<close>).\<close>

theorem comparison_round_trip:
  assumes "compare_command z json outcome base current output files = (Inr (), files')"
    and "gzip_ok z"
  shows "\<exists>b c out. read_profile z base files = Inr b \<and> read_profile z current files = Inr c
    \<and> difference json b c = Inr out
    \<and> (length (profile_encode out) < 2 ^ 64 \<longrightarrow> read_profile z output files' = Inr (profile_prune out))
    \<and> (fl_file files base \<noteq> fl_file files output \<longrightarrow> read_file files' base = read_file files base)
    \<and> (fl_file files current \<noteq> fl_file files output \<longrightarrow> read_file files' current = read_file files current)"
proof -
  obtain b c out where b: "read_profile z base files = Inr b" and c: "read_profile z current files = Inr c"
    and out: "difference json b c = Inr out"
    and w: "write_gzip z outcome (profile_encode out) output files = (Inr (), files')"
    by (rule compare_command_Inr [OF assms(1)])
  have "writable out" using difference_writable [OF out] read_profile_writable b c by blast
  note again = write_gzip_read [OF assms(2) w this]
  have "\<exists>d. files' = snd (write_file outcome output d files)"
    using w unfolding write_gzip_def by (auto split: sum.splits) (metis snd_conv)
  then show ?thesis using b c out again write_file_elsewhere by blast
qed

theorem comparison_round_trip_witness:
  "\<exists>files'. compare_command demo_gzip demo_json Written [''a''] [''b''] [''c''] demo_files = (Inr (), files')
    \<and> read_file files' [''a''] = read_file demo_files [''a'']"
proof -
  obtain out where out: "difference demo_json demo_domains demo_domains = Inr out"
    using demo_difference(2) by (elim exE)
  have "read_profile demo_gzip [''b''] demo_files = Inr demo_domains"
    using demo_domains_read by (simp add: read_profile_def read_file_def demo_files_def)
  then have "\<exists>files'. compare_command demo_gzip demo_json Written [''a''] [''b''] [''c''] demo_files
      = (Inr (), files')"
    using demo_domains_read out
    by (simp add: compare_command_def write_gzip_def gzip_data_def write_file_def demo_gzip_def)
  then obtain files' where run: "compare_command demo_gzip demo_json Written [''a''] [''b''] [''c''] demo_files
      = (Inr (), files')" ..
  have "fl_file demo_files [''a''] \<noteq> fl_file demo_files [''c'']" by (simp add: demo_files_def)
  then show ?thesis using comparison_round_trip [OF run demo_gzip_ok] run by blast
qed

text \<open>The guard compares paths, not files: under a second name the output replaces an input.\<close>

lemma second_name_overwrites_input:
  "\<exists>files'. compare_command demo_gzip demo_json Written [''a''] [''b''] [''.'', ''a''] demo_files = (Inr (), files')
    \<and> read_file files' [''a''] \<noteq> read_file demo_files [''a'']"
proof -
  obtain out where out: "difference demo_json demo_domains demo_domains = Inr out"
    using demo_difference(2) by (elim exE)
  have "read_profile demo_gzip [''b''] demo_files = Inr demo_domains"
    using demo_domains_read by (simp add: read_profile_def read_file_def demo_files_def)
  moreover have "gzip_magic @ bs \<noteq> profile_encode demo_domains" for bs
    using demo_domains_encode(2) by (metis prefixI)
  ultimately show ?thesis
    using demo_domains_read out
    by (simp add: compare_command_def write_gzip_def gzip_data_def write_file_def demo_gzip_def
        read_file_def demo_files_def)
qed

text \<open>a session that ends well over a working network has sent the app, as its final profile, byte
  for byte the file it wrote: the compressed encoding of what was recorded.\<close>

theorem final_profile_is_the_file:
  assumes "finish_session z file_size env outcome final output (Some p) files = (Inr (Some q), files')"
    and "healthy (snd env) hello"
  shows "\<exists>sp data bytes pre. final = Inr sp \<and> build_proto file_size sp = Inr data
    \<and> gz_compress z data = Some bytes \<and> read_file files' output = Inr bytes
    \<and> pub_stream q = Some (pre @ frame_bytes FinalProfile (pub_sequence q) bytes)"
proof -
  let ?p = "snd (send (fst env) Finalizing [] p)"
  obtain sp data bytes where "final = Inr sp" "build_proto file_size sp = Inr data"
    "gz_compress z data = Some bytes" "write_file outcome output bytes files = (Inr (), files')"
    and q: "q = snd (send (snd env) FinalProfile bytes ?p)"
    using assms(1)
    by (auto simp: finish_session_def Let_def write_gzip_def gzip_data_def bindr_Inr_iff
        split: sum.splits option.splits prod.splits)
  moreover have "read_file files' output = Inr bytes"
    using \<open>write_file outcome output bytes files = (Inr (), files')\<close>
    by (auto simp: write_file_def read_file_def split: write_outcome.splits)
  moreover have "send (snd env) FinalProfile bytes ?p = (Inr True, q)"
    using send_healthy [OF assms(2), of FinalProfile bytes ?p] q by (metis prod.collapse)
  ultimately show ?thesis using send_Inr_True by blast
qed

theorem final_profile_is_the_file_witness:
  "\<exists>q files' bytes pre. finish_session demo_gzip (\<lambda>_. None) (demo_offline, demo_network) Written
      (Inr (from_raw_with_symbolizer (demo_raw [5]) Map.empty Hex 100 0)) [''c''] (Some demo_publisher) demo_files
      = (Inr (Some q), files')
    \<and> read_file files' [''c''] = Inr bytes
    \<and> pub_stream q = Some (pre @ frame_bytes FinalProfile (pub_sequence q) bytes)"
proof -
  have "sp_freq_hz (from_raw_with_symbolizer (demo_raw [5]) Map.empty Hex 100 0) \<noteq> 0"
    by (simp add: from_raw_with_symbolizer_def split_beta)
  then obtain data where "build_proto (\<lambda>_. None) (from_raw_with_symbolizer (demo_raw [5]) Map.empty Hex 100 0) = Inr data"
    using build_proto_total by blast
  then have "\<exists>q files'. finish_session demo_gzip (\<lambda>_. None) (demo_offline, demo_network) Written
      (Inr (from_raw_with_symbolizer (demo_raw [5]) Map.empty Hex 100 0)) [''c''] (Some demo_publisher) demo_files
      = (Inr (Some q), files')"
    by (simp add: finish_session_def Let_def write_gzip_def gzip_data_def demo_gzip_def write_file_def)
  then obtain q files' where run: "finish_session demo_gzip (\<lambda>_. None) (demo_offline, demo_network) Written
      (Inr (from_raw_with_symbolizer (demo_raw [5]) Map.empty Hex 100 0)) [''c''] (Some demo_publisher) demo_files
      = (Inr (Some q), files')" by blast
  have "healthy (snd (demo_offline, demo_network)) [123, 125]" using demo_healthy by simp
  from final_profile_is_the_file [OF run this] run show ?thesis by blast
qed

text \<open>C29: publishing a file reports success only when the connection ends with the heap checkpoint and
  the final profile, whole and in this order, and the profile that was read is a valid one.\<close>

theorem published_means_delivered:
  assumes "publish_command z env session_id pid input name files = (Inr (), q)"
  shows "\<exists>p publisher pre n compressed. read_profile z input files = Inr p \<and> heap_valid p
    \<and> gz_compress z (profile_encode p) = Some compressed \<and> q = Some publisher
    \<and> pub_stream publisher = Some (pre @ frame_bytes ProfileCheckpoint n (profile_encode p)
        @ frame_bytes FinalProfile (pub_sequence publisher) compressed)"
proof -
  define start where "start = publisher_new default_session_port (session_hello_new session_id ''runtime'' pid name 0)"
  obtain p where p: "read_profile z input files = Inr p" "validate_profile p = Inr ()"
    and run: "(case publish_heap_checkpoint (fst env) p start of
           (Inl e, publisher) \<Rightarrow> (Inl (CheckpointFailed e), Some publisher)
         | (Inr False, publisher) \<Rightarrow> (Inl NotListening, Some publisher)
         | (Inr True, publisher) \<Rightarrow>
             (case gzip_data z (profile_encode p) of
                Inl e \<Rightarrow> (Inl e, Some publisher)
              | Inr compressed \<Rightarrow>
                  (case send_io (snd env) FinalProfile compressed publisher of
                     (Inl e, publisher) \<Rightarrow> (Inl e, Some publisher)
                   | (Inr False, publisher) \<Rightarrow> (Inl Disconnected, Some publisher)
                   | (Inr True, publisher) \<Rightarrow> (Inr (), Some publisher)))) = (Inr (), q)"
    using assms by (auto simp: publish_command_def Let_def start_def bindr_Inr_iff split: sum.splits)
  obtain mid where mid: "send (fst env) ProfileCheckpoint (profile_encode p) start = (Inr True, mid)"
    and rest: "(case gzip_data z (profile_encode p) of
                Inl e \<Rightarrow> (Inl e, Some mid)
              | Inr compressed \<Rightarrow>
                  (case send_io (snd env) FinalProfile compressed mid of
                     (Inl e, publisher) \<Rightarrow> (Inl e, Some publisher)
                   | (Inr False, publisher) \<Rightarrow> (Inl Disconnected, Some publisher)
                   | (Inr True, publisher) \<Rightarrow> (Inr (), Some publisher))) = (Inr (), q)"
    using run p(2) by (auto simp: publish_heap_checkpoint_def split: sum.splits prod.splits bool.splits)
  obtain compressed publisher where z: "gz_compress z (profile_encode p) = Some compressed"
    and final: "send (snd env) FinalProfile compressed mid = (Inr True, publisher)" and q: "q = Some publisher"
    using rest by (auto simp: gzip_data_def send_io_def split: sum.splits prod.splits bool.splits option.splits)
  obtain pre where "pub_stream mid = Some (pre @ frame_bytes ProfileCheckpoint (pub_sequence mid) (profile_encode p))"
    using send_Inr_True [OF mid] by blast
  from send_after [OF final this] show ?thesis
    using p z q validate_profile_iff by (auto intro!: exI [of _ p])
qed

theorem published_means_delivered_witness:
  "\<exists>q publisher pre n. publish_command demo_gzip (demo_network, demo_network) ''id'' 1 [''a''] ''heap'' demo_files
      = (Inr (), q) \<and> q = Some publisher
    \<and> pub_stream publisher = Some (pre @ frame_bytes ProfileCheckpoint n (profile_encode demo_domains)
        @ frame_bytes FinalProfile (pub_sequence publisher) (gzip_magic @ profile_encode demo_domains))"
proof -
  have sends: "\<exists>q. send demo_network k payload p = (Inr True, q)" for k payload p
    using send_healthy [OF demo_healthy, of k payload p] by (metis prod.collapse)
  have "\<exists>q. publish_command demo_gzip (demo_network, demo_network) ''id'' 1 [''a''] ''heap'' demo_files = (Inr (), q)"
  proof -
    obtain m where m: "send demo_network ProfileCheckpoint (profile_encode demo_domains)
        (publisher_new default_session_port (session_hello_new ''id'' ''runtime'' 1 ''heap'' 0)) = (Inr True, m)"
      using sends by blast
    obtain e where "send demo_network FinalProfile (gzip_magic @ profile_encode demo_domains) m = (Inr True, e)"
      using sends by blast
    then show ?thesis
      using m demo_domains_read demo_valid(1)
      by (simp add: publish_command_def publish_heap_checkpoint_def Let_def gzip_data_def send_io_def
          demo_gzip_def)
  qed
  then obtain q where run: "publish_command demo_gzip (demo_network, demo_network) ''id'' 1 [''a''] ''heap'' demo_files
      = (Inr (), q)" ..
  from published_means_delivered [OF run] demo_domains_read run show ?thesis
    by (auto simp: demo_gzip_def)
qed

end
