(* ===== verification/Heap_Replay.thy ===== *)
theory Heap_Replay
  imports Heap
begin

text \<open>
  What the two native heap backends (\<open>src/heap/linux.rs\<close>, \<open>src/heap/macos.rs\<close>) share: an
  event log is replayed on the tracker, frees of unknown addresses are counted and skipped, and
  the frames of the snapshot are annotated afterwards. The lemmas relate a replay to the
  specification of \<open>Heap\<close>, which such frees do not change, say when it succeeds, and show that
  an annotation that keeps stacks apart keeps their values. The locale \<open>event_log\<close> is the contract
  a backend's log format fulfils; each backend interprets it on its own parser.
\<close>

section \<open>Replaying a log\<close>

text \<open>\<open>if tracker.release(address).is_err() { initial_frees += 1 }\<close>.\<close>

definition release_counted :: "u64 \<Rightarrow> tracker \<times> nat \<Rightarrow> tracker \<times> nat" where
  "release_counted address = (\<lambda>(t, initial_frees).
     case tr_release address t of Inl _ \<Rightarrow> (t, initial_frees + 1) | Inr t \<Rightarrow> (t, initial_frees))"

fun replay_event :: "tracker \<times> nat \<Rightarrow> heap_event \<Rightarrow> (tracker \<times> nat) result" where
  "replay_event (t, n) (Alloc address sz stack) =
     bindr (tr_allocate address sz stack t) (\<lambda>t. Inr (t, n))"
| "replay_event (t, n) (Free address) = Inr (release_counted address (t, n))"

definition replay :: "string \<Rightarrow> heap_event list \<Rightarrow> (tracker \<times> nat) result" where
  "replay domain log = fold_result replay_event (tracker_new domain, 0) log"

text \<open>The frees of addresses that are not live, in a log.\<close>

definition unknown_free :: "heap_event list \<Rightarrow> nat \<Rightarrow> bool" where
  "unknown_free log i \<longleftrightarrow>
     (case log ! i of Free a \<Rightarrow> a \<noteq> 0 \<and> live_after (take i log) a = None | _ \<Rightarrow> False)"

definition unknown_frees :: "heap_event list \<Rightarrow> nat" where
  "unknown_frees log = length (filter (unknown_free log) [0..<length log])"

definition same_history :: "heap_event list \<Rightarrow> heap_event list \<Rightarrow> bool" where
  "same_history log log' \<longleftrightarrow> live_after log = live_after log' \<and> (\<forall>s. allocs_of s log = allocs_of s log')"

lemma same_history_measures: "same_history log log' \<Longrightarrow> spec_measures log s = spec_measures log' s"
  by (simp add: same_history_def spec_measures_def live_addresses_def)

lemma unknown_frees_snoc:
  "unknown_frees (log @ [e]) = unknown_frees log + (case e of
     Free a \<Rightarrow> if a \<noteq> 0 \<and> live_after log a = None then 1 else 0 | _ \<Rightarrow> 0)"
proof -
  have "filter (unknown_free (log @ [e])) [0..<length log] = filter (unknown_free log) [0..<length log]"
    by (rule filter_cong) (auto simp: unknown_free_def nth_append split: heap_event.split)
  moreover have "unknown_free (log @ [e]) (length log) = (case e of
     Free a \<Rightarrow> a \<noteq> 0 \<and> live_after log a = None | _ \<Rightarrow> False)"
    by (simp add: unknown_free_def split: heap_event.split)
  ultimately show ?thesis by (simp add: unknown_frees_def split: heap_event.split)
qed

text \<open>A replay runs the tracker on the events it can explain, which have the same history.\<close>

lemma replay_accepted:
  "replay domain log = Inr (t, n) \<Longrightarrow>
     (\<exists>accepted. tr_run domain accepted = Inr t \<and> same_history accepted log) \<and> n = unknown_frees log"
proof (induction log arbitrary: t n rule: rev_induct)
  case Nil
  then have "tr_run domain [] = Inr t" "n = 0" by (simp_all add: replay_def tr_run_def)
  then show ?case by (auto simp: same_history_def unknown_frees_def intro!: exI [of _ "[]"])
next
  case (snoc e log)
  obtain u m where u: "replay domain log = Inr (u, m)" and e: "replay_event (u, m) e = Inr (t, n)"
    using snoc.prems by (auto simp: replay_def fold_result_append bindr_Inr_iff)
  obtain acc where acc: "tr_run domain acc = Inr u" "same_history acc log" and m: "m = unknown_frees log"
    using snoc.IH [OF u] by blast
  have live: "live_after acc a = live_after log a" for a using acc(2) by (simp add: same_history_def)
  have run: "tr_run domain (acc @ [x]) = tr_event u x" for x
    using acc(1) by (simp add: tr_run_def fold_result_append bindr_def split: sum.split)
  have ok: "tracker_ok acc u" by (rule tr_run_ok [OF acc(1)])
  have both: "same_history (acc @ [x]) (log @ [x])" for x
    using acc(2) by (simp add: same_history_def)
  show ?case
  proof (cases e)
    case (Alloc a sz stack)
    then have "tr_run domain (acc @ [e]) = Inr t" "n = m" using e run by (auto simp: bindr_Inr_iff)
    then show ?thesis using both [of e] Alloc m by (auto simp: unknown_frees_snoc)
  next
    case (Free a)
    show ?thesis
    proof (cases "tr_release a u")
      case (Inl err)
      then have "t = u" "n = m + 1" using e by (simp_all add: Free release_counted_def)
      moreover have unknown: "a \<noteq> 0" "map_of (tr_live u) a = None"
        using Inl by (auto simp: tr_release_def split: if_splits)
      then have "live_after acc a = None" using ok by (simp add: tracker_ok_def)
      moreover from this have "same_history acc (log @ [e])"
        using acc(2) by (auto simp: same_history_def Free fun_eq_iff)
      ultimately show ?thesis using acc(1) live unknown(1) m by (auto simp: unknown_frees_snoc Free)
    next
      case (Inr v)
      then have t: "t = v" "n = m" using e by (simp_all add: Free release_counted_def)
      have "a = 0 \<or> map_of (tr_live u) a \<noteq> None"
        using Inr by (auto simp: tr_release_def split: if_splits)
      moreover have "live_after log a =
          map_option (\<lambda>(sz, i). (sz, fst (tr_stacks u ! i))) (map_of (tr_live u) a)"
        using ok by (simp add: tracker_ok_def live [symmetric])
      ultimately have "a = 0 \<or> live_after log a \<noteq> None" by simp
      then show ?thesis using run [of e] Inr both [of e] m t by (auto simp: unknown_frees_snoc Free)
    qed
  qed
qed

text \<open>A log that an allocator can write: blocks are not null and not handed out while live.\<close>

fun consistent :: "(u64 \<rightharpoonup> u64 \<times> heap_stack) \<Rightarrow> heap_event list \<Rightarrow> bool" where
  "consistent live [] = True"
| "consistent live (Alloc a sz stack # log) \<longleftrightarrow>
     a \<noteq> 0 \<and> stack \<noteq> [] \<and> live a = None \<and> consistent (live(a \<mapsto> (sz, stack))) log"
| "consistent live (Free a # log) \<longleftrightarrow> consistent (live(a := None)) log"

definition all_allocs :: "heap_event list \<Rightarrow> nat list" where
  "all_allocs log = concat (map (\<lambda>e. case e of Alloc _ sz _ \<Rightarrow> [unat sz] | Free _ \<Rightarrow> []) log)"

text \<open>Every allocation of the log, over all stacks, fits the range of a measure.\<close>

definition log_in_range :: "heap_event list \<Rightarrow> bool" where
  "log_in_range log \<longleftrightarrow> length log < 2 ^ 63 \<and> sum_list (all_allocs log) < 2 ^ 63"

lemma allocs_le_all:
  "length (allocs_of s log) \<le> length log \<and> sum_list (allocs_of s log) \<le> sum_list (all_allocs log)"
proof (induction log)
  case (Cons e log)
  then show ?case by (cases e) (auto simp: allocs_of_def all_allocs_def)
qed (simp add: allocs_of_def all_allocs_def)

lemma consistent_snoc:
  "consistent live (log @ [e]) \<longleftrightarrow> consistent live log \<and> (case e of
     Alloc a sz stack \<Rightarrow> a \<noteq> 0 \<and> stack \<noteq> [] \<and> fold live_event log live a = None | Free a \<Rightarrow> True)"
proof (induction log arbitrary: live)
  case Nil
  show ?case by (cases e) simp_all
next
  case (Cons x log)
  have "consistent live (log @ [e]) \<longleftrightarrow> consistent live log \<and> (\<forall>a sz stack. e = Alloc a sz stack \<longrightarrow>
      a \<noteq> 0 \<and> stack \<noteq> [] \<and> fold live_event log live a = None)" for live
    unfolding Cons.IH by (cases e) simp_all
  then show ?case by (cases x) (auto split: heap_event.split simp del: fun_upd_apply)
qed

lemma replay_returns:
  assumes "consistent Map.empty log" and "log_in_range log"
  shows "\<exists>t n. replay domain log = Inr (t, n)"
  using assms
proof (induction log rule: rev_induct)
  case Nil
  show ?case by (simp add: replay_def)
next
  case (snoc e log)
  have "consistent Map.empty log" "log_in_range log"
    using snoc.prems by (simp_all add: consistent_snoc log_in_range_def all_allocs_def)
  then obtain t n where t: "replay domain log = Inr (t, n)" using snoc.IH by blast
  have step: "replay domain (log @ [e]) = replay_event (t, n) e"
    using t by (simp add: replay_def fold_result_append bindr_def split: sum.split)
  show ?case
  proof (cases e)
    case (Alloc a sz stack)
    obtain acc where acc: "tr_run domain acc = Inr t" "same_history acc log"
      using replay_accepted [OF t] by blast
    have ok: "tracker_ok acc t" by (rule tr_run_ok [OF acc(1)])
    have fresh: "a \<noteq> 0" "stack \<noteq> []" "live_after log a = None"
      using snoc.prems(1) by (simp_all add: Alloc consistent_snoc live_after_def)
    then have free: "map_of (tr_live t) a = None"
      using acc(2) ok by (simp add: same_history_def tracker_ok_def)
    let ?cost = "hv_zero\<lparr>hv_alloc_objects := 1, hv_alloc_space := sz\<rparr>"
    have total: "measures (tr_totals t stack) = [length (allocs_of stack log), sum_list (allocs_of stack log), 0, 0]"
      using ok acc(2) by (simp add: tracker_ok_def same_history_def)
    have cost: "measures ?cost = [1, unat sz, 0, 0]"
      by (simp add: measures_def hv_values_def hv_zero_def)
    have "length log + 1 < 2 ^ 63" "sum_list (all_allocs log) + unat sz < 2 ^ 63"
      using snoc.prems(2) by (simp_all add: log_in_range_def all_allocs_def Alloc)
    then have "in_i64 (map2 (+) (measures (tr_totals t stack)) (measures ?cost))"
      using allocs_le_all [of stack log] by (simp add: total cost in_i64_def)
    then obtain v where v: "hv_checked_add (tr_totals t stack) ?cost = Inr v"
      by (auto simp: hv_checked_add_Inr)
    have "\<exists>i u. charge stack ?cost t = Inr (i, u)"
      using v by (cases "tr_stack_ids t stack") (simp_all add: charge_def tr_totals_def Let_def)
    then show ?thesis
      using fresh free unfolding step by (auto simp: Alloc tr_allocate_def Let_def)
  next
    case (Free a)
    then show ?thesis unfolding step by (cases "release_counted a (t, n)") simp
  qed
qed

lemma fst_list_update: "j < length xs \<Longrightarrow> fst (xs[i := (fst (xs ! i), v)] ! j) = fst (xs ! j)"
  by (cases "j = i") simp_all

text \<open>The snapshot of a replay, by the tracker's refinement of its log.\<close>

lemma replay_snapshot:
  assumes "replay domain log = Inr (t, n)"
  shows "\<exists>hp. tr_snapshot now t = Inr hp \<and> hp_ok hp
    \<and> (\<forall>s. measures (value_of (hp_samples hp) s) = spec_measures log s)
    \<and> (\<forall>s\<in>fst ` set (hp_samples hp). allocs_of s log \<noteq> [])"
proof -
  obtain acc where acc: "tr_run domain acc = Inr t" "same_history acc log"
    using replay_accepted [OF assms] by blast
  obtain hp where hp: "tr_snapshot now t = Inr hp" using snapshot_returns [OF acc(1)] by blast
  note refines = tracker_refines_log [OF acc(1) hp]
  have "allocs_of s log \<noteq> []" if "s \<in> fst ` set (hp_samples hp)" for s
  proof -
    have "s \<in> fst ` set (tr_stacks t)" using that refines by blast
    then obtain i where i: "i < length (tr_stacks t)" "fst (tr_stacks t ! i) = s"
      by (auto simp: in_set_conv_nth)
    have "\<forall>i<length (tr_stacks t). allocs_of (fst (tr_stacks t ! i)) acc \<noteq> []"
      using acc(1)
    proof (induction acc arbitrary: t rule: rev_induct)
      case Nil
      then have "tr_stacks t = []" by (auto simp: tr_run_def tracker_new_def)
      then show ?case by simp
    next
      case (snoc e log)
      then obtain u where u: "tr_run domain log = Inr u" and e: "tr_event u e = Inr t"
        by (auto simp: tr_run_def fold_result_append bindr_Inr_iff)
      note IH = snoc.IH [OF u]
      show ?case
      proof (cases e)
        case (Alloc a sz stack)
        then obtain i v where ch: "charge stack (hv_zero\<lparr>hv_alloc_objects := 1, hv_alloc_space := sz\<rparr>) u = Inr (i, v)"
          and "tr_stacks t = tr_stacks v"
          using e by (auto simp: tr_allocate_def bindr_Inr_iff Let_def)
        then have "length (tr_stacks t) \<le> Suc (length (tr_stacks u))
          \<and> (\<forall>j<length (tr_stacks u). fst (tr_stacks t ! j) = fst (tr_stacks u ! j))
          \<and> (\<forall>j. length (tr_stacks u) \<le> j \<longrightarrow> j < length (tr_stacks t) \<longrightarrow> fst (tr_stacks t ! j) = stack)"
          by (auto simp: charge_def bindr_Inr_iff Let_def nth_append fst_list_update split: option.splits)
        then show ?thesis using IH by (metis Alloc Nil_is_append_conv alloc_of.simps(1) allocs_of_snoc leI neq_Nil_conv)
      next
        case (Free a)
        then show ?thesis using e IH by (auto simp: tr_release_def split: if_splits)
      qed
    qed
    then show ?thesis using i acc(2) by (auto simp: same_history_def)
  qed
  then have "\<forall>s\<in>fst ` set (hp_samples hp). allocs_of s log \<noteq> []" by blast
  then show ?thesis using hp refines same_history_measures [OF acc(2)] by (intro exI [of _ hp] conjI) simp_all
qed

lemma snapshot_header:
  assumes "tr_snapshot now t = Inr hp"
  shows "hp_domain hp = tr_domain t \<and> hp_collected_at hp = now \<and> hp_comment hp = []"
proof -
  obtain vs where "fold_result (\<lambda>p ((stack, _), v). add_sample stack v p)
      (heap_profile_new now (tr_domain t)) (zip (tr_stacks t) vs) = Inr hp"
    using assms by (auto simp: tr_snapshot_def bindr_Inr_iff)
  then show ?thesis
    by (rule fold_result_invariant) (auto simp: heap_profile_new_def add_sample_def bindr_Inr_iff split: prod.splits)
qed

lemma charge_domain: "charge stack cost t = Inr (i, u) \<Longrightarrow> tr_domain u = tr_domain t"
  by (auto simp: charge_def bindr_Inr_iff Let_def split: option.splits)

lemma replay_domain: "replay domain log = Inr (t, n) \<Longrightarrow> tr_domain t = domain"
proof -
  have step: "tr_domain (fst v) = domain" if e: "replay_event u e = Inr v" and u: "tr_domain (fst u) = domain" for u e v
  proof (cases e)
    case (Alloc a sz stack)
    then show ?thesis
      using e u by (cases u) (auto simp: tr_allocate_def bindr_Inr_iff Let_def dest!: charge_domain)
  next
    case (Free a)
    then show ?thesis
      using e u by (cases u) (auto simp: release_counted_def tr_release_def split: sum.splits if_splits)
  qed
  assume "replay domain log = Inr (t, n)"
  then have "tr_domain (fst (t, n)) = domain"
    unfolding replay_def
    by (rule fold_result_invariant [where P = "\<lambda>u. tr_domain (fst u) = domain"])
       (simp add: tracker_new_def, rule step)
  then show ?thesis by simp
qed

section \<open>Annotating the snapshot\<close>

text \<open>\<open>samples.into_iter().map(..).collect()\<close> into a \<open>BTreeMap\<close>: a later equal key wins.\<close>

definition annotate_samples :: "(heap_frame \<Rightarrow> heap_frame) \<Rightarrow> (heap_stack \<times> heap_values) list
    \<Rightarrow> (heap_stack \<times> heap_values) list" where
  "annotate_samples f samples = fold (\<lambda>(stack, v) m. bt_insert (map f stack) v m) samples []"

lemma annotate_loop:
  assumes "inj_on (map f) S" and "fst ` set samples \<subseteq> S" and "distinct (map fst samples)" and "bt_ok m"
    and "s \<in> S"
  shows "bt_ok (fold (\<lambda>(stack, v) m. bt_insert (map f stack) v m) samples m)
    \<and> map_of (fold (\<lambda>(stack, v) m. bt_insert (map f stack) v m) samples m) (map f s)
      = (case map_of samples s of Some v \<Rightarrow> Some v | None \<Rightarrow> map_of m (map f s))"
  using assms
proof (induction samples arbitrary: m)
  case (Cons x samples)
  obtain k v where x: "x = (k, v)" by (cases x)
  have k: "k \<in> S" "k \<notin> fst ` set samples" using Cons.prems(2,3) by (auto simp: x)
  have IH: "bt_ok (fold (\<lambda>(stack, v) m. bt_insert (map f stack) v m) samples (bt_insert (map f k) v m))
    \<and> map_of (fold (\<lambda>(stack, v) m. bt_insert (map f stack) v m) samples (bt_insert (map f k) v m)) (map f s)
      = (case map_of samples s of Some v \<Rightarrow> Some v | None \<Rightarrow> map_of (bt_insert (map f k) v m) (map f s))"
    using Cons.prems by (intro Cons.IH) (auto simp: x)
  have "map f s = map f k \<longleftrightarrow> s = k" using Cons.prems(1,5) k by (auto simp: inj_on_def)
  moreover have "map_of samples k = None" using k(2) by (simp add: map_of_eq_None_iff)
  ultimately show ?case
    using IH Cons.prems(4) by (auto simp: x map_of_bt_insert split: option.split)
qed simp

lemma annotate_value:
  assumes "inj_on (map f) S" and "fst ` set samples \<subseteq> S" and "bt_ok samples" and "s \<in> S"
  shows "value_of (annotate_samples f samples) (map f s) = value_of samples s"
  using annotate_loop [OF assms(1,2) bt_ok_distinct [OF assms(3)] bt_ok_Nil assms(4)]
  by (simp add: annotate_samples_def value_of_def split: option.split)

lemma annotate_ok:
  "bt_ok (annotate_samples f samples)
   \<and> fst ` set (annotate_samples f samples) = map f ` fst ` set samples"
proof -
  have "bt_ok m \<Longrightarrow> bt_ok (fold (\<lambda>(stack, v) m. bt_insert (map f stack) v m) samples m)
    \<and> fst ` set (fold (\<lambda>(stack, v) m. bt_insert (map f stack) v m) samples m)
      = map f ` fst ` set samples \<union> fst ` set m" for m
    by (induction samples arbitrary: m) (auto simp: split_beta)
  then show ?thesis by (simp add: annotate_samples_def)
qed

text \<open>An annotation that keeps what \<open>g\<close> reads of a stack, where \<open>g\<close> tells the stacks apart,
  keeps the values by \<open>g\<close>.\<close>

lemma distinct_renamed:
  assumes "bt_ok xs" and "inj_on g (fst ` set xs)"
  shows "distinct (map fst (map (\<lambda>(s, v). (g s, v)) xs))"
proof -
  have "map fst (map (\<lambda>(s, v). (g s, v)) xs) = map g (map fst xs)" by (simp add: comp_def split_beta)
  moreover have "distinct (map g (map fst xs))"
    unfolding distinct_map [of g] using bt_ok_distinct [OF assms(1)] assms(2) by simp
  ultimately show ?thesis by (simp only:)
qed

lemma annotate_set:
  assumes "inj_on (map f) (fst ` set samples)" and "bt_ok samples"
  shows "set (annotate_samples f samples) = (\<lambda>(s, v). (map f s, v)) ` set samples"
proof -
  let ?ann = "annotate_samples f samples"
  let ?move = "map (\<lambda>(s, v). (map f s, v)) samples"
  have fsts: "map fst ?move = map (map f) (map fst samples)" by (simp add: comp_def split_beta)
  note distinct = distinct_renamed [OF assms(2,1)]
  have "map_of ?ann k = map_of ?move k" for k
  proof (cases "k \<in> map f ` fst ` set samples")
    case True
    then obtain s v where s: "(s, v) \<in> set samples" "k = map f s" by auto
    then have "map_of ?ann k = Some v"
      using annotate_loop [OF assms(1) order_refl bt_ok_distinct [OF assms(2)] bt_ok_Nil, of s]
        map_of_SomeI [OF assms(2) s(1)] by (force simp: annotate_samples_def)
    moreover have "(k, v) \<in> set ?move" using s by force
    then have "map_of ?move k = Some v" using distinct by (rule map_of_is_SomeI [rotated])
    ultimately show ?thesis by simp
  next
    case False
    have "set (map fst ?move) = map f ` fst ` set samples" unfolding fsts by (simp add: image_image)
    then have "map_of ?move k = None" "map_of ?ann k = None"
      using False annotate_ok [of f samples] by (simp_all only: map_of_eq_None_iff set_map not_False_eq_True)
    then show ?thesis by simp
  qed
  then have "set ?ann = set ?move"
    using distinct bt_ok_distinct annotate_ok [of f samples]
    by (subst map_of_inject_set [symmetric]) auto
  then show ?thesis by simp
qed

lemma annotate_view:
  assumes "bt_ok samples" and "inj_on g (fst ` set samples)" and "\<And>s. g (map f s) = g s"
  shows "map_of (map (\<lambda>(s, v). (g s, v)) (annotate_samples f samples)) = map_of (map (\<lambda>(s, v). (g s, v)) samples)"
proof -
  have inj: "inj_on (map f) (fst ` set samples)"
    using assms(2,3) by (metis inj_onI inj_onD)
  have inj': "inj_on g (fst ` set (annotate_samples f samples))"
    using assms(2,3) annotate_ok [of f samples] by (auto simp: inj_on_def)
  have "set (map (\<lambda>(s, v). (g s, v)) (annotate_samples f samples)) = set (map (\<lambda>(s, v). (g s, v)) samples)"
    using annotate_set [OF inj assms(1)] assms(3) by (simp add: image_image split_beta)
  then show ?thesis
    using distinct_renamed [OF assms(1,2)] distinct_renamed [OF conjunct1 [OF annotate_ok] inj']
    by (subst map_of_inject_set) auto
qed

text \<open>The values of a profile by what \<open>g\<close> reads of a stack.\<close>

definition values_by :: "(heap_stack \<Rightarrow> 'k) \<Rightarrow> (heap_stack \<times> heap_values) list \<Rightarrow> 'k \<Rightarrow> nat list" where
  "values_by g samples k =
     (case map_of (map (\<lambda>(s, v). (g s, v)) samples) k of None \<Rightarrow> [0, 0, 0, 0] | Some v \<Rightarrow> measures v)"

lemma values_by_annotated:
  assumes "bt_ok samples" and "inj_on g S" and "fst ` set samples \<subseteq> S" and "s \<in> S"
    and "\<And>s. g (map f s) = g s"
  shows "values_by g (annotate_samples f samples) (g s) = measures (value_of samples s)"
proof -
  have inj: "inj_on g (fst ` set samples)" by (rule inj_on_subset [OF assms(2,3)])
  have "map_of (map (\<lambda>(s, v). (g s, v)) samples) (g s) = map_of samples s"
  proof (cases "map_of samples s")
    case None
    then have "s \<notin> fst ` set samples" by (simp add: map_of_eq_None_iff)
    then have "g s \<notin> g ` fst ` set samples"
      using inj_on_image_mem_iff [OF assms(2,4,3)] by simp
    then have "map_of (map (\<lambda>(s, v). (g s, v)) samples) (g s) = None"
      by (simp add: map_of_eq_None_iff image_image split_beta)
    then show ?thesis using None by simp
  next
    case (Some v)
    then have "(g s, v) \<in> set (map (\<lambda>(s, v). (g s, v)) samples)"
      by (force dest: map_of_SomeD)
    then show ?thesis using distinct_renamed [OF assms(1) inj] Some by (simp only: map_of_is_SomeI)
  qed
  then show ?thesis
    unfolding values_by_def annotate_view [OF assms(1) inj assms(5)]
    by (simp add: value_of_def split: option.split)
qed

section \<open>The contract of a log format\<close>

text \<open>A backend gives a format of log entries and the code that replays one entry. What the results
  rest on: a well-formed entry does to the tracker what its events do, its allocations are made at
  stacks the backend records, and \<open>key\<close>, what a reader of the profile knows of a stack, tells
  recorded stacks apart.\<close>

locale event_log =
  fixes entry_ok :: "'e \<Rightarrow> bool"
    and entry_events :: "'e \<Rightarrow> heap_event list"
    and entry :: "'e \<Rightarrow> tracker \<times> nat \<Rightarrow> 'err + tracker \<times> nat"
    and wrap :: "error \<Rightarrow> 'err"
    and key :: "heap_stack \<Rightarrow> 'k"
    and recorded :: "heap_stack set"
  assumes entry_replays: "entry_ok e \<Longrightarrow> entry e tn = map_error wrap (fold_result replay_event tn (entry_events e))"
    and entry_stacks: "entry_ok e \<Longrightarrow> allocs_of s (entry_events e) \<noteq> [] \<Longrightarrow> s \<in> recorded"
    and key_inj: "inj_on key recorded"
begin

lemma entries_replay:
  assumes "list_all entry_ok es"
  shows "fold_result (\<lambda>tn e. entry e tn) tn es
    = map_error wrap (fold_result replay_event tn (concat (map entry_events es)))"
  using assms
proof (induction es arbitrary: tn)
  case (Cons e es)
  then show ?case
    by (cases "fold_result replay_event tn (entry_events e)") (simp_all add: entry_replays fold_result_append)
qed simp

lemma logged_stacks:
  assumes "list_all entry_ok es" and "allocs_of s (concat (map entry_events es)) \<noteq> []"
  shows "s \<in> recorded"
  using assms
proof (induction es)
  case (Cons e es)
  then have "allocs_of s (entry_events e) \<noteq> [] \<or> allocs_of s (concat (map entry_events es)) \<noteq> []"
    by (auto simp: allocs_of_def)
  then show ?case using Cons entry_stacks by auto
qed (simp add: allocs_of_def)

text \<open>The log of a possible history is read without error, and its snapshot is exact, whatever the
  annotation writes into the frames that \<open>key\<close> does not see.\<close>

lemma entries_snapshot:
  assumes "list_all entry_ok es" and "consistent Map.empty (concat (map entry_events es))"
    and "log_in_range (concat (map entry_events es))" and "s \<in> recorded"
  shows "\<exists>t hp. fold_result (\<lambda>tn e. entry e tn) (tracker_new domain, 0) es
        = Inr (t, unknown_frees (concat (map entry_events es)))
    \<and> tr_snapshot now t = Inr hp \<and> hp_domain hp = domain \<and> hp_collected_at hp = now
    \<and> (\<forall>f. (\<forall>s. key (map f s) = key s) \<longrightarrow>
        values_by key (annotate_samples f (hp_samples hp)) (key s) = spec_measures (concat (map entry_events es)) s)"
proof -
  let ?log = "concat (map entry_events es)"
  obtain t n where tn: "replay domain ?log = Inr (t, n)" using replay_returns [OF assms(2,3)] by blast
  have n: "n = unknown_frees ?log" using replay_accepted [OF tn] by blast
  have run: "fold_result (\<lambda>tn e. entry e tn) (tracker_new domain, 0) es = Inr (t, n)"
    using tn unfolding entries_replay [OF assms(1)] replay_def by simp
  obtain hp where hp: "tr_snapshot now t = Inr hp" "hp_ok hp"
    "\<And>s. measures (value_of (hp_samples hp) s) = spec_measures ?log s"
    "\<And>s. s \<in> fst ` set (hp_samples hp) \<Longrightarrow> allocs_of s ?log \<noteq> []"
    using replay_snapshot [OF tn, of now] by blast
  have "bt_ok (hp_samples hp)" using hp(2) by (simp add: hp_ok_def)
  moreover have "fst ` set (hp_samples hp) \<subseteq> recorded" using hp(4) logged_stacks [OF assms(1)] by blast
  ultimately have "values_by key (annotate_samples f (hp_samples hp)) (key s) = spec_measures ?log s"
    if "\<forall>s. key (map f s) = key s" for f
    using values_by_annotated [OF _ key_inj _ assms(4), of "hp_samples hp" f] that hp(3) by simp
  then show ?thesis using run n hp(1) snapshot_header [OF hp(1)] replay_domain [OF tn] by blast
qed

end

end
