(* ===== verification/Heap_Log.thy ===== *)
theory Heap_Log
  imports Bytes_Le Proc_Maps Symbolize Heap_Replay Heap_Pprof
begin

text \<open>
  The allocation log of the glibc recorder (\<open>src/heap/linux.rs\<close>): \<open>LogReader\<close> opens the file
  the preloaded library writes, replays its fixed-size records on the tracker, and annotates the
  frames of each snapshot with the binary mappings and the symbols of the target.

  The log is its bytes at the time of a read (the recorder only appends records and updates the
  status word). The file system is the parameter \<open>read\<close>, the build identifier that the
  \<open>object\<close> crate finds in a file the parameter \<open>build_id\<close>; symbolication has the parameters of
  \<open>Symbolize\<close>. Starting the target and the timing of the checkpoints are not modelled.
\<close>

section \<open>Opening a log\<close>

datatype log_error = TrackerError error | UnexpectedEof | UnsupportedLog | OtherProcess | NotPrivate
  | ReplacedByExec | LostEvents | BadStatus | IncompleteRecord | BadDepth | UnknownRecord
  | UnreadableMaps | RecorderSilent | RecorderMissing

definition word :: "u8 list \<Rightarrow> nat \<Rightarrow> u64" where
  "word bytes offset = le_word (take 8 (drop offset bytes))"

record log_reader =
  lr_offset :: nat
  lr_tracker :: tracker
  lr_pid :: u32
  lr_map_path :: string
  lr_initial_frees :: nat

text \<open>\<open>owner\<close> and \<open>mode\<close> are the metadata of the file, \<open>me\<close> is \<open>getuid()\<close>.\<close>

definition log_open :: "u32 \<Rightarrow> u32 \<Rightarrow> u32 \<Rightarrow> u8 list \<Rightarrow> string \<Rightarrow> u32 \<Rightarrow> log_error + log_reader" where
  "log_open me owner mode file path pid =
     bindr (ensure (32 \<le> length file) UnexpectedEof) (\<lambda>_.
       let header = take 32 file in
       bindr (ensure (take 8 header = str_bytes ''PPHEAP01'' \<and> word header 8 = 1) UnsupportedLog) (\<lambda>_.
       bindr (ensure (word header 16 = ucast pid) OtherProcess) (\<lambda>_.
       bindr (ensure (owner = me \<and> mode AND 0x3F = 0) NotPrivate) (\<lambda>_.
         Inr \<lparr>lr_offset = 32, lr_tracker = tracker_new ''native'', lr_pid = pid,
              lr_map_path = path @ ''.maps'', lr_initial_frees = 0\<rparr>))))"

section \<open>Reading records\<close>

definition record_len :: nat where
  "record_len = 69 * 8"

definition plain_frame :: "u64 \<Rightarrow> heap_frame" where
  "plain_frame address = HeapFrame address [] [] 0 None"

definition unavailable_frame :: heap_frame where
  "unavailable_frame = HeapFrame 0 ''[unavailable allocation stack]'' [] 0 None"

definition event_stack :: "u64 list \<Rightarrow> heap_stack" where
  "event_stack pcs = (let stack = map plain_frame pcs in
     if stack = [] then [unavailable_frame] else stack)"

text \<open>The body of the loop of \<open>snapshot\<close>, for the bytes of one record.\<close>

definition log_event :: "u8 list \<Rightarrow> tracker \<times> nat \<Rightarrow> log_error + tracker \<times> nat" where
  "log_event event t =
     (let kind = word event 0; address = word event 8; old = word event 16; sz = word event 24;
          depth = word event 32 in
      bindr (ensure (depth \<le> 64) BadDepth) (\<lambda>_.
        let t = (if kind = 2 \<or> (kind = 3 \<and> old \<noteq> 0)
                 then release_counted (if kind = 2 then address else old) t else t) in
        bindr (if (kind = 1 \<or> kind = 3) \<and> address \<noteq> 0
               then map_error TrackerError
                 (bindr (tr_allocate address sz
                     (event_stack (map (\<lambda>i. word event (40 + i * 8)) [0..<unat depth])) (fst t))
                   (\<lambda>u. Inr (u, snd t)))
               else Inr t) (\<lambda>t.
        bindr (ensure (1 \<le> kind \<and> kind \<le> 3) UnknownRecord) (\<lambda>_. Inr t))))"

definition log_step :: "u8 list \<Rightarrow> log_reader \<Rightarrow> log_error + log_reader" where
  "log_step file r =
     (let event = take record_len (drop (lr_offset r) file) in
      bindr (ensure (length event = record_len) UnexpectedEof) (\<lambda>_.
      bindr (log_event event (lr_tracker r, lr_initial_frees r)) (\<lambda>(t, n).
        Inr (r\<lparr>lr_offset := lr_offset r + record_len, lr_tracker := t, lr_initial_frees := n\<rparr>))))"

primrec log_loop :: "nat \<Rightarrow> u8 list \<Rightarrow> log_reader \<Rightarrow> log_error + log_reader" where
  "log_loop 0 file r = Inr r"
| "log_loop (Suc n) file r = bindr (log_step file r) (log_loop n file)"

definition log_available :: "u8 list \<Rightarrow> log_reader \<Rightarrow> nat" where
  "log_available file r = length file - lr_offset r"

text \<open>From the status check to the end of the loop.\<close>

definition read_log :: "u8 list \<Rightarrow> bool \<Rightarrow> log_reader \<Rightarrow> log_error + log_reader" where
  "read_log file final_read r =
     bindr (ensure (32 \<le> length file) UnexpectedEof) (\<lambda>_.
       let status = word file 24 in
       bindr (ensure (status \<noteq> 3) ReplacedByExec) (\<lambda>_.
       bindr (ensure (status \<noteq> 1) LostEvents) (\<lambda>_.
       bindr (ensure (status = 0 \<or> status = 2) BadStatus) (\<lambda>_.
       bindr (ensure (\<not> final_read \<or> log_available file r mod record_len = 0) IncompleteRecord) (\<lambda>_.
         log_loop (log_available file r div record_len) file r)))))"

section \<open>Mappings\<close>

function trim_end_matches :: "u8 list \<Rightarrow> u8 list \<Rightarrow> u8 list" where
  "trim_end_matches pat bs =
     (if pat \<noteq> [] \<and> suffix pat bs then trim_end_matches pat (take (length bs - length pat) bs) else bs)"
  by pat_completeness auto

termination
  by (relation "measure (\<lambda>(pat, bs). length bs)") (auto simp: suffix_def)

declare trim_end_matches.simps [simp del]

definition mapping_of_line :: "u8 list \<Rightarrow> (u64 \<times> u64 \<times> u64 \<times> string) option" where
  "mapping_of_line line =
     (let parts = split_whitespace line in
      if length parts < 6 \<or> \<not> prefix [47] (parts ! 5) then None
      else
        (case split_once 45 (parts ! 0) of
           None \<Rightarrow> None
         | Some (start, limit) \<Rightarrow>
             (case (parse_hex start, parse_hex limit, parse_hex (parts ! 2)) of
                (Some start, Some limit, Some offset) \<Rightarrow>
                  Some (start, limit, offset, unescape_proc_path
                    (trim_end_matches (str_bytes '' (deleted)'') (join_bytes [32] (drop 5 parts))))
              | _ \<Rightarrow> None)))"

text \<open>\<open>{b:02x}\<close>.\<close>

definition hex2 :: "u8 \<Rightarrow> string" where
  "hex2 b = [hex_digit (unat b div 16), hex_digit (unat b mod 16)]"

definition build_id_text :: "(string \<Rightarrow> u8 list option) \<Rightarrow> string \<Rightarrow> string" where
  "build_id_text build_id path =
     (case build_id path of None \<Rightarrow> [] | Some bytes \<Rightarrow> concat (map hex2 bytes))"

text \<open>One turn of the loop, with the cache of build identifiers by path.\<close>

definition native_mapping_step :: "(string \<Rightarrow> u8 list option) \<Rightarrow> u8 list
    \<Rightarrow> (string \<rightharpoonup> string) \<times> heap_mapping list \<Rightarrow> (string \<rightharpoonup> string) \<times> heap_mapping list" where
  "native_mapping_step build_id line = (\<lambda>(build_ids, images).
     case mapping_of_line line of
       None \<Rightarrow> (build_ids, images)
     | Some (start, limit, offset, path) \<Rightarrow>
         let ident = (case build_ids path of Some i \<Rightarrow> i | None \<Rightarrow> build_id_text build_id path) in
         (build_ids(path \<mapsto> ident), images @ [HeapMapping start limit offset path ident]))"

definition native_mappings :: "(string \<Rightarrow> u8 list option) \<Rightarrow> u8 list \<Rightarrow> heap_mapping list" where
  "native_mappings build_id maps =
     snd (fold (native_mapping_step build_id) (str_lines maps) (Map.empty, []))"

section \<open>Snapshots\<close>

definition annotate_frame :: "heap_mapping list \<Rightarrow> symbolizer \<Rightarrow> heap_frame \<Rightarrow> heap_frame" where
  "annotate_frame mappings symbolize frame =
     (let address = hf_address frame;
          found = find (\<lambda>m. hm_memory_start m \<le> address \<and> address < hm_memory_limit m) mappings in
      case symbolize address of
        Some info \<Rightarrow> HeapFrame address (fi_function info) (fi_file info) (ucast (fi_line info)) found
      | None \<Rightarrow> HeapFrame address (hf_function frame) (hf_file frame) (hf_line frame) found)"

fun dec_digits :: "nat \<Rightarrow> string" where
  "dec_digits n = (if n < 10 then [] else dec_digits (n div 10)) @ [hex_digit (n mod 10)]"

declare dec_digits.simps [simp del]

definition log_comment :: "nat \<Rightarrow> string" where
  "log_comment initial_frees =
     ''Exact glibc system-allocator capture from recorder initialization. Bytes are malloc_usable_size block sizes. ''
     @ dec_digits initial_frees
     @ '' frees preceded recorded allocation history. Forked children and custom allocators are excluded.''"

text \<open>\<open>std::fs::read_to_string\<close>: readable, and UTF-8.\<close>

definition read_to_string :: "(string \<Rightarrow> u8 list option) \<Rightarrow> string \<Rightarrow> u8 list option" where
  "read_to_string read path =
     (case read path of None \<Rightarrow> None | Some bytes \<Rightarrow> if utf8_valid bytes then Some bytes else None)"

definition proc_maps_path :: "u32 \<Rightarrow> string" where
  "proc_maps_path pid = ''/proc/'' @ dec_digits (unat pid) @ ''/maps''"

definition recorded_maps :: "(string \<Rightarrow> u8 list option) \<Rightarrow> log_reader \<Rightarrow> log_error + u8 list" where
  "recorded_maps read r =
     context_opt (case read_to_string read (proc_maps_path (lr_pid r)) of
         Some maps \<Rightarrow> Some maps
       | None \<Rightarrow> read_to_string read (lr_map_path r)) UnreadableMaps"

record log_env =
  le_read :: "string \<Rightarrow> u8 list option"
  le_build_id :: "string \<Rightarrow> u8 list option"
  le_demangle :: demangler
  le_disk :: disk
  le_native :: architecture
  le_now :: int

definition log_snapshot :: "log_env \<Rightarrow> u8 list \<Rightarrow> bool \<Rightarrow> log_reader
    \<Rightarrow> log_error + log_reader \<times> heap_profile" where
  "log_snapshot env file final_read r =
     bindr (read_log file final_read r) (\<lambda>r.
     bindr (map_error TrackerError (tr_snapshot (le_now env) (lr_tracker r))) (\<lambda>profile.
     bindr (recorded_maps (le_read env) r) (\<lambda>maps.
       let mappings = native_mappings (le_build_id env) maps;
           images = parse_loaded_images maps;
           addresses = remdups (concat (map (\<lambda>(s, _). map hf_address s) (hp_samples profile)));
           symbolizer = native_symbolize
             (native_new (le_demangle env) (le_disk env) (le_native env) images addresses) in
       Inr (r, profile\<lparr>hp_samples := annotate_samples (annotate_frame mappings symbolizer) (hp_samples profile),
                       hp_comment := log_comment (lr_initial_frees r)\<rparr>))))"

section \<open>Reading in several rounds\<close>

text \<open>The recorder appends: what was written stays, apart from the status word of the header.\<close>

definition log_grows :: "u8 list \<Rightarrow> u8 list \<Rightarrow> bool" where
  "log_grows file file' \<longleftrightarrow> 32 \<le> length file \<and> 32 \<le> length file'
     \<and> take 24 file' = take 24 file \<and> prefix (drop 32 file) (drop 32 file')"

lemma record_len_pos [simp]: "0 < record_len"
  by (simp add: record_len_def)

lemma log_step_offset: "log_step file r = Inr r' \<Longrightarrow> lr_offset r' = lr_offset r + record_len"
  by (auto simp: log_step_def Let_def bindr_Inr_iff)

lemma log_loop_offset: "log_loop n file r = Inr r' \<Longrightarrow> lr_offset r' = lr_offset r + n * record_len"
  by (induction n arbitrary: r) (auto simp: bindr_Inr_iff dest!: log_step_offset)

lemma log_loop_add: "log_loop (m + n) file r = bindr (log_loop m file r) (log_loop n file)"
  by (induction m arbitrary: r) (simp_all add: bindr_def split: sum.split)

lemma log_grows_take:
  assumes "log_grows file file'" and "32 \<le> i" and "i + k \<le> length file"
  shows "take k (drop i file') = take k (drop i file)"
proof -
  obtain rest where rest: "drop 32 file' = drop 32 file @ rest"
    using assms(1) by (auto simp: log_grows_def prefix_def)
  have parts: "drop i file' = drop (i - 32) (drop 32 file')" "drop i file = drop (i - 32) (drop 32 file)"
    using assms(2) by simp_all
  have "i - 32 + k \<le> length (drop 32 file)" using assms(2,3) by simp
  then show ?thesis unfolding parts rest by simp
qed

lemma log_grows_length: "log_grows file file' \<Longrightarrow> length file \<le> length file'"
  by (auto simp: log_grows_def dest!: prefix_length_le)

lemma log_loop_grows:
  assumes "log_grows file file'" and "32 \<le> lr_offset r" and "lr_offset r + n * record_len \<le> length file"
  shows "log_loop n file' r = log_loop n file r"
  using assms
proof (induction n arbitrary: r)
  case (Suc n)
  have "log_step file' r = log_step file r"
    using log_grows_take [OF Suc.prems(1,2), of record_len] Suc.prems(3) by (simp add: log_step_def)
  moreover have "log_loop n file' r' = log_loop n file r'" if "log_step file r = Inr r'" for r'
    using Suc.IH [of r'] Suc.prems log_step_offset [OF that] by simp
  ultimately show ?case by (simp add: bindr_def split: sum.split)
qed simp

lemma read_log_Inr:
  "read_log file final r = Inr r' \<longleftrightarrow>
     32 \<le> length file \<and> word file 24 \<in> {0, 2} \<and> (final \<longrightarrow> log_available file r mod record_len = 0)
     \<and> log_loop (log_available file r div record_len) file r = Inr r'"
  by (auto simp: read_log_def bindr_Inr_iff Let_def)

lemma read_log_offset:
  assumes "read_log file final r = Inr r'" and "lr_offset r \<le> length file"
  shows "lr_offset r \<le> lr_offset r'" and "lr_offset r' \<le> length file"
    and "log_available file r mod record_len = log_available file r' mod record_len"
proof -
  have off: "lr_offset r' = lr_offset r + log_available file r div record_len * record_len"
    using assms(1) by (auto simp: read_log_Inr dest: log_loop_offset)
  have "log_available file r div record_len * record_len \<le> log_available file r" by simp
  then show "lr_offset r \<le> lr_offset r'" "lr_offset r' \<le> length file"
    using off assms(2) unfolding log_available_def by linarith+
  have "log_available file r' = log_available file r mod record_len"
    using off minus_div_mult_eq_mod [of "log_available file r" record_len]
    by (simp add: log_available_def)
  then show "log_available file r mod record_len = log_available file r' mod record_len" by simp
qed

lemma read_log_compose:
  assumes grows: "log_grows file file'" and first: "read_log file final r = Inr r1"
    and off: "32 \<le> lr_offset r" "lr_offset r \<le> length file"
  shows "read_log file' final' r1 = read_log file' final' r"
proof -
  let ?n = "log_available file r div record_len"
  have loop: "log_loop ?n file r = Inr r1" using first by (simp add: read_log_Inr)
  have r1: "lr_offset r1 = lr_offset r + ?n * record_len" by (rule log_loop_offset [OF loop])
  have "?n * record_len \<le> log_available file r" by simp
  then have n: "?n * record_len \<le> length file - lr_offset r" by (simp only: log_available_def)
  have le: "length file \<le> length file'" by (rule log_grows_length [OF grows])
  have avail: "log_available file' r = log_available file' r1 + ?n * record_len"
    unfolding log_available_def [of file'] r1 using n le off by linarith
  have "log_loop ?n file' r = Inr r1"
    using log_loop_grows [OF grows off(1), of ?n] n off(2) loop by simp
  then have "log_loop (log_available file' r div record_len) file' r
      = log_loop (log_available file' r1 div record_len) file' r1"
    unfolding avail by (simp add: log_loop_add add.commute [of _ ?n])
  then show ?thesis unfolding read_log_def avail by simp
qed

section \<open>Logs as events\<close>

text \<open>What the recorder writes (\<open>struct event\<close> of \<open>recorder.c\<close>): five words and 64 return
  addresses, of which the first \<open>depth\<close> are used.\<close>

datatype record_event = Malloc u64 u64 "u64 list" | FreeCall u64 | Realloc u64 u64 u64 "u64 list"

fun record_words :: "record_event \<Rightarrow> u64 list" where
  "record_words (Malloc address sz pcs) =
     [1, address, 0, sz, word_of_nat (length pcs)] @ pcs @ replicate (64 - length pcs) 0"
| "record_words (FreeCall address) = [2, address, 0, 0, 0] @ replicate 64 0"
| "record_words (Realloc address old sz pcs) =
     [3, address, old, sz, word_of_nat (length pcs)] @ pcs @ replicate (64 - length pcs) 0"

definition log_record_bytes :: "record_event \<Rightarrow> u8 list" where
  "log_record_bytes e = concat (map (le_bytes 8) (record_words e))"

fun record_pcs :: "record_event \<Rightarrow> u64 list" where
  "record_pcs (Malloc address sz pcs) = pcs"
| "record_pcs (FreeCall address) = []"
| "record_pcs (Realloc address old sz pcs) = pcs"

definition recordable :: "record_event \<Rightarrow> bool" where
  "recordable e \<longleftrightarrow> length (record_pcs e) \<le> 64 \<and> 0 \<notin> set (record_pcs e)"

definition alloc_event :: "u64 \<Rightarrow> u64 \<Rightarrow> u64 list \<Rightarrow> heap_event list" where
  "alloc_event address sz pcs = (if address = 0 then [] else [Alloc address sz (event_stack pcs)])"

fun events_of :: "record_event \<Rightarrow> heap_event list" where
  "events_of (Malloc address sz pcs) = alloc_event address sz pcs"
| "events_of (FreeCall address) = [Free address]"
| "events_of (Realloc address old sz pcs) =
     (if old = 0 then [] else [Free old]) @ alloc_event address sz pcs"

definition log_events :: "record_event list \<Rightarrow> heap_event list" where
  "log_events es = concat (map events_of es)"

lemma word_words:
  "i < length ws \<Longrightarrow> word (concat (map (le_bytes 8) ws)) (i * 8) = ws ! i"
proof (induction ws arbitrary: i)
  case (Cons w ws)
  show ?case
  proof (cases i)
    case 0
    then show ?thesis by (simp add: word_def le_word_bytes)
  next
    case (Suc j)
    have "word (concat (map (le_bytes 8) (w # ws))) (8 + j * 8) = word (concat (map (le_bytes 8) ws)) (j * 8)"
      by (simp add: word_def)
    then show ?thesis using Cons Suc by simp
  qed
qed simp

lemma length_words [simp]: "length (concat (map (le_bytes 8) ws)) = length ws * 8"
  by (induction ws) simp_all

lemma length_record_words: "recordable e \<Longrightarrow> length (record_words e) = 69"
  by (cases e) (simp_all add: recordable_def)

lemma length_record: "recordable e \<Longrightarrow> length (log_record_bytes e) = record_len"
  by (simp add: log_record_bytes_def length_record_words record_len_def)

lemma record_word:
  assumes "recordable e" and "i < 69"
  shows "word (log_record_bytes e) (8 * i) = record_words e ! i"
  using word_words [of i "record_words e"] length_record_words [OF assms(1)] assms(2)
  by (simp add: log_record_bytes_def mult.commute)

lemma record_stack:
  assumes "recordable e" and "record_words e = [a, b, c, d, f] @ pcs @ rest" and "length pcs \<le> 64"
  shows "map (\<lambda>i. word (log_record_bytes e) (40 + i * 8)) [0..<length pcs] = pcs"
proof (rule nth_equalityI)
  fix i assume "i < length (map (\<lambda>i. word (log_record_bytes e) (40 + i * 8)) [0..<length pcs])"
  then have i: "i < length pcs" by simp
  then have "word (log_record_bytes e) (8 * (i + 5)) = pcs ! i"
    using record_word [OF assms(1), of "i + 5"] assms(2,3) by (simp add: nth_append)
  moreover have "8 * (i + 5) = 40 + i * 8" by simp
  ultimately show "map (\<lambda>i. word (log_record_bytes e) (40 + i * 8)) [0..<length pcs] ! i = pcs ! i"
    using i by (simp only: nth_map_upt length_upt length_map) (simp add: add.commute)
qed simp

lemma record_header:
  assumes "recordable e"
  shows "word (log_record_bytes e) 0 = record_words e ! 0" "word (log_record_bytes e) 8 = record_words e ! 1"
    "word (log_record_bytes e) 16 = record_words e ! 2" "word (log_record_bytes e) 24 = record_words e ! 3"
    "word (log_record_bytes e) 32 = record_words e ! 4"
  using record_word [OF assms, of 0] record_word [OF assms, of 1] record_word [OF assms, of 2]
    record_word [OF assms, of 3] record_word [OF assms, of 4] by simp_all

lemma replay_free: "replay_event tn (Free a) = Inr (release_counted a tn)"
  by (cases tn) simp

lemma replay_alloc:
  "fold_result replay_event tn (alloc_event address sz pcs) =
     (if address = 0 then Inr tn
      else bindr (tr_allocate address sz (event_stack pcs) (fst tn)) (\<lambda>u. Inr (u, snd tn)))"
  by (cases tn) (simp add: alloc_event_def bindr_def split: sum.split)

lemma log_event_record:
  assumes "recordable e"
  shows "log_event (log_record_bytes e) tn = map_error TrackerError (fold_result replay_event tn (events_of e))"
proof -
  have depth: "(word_of_nat n :: u64) \<le> 64" "unat (word_of_nat n :: u64) = n" if "n \<le> 64" for n
    using that by (simp_all add: word_le_nat_alt unat_of_nat)
  show ?thesis
  proof (cases e)
    case (Malloc address sz pcs)
    have stack: "map (\<lambda>i. word (log_record_bytes e) (40 + i * 8)) [0..<length pcs] = pcs"
      using assms by (intro record_stack) (simp_all add: Malloc recordable_def)
    have "length pcs \<le> 64" using assms by (simp add: Malloc recordable_def)
    then show ?thesis
      using stack unfolding log_event_def record_header [OF assms] Let_def
      by (simp add: Malloc depth replay_alloc bindr_def split: sum.split)
  next
    case (FreeCall address)
    then show ?thesis
      unfolding log_event_def record_header [OF assms] Let_def
      by (simp add: replay_free)
  next
    case (Realloc address old sz pcs)
    have stack: "map (\<lambda>i. word (log_record_bytes e) (40 + i * 8)) [0..<length pcs] = pcs"
      using assms by (intro record_stack) (simp_all add: Realloc recordable_def)
    have "length pcs \<le> 64" using assms by (simp add: Realloc recordable_def)
    then show ?thesis
      using stack unfolding log_event_def record_header [OF assms] Let_def
      by (cases "old = 0") (simp_all add: Realloc depth replay_alloc replay_free bindr_def split: sum.split)
  qed
qed

text \<open>The loop over a log of records is the replay of its events.\<close>

lemma take_record:
  assumes "list_all recordable (e # es)"
  shows "take record_len (drop (length pre) (pre @ concat (map log_record_bytes (e # es)) @ rest)) = log_record_bytes e"
  using assms length_record [of e] by simp

lemma log_loop_records:
  assumes "list_all recordable es" and "lr_offset r = length pre"
  shows "log_loop (length es) (pre @ concat (map log_record_bytes es) @ rest) r =
    bindr (fold_result (\<lambda>tn e. log_event (log_record_bytes e) tn) (lr_tracker r, lr_initial_frees r) es)
      (\<lambda>(t, n). Inr (r\<lparr>lr_offset := lr_offset r + length es * record_len, lr_tracker := t, lr_initial_frees := n\<rparr>))"
  using assms
proof (induction es arbitrary: pre r)
  case (Cons e es)
  let ?file = "pre @ concat (map log_record_bytes (e # es)) @ rest"
  let ?tn = "(lr_tracker r, lr_initial_frees r)"
  have len: "length (log_record_bytes e) = record_len" using Cons.prems(1) length_record by simp
  have step: "log_step ?file r = bindr (log_event (log_record_bytes e) ?tn)
      (\<lambda>(t, n). Inr (r\<lparr>lr_offset := lr_offset r + record_len, lr_tracker := t, lr_initial_frees := n\<rparr>))"
    unfolding log_step_def Let_def Cons.prems(2) take_record [OF Cons.prems(1)] using len by simp
  have loop: "log_loop (length (e # es)) ?file r = bindr (log_step ?file r) (log_loop (length es) ?file)"
    by (simp only: list.size add_0_right plus_1_eq_Suc add_Suc_right log_loop.simps)
  show ?case
  proof (cases "log_event (log_record_bytes e) ?tn")
    case (Inl err)
    then show ?thesis unfolding loop step by simp
  next
    case (Inr u)
    obtain t n where u: "u = (t, n)" by (cases u)
    have whole: "?file = (pre @ log_record_bytes e) @ concat (map log_record_bytes es) @ rest" by simp
    show ?thesis
      using Cons.IH [of "r\<lparr>lr_offset := lr_offset r + record_len, lr_tracker := t, lr_initial_frees := n\<rparr>"
          "pre @ log_record_bytes e"] Cons.prems len
      unfolding loop step unfolding whole by (simp add: Inr u add.assoc)
  qed
qed simp

lemma length_records: "list_all recordable es \<Longrightarrow> length (concat (map log_record_bytes es)) = length es * record_len"
  by (induction es) (simp_all add: length_record)

text \<open>A whole file: the header, the records, and possibly the start of one more record.\<close>

definition log_file :: "u8 list \<Rightarrow> record_event list \<Rightarrow> u8 list \<Rightarrow> u8 list" where
  "log_file header es rest = header @ concat (map log_record_bytes es) @ rest"

lemma read_log_records:
  assumes "list_all recordable es" and "length header = 32" and "word header 24 \<in> {0, 2}"
    and "length rest < record_len" and "final \<longrightarrow> rest = []" and "lr_offset r = 32"
  shows "read_log (log_file header es rest) final r =
    bindr (fold_result (\<lambda>tn e. log_event (log_record_bytes e) tn) (lr_tracker r, lr_initial_frees r) es)
      (\<lambda>(t, n). Inr (r\<lparr>lr_offset := 32 + length es * record_len, lr_tracker := t, lr_initial_frees := n\<rparr>))"
proof -
  have avail: "log_available (log_file header es rest) r = length rest + length es * record_len"
    using assms(2,6) length_records [OF assms(1)] by (simp add: log_available_def log_file_def)
  have n: "log_available (log_file header es rest) r div record_len = length es"
    "log_available (log_file header es rest) r mod record_len = length rest"
    unfolding avail using assms(4) by simp_all
  have "word (log_file header es rest) 24 = word header 24"
    using assms(2) by (simp add: word_def log_file_def)
  moreover have "32 \<le> length (log_file header es rest)" using assms(2) by (simp add: log_file_def)
  ultimately have "read_log (log_file header es rest) final r = log_loop (length es) (log_file header es rest) r"
    unfolding read_log_def n using assms(3,5) by (auto simp: Let_def)
  also have "\<dots> = bindr (fold_result (\<lambda>tn e. log_event (log_record_bytes e) tn) (lr_tracker r, lr_initial_frees r) es)
      (\<lambda>(t, n). Inr (r\<lparr>lr_offset := 32 + length es * record_len, lr_tracker := t, lr_initial_frees := n\<rparr>))"
    unfolding log_file_def using assms(2,6) by (subst log_loop_records [OF assms(1)]) simp_all
  finally show ?thesis .
qed

section \<open>Snapshots by address\<close>

definition stack_addresses :: "heap_stack \<Rightarrow> u64 list" where
  "stack_addresses s = map hf_address s"

text \<open>What a snapshot holds for a stack of addresses, whatever names its frames were given.\<close>

definition held_at :: "heap_profile \<Rightarrow> u64 list \<Rightarrow> nat list" where
  "held_at hp = values_by stack_addresses (hp_samples hp)"

definition recorded_stacks :: "heap_stack set" where
  "recorded_stacks = {event_stack pcs |pcs. 0 \<notin> set pcs}"

lemma event_stack_addresses:
  "stack_addresses (event_stack pcs) = (if pcs = [] then [0] else pcs)"
  by (simp add: stack_addresses_def event_stack_def Let_def unavailable_frame_def plain_frame_def comp_def)

lemma recorded_stacks_inj: "inj_on stack_addresses recorded_stacks"
proof (rule inj_onI)
  fix s t assume "s \<in> recorded_stacks" "t \<in> recorded_stacks" and eq: "stack_addresses s = stack_addresses t"
  then obtain p q where "s = event_stack p" "0 \<notin> set p" "t = event_stack q" "0 \<notin> set q"
    by (auto simp: recorded_stacks_def)
  then show "s = t" using eq by (auto simp: event_stack_addresses split: if_splits)
qed

lemma annotate_address [simp]: "hf_address (annotate_frame mappings symbolize frame) = hf_address frame"
  by (simp add: annotate_frame_def Let_def split: option.split)

text \<open>The recorder's log is a log format; stacks are known by their addresses, whatever names and
  mappings their frames are given.\<close>

interpretation recorder: event_log recordable events_of "\<lambda>e. log_event (log_record_bytes e)" TrackerError
  stack_addresses recorded_stacks
proof unfold_locales
  fix e :: record_event and s
  assume "recordable e" and "allocs_of s (events_of e) \<noteq> []"
  then show "s \<in> recorded_stacks"
    by (cases e) (auto simp: allocs_of_def alloc_event_def recorded_stacks_def recordable_def split: if_splits)
qed (rule log_event_record, simp, rule recorded_stacks_inj)

section \<open>Capturing\<close>

text \<open>\<open>reader.snapshot(final)?.to_pprof()?\<close>.\<close>

definition checkpoint :: "log_env \<Rightarrow> u8 list \<Rightarrow> bool \<Rightarrow> log_reader \<Rightarrow> log_error + log_reader \<times> profile" where
  "checkpoint env file final_read r =
     bindr (log_snapshot env file final_read r) (\<lambda>(r, hp).
     bindr (map_error TrackerError (to_pprof hp)) (\<lambda>p. Inr (r, p)))"

text \<open>What one turn of a capture loop observes: the log, the file system, whether the target runs,
  and the clock. \<open>done\<close> is read twice in a turn.\<close>

record turn =
  tu_env :: log_env
  tu_file :: "u8 list"
  tu_owner :: u32
  tu_mode :: u32
  tu_exited :: bool
  tu_stop :: bool
  tu_timeout :: bool
  tu_due :: bool
  tu_done :: bool
  tu_done_after :: bool

text \<open>The loop of \<open>attach\<close>: what it returns (\<^const>\<open>None\<close> while it runs), and the profiles given to
  the checkpoint callback.\<close>

fun attach_loop :: "turn list \<Rightarrow> log_reader \<Rightarrow> (log_error + profile) option \<times> profile list" where
  "attach_loop [] r = (None, [])"
| "attach_loop (t # ts) r =
     (case checkpoint (tu_env t) (tu_file t) (tu_exited t) r of
        Inl e \<Rightarrow> (Some (Inl e), [])
      | Inr (r, p) \<Rightarrow>
          if tu_exited t \<or> tu_done_after t then (Some (Inr p), [p])
          else let (result, ps) = attach_loop ts r in (result, p # ps))"

text \<open>The path of the log, from the environment of the target.\<close>

fun split_zero :: "u8 list \<Rightarrow> u8 list \<Rightarrow> u8 list list" where
  "split_zero acc [] = [acc]"
| "split_zero acc (b # bs) = (if b = 0 then acc # split_zero [] bs else split_zero (acc @ [b]) bs)"

definition recorder_path :: "u8 list \<Rightarrow> u8 list option" where
  "recorder_path env =
     map_option (drop 20) (find (prefix (str_bytes ''PPROFESSOR_HEAP_LOG='')) (split_zero [] env))"

definition attach :: "u32 \<Rightarrow> turn list \<Rightarrow> string \<Rightarrow> u32 \<Rightarrow> u8 list \<times> u32 \<times> u32
    \<Rightarrow> (log_error + profile) option \<times> profile list" where
  "attach me ts path pid = (\<lambda>(file, owner, mode).
     case log_open me owner mode file path pid of
       Inl e \<Rightarrow> (Some (Inl e), [])
     | Inr r \<Rightarrow> attach_loop ts r)"

text \<open>One turn of \<open>run\<close>, which waits for the log, and its loop. An absent log is an empty file.\<close>

definition open_if_ready :: "u32 \<Rightarrow> string \<Rightarrow> u32 \<Rightarrow> turn \<Rightarrow> log_reader option \<Rightarrow> log_error + log_reader option" where
  "open_if_ready me path pid t reader =
     (if reader = None \<and> 32 \<le> length (tu_file t)
      then bindr (log_open me (tu_owner t) (tu_mode t) (tu_file t) path pid) (\<lambda>r. Inr (Some r))
      else Inr reader)"

fun run_loop :: "u32 \<Rightarrow> string \<Rightarrow> u32 \<Rightarrow> turn list \<Rightarrow> log_reader option
    \<Rightarrow> (log_error + profile) option \<times> profile list" where
  "run_loop me path pid [] reader = (None, [])"
| "run_loop me path pid (t # ts) reader =
     (case open_if_ready me path pid t reader of
        Inl e \<Rightarrow> (Some (Inl e), [])
      | Inr reader \<Rightarrow>
          if reader = None \<and> (tu_timeout t \<or> tu_stop t) then (Some (Inl RecorderSilent), [])
          else if tu_exited t \<or> (reader \<noteq> None \<and> tu_done t) \<or> tu_due t then
            (case reader of
               Some r \<Rightarrow>
                 (case checkpoint (tu_env t) (tu_file t) (tu_exited t) r of
                    Inl e \<Rightarrow> (Some (Inl e), [])
                  | Inr (r, p) \<Rightarrow>
                      if tu_exited t \<or> tu_done_after t then (Some (Inr p), [p])
                      else let (result, ps) = run_loop me path pid ts (Some r) in (result, p # ps))
             | None \<Rightarrow>
                 if tu_exited t \<or> tu_done_after t then (Some (Inl RecorderMissing), [])
                 else run_loop me path pid ts None)
          else run_loop me path pid ts reader)"

section \<open>What a capture returns\<close>

lemma checkpoint_compose:
  assumes "log_grows file file'" and "read_log file final r = Inr r1"
    and "32 \<le> lr_offset r" and "lr_offset r \<le> length file"
  shows "checkpoint env file' final' r1 = checkpoint env file' final' r"
  unfolding checkpoint_def log_snapshot_def read_log_compose [OF assms] ..

lemma checkpoint_reads:
  "checkpoint env file final r = Inr (r1, p) \<Longrightarrow> read_log file final r = Inr r1"
  by (auto simp: checkpoint_def log_snapshot_def bindr_Inr_iff Let_def)

lemma run_loop_open:
  assumes "run_loop me path pid ts (Some r) = (Some (Inr p), ps)"
    and "sorted_wrt log_grows (map tu_file ts)" and "32 \<le> lr_offset r"
    and "\<forall>t\<in>set ts. lr_offset r \<le> length (tu_file t)"
  shows "\<exists>t r1. t \<in> set ts \<and> (tu_exited t \<or> tu_done_after t)
    \<and> checkpoint (tu_env t) (tu_file t) (tu_exited t) r = Inr (r1, p)"
  using assms
proof (induction ts arbitrary: r ps)
  case (Cons t ts)
  have ready: "open_if_ready me path pid t (Some r) = Inr (Some r)" by (simp add: open_if_ready_def)
  show ?case
  proof (cases "tu_exited t \<or> tu_done t \<or> tu_due t")
    case False
    then have "run_loop me path pid ts (Some r) = (Some (Inr p), ps)"
      using Cons.prems(1) by (simp add: ready)
    from Cons.IH [OF this] Cons.prems(2-4) show ?thesis by auto
  next
    case True
    then obtain r1 q where q: "checkpoint (tu_env t) (tu_file t) (tu_exited t) r = Inr (r1, q)"
      using Cons.prems(1) by (auto simp: ready split: sum.splits)
    show ?thesis
    proof (cases "tu_exited t \<or> tu_done_after t")
      case True
      then have "q = p" using Cons.prems(1) \<open>tu_exited t \<or> tu_done t \<or> tu_due t\<close> by (simp add: ready q)
      then show ?thesis using True q by auto
    next
      case False
      obtain ps' where rest: "run_loop me path pid ts (Some r1) = (Some (Inr p), ps')"
        using Cons.prems(1) True False by (auto simp: ready q split: prod.splits)
      note read = checkpoint_reads [OF q]
      have off: "lr_offset r \<le> length (tu_file t)" using Cons.prems(4) by simp
      note r1 = read_log_offset [OF read off]
      have grows: "log_grows (tu_file t) (tu_file u)" if "u \<in> set ts" for u
        using Cons.prems(2) that by simp
      have "\<forall>u\<in>set ts. lr_offset r1 \<le> length (tu_file u)"
        using r1(2) log_grows_length [OF grows] by (meson order.trans)
      moreover have "32 \<le> lr_offset r1" using r1(1) Cons.prems(3) by simp
      ultimately obtain u r2 where u: "u \<in> set ts" "tu_exited u \<or> tu_done_after u"
        "checkpoint (tu_env u) (tu_file u) (tu_exited u) r1 = Inr (r2, p)"
        using Cons.IH [OF rest] Cons.prems(2) by auto
      then show ?thesis
        using checkpoint_compose [OF grows [OF u(1)] read Cons.prems(3) off] by auto
    qed
  qed
qed simp

lemma log_open_offset: "log_open me owner mode file path pid = Inr r \<Longrightarrow> lr_offset r = 32 \<and> 32 \<le> length file"
  by (auto simp: log_open_def bindr_Inr_iff Let_def)

lemma run_loop_waits:
  assumes "run_loop me path pid ts None = (Some (Inr p), ps)" and "sorted_wrt log_grows (map tu_file (dropWhile (\<lambda>t. length (tu_file t) < 32) ts))"
  shows "\<exists>t0 t r r1. t0 \<in> set ts \<and> t \<in> set ts \<and> (tu_exited t \<or> tu_done_after t)
    \<and> log_open me (tu_owner t0) (tu_mode t0) (tu_file t0) path pid = Inr r
    \<and> checkpoint (tu_env t) (tu_file t) (tu_exited t) r = Inr (r1, p)"
  using assms
proof (induction ts)
  case (Cons t ts)
  show ?case
  proof (cases "length (tu_file t) < 32")
    case True
    then have "open_if_ready me path pid t None = Inr None" by (simp add: open_if_ready_def)
    then have "run_loop me path pid ts None = (Some (Inr p), ps)"
      using Cons.prems(1) by (auto split: if_splits)
    then show ?thesis using Cons.IH Cons.prems(2) True by auto
  next
    case False
    then obtain r where r: "log_open me (tu_owner t) (tu_mode t) (tu_file t) path pid = Inr r"
      using Cons.prems(1) by (cases "log_open me (tu_owner t) (tu_mode t) (tu_file t) path pid") (auto simp: open_if_ready_def)
    then have "run_loop me path pid (t # ts) (Some r) = (Some (Inr p), ps)"
      using Cons.prems(1) False by (simp add: open_if_ready_def)
    moreover have grows: "sorted_wrt log_grows (map tu_file (t # ts))" using Cons.prems(2) False by simp
    moreover have "\<forall>u\<in>set (t # ts). 32 \<le> length (tu_file u)"
      using grows False by (auto simp: log_grows_def)
    ultimately show ?thesis
      using run_loop_open [of me path pid "t # ts" r p ps] log_open_offset [OF r] r
      by (metis list.set_intros(1) order_refl)
  qed
qed simp

section \<open>Properties\<close>

lemma to_pprof_returns:
  "hp_domain hp \<noteq> [] \<Longrightarrow> 0 \<le> hp_collected_at hp \<Longrightarrow> hp_collected_at hp \<le> i64_max \<Longrightarrow> \<exists>p. to_pprof hp = Inr p"
  by (simp add: to_pprof_def nanos_since_epoch_def Let_def split_beta)

lemma snapshot_log_file:
  assumes "list_all recordable es" and "consistent Map.empty (log_events es)" and "log_in_range (log_events es)"
    and "length header = 32" and "word header 24 \<in> {0, 2}" and "length rest < record_len"
    and "final \<longrightarrow> rest = []"
    and "log_open me owner mode (log_file header es rest) path pid = Inr r"
    and "recorded_maps (le_read env) r = Inr maps" and "0 \<notin> set pcs"
  shows "\<exists>r' hp. log_snapshot env (log_file header es rest) final r = Inr (r', hp)
    \<and> held_at hp (stack_addresses (event_stack pcs)) = spec_measures (log_events es) (event_stack pcs)
    \<and> lr_initial_frees r' = unknown_frees (log_events es)
    \<and> hp_domain hp = ''native'' \<and> hp_collected_at hp = le_now env"
proof -
  let ?log = "log_events es"
  have r: "lr_tracker r = tracker_new ''native''" "lr_initial_frees r = 0" "lr_offset r = 32"
    using assms(8) by (auto simp: log_open_def bindr_Inr_iff Let_def)
  have "event_stack pcs \<in> recorded_stacks" using assms(10) by (auto simp: recorded_stacks_def)
  then obtain t hp where t: "fold_result (\<lambda>tn e. log_event (log_record_bytes e) tn) (tracker_new ''native'', 0) es
      = Inr (t, unknown_frees ?log)"
    and hp: "tr_snapshot (le_now env) t = Inr hp" "hp_domain hp = ''native''" "hp_collected_at hp = le_now env"
    and held: "(\<And>s. stack_addresses (map f s) = stack_addresses s) \<Longrightarrow> values_by stack_addresses
        (annotate_samples f (hp_samples hp)) (stack_addresses (event_stack pcs)) = spec_measures ?log (event_stack pcs)" for f
    using recorder.entries_snapshot [OF assms(1), of "event_stack pcs" "''native''" "le_now env"] assms(2,3)
    unfolding log_events_def by metis
  define r' where "r' = r\<lparr>lr_offset := 32 + length es * record_len, lr_tracker := t, lr_initial_frees := unknown_frees ?log\<rparr>"
  have read: "read_log (log_file header es rest) final r = Inr r'"
    using t unfolding read_log_records [OF assms(1,4-7) r(3)] r by (simp add: r'_def)
  have maps: "recorded_maps (le_read env) r' = Inr maps"
    using assms(9) by (simp add: recorded_maps_def r'_def cong: option.case_cong)
  have "lr_tracker r' = t" "lr_initial_frees r' = unknown_frees ?log" by (simp_all add: r'_def)
  moreover have "stack_addresses (map (annotate_frame m f) s) = stack_addresses s" for m f s
    by (simp add: stack_addresses_def)
  ultimately show ?thesis
    using held hp unfolding log_snapshot_def read maps held_at_def by (simp add: maps Let_def)
qed

text \<open>C8: from the bytes of a log to the heap profile: if the recorder wrote what an allocator can do
  (no block handed out twice, totals in range), a snapshot succeeds, whatever partial record
  follows, and holds for every stack of return addresses exactly the number and total size of the
  allocations made there, and of those still live; the frees it could not explain are counted.\<close>

theorem recorded_log_is_exact:
  assumes "list_all recordable es" and "consistent Map.empty (log_events es)" and "log_in_range (log_events es)"
    and "length header = 32" and "word header 24 \<in> {0, 2}" and "length rest < record_len"
    and "final \<longrightarrow> rest = []"
    and "log_open me owner mode (log_file header es rest) path pid = Inr r"
    and "recorded_maps (le_read env) r = Inr maps" and "0 \<notin> set pcs"
  shows "\<exists>r' hp. log_snapshot env (log_file header es rest) final r = Inr (r', hp)
    \<and> held_at hp (stack_addresses (event_stack pcs)) = spec_measures (log_events es) (event_stack pcs)
    \<and> lr_initial_frees r' = unknown_frees (log_events es)"
  using snapshot_log_file [OF assms] by blast

definition demo_header :: "u8 list" where
  "demo_header = str_bytes ''PPHEAP01'' @ [1, 0, 0, 0, 0, 0, 0, 0] @ [7, 0, 0, 0, 0, 0, 0, 0] @ replicate 8 0"

definition demo_records :: "record_event list" where
  "demo_records = [FreeCall 8, Malloc 16 100 [0x40], Realloc 32 16 40 [0x40]]"

definition demo_reader :: log_reader where
  "demo_reader = \<lparr>lr_offset = 32, lr_tracker = tracker_new ''native'', lr_pid = 7,
     lr_map_path = ''log.maps'', lr_initial_frees = 0\<rparr>"

definition demo_env :: log_env where
  "demo_env = \<lparr>le_read = \<lambda>_. Some [], le_build_id = \<lambda>_. None, le_demangle = \<lambda>n. n, le_disk = \<lambda>_. None,
     le_native = X86_64, le_now = 5\<rparr>"

lemma demo_header_words: "word demo_header 8 = 1" "word demo_header 16 = 7" "word demo_header 24 = 0"
  by code_simp+

lemma demo_header_facts: "length demo_header = 32" "word demo_header 24 = 0"
  "take 32 (demo_header @ xs) = demo_header" "32 \<le> length (demo_header @ xs)"
  "take 8 demo_header = str_bytes ''PPHEAP01''"
  by (simp_all add: demo_header_words) (simp_all add: demo_header_def numeral_eq_Suc)

lemma demo_open: "log_open 501 501 0x180 (log_file demo_header es rest) ''log'' 7 = Inr demo_reader"
  unfolding log_open_def log_file_def Let_def demo_header_facts(3)
  using demo_header_facts(4) by (simp add: demo_header_facts demo_header_words demo_reader_def)

lemma demo_records_facts: "list_all recordable demo_records"
  "log_events demo_records = [Free 8, Alloc 16 100 [plain_frame 0x40], Free 16, Alloc 32 40 [plain_frame 0x40]]"
  "consistent Map.empty (log_events demo_records)" "log_in_range (log_events demo_records)"
  by (simp_all add: demo_records_def recordable_def log_events_def alloc_event_def event_stack_def
      log_in_range_def all_allocs_def)

lemma demo_maps: "recorded_maps (le_read demo_env) demo_reader = Inr []"
  by (simp add: recorded_maps_def read_to_string_def demo_env_def)

theorem recorded_log_is_exact_witness:
  "\<exists>r' hp. log_snapshot demo_env (log_file demo_header demo_records [3, 0]) False demo_reader = Inr (r', hp)
    \<and> held_at hp [0x40] = [2, 140, 1, 40] \<and> lr_initial_frees r' = 1"
proof -
  let ?log = "log_events demo_records"
  have live: "live_addresses [plain_frame 0x40] ?log = {32}"
    by (auto simp: live_addresses_def demo_records_facts(2) live_after_def)
  have spec: "spec_measures ?log (event_stack [0x40]) = [2, 140, 1, 40]"
    unfolding event_stack_def Let_def list.map
    by (simp add: spec_measures_def live) (simp add: demo_records_facts(2) allocs_of_def live_after_def)
  have "unknown_frees ?log = 1"
    by (simp add: demo_records_facts(2) unknown_frees_def unknown_free_def live_after_def upt_rec)
  moreover have "\<exists>r' hp. log_snapshot demo_env (log_file demo_header demo_records [3, 0]) False demo_reader = Inr (r', hp)
    \<and> held_at hp (stack_addresses (event_stack [0x40])) = spec_measures ?log (event_stack [0x40])
    \<and> lr_initial_frees r' = unknown_frees ?log"
    by (rule recorded_log_is_exact [OF demo_records_facts(1,3,4) demo_header_facts(1) _ _ _ demo_open demo_maps])
       (simp_all add: demo_header_facts record_len_def)
  ultimately show ?thesis unfolding spec by (simp add: event_stack_addresses)
qed

text \<open>C14: the checkpoints taken while the target runs do not influence the result: however often the log
  was read while it grew, the profile a heap capture returns is the one that a single reading of
  the log gives at the end.\<close>

theorem capture_is_one_reading:
  assumes "run_loop me path pid ts None = (Some (Inr p), ps)"
    and "sorted_wrt log_grows (map tu_file (dropWhile (\<lambda>t. length (tu_file t) < 32) ts))"
  shows "\<exists>t0 t r r1. t0 \<in> set ts \<and> t \<in> set ts \<and> (tu_exited t \<or> tu_done_after t)
    \<and> log_open me (tu_owner t0) (tu_mode t0) (tu_file t0) path pid = Inr r
    \<and> checkpoint (tu_env t) (tu_file t) (tu_exited t) r = Inr (r1, p)"
  by (rule run_loop_waits [OF assms])

definition demo_turn :: "record_event list \<Rightarrow> bool \<Rightarrow> turn" where
  "demo_turn es exited = \<lparr>tu_env = demo_env, tu_file = log_file demo_header es [], tu_owner = 501, tu_mode = 0x180,
     tu_exited = exited, tu_stop = False, tu_timeout = False, tu_due = True, tu_done = False, tu_done_after = False\<rparr>"

lemma demo_checkpoint:
  assumes "es = demo_records \<or> es = []"
  shows "\<exists>r p. checkpoint demo_env (log_file demo_header es []) final demo_reader = Inr (r, p)"
proof -
  have ok: "list_all recordable es" "consistent Map.empty (log_events es)" "log_in_range (log_events es)"
    using assms demo_records_facts by (auto simp: log_events_def log_in_range_def all_allocs_def)
  obtain r hp where hp: "log_snapshot demo_env (log_file demo_header es []) final demo_reader = Inr (r, hp)"
    "hp_domain hp = ''native'' \<and> hp_collected_at hp = 5"
    using snapshot_log_file [OF ok demo_header_facts(1) _ _ _ demo_open demo_maps, of "[]" final "[]"]
      demo_header_facts(2) by (auto simp: record_len_def demo_env_def)
  then show ?thesis using hp to_pprof_returns [of hp] by (auto simp: checkpoint_def i64_max_def)
qed

theorem capture_is_one_reading_witness:
  "\<exists>p r1. fst (run_loop 501 ''log'' 7 [demo_turn [] False, demo_turn demo_records True] None) = Some (Inr p)
    \<and> checkpoint demo_env (log_file demo_header demo_records []) True demo_reader = Inr (r1, p)"
proof -
  let ?f = "log_file demo_header [] []" and ?g = "log_file demo_header demo_records []"
  obtain ra pa where a: "checkpoint demo_env ?f False demo_reader = Inr (ra, pa)"
    using demo_checkpoint [of "[]" False] by blast
  obtain rb pb where b: "checkpoint demo_env ?g True demo_reader = Inr (rb, pb)"
    using demo_checkpoint [of demo_records True] by blast
  have len: "length ?f = 32" "32 \<le> length ?g"
    by (simp_all add: log_file_def demo_header_facts)
  have grows: "log_grows ?f ?g"
    by (simp add: log_grows_def len) (simp add: log_file_def demo_header_facts(1))
  have "checkpoint demo_env ?g True ra = Inr (rb, pb)"
    using checkpoint_compose [OF grows checkpoint_reads [OF a], of demo_env True] b
    by (simp add: demo_reader_def len)
  then have run: "run_loop 501 ''log'' 7 [demo_turn [] False, demo_turn demo_records True] None = (Some (Inr pb), [pa, pb])"
    using a len(1) by (simp add: demo_turn_def open_if_ready_def demo_open)
  have "sorted_wrt log_grows (map tu_file (dropWhile (\<lambda>t. length (tu_file t) < 32)
      [demo_turn [] False, demo_turn demo_records True]))"
    using grows len by (simp add: demo_turn_def)
  from capture_is_one_reading [OF run this] show ?thesis
    unfolding run by (auto simp: demo_turn_def demo_open)
qed

end
