(* ===== verification/Malloc_History.thy ===== *)
theory Malloc_History
  imports Proc_Maps Symbolize Heap_Log
begin

text \<open>
  The report of Apple's \<open>malloc_history\<close> tool (\<open>src/heap/macos.rs\<close>): the parser of its event
  lines, stacks and image lines, the replay of the events on the tracker, and the mapping of each
  frame to the image that holds it. Text is its UTF-8 bytes; a frame keeps its function and file
  as \<^typ>\<open>string\<close>s. Running the tool is not modelled.
\<close>

section \<open>The standard library's functions\<close>

text \<open>\<open>str::split_once\<close> and \<open>str::split\<close> with a string pattern. The reversed search of
  \<open>rsplit\<close> is the search for the reversed pattern in the reversed text.\<close>

fun split_once_from :: "u8 list \<Rightarrow> u8 list \<Rightarrow> u8 list \<Rightarrow> (u8 list \<times> u8 list) option" where
  "split_once_from pat acc [] = (if pat = [] then Some (acc, []) else None)"
| "split_once_from pat acc (b # bs) =
     (if prefix pat (b # bs) then Some (acc, drop (length pat) (b # bs))
      else split_once_from pat (acc @ [b]) bs)"

definition split_once_str :: "string \<Rightarrow> u8 list \<Rightarrow> (u8 list \<times> u8 list) option" where
  "split_once_str pat bs = split_once_from (str_bytes pat) [] bs"

function split_str :: "u8 list \<Rightarrow> u8 list \<Rightarrow> u8 list list" where
  "split_str pat bs =
     (case split_once_from pat [] bs of
        None \<Rightarrow> [bs]
      | Some (a, rest) \<Rightarrow> if length rest < length bs then a # split_str pat rest else [bs])"
  by pat_completeness auto

termination by (relation "measure (\<lambda>(pat, bs). length bs)") auto

declare split_str.simps [simp del]

definition rsplit_str :: "string \<Rightarrow> u8 list \<Rightarrow> u8 list list" where
  "rsplit_str pat bs = map rev (split_str (rev (str_bytes pat)) (rev bs))"

definition rsplit_once :: "u8 \<Rightarrow> u8 list \<Rightarrow> (u8 list \<times> u8 list) option" where
  "rsplit_once sep bs = map_option (\<lambda>(after, before). (rev before, rev after)) (split_once sep (rev bs))"

definition strip_prefix :: "string \<Rightarrow> u8 list \<Rightarrow> u8 list option" where
  "strip_prefix pat bs = (if prefix (str_bytes pat) bs then Some (drop (length pat) bs) else None)"

definition strip_suffix :: "string \<Rightarrow> u8 list \<Rightarrow> u8 list option" where
  "strip_suffix pat bs = (if suffix (str_bytes pat) bs then Some (take (length bs - length pat) bs) else None)"

function trim_start :: "u8 list \<Rightarrow> u8 list" where
  "trim_start bs = (if white_len bs > 0 then trim_start (drop (white_len bs) bs) else bs)"
  by pat_completeness auto

termination
proof (relation "measure length")
  show "(drop (white_len bs) bs, bs) \<in> measure length" if "0 < white_len bs" for bs
    using that by (cases bs) simp_all
qed simp

function trim_end_from :: "u8 list \<Rightarrow> u8 list \<Rightarrow> u8 list \<Rightarrow> u8 list" where
  "trim_end_from acc pending bs =
     (if bs = [] then acc
      else if white_len bs > 0 then
        trim_end_from acc (pending @ take (white_len bs) bs) (drop (white_len bs) bs)
      else trim_end_from (acc @ pending @ [hd bs]) [] (tl bs))"
  by pat_completeness auto

termination by (relation "measure (\<lambda>(acc, pending, bs). length bs)") auto

declare trim_start.simps [simp del] trim_end_from.simps [simp del]

definition trim_end :: "u8 list \<Rightarrow> u8 list" where
  "trim_end bs = trim_end_from [] [] bs"

definition trim :: "u8 list \<Rightarrow> u8 list" where
  "trim bs = trim_end (trim_start bs)"

text \<open>\<open>parse::<u64>()\<close> and \<open>parse::<i64>()\<close>: an optional sign, then digits within the range.\<close>

fun decimal_value :: "nat \<Rightarrow> u8 list \<Rightarrow> nat option" where
  "decimal_value acc [] = Some acc"
| "decimal_value acc (b # bs) =
     (if 48 \<le> b \<and> b \<le> 57 then decimal_value (acc * 10 + (unat b - 48)) bs else None)"

definition parse_nat :: "u8 list \<Rightarrow> nat option" where
  "parse_nat bs = (if bs = [] then None else decimal_value 0 bs)"

definition parse_u64 :: "u8 list \<Rightarrow> u64 option" where
  "parse_u64 bs =
     (case parse_nat (if prefix [43] bs then tl bs else bs) of
        Some n \<Rightarrow> if n < 2 ^ 64 then Some (word_of_nat n) else None
      | None \<Rightarrow> None)"

definition parse_i64 :: "u8 list \<Rightarrow> i64 option" where
  "parse_i64 bs =
     (let negative = prefix [45] bs in
      case parse_nat (if negative \<or> prefix [43] bs then tl bs else bs) of
        Some n \<Rightarrow>
          let i = (if negative then - int n else int n) in
          if i64_range i then Some (word_of_int i) else None
      | None \<Rightarrow> None)"

section \<open>Lines\<close>

datatype history_error = HistoryTracker error | NotUtf8 | MissingHistoryHeader | UnsupportedHistoryHeader
  | MalformedAllocation | MissingAllocationAddress | MissingAllocationSize | MalformedSize | NotANumber
  | MissingFreeAddress | UnsupportedEvent "u8 list" | IncompleteReport | MalformedStack
  | MissingFrameName | MissingStack | ExpectedHexadecimal

definition hex :: "u8 list \<Rightarrow> history_error + u64" where
  "hex bs =
     bindr (context_opt (strip_prefix ''0x'' bs) ExpectedHexadecimal) (\<lambda>digits.
       context_opt (parse_hex digits) NotANumber)"

text \<open>The function, file and line of a frame: a last word \<open>file:line\<close> is its source.\<close>

definition frame_source :: "u8 list \<Rightarrow> u8 list \<times> u8 list \<times> i64" where
  "frame_source function =
     (case rsplit_once 32 function of
        None \<Rightarrow> (function, [], 0)
      | Some (name, source) \<Rightarrow>
          (case rsplit_once 58 source of
             None \<Rightarrow> (function, [], 0)
           | Some (file, line) \<Rightarrow>
               (case parse_i64 line of
                  None \<Rightarrow> (function, [], 0)
                | Some line \<Rightarrow> (trim_end name, file, line))))"

definition parse_frame :: "u8 list \<Rightarrow> history_error + heap_frame" where
  "parse_frame frame =
     bindr (context_opt (split_once_str '' ('' frame) MalformedStack) (\<lambda>(address, rest).
     bindr (context_opt (split_once_str '') '' rest) MissingFrameName) (\<lambda>(_, function).
       let (function, source, line) = frame_source function in
       bindr (hex address) (\<lambda>address.
         Inr (HeapFrame address (bytes_str function) (bytes_str source) line None))))"

definition parse_stack :: "u8 list \<Rightarrow> history_error + heap_stack" where
  "parse_stack text =
     bindr (collect_result parse_frame (rsplit_str '' | '' (trim text))) (\<lambda>frames.
     bindr (ensure (frames \<noteq> []) MissingStack) (\<lambda>_. Inr frames))"

definition parse_image :: "u8 list \<Rightarrow> heap_mapping option" where
  "parse_image line =
     (let words = split_whitespace line in
      if length words < 6 \<or> words ! 1 \<noteq> [45] then None
      else
        (case hex (words ! 0) of
           Inl _ \<Rightarrow> None
         | Inr memory_start \<Rightarrow>
             (case hex (words ! 2) of
                Inl _ \<Rightarrow> None
              | Inr last_byte \<Rightarrow>
                  (case checked_add_u64 last_byte 1 of
                     None \<Rightarrow> None
                   | Some memory_limit \<Rightarrow>
                       let uuid = Option.bind (split_once 60 line) (\<lambda>(_, s). split_once 62 s);
                           (build_id, path) = (case uuid of
                             Some (i, path) \<Rightarrow> (i, trim path) | None \<Rightarrow> ([], last words)) in
                       Some (HeapMapping memory_start memory_limit 0 (bytes_str path) (bytes_str build_id))))))"

section \<open>The report\<close>

record history =
  hi_tracker :: tracker
  hi_initial_frees :: nat
  hi_section :: bool
  hi_images_section :: bool
  hi_images :: "(u64 \<times> heap_mapping) list"

definition alloc_line :: "u8 list \<Rightarrow> history_error + u64 \<times> u64 \<times> heap_stack" where
  "alloc_line line =
     bindr (context_opt (split_once_str '': '' line) MalformedAllocation) (\<lambda>(record_text, stack).
     let words = split_whitespace record_text in
     bindr (context_opt (if length words < 2 then None else Some (words ! 1)) MissingAllocationAddress) (\<lambda>word.
     let address = takeWhile (\<lambda>b. b \<noteq> 45) word in
     bindr (context_opt (split_once_str ''[size='' record_text) MissingAllocationSize) (\<lambda>(_, sz).
     bindr (context_opt (strip_suffix '']'' sz) MalformedSize) (\<lambda>sz.
     bindr (context_opt (parse_u64 sz) NotANumber) (\<lambda>sz.
     bindr (hex address) (\<lambda>address.
     bindr (parse_stack stack) (\<lambda>stack. Inr (address, sz, stack))))))))"

definition free_line :: "u8 list \<Rightarrow> history_error + u64" where
  "free_line line =
     (let words = split_whitespace line in
      bindr (context_opt (if length words < 2 then None else Some (words ! 1)) MissingFreeAddress) (\<lambda>word.
        hex (rev (dropWhile (\<lambda>b. b = 58) (rev word)))))"

text \<open>An event line, once the events have begun.\<close>

definition event_line :: "u8 list \<Rightarrow> tracker \<times> nat \<Rightarrow> history_error + tracker \<times> nat" where
  "event_line line t =
     (if prefix (str_bytes ''ALLOC '') line then
        bindr (alloc_line line) (\<lambda>(address, sz, stack).
        bindr (map_error HistoryTracker (tr_allocate address sz stack (fst t))) (\<lambda>u. Inr (u, snd t)))
      else if prefix (str_bytes ''FREE '') line then
        bindr (free_line line) (\<lambda>address. Inr (release_counted address t))
      else if trim line \<noteq> [] \<and> \<not> prefix (str_bytes ''VM_ALLOC '') line
          \<and> \<not> prefix (str_bytes ''VM_DEALLOC '') line then
        Inl (UnsupportedEvent (case split_whitespace line of [] \<Rightarrow> str_bytes ''unknown'' | w # _ \<Rightarrow> w))
      else Inr t)"

definition history_step :: "history \<Rightarrow> u8 list \<Rightarrow> history_error + history" where
  "history_step h line =
     bindr (ensure (utf8_valid line) NotUtf8) (\<lambda>_.
       if hi_images_section h then
         Inr (case parse_image line of
                None \<Rightarrow> h
              | Some m \<Rightarrow> h\<lparr>hi_images := bt_insert (hm_memory_start m) m (hi_images h)\<rparr>)
       else if line = str_bytes ''Binary Images:'' then Inr (h\<lparr>hi_images_section := True\<rparr>)
       else if line = str_bytes ''----'' then Inr (h\<lparr>hi_section := True\<rparr>)
       else if \<not> hi_section h then Inr h
       else
         bindr (event_line line (hi_tracker h, hi_initial_frees h)) (\<lambda>(t, n).
           Inr (h\<lparr>hi_tracker := t, hi_initial_frees := n\<rparr>)))"

definition history_new :: history where
  "history_new = \<lparr>hi_tracker = tracker_new ''native'', hi_initial_frees = 0, hi_section = False,
     hi_images_section = False, hi_images = []\<rparr>"

text \<open>\<open>images.range(..=address).next_back()\<close>.\<close>

definition image_below :: "(u64 \<times> heap_mapping) list \<Rightarrow> u64 \<Rightarrow> heap_mapping option" where
  "image_below images address =
     (case filter (\<lambda>(start, _). start \<le> address) images of [] \<Rightarrow> None | es \<Rightarrow> Some (snd (last es)))"

definition mapped_frame :: "(u64 \<times> heap_mapping) list \<Rightarrow> heap_frame \<Rightarrow> heap_frame" where
  "mapped_frame images frame =
     HeapFrame (hf_address frame) (hf_function frame) (hf_file frame) (hf_line frame)
       (case image_below images (hf_address frame) of
          None \<Rightarrow> None
        | Some m \<Rightarrow> if hf_address frame < hm_memory_limit m then Some m else None)"

definition history_comment :: "nat \<Rightarrow> string" where
  "history_comment initial_frees =
     ''Exact Apple MallocStackLogging allocation history. Bytes are allocator-reported block sizes. Coverage starts when stack logging is enabled; ''
     @ dec_digits initial_frees
     @ '' frees had no recorded allocation. VM backing regions are excluded.''"

definition parse_reader :: "int \<Rightarrow> u8 list \<Rightarrow> history_error + heap_profile" where
  "parse_reader now text =
     (case str_lines text of
        [] \<Rightarrow> Inl MissingHistoryHeader
      | header # rest \<Rightarrow>
          bindr (ensure (utf8_valid header) NotUtf8) (\<lambda>_.
          bindr (ensure (prefix (str_bytes ''malloc_history Report Version:  2.0'') header)
            UnsupportedHistoryHeader) (\<lambda>_.
          bindr (fold_result history_step history_new rest) (\<lambda>h.
          bindr (ensure (hi_section h \<and> hi_images_section h) IncompleteReport) (\<lambda>_.
          bindr (map_error HistoryTracker (tr_snapshot now (hi_tracker h))) (\<lambda>profile.
            Inr (profile\<lparr>hp_samples := annotate_samples (mapped_frame (hi_images h)) (hp_samples profile),
                         hp_comment := history_comment (hi_initial_frees h)\<rparr>)))))))"

section \<open>Numbers and words as text\<close>

definition digit :: "nat \<Rightarrow> u8" where
  "digit d = (if d < 10 then word_of_nat (48 + d) else word_of_nat (87 + d))"

fun base_digits :: "nat \<Rightarrow> nat \<Rightarrow> u8 list" where
  "base_digits base n =
     (if n < base \<or> base < 2 then [digit (n mod base)] else base_digits base (n div base) @ [digit (n mod base)])"

declare base_digits.simps [simp del]

lemma unat_digit: "d < 16 \<Longrightarrow> unat (digit d) = (if d < 10 then 48 + d else 87 + d)"
  by (simp add: digit_def unat_of_nat del: of_nat_add)

lemma digit_class:
  assumes "d < 16"
  shows "hex_value (digit d) = Some d" and "33 \<le> digit d \<and> digit d \<le> 126"
    and "digit d \<notin> {10, 13, 32, 40, 41, 43, 45, 58, 60, 62, 91, 93, 120, 124}"
    and "d < 10 \<Longrightarrow> 48 \<le> digit d \<and> digit d \<le> 57 \<and> unat (digit d) - 48 = d"
  using unat_digit [OF assms] assms
  by (auto simp: hex_value_def word_le_nat_alt word_unat_eq_iff split: if_splits)

lemma base_digits_induct [consumes 1, case_names Digit More]:
  assumes "2 \<le> base" and "\<And>n. n < base \<Longrightarrow> P n [digit n]"
    and "\<And>n ds. base \<le> n \<Longrightarrow> P (n div base) ds \<Longrightarrow> P n (ds @ [digit (n mod base)])"
  shows "P n (base_digits base n)"
proof (induction n rule: less_induct)
  case (less n)
  show ?case
  proof (cases "n < base")
    case True
    then show ?thesis using assms(2) by (simp add: base_digits.simps)
  next
    case False
    then have "n div base < n" using assms(1) by (intro div_less_dividend) simp_all
    then show ?thesis
      using False assms(1,3) less.IH by (subst base_digits.simps) simp
  qed
qed

lemma base_digits_bytes:
  assumes "base \<in> {10, 16}"
  shows "\<forall>b\<in>set (base_digits base n). \<exists>d<16. b = digit d" and "base_digits base n \<noteq> []"
proof -
  have base: "2 \<le> base" "base \<le> 16" using assms by auto
  then have small: "n mod base < 16" for n
    by (intro order.strict_trans2 [OF mod_less_divisor]) simp_all
  have "(\<forall>b\<in>set (base_digits base n). \<exists>d<16. b = digit d) \<and> base_digits base n \<noteq> []"
  proof (induction n rule: base_digits_induct [OF base(1)])
    case (1 n)
    then show ?case using base by (intro conjI ballI exI [of _ n]) auto
  next
    case (2 n ds)
    then show ?case using small [of n] by auto
  qed
  then show "\<forall>b\<in>set (base_digits base n). \<exists>d<16. b = digit d" "base_digits base n \<noteq> []" by blast+
qed

lemma base_digits_not:
  assumes "base \<in> {10, 16}" and "c \<in> {10, 13, 32, 40, 41, 43, 45, 58, 60, 62, 91, 93, 120, 124}"
  shows "c \<notin> set (base_digits base n)"
  using base_digits_bytes(1) [OF assms(1), of n] digit_class(3) assms(2) by fastforce

lemma graphic_digits: "base \<in> {10, 16} \<Longrightarrow> graphic (base_digits base n)"
  using base_digits_bytes(1) [of base n] digit_class(2) unfolding graphic_def list_all_iff by fastforce

lemma decimal_value_snoc:
  "decimal_value acc (xs @ [b]) = (case decimal_value acc xs of
     Some m \<Rightarrow> if 48 \<le> b \<and> b \<le> 57 then Some (m * 10 + (unat b - 48)) else None | None \<Rightarrow> None)"
  by (induction acc xs rule: decimal_value.induct) simp_all

lemma parse_nat_digits: "parse_nat (base_digits 10 n) = Some n"
proof -
  have "2 \<le> (10 :: nat)" by simp
  then have "decimal_value 0 (base_digits 10 n) = Some n"
  proof (induction n rule: base_digits_induct)
    case (Digit n)
    then show ?case using digit_class(4) [of n] by simp
  next
    case (More n ds)
    then show ?case using digit_class(4) [of "n mod 10"] by (simp add: decimal_value_snoc)
  qed
  then show ?thesis using base_digits_bytes(2) [of 10 n] by (simp add: parse_nat_def)
qed

lemma parse_hex_snoc:
  "parse_hex_digits acc (xs @ [b]) = (case parse_hex_digits acc xs of None \<Rightarrow> None | Some m \<Rightarrow>
     (case hex_value b of None \<Rightarrow> None | Some d \<Rightarrow> if m * 16 + d < 2 ^ 64 then Some (m * 16 + d) else None))"
  by (induction acc xs rule: parse_hex_digits.induct) (simp_all split: option.split)

lemma parse_hex_text: "parse_hex (base_digits 16 (unat w)) = Some w"
proof -
  have "2 \<le> (16 :: nat)" by simp
  then have "n < 2 ^ 64 \<longrightarrow> parse_hex_digits 0 (base_digits 16 n) = Some n" for n
  proof (induction n rule: base_digits_induct)
    case (Digit n)
    then show ?case using digit_class(1) [of n] by simp
  next
    case (More n ds)
    then show ?case using digit_class(1) [of "n mod 16"] by (auto simp: parse_hex_snoc)
  qed
  then have digits: "parse_hex_digits 0 (base_digits 16 (unat w)) = Some (unat w)"
    using unsigned_less [of w, where ?'a = nat] by simp
  obtain b bs where ds: "base_digits 16 (unat w) = b # bs"
    using base_digits_bytes(2) [of 16 "unat w"] by (cases "base_digits 16 (unat w)") auto
  then have "b \<noteq> 43" using base_digits_not [of 16 43 "unat w"] by auto
  then show ?thesis using digits unfolding ds by (simp add: parse_hex_def del: parse_hex_digits.simps)
qed

definition hex_text :: "u64 \<Rightarrow> u8 list" where
  "hex_text w = [48, 120] @ base_digits 16 (unat w)"

lemma hex_hex_text [simp]: "hex (hex_text w) = Inr w"
  using parse_hex_text [of w] by (simp add: hex_def hex_text_def strip_prefix_def str_bytes_def byte_of_char_def)

lemma parse_u64_text [simp]: "parse_u64 (base_digits 10 (unat w)) = Some w"
proof -
  have "\<not> prefix [43] (base_digits 10 (unat w))"
    using base_digits_not [of 10 43 "unat w"] by (auto simp: prefix_def)
  moreover have "unat w < 2 ^ 64" using unsigned_less [of w, where ?'a = nat] by simp
  ultimately show ?thesis by (simp add: parse_u64_def parse_nat_digits)
qed

definition i64_text :: "i64 \<Rightarrow> u8 list" where
  "i64_text w = (if sint w < 0 then 45 # base_digits 10 (nat (- sint w)) else base_digits 10 (nat (sint w)))"

lemma parse_i64_text [simp]: "parse_i64 (i64_text w) = Some w"
proof -
  have "\<not> prefix [c] (base_digits 10 n)" if "c \<in> {43, 45}" for c n
    using base_digits_not [of 10 c n] that by (auto simp: prefix_def)
  then have "\<not> prefix [43] (base_digits 10 n)" "\<not> prefix [45] (base_digits 10 n)" for n by simp_all
  then show ?thesis
    using sint_i64_bounds [of w] by (simp add: parse_i64_def i64_text_def parse_nat_digits Let_def)
qed

lemma i64_text_not: "c \<in> {10, 32, 58, 124} \<Longrightarrow> c \<notin> set (i64_text w)"
  using base_digits_not [of 10 c] by (auto simp: i64_text_def)

lemma i64_text_last: "33 \<le> last (i64_text w) \<and> last (i64_text w) \<le> 126 \<and> i64_text w \<noteq> []"
proof -
  have "33 \<le> last (base_digits 10 n) \<and> last (base_digits 10 n) \<le> 126" for n
    using graphic_digits [of 10 n] base_digits_bytes(2) [of 10 n] by (simp add: graphic_def list_all_iff)
  then show ?thesis using base_digits_bytes(2) [of 10] by (simp add: i64_text_def)
qed

section \<open>Searching text\<close>

lemma split_once_first:
  assumes "pat = c # cs" and "c \<notin> set xs"
  shows "split_once_from pat acc (xs @ pat @ ys) = Some (acc @ xs, ys)"
  using assms(2)
proof (induction xs arbitrary: acc)
  case Nil
  show ?case using assms(1) by (simp add: prefix_def)
next
  case (Cons x xs)
  then show ?case using assms(1) by simp
qed

text \<open>The separator of frames: its second byte is in no frame.\<close>

lemma split_once_bar:
  assumes "124 \<notin> set xs"
  shows "split_once_from [32, 124, 32] acc (xs @ [32, 124, 32] @ ys) = Some (acc @ xs, ys)"
  using assms
proof (induction xs arbitrary: acc)
  case (Cons x xs)
  have "\<not> prefix [32, 124, 32] ((x # xs) @ [32, 124, 32] @ ys)"
    using Cons.prems by (cases xs) (auto simp: prefix_def)
  then show ?case using Cons by simp
qed simp

lemma split_once_none: "124 \<notin> set xs \<Longrightarrow> split_once_from [32, 124, 32] acc xs = None"
proof (induction xs arbitrary: acc)
  case (Cons x xs)
  have "\<not> prefix [32, 124, 32] (x # xs)" using Cons.prems by (cases xs) (auto simp: prefix_def)
  then show ?case using Cons by simp
qed simp

lemma split_bar_join:
  "xs \<noteq> [] \<Longrightarrow> \<forall>x\<in>set xs. 124 \<notin> set x \<Longrightarrow> split_str [32, 124, 32] (join_bytes [32, 124, 32] xs) = xs"
proof (induction xs rule: induct_list012)
  case (2 x)
  then show ?case using split_once_none [of x "[]"] by (subst split_str.simps) simp
next
  case (3 x y xs)
  then have "split_once_from [32, 124, 32] [] (x @ [32, 124, 32] @ join_bytes [32, 124, 32] (y # xs))
      = Some (x, join_bytes [32, 124, 32] (y # xs))"
    using split_once_bar [of x "[]"] by simp
  then show ?case using 3 by (subst split_str.simps) simp
qed simp

lemma rev_join: "rev (join_bytes sep xs) = join_bytes (rev sep) (rev (map rev xs))"
proof (induction sep xs rule: join_bytes.induct)
  case (3 sep x y xs)
  have snoc: "join_bytes s (zs @ [z]) = (if zs = [] then z else join_bytes s zs @ s @ z)" for s z zs
    by (induction s zs rule: join_bytes.induct) auto
  have "join_bytes s (zs @ [a, b]) = join_bytes s (zs @ [a]) @ s @ b" for s zs a b
    using snoc [of s "zs @ [a]" b] by simp
  then show ?case using 3 by simp
qed simp_all

lemma rsplit_bar_join:
  assumes "xs \<noteq> []" and "\<forall>x\<in>set xs. 124 \<notin> set x"
  shows "rsplit_str '' | '' (join_bytes [32, 124, 32] xs) = rev xs"
proof -
  have pat: "str_bytes '' | '' = [32, 124, 32]" by (simp add: str_bytes_def byte_of_char_def)
  have "split_str [32, 124, 32] (rev (join_bytes [32, 124, 32] xs)) = rev (map rev xs)"
    unfolding rev_join using assms by (simp only: rev.simps append_Nil append_Cons) (intro split_bar_join, auto)
  then show ?thesis by (simp add: rsplit_str_def pat rev_map comp_def)
qed

lemma rsplit_once_last: "c \<notin> set ys \<Longrightarrow> rsplit_once c (xs @ c # ys) = Some (xs, ys)"
proof -
  assume "c \<notin> set ys"
  then have "takeWhile (\<lambda>b. b \<noteq> c) (rev ys @ c # rev xs) = rev ys"
    "dropWhile (\<lambda>b. b \<noteq> c) (rev ys @ c # rev xs) = c # rev xs"
    by (auto simp: takeWhile_append dropWhile_append dest: set_takeWhileD)
  then show ?thesis by (simp add: rsplit_once_def split_once_def)
qed

lemma rsplit_once_None: "c \<notin> set xs \<Longrightarrow> rsplit_once c xs = None"
  by (simp add: rsplit_once_def split_once_def)

section \<open>Trimming\<close>

text \<open>A text that ends in a graphic byte keeps its end: no white space character ends in one.\<close>

lemma white_len_snoc:
  assumes "33 \<le> b" "b \<le> 126"
  shows "white_len (xs @ [b]) \<le> length xs"
proof (cases xs)
  case Nil
  then show ?thesis using white_len_graphic [OF assms, of "[]"] by simp
next
  case (Cons a ys)
  have b: "b \<noteq> 0x85" "b \<noteq> 0xA0" "b \<noteq> 0x80" "b \<noteq> 0x9F" "b \<noteq> 0xA8" "b \<noteq> 0xA9" "b \<noteq> 0xAF"
      "\<not> (0x80 \<le> b \<and> b \<le> 0x8A)"
    using assms by (auto simp: word_le_nat_alt)
  show ?thesis
  proof (cases ys)
    case Nil
    then show ?thesis using b by (auto simp: Cons)
  next
    case Cons2: (Cons c zs)
    show ?thesis using b by (cases zs) (auto simp: Cons Cons2)
  qed
qed

lemma trim_end_graphic:
  assumes "33 \<le> b" "b \<le> 126"
  shows "trim_end (xs @ [b]) = xs @ [b]"
proof -
  have "trim_end_from acc pending (xs @ [b]) = acc @ pending @ xs @ [b]" for acc pending
  proof (induction "length xs" arbitrary: acc pending xs rule: less_induct)
    case less
    show ?case
    proof (cases xs)
      case Nil
      then show ?thesis
        using white_len_graphic [OF assms, of "[]"]
        by (simp add: trim_end_from.simps [of acc pending "[b]"] trim_end_from.simps [of _ "[]" "[]"])
    next
      case (Cons a ys)
      let ?w = "white_len (xs @ [b])"
      have w: "?w \<le> length xs" by (rule white_len_snoc [OF assms])
      show ?thesis
      proof (cases "?w = 0")
        case True
        then show ?thesis
          using less [of ys] by (subst trim_end_from.simps) (simp add: Cons)
      next
        case False
        then have "trim_end_from acc (pending @ take ?w xs) (drop ?w xs @ [b]) = acc @ (pending @ take ?w xs) @ drop ?w xs @ [b]"
          using w Cons by (intro less) simp
        then have "trim_end_from acc (pending @ take ?w xs) (drop ?w xs @ [b]) = acc @ pending @ xs @ [b]"
          by (simp only: append_assoc append_take_drop_id [of ?w xs, folded append_assoc]) (metis append_assoc append_take_drop_id)
        then show ?thesis
          using False w by (subst trim_end_from.simps) simp
      qed
    qed
  qed
  then show ?thesis by (simp add: trim_end_def)
qed

section \<open>Reports\<close>

text \<open>Events as \<open>malloc_history\<close> prints them, for printable ASCII names. The frame names the image it
  is in; a free may carry any stack, and the range of a block any last address.\<close>

definition plain :: "u8 list \<Rightarrow> bool" where
  "plain bs \<longleftrightarrow> list_all (\<lambda>b. 32 \<le> b \<and> b \<le> 126) bs"

definition name_text :: "heap_frame \<Rightarrow> u8 list" where
  "name_text f = str_bytes (hf_function f)
     @ (if hf_file f = [] then [] else 32 # str_bytes (hf_file f) @ 58 # i64_text (hf_line f))"

definition frame_text :: "u8 list \<Rightarrow> heap_frame \<Rightarrow> u8 list" where
  "frame_text img f = hex_text (hf_address f) @ [32, 40] @ img @ [41, 32] @ name_text f"

text \<open>A printed stack: its frames, each with the name of the image it is in.\<close>

type_synonym printed_stack = "(u8 list \<times> heap_frame) list"

definition stack_text :: "printed_stack \<Rightarrow> u8 list" where
  "stack_text s = join_bytes [32, 124, 32] (rev (map (\<lambda>(img, f). frame_text img f) s))"

definition image_ok :: "u8 list \<Rightarrow> bool" where
  "image_ok img \<longleftrightarrow> plain img \<and> 41 \<notin> set img \<and> 124 \<notin> set img"

text \<open>A name that can be told from its source: one without a source does not end in a word \<open>file:line\<close>.\<close>

definition ends_in_source :: "u8 list \<Rightarrow> bool" where
  "ends_in_source name =
     (case rsplit_once 32 name of
        None \<Rightarrow> False
      | Some (_, source) \<Rightarrow>
          (case rsplit_once 58 source of
             None \<Rightarrow> False
           | Some (_, line) \<Rightarrow> parse_i64 line \<noteq> None))"

definition frame_ok :: "heap_frame \<Rightarrow> bool" where
  "frame_ok f \<longleftrightarrow>
     (let function = str_bytes (hf_function f); file = str_bytes (hf_file f) in
      hf_mapping f = None \<and> plain function \<and> plain file \<and> 124 \<notin> set function \<and> 124 \<notin> set file
      \<and> function \<noteq> [] \<and> last function \<noteq> 32
      \<and> (if file = [] then hf_line f = 0 \<and> \<not> ends_in_source function else 32 \<notin> set file))"

definition printed_ok :: "u8 list \<times> heap_frame \<Rightarrow> bool" where
  "printed_ok = (\<lambda>(img, f). image_ok img \<and> frame_ok f)"

lemma printed_frames: "list_all printed_ok s \<Longrightarrow> list_all frame_ok (map snd s)"
  by (auto simp: list_all_iff printed_ok_def)

lemma plain_simps [simp]:
  "plain []" "plain (xs @ ys) \<longleftrightarrow> plain xs \<and> plain ys"
  "plain (b # bs) \<longleftrightarrow> 32 \<le> b \<and> b \<le> 126 \<and> plain bs"
  by (auto simp: plain_def)

lemma plain_graphic: "graphic bs \<Longrightarrow> plain bs"
  by (auto simp: plain_def graphic_def list_all_iff word_le_nat_alt)

lemma plain_digits [simp]: "plain (base_digits 10 n)" "plain (base_digits 16 n)"
  by (simp_all add: plain_graphic graphic_digits)

lemma plain_texts [simp]: "plain (hex_text w)" "plain (i64_text i)"
  by (simp_all add: hex_text_def i64_text_def)

lemma str_bytes_simps [simp]:
  "str_bytes '' ('' = [32, 40]" "str_bytes '') '' = [41, 32]" "str_bytes '': '' = [58, 32]"
  by (simp_all add: str_bytes_def byte_of_char_def)

lemma hex_text_not:
  assumes "c \<in> {10, 13, 32, 40, 41, 43, 45, 58, 60, 62, 91, 93, 124}"
  shows "c \<notin> set (hex_text w)"
  using base_digits_not [of 16 c] assms by (auto simp: hex_text_def)

lemma str_bytes_Nil [simp]: "str_bytes s = [] \<longleftrightarrow> s = []"
  by (simp add: str_bytes_def)

lemma trim_end_last:
  assumes "xs \<noteq> []" "plain xs" "last xs \<noteq> 32"
  shows "trim_end xs = xs"
proof -
  have "last xs \<in> set xs" using assms(1) by simp
  then have "32 \<le> last xs" "last xs \<le> 126" using assms(2) unfolding plain_def list_all_iff by blast+
  then have "33 \<le> last xs" using assms(3) by (auto simp: word_le_nat_alt word_unat_eq_iff)
  then show ?thesis
    using trim_end_graphic [of "last xs" "butlast xs"] \<open>last xs \<le> 126\<close> assms(1) by simp
qed

lemma frame_source_text:
  assumes "frame_ok f"
  shows "frame_source (name_text f) = (str_bytes (hf_function f), str_bytes (hf_file f), hf_line f)"
proof (cases "hf_file f = []")
  case True
  let ?fn = "str_bytes (hf_function f)"
  have last: "\<not> ends_in_source ?fn" and line: "hf_line f = 0"
    using assms True by (simp_all add: frame_ok_def Let_def)
  have "frame_source ?fn = (?fn, [], 0)"
    using last by (auto simp: frame_source_def ends_in_source_def split: option.split option.split_asm prod.split prod.split_asm)
  then show ?thesis using True line by (simp add: name_text_def str_bytes_def)
next
  case False
  have ok: "plain (str_bytes (hf_function f))" "str_bytes (hf_function f) \<noteq> []"
    "last (str_bytes (hf_function f)) \<noteq> 32" "32 \<notin> set (str_bytes (hf_file f))"
    using assms False by (simp_all add: frame_ok_def Let_def)
  have "rsplit_once 32 (str_bytes (hf_function f) @ 32 # (str_bytes (hf_file f) @ 58 # i64_text (hf_line f)))
      = Some (str_bytes (hf_function f), str_bytes (hf_file f) @ 58 # i64_text (hf_line f))"
    using ok(4) i64_text_not [of 32] by (intro rsplit_once_last) simp
  moreover have "rsplit_once 58 (str_bytes (hf_file f) @ 58 # i64_text (hf_line f))
      = Some (str_bytes (hf_file f), i64_text (hf_line f))"
    using i64_text_not [of 58] by (intro rsplit_once_last) simp
  ultimately show ?thesis
    using False trim_end_last [OF ok(2,1,3)] by (simp add: frame_source_def name_text_def)
qed

lemma parse_frame_text:
  assumes "frame_ok f" and "image_ok img"
  shows "parse_frame (frame_text img f) = Inr f"
proof -
  have "split_once_str '' ('' (frame_text img f) = Some (hex_text (hf_address f), img @ [41, 32] @ name_text f)"
    using split_once_first [of "[32, 40]" 32 "[40]" "hex_text (hf_address f)" "[]" "img @ [41, 32] @ name_text f"]
      hex_text_not [of 32] by (simp add: split_once_str_def frame_text_def)
  moreover have "split_once_str '') '' (img @ [41, 32] @ name_text f) = Some (img, name_text f)"
    using split_once_first [of "[41, 32]" 41 "[32]" img "[]" "name_text f"] assms(2)
    by (simp add: split_once_str_def image_ok_def)
  moreover have "hf_mapping f = None" using assms(1) by (simp add: frame_ok_def Let_def)
  ultimately show ?thesis
    using frame_source_text [OF assms(1)] by (cases f) (simp add: parse_frame_def)
qed

lemma frame_text_facts:
  assumes "frame_ok f" and "image_ok img"
  shows "124 \<notin> set (frame_text img f)" and "plain (frame_text img f)"
    and "last (frame_text img f) \<noteq> 32" and "\<exists>r. frame_text img f = 48 # r"
proof -
  have ok: "plain (str_bytes (hf_function f))" "plain (str_bytes (hf_file f))"
    "124 \<notin> set (str_bytes (hf_function f))" "124 \<notin> set (str_bytes (hf_file f))"
    "str_bytes (hf_function f) \<noteq> []" "last (str_bytes (hf_function f)) \<noteq> 32"
    using assms(1) by (simp_all add: frame_ok_def Let_def split: if_splits)
  have "plain (name_text f)" using ok by (simp add: name_text_def)
  moreover have "124 \<notin> set (name_text f)" using ok i64_text_not [of 124] by (simp add: name_text_def)
  moreover have "name_text f \<noteq> []" "last (name_text f) \<noteq> 32"
    using ok i64_text_last [of "hf_line f"] by (auto simp: name_text_def)
  ultimately show "124 \<notin> set (frame_text img f)" "plain (frame_text img f)" "last (frame_text img f) \<noteq> 32"
    using assms(2) hex_text_not [of 124] by (simp_all add: frame_text_def image_ok_def)
  show "\<exists>r. frame_text img f = 48 # r" by (simp add: frame_text_def hex_text_def)
qed

lemma join_bytes_facts:
  assumes "xs \<noteq> []"
  shows "\<forall>x\<in>set xs. x \<noteq> [] \<Longrightarrow> hd (join_bytes sep xs) = hd (hd xs)"
    and "\<forall>x\<in>set xs. x \<noteq> [] \<Longrightarrow> last (join_bytes sep xs) = last (last xs)"
    and "\<forall>x\<in>set xs. x \<noteq> [] \<Longrightarrow> join_bytes sep xs \<noteq> []"
    and "plain sep \<Longrightarrow> \<forall>x\<in>set xs. plain x \<Longrightarrow> plain (join_bytes sep xs)"
  using assms by (induction xs rule: induct_list012) auto

lemma trim_text:
  assumes "xs \<noteq> []" "plain xs" "hd xs \<noteq> 32" "last xs \<noteq> 32"
  shows "trim xs = xs"
proof -
  obtain b bs where xs: "xs = b # bs" using assms(1) by (cases xs) auto
  then have "33 \<le> b" "b \<le> 126" using assms(2,3) by (auto simp: word_le_nat_alt word_unat_eq_iff)
  then have "trim_start xs = xs" using white_len_graphic [of b bs] by (subst trim_start.simps) (simp add: xs)
  then show ?thesis using trim_end_last [OF assms(1,2,4)] by (simp add: trim_def)
qed

lemma stack_text_facts:
  assumes "s \<noteq> []" and "list_all printed_ok s"
  shows "plain (stack_text s)" "stack_text s \<noteq> []" "hd (stack_text s) \<noteq> 32" "last (stack_text s) \<noteq> 32"
proof -
  let ?print = "\<lambda>(img, f). frame_text img f"
  let ?xs = "rev (map ?print s)"
  have piece: "plain x \<and> last x \<noteq> 32 \<and> (\<exists>r. x = 48 # r)" if "x \<in> set ?xs" for x
    using that assms(2) frame_text_facts by (fastforce simp: list_all_iff printed_ok_def)
  have ne: "\<forall>x\<in>set ?xs. x \<noteq> []" using piece by fastforce
  have xs: "?xs \<noteq> []" using assms(1) by simp
  show "plain (stack_text s)" unfolding stack_text_def using piece by (intro join_bytes_facts(4) xs) auto
  show "stack_text s \<noteq> []" unfolding stack_text_def by (rule join_bytes_facts(3) [OF xs ne])
  show "hd (stack_text s) \<noteq> 32" "last (stack_text s) \<noteq> 32"
    unfolding stack_text_def join_bytes_facts(1) [OF xs ne] join_bytes_facts(2) [OF xs ne]
    using piece [OF hd_in_set [OF xs]] piece [OF last_in_set [OF xs]] by auto
qed

lemma parse_stack_text:
  assumes "s \<noteq> []" and "list_all printed_ok s"
  shows "parse_stack (stack_text s) = Inr (map snd s)"
proof -
  let ?print = "\<lambda>(img, f). frame_text img f"
  have ok: "image_ok (fst x) \<and> frame_ok (snd x)" if "x \<in> set s" for x
    using assms(2) that by (auto simp: list_all_iff printed_ok_def)
  have "rsplit_str '' | '' (stack_text s) = map ?print s"
    unfolding stack_text_def using assms(1) frame_text_facts(1) ok
    by (subst rsplit_bar_join) (auto simp: split_beta)
  moreover have "collect_result parse_frame (map ?print s) = Inr (map snd s)"
    unfolding collect_result_Inr_iff using parse_frame_text ok
    by (auto simp: list_all2_conv_all_nth split_beta)
  ultimately show ?thesis
    using trim_text [OF stack_text_facts(2,1,3,4) [OF assms]] assms(1) by (simp add: parse_stack_def)
qed

datatype history_event = AllocEvent u64 u64 u64 printed_stack | FreeEvent u64 "u8 list" | VmEvent "u8 list"

fun event_text :: "history_event \<Rightarrow> u8 list" where
  "event_text (AllocEvent a end_address sz s) =
     str_bytes ''ALLOC '' @ (hex_text a @ 45 # hex_text end_address) @ 32 # (str_bytes ''[size='' @ base_digits 10 (unat sz) @ [93])
       @ [58, 32] @ stack_text s"
| "event_text (FreeEvent a rest) = str_bytes ''FREE  '' @ (hex_text a @ [58]) @ 32 # rest"
| "event_text (VmEvent rest) = str_bytes ''VM_ALLOC '' @ rest"

fun event_ok :: "history_event \<Rightarrow> bool" where
  "event_ok (AllocEvent a end_address sz s) \<longleftrightarrow> s \<noteq> [] \<and> list_all printed_ok s"
| "event_ok (FreeEvent a rest) \<longleftrightarrow> plain rest"
| "event_ok (VmEvent rest) \<longleftrightarrow> plain rest"

fun heap_events :: "history_event \<Rightarrow> heap_event list" where
  "heap_events (AllocEvent a end_address sz s) = [Alloc a sz (map snd s)]"
| "heap_events (FreeEvent a rest) = [Free a]"
| "heap_events (VmEvent rest) = []"

lemma graphic_simps [simp]:
  "graphic []" "graphic (xs @ ys) \<longleftrightarrow> graphic xs \<and> graphic ys"
  "graphic (b # bs) \<longleftrightarrow> 33 \<le> b \<and> b \<le> 126 \<and> graphic bs"
  by (auto simp: graphic_def)

lemma graphic_texts [simp]: "graphic (hex_text w)" "graphic (base_digits 10 n)"
  by (simp_all add: hex_text_def graphic_digits)

lemma event_words:
  "str_bytes ''ALLOC '' = [65, 76, 76, 79, 67, 32]" "str_bytes ''FREE '' = [70, 82, 69, 69, 32]"
  "str_bytes ''FREE  '' = [70, 82, 69, 69, 32, 32]" "str_bytes ''[size='' = [91, 115, 105, 122, 101, 61]"
  "str_bytes '']'' = [93]" "str_bytes ''VM_ALLOC '' = [86, 77, 95, 65, 76, 76, 79, 67, 32]"
  "str_bytes ''Binary Images:'' = [66, 105, 110, 97, 114, 121, 32, 73, 109, 97, 103, 101, 115, 58]"
  "str_bytes ''----'' = [45, 45, 45, 45]"
  by (simp_all add: str_bytes_def byte_of_char_def)

lemma split_words:
  assumes "graphic w" "w \<noteq> []"
  shows "split_from [] (w @ 32 # bs) = w # split_from [] bs"
    and "split_from [] w = [w]"
  using split_from_graphic [OF assms(1), of "[]" "32 # bs"] split_from_graphic [OF assms(1), of "[]" "[]"] assms(2)
  by (simp_all add: split_from_space split_from.simps [of w "[]"])

lemma takeWhile_stop: "c \<notin> set xs \<Longrightarrow> takeWhile (\<lambda>b. b \<noteq> c) (xs @ c # ys) = xs"
proof -
  assume "c \<notin> set xs"
  then have "takeWhile (\<lambda>b. b \<noteq> c) (xs @ c # ys) = xs @ takeWhile (\<lambda>b. b \<noteq> c) (c # ys)"
    by (intro takeWhile_append2) auto
  then show ?thesis by simp
qed

lemma alloc_line_text:
  assumes "s \<noteq> []" and "list_all printed_ok s"
  shows "alloc_line (event_text (AllocEvent a end_address sz s)) = Inr (a, sz, map snd s)"
proof -
  define range_text where "range_text = hex_text a @ 45 # hex_text end_address"
  define size_text where "size_text = [91, 115, 105, 122, 101, 61] @ base_digits 10 (unat sz) @ [93]"
  define rec_text where "rec_text = [65, 76, 76, 79, 67] @ 32 # range_text @ 32 # size_text"
  have whole: "event_text (AllocEvent a end_address sz s) = rec_text @ [58, 32] @ stack_text s"
    by (simp add: rec_text_def range_text_def size_text_def event_words)
  have "58 \<notin> set rec_text" "91 \<notin> set ([65, 76, 76, 79, 67] @ 32 # range_text @ [32])"
    using hex_text_not [of 58] hex_text_not [of 91] base_digits_not [of 10 58]
    by (simp_all add: rec_text_def range_text_def size_text_def)
  note no = this
  have "split_once_str '': '' (rec_text @ [58, 32] @ stack_text s) = Some (rec_text, stack_text s)"
    using split_once_first [of "[58, 32]" 58 "[32]" rec_text "[]" "stack_text s"] no(1)
    by (simp add: split_once_str_def)
  moreover have "split_whitespace rec_text = [[65, 76, 76, 79, 67], range_text, size_text]"
    unfolding split_whitespace_def rec_text_def
    by (subst split_words, simp, simp, subst split_words, simp add: range_text_def, simp add: range_text_def,
        subst split_words(2)) (simp_all add: size_text_def)
  moreover have "takeWhile (\<lambda>b. b \<noteq> 45) range_text = hex_text a"
    unfolding range_text_def using hex_text_not [of 45] by (intro takeWhile_stop) simp
  moreover have "split_once_str ''[size='' rec_text =
      Some ([65, 76, 76, 79, 67] @ 32 # range_text @ [32], base_digits 10 (unat sz) @ [93])"
    using split_once_first [of "[91, 115, 105, 122, 101, 61]" 91 "[115, 105, 122, 101, 61]"
        "[65, 76, 76, 79, 67] @ 32 # range_text @ [32]" "[]" "base_digits 10 (unat sz) @ [93]"] no(2)
    by (simp add: split_once_str_def rec_text_def size_text_def event_words)
  moreover have "strip_suffix '']'' (base_digits 10 (unat sz) @ [93]) = Some (base_digits 10 (unat sz))"
    by (simp add: strip_suffix_def event_words)
  ultimately show ?thesis
    unfolding whole using parse_stack_text [OF assms] by (simp add: alloc_line_def)
qed

lemma free_line_text:
  "free_line (event_text (FreeEvent a rest)) = Inr a"
proof -
  have whole: "event_text (FreeEvent a rest) = [70, 82, 69, 69] @ 32 # replicate 1 32 @ (hex_text a @ [58]) @ 32 # rest"
    by (simp add: event_words)
  have "split_whitespace ([70, 82, 69, 69] @ 32 # replicate 1 32 @ (hex_text a @ [58]) @ 32 # rest)
      = [70, 82, 69, 69] # (hex_text a @ [58]) # split_from [] rest"
    unfolding split_whitespace_def
    by (subst split_words, simp, simp, subst split_from_pad, subst split_words) simp_all
  moreover have "dropWhile (\<lambda>b. b = 58) (rev (hex_text a)) = rev (hex_text a)"
  proof -
    have "hex_text a \<noteq> []" by (simp add: hex_text_def)
    then have "last (hex_text a) \<noteq> 58" using hex_text_not [of 58 a] by (metis insertCI last_in_set)
    then show ?thesis by (simp add: dropWhile_eq_self_iff hd_rev)
  qed
  ultimately show ?thesis unfolding whole by (simp add: free_line_def)
qed

lemma event_line_text:
  assumes "event_ok e"
  shows "event_line (event_text e) tn = map_error HistoryTracker (fold_result replay_event tn (heap_events e))"
proof (cases e)
  case (AllocEvent a end_address sz s)
  have "prefix (str_bytes ''ALLOC '') (event_text e)" by (simp add: AllocEvent)
  moreover have "alloc_line (event_text e) = Inr (a, sz, map snd s)"
    using alloc_line_text assms by (simp add: AllocEvent)
  ultimately show ?thesis
    by (cases tn) (simp add: event_line_def AllocEvent bindr_def split: sum.split)
next
  case (FreeEvent a rest)
  have "\<not> prefix (str_bytes ''ALLOC '') (event_text e)" "prefix (str_bytes ''FREE '') (event_text e)"
    by (simp_all add: FreeEvent event_words)
  moreover have "free_line (event_text e) = Inr a" using free_line_text by (simp add: FreeEvent)
  ultimately show ?thesis by (cases tn) (simp add: event_line_def FreeEvent)
next
  case (VmEvent rest)
  have "\<not> prefix (str_bytes ''ALLOC '') (event_text e)" "\<not> prefix (str_bytes ''FREE '') (event_text e)"
    "prefix (str_bytes ''VM_ALLOC '') (event_text e)"
    by (simp_all add: VmEvent event_words)
  then show ?thesis by (simp add: event_line_def VmEvent)
qed

lemma event_text_facts:
  assumes "event_ok e"
  shows "plain (event_text e)" and "event_text e \<noteq> str_bytes ''Binary Images:''"
    and "event_text e \<noteq> str_bytes ''----''"
proof -
  show "plain (event_text e)"
    using assms stack_text_facts(1) by (cases e) (simp_all add: event_words)
  show "event_text e \<noteq> str_bytes ''Binary Images:''" "event_text e \<noteq> str_bytes ''----''"
    by (cases e; simp add: event_words)+
qed

text \<open>A report: its header, some lines about the process, the events and the images.\<close>

definition report_lines :: "u8 list list \<Rightarrow> history_event list \<Rightarrow> u8 list list \<Rightarrow> u8 list list" where
  "report_lines about es imgs =
     [str_bytes ''malloc_history Report Version:  2.0''] @ about @ [str_bytes ''----''] @ map (event_text) es
       @ [str_bytes ''Binary Images:''] @ imgs"

definition report_text :: "u8 list list \<Rightarrow> u8 list" where
  "report_text ls = concat (map (\<lambda>l. l @ [10]) ls)"

definition history_events :: "history_event list \<Rightarrow> heap_event list" where
  "history_events es = concat (map heap_events es)"

lemma plain_not: "plain bs \<Longrightarrow> 10 \<notin> set bs \<and> 13 \<notin> set bs"
  by (auto simp: plain_def list_all_iff)

lemma plain_utf8: "plain bs \<Longrightarrow> utf8_valid bs"
proof (induction bs)
  case (Cons b bs)
  then have "b < 0x80" by (auto simp: word_less_nat_alt word_le_nat_alt)
  then show ?case using Cons by simp
qed simp

lemma lines_from_plain: "plain l \<Longrightarrow> lines_from acc (l @ 10 # rest) = strip_cr (acc @ l) # lines_from [] rest"
proof (induction l arbitrary: acc)
  case (Cons b l)
  then have "b \<noteq> 10" by auto
  then show ?case using Cons by simp
qed simp

lemma str_lines_report: "list_all plain ls \<Longrightarrow> str_lines (report_text ls) = ls"
proof -
  assume ls: "list_all plain ls"
  have "strip_cr l = l" if "plain l" for l
    using plain_not [OF that] last_in_set [of l] by (auto simp: strip_cr_def simp del: last_in_set)
  with ls have "lines_from [] (report_text ls) = ls"
    by (induction ls) (simp_all add: report_text_def lines_from_plain)
  then show ?thesis by (simp add: str_lines_def)
qed

lemma history_events_loop:
  assumes "list_all event_ok es" and "hi_section h" and "\<not> hi_images_section h"
  shows "fold_result history_step h (map (event_text) es) =
    bindr (fold_result (\<lambda>tn e. event_line (event_text e) tn) (hi_tracker h, hi_initial_frees h) es)
      (\<lambda>(t, n). Inr (h\<lparr>hi_tracker := t, hi_initial_frees := n\<rparr>))"
  using assms
proof (induction es arbitrary: h)
  case (Cons e es)
  have "event_ok e" using Cons.prems(1) by simp
  note facts = event_text_facts [OF this]
  have step: "history_step h (event_text e) =
      bindr (event_line (event_text e) (hi_tracker h, hi_initial_frees h))
        (\<lambda>(t, n). Inr (h\<lparr>hi_tracker := t, hi_initial_frees := n\<rparr>))"
    using Cons.prems(2,3) plain_utf8 [OF facts(1)] facts(2,3) by (simp add: history_step_def)
  show ?case
  proof (cases "event_line (event_text e) (hi_tracker h, hi_initial_frees h)")
    case (Inr u)
    then show ?thesis
      using Cons.IH [of "h\<lparr>hi_tracker := fst u, hi_initial_frees := snd u\<rparr>"] Cons.prems
      by (simp add: step split_beta)
  qed (simp add: step)
qed simp

lemma about_loop:
  assumes "list_all plain about" and "str_bytes ''----'' \<notin> set about" and "str_bytes ''Binary Images:'' \<notin> set about"
    and "\<not> hi_section h" and "\<not> hi_images_section h"
  shows "fold_result history_step h about = Inr h"
  using assms(1-3)
proof (induction about)
  case (Cons l about)
  then have "history_step h l = Inr h"
    using assms(4,5) plain_utf8 [of l] by (auto simp: history_step_def)
  then show ?case using Cons by simp
qed simp

lemma images_loop:
  assumes "list_all plain imgs" and "hi_images_section h"
  shows "\<exists>m. fold_result history_step h imgs = Inr (h\<lparr>hi_images := m\<rparr>)"
  using assms
proof (induction imgs arbitrary: h)
  case Nil
  then show ?case by (intro exI [of _ "hi_images h"]) simp
next
  case (Cons l imgs)
  obtain m where m: "history_step h l = Inr (h\<lparr>hi_images := m\<rparr>)"
  proof (cases "parse_image l")
    case None
    then show ?thesis using Cons.prems plain_utf8 [of l] that [of "hi_images h"] by (simp add: history_step_def)
  next
    case (Some i)
    then show ?thesis
      using Cons.prems plain_utf8 [of l] that [of "bt_insert (hm_memory_start i) i (hi_images h)"]
      by (simp add: history_step_def)
  qed
  then show ?case using Cons.IH [of "h\<lparr>hi_images := m\<rparr>"] Cons.prems by auto
qed

definition unmapped :: "heap_frame \<Rightarrow> heap_frame" where
  "unmapped f = HeapFrame (hf_address f) (hf_function f) (hf_file f) (hf_line f) None"

lemma unmapped_mapped [simp]: "unmapped (mapped_frame images f) = unmapped f"
  by (simp add: unmapped_def mapped_frame_def)

lemma unmapped_id: "list_all frame_ok s \<Longrightarrow> map unmapped s = s"
proof (induction s)
  case (Cons f s)
  then have "hf_mapping f = None" by (simp add: frame_ok_def Let_def)
  then have "unmapped f = f" by (cases f) (simp add: unmapped_def)
  then show ?case using Cons by simp
qed simp

text \<open>The report is a log format; stacks are known by their frames without the images the reader finds
  for them.\<close>

definition printed_stacks :: "heap_stack set" where
  "printed_stacks = {s. list_all frame_ok s}"

interpretation printed: event_log event_ok heap_events
  "\<lambda>e. event_line (event_text e)" HistoryTracker "map unmapped" printed_stacks
proof unfold_locales
  show "inj_on (map unmapped) printed_stacks" by (rule inj_onI) (simp add: printed_stacks_def unmapped_id)
next
  fix e s assume "event_ok e" and "allocs_of s (heap_events e) \<noteq> []"
  then show "s \<in> printed_stacks" by (cases e) (auto simp: allocs_of_def printed_stacks_def printed_frames split: if_splits)
qed (simp add: event_line_text)

lemma parse_report:
  assumes "list_all event_ok es" and "list_all plain about" and "list_all plain imgs"
    and "str_bytes ''----'' \<notin> set about" and "str_bytes ''Binary Images:'' \<notin> set about"
    and "consistent Map.empty (history_events es)" and "log_in_range (history_events es)"
    and "list_all frame_ok s"
  shows "\<exists>hp. parse_reader now (report_text (report_lines about es imgs)) = Inr hp
    \<and> values_by (map unmapped) (hp_samples hp) s = spec_measures (history_events es) s"
proof -
  let ?events = "map (event_text) es"
  let ?started = "history_new\<lparr>hi_section := True\<rparr>"
  let ?log = "history_events es"
  have "s \<in> printed_stacks" using assms(8) by (simp add: printed_stacks_def)
  then obtain t hp where tn: "fold_result (\<lambda>tn e. event_line (event_text e) tn) (tracker_new ''native'', 0) es
      = Inr (t, unknown_frees ?log)"
    and hp: "tr_snapshot now t = Inr hp"
    and held: "(\<And>s. map unmapped (map f s) = map unmapped s) \<Longrightarrow>
        values_by (map unmapped) (annotate_samples f (hp_samples hp)) (map unmapped s) = spec_measures ?log s" for f
    using printed.entries_snapshot [OF assms(1), of s "''native''" now] assms(6,7)
    unfolding history_events_def by metis
  have new: "hi_tracker history_new = tracker_new ''native''" "hi_initial_frees history_new = 0"
    "\<not> hi_section history_new" "\<not> hi_images_section history_new"
    by (simp_all add: history_new_def)
  let ?read = "?started\<lparr>hi_tracker := t, hi_initial_frees := unknown_frees ?log\<rparr>"
  have events: "fold_result history_step ?started ?events = Inr ?read"
    using history_events_loop [OF assms(1), of ?started] tn new by simp
  obtain m where m: "fold_result history_step (?read\<lparr>hi_images_section := True\<rparr>) imgs
      = Inr (?read\<lparr>hi_images_section := True, hi_images := m\<rparr>)"
    using images_loop [OF assms(3), of "?read\<lparr>hi_images_section := True\<rparr>"] by auto
  have words: "plain (str_bytes ''----'')" "plain (str_bytes ''Binary Images:'')"
    "plain (str_bytes ''malloc_history Report Version:  2.0'')" "str_bytes ''----'' \<noteq> str_bytes ''Binary Images:''"
    by (simp_all add: str_bytes_def byte_of_char_def)
  have marks: "history_step history_new (str_bytes ''----'') = Inr ?started"
    "history_step ?read (str_bytes ''Binary Images:'') = Inr (?read\<lparr>hi_images_section := True\<rparr>)"
    using new plain_utf8 [OF words(1)] plain_utf8 [OF words(2)] words(4) by (simp_all add: history_step_def)
  let ?h = "?read\<lparr>hi_images_section := True, hi_images := m\<rparr>"
  have loop: "fold_result history_step history_new (about @ [str_bytes ''----''] @ ?events @ [str_bytes ''Binary Images:''] @ imgs) = Inr ?h"
    unfolding fold_result_append using about_loop [OF assms(2,4,5) new(3,4)] marks events m by simp
  have "list_all plain (report_lines about es imgs)"
    using assms(1-3) words event_text_facts(1)
    by (auto simp: report_lines_def list_all_iff)
  then have lines: "str_lines (report_text (report_lines about es imgs)) = report_lines about es imgs"
    by (rule str_lines_report)
  let ?hp = "hp\<lparr>hp_samples := annotate_samples (mapped_frame m) (hp_samples hp),
      hp_comment := history_comment (unknown_frees ?log)\<rparr>"
  have "parse_reader now (report_text (report_lines about es imgs)) = Inr ?hp"
    unfolding parse_reader_def lines unfolding report_lines_def
    using plain_utf8 [OF words(3)] loop hp by simp
  then show ?thesis using held [of "mapped_frame m"] unmapped_id [OF assms(8)] by (simp add: comp_def)
qed

section \<open>Properties\<close>


definition demo_printed :: printed_stack where
  "demo_printed = [(str_bytes ''libsystem_malloc.dylib'', HeapFrame 0x30 ''-[Pool take:]'' [] 0 None),
     (str_bytes ''app'', HeapFrame 0x20 ''make it'' ''src.c'' 12 None),
     (str_bytes ''dyld'', HeapFrame 0x10 ''start'' [] 0 None)]"

definition demo_made :: heap_stack where
  "demo_made = map snd demo_printed"

definition demo_history :: "history_event list" where
  "demo_history = [VmEvent (str_bytes ''0x1000-0x1fff [size=4096]: 0x30 (app) arena''),
     AllocEvent 0x1000 0x103f 64 demo_printed, FreeEvent 0x1000 (str_bytes ''0x40 (libc) free''),
     AllocEvent 0x1000 0x101f 32 demo_printed]"


end
