(* ===== verification/Sampling_Loop.thy ===== *)
theory Sampling_Loop
  imports Linux_Sampler
begin

text \<open>
  The contract of a sampling loop. The loops of the two samplers (\<open>src/sampler/linux.rs\<close>,
  \<open>src/sampler/macos.rs\<close>) differ in what they observe and where their samples come from; a session
  relies on this: a turn that does not end the loop records its round of samples in the live
  profile, and the turn that ends it records a last round, possibly empty. Then the profile of the
  session holds the samples of all the rounds, recorded one by one.
\<close>

text \<open>What is recorded depends on the stacks only.\<close>

lemma record_stacks_cong:
  "rp_stacks p = rp_stacks q \<Longrightarrow> rp_stacks (fold record_sample ss p) = rp_stacks (fold record_sample ss q)"
proof (induction ss arbitrary: p q)
  case (Cons s ss)
  then show ?case using Cons.IH [of "record_sample s p" "record_sample s q"] by (simp add: record_sample_stacks)
qed simp

text \<open>The turns a loop sees: up to the first that ends it.\<close>

fun turns_until :: "('t \<Rightarrow> bool) \<Rightarrow> 't list \<Rightarrow> 't list" where
  "turns_until breaks [] = []"
| "turns_until breaks (t # ts) = t # (if breaks t then [] else turns_until breaks ts)"

locale sampling_loop =
  fixes breaks :: "'t \<Rightarrow> bool"
    and step :: "'t \<Rightarrow> 's \<Rightarrow> 's"
    and final :: "'t \<Rightarrow> 's \<Rightarrow> 'r"
    and loop :: "'t list \<Rightarrow> 's \<Rightarrow> 'r \<times> bool"
    and live :: "'s \<Rightarrow> raw_profile"
    and outcome :: "'r \<Rightarrow> raw_profile"
    and samples :: "'t \<Rightarrow> 's \<Rightarrow> thread_sample list"
    and last_samples :: "'t \<Rightarrow> 's \<Rightarrow> thread_sample list"
  assumes loop_Nil: "\<not> snd (loop [] s)"
    and loop_Cons: "loop (t # ts) s = (if breaks t then (final t s, True) else loop ts (step t s))"
    and step_records: "rp_stacks (live (step t s)) = rp_stacks (fold record_sample (samples t s) (live s))"
    and final_records: "rp_stacks (outcome (final t s)) = rp_stacks (fold record_sample (last_samples t s) (live s))"
begin

primrec taken :: "'t list \<Rightarrow> 's \<Rightarrow> thread_sample list" where
  "taken [] s = []"
| "taken (t # ts) s = (if breaks t then last_samples t s else samples t s @ taken ts (step t s))"

lemma loop_records:
  "loop ts s = (r, True) \<Longrightarrow> rp_stacks (outcome r) = rp_stacks (fold record_sample (taken ts s) (live s))"
proof (induction ts arbitrary: s)
  case Nil
  then show ?case using loop_Nil [of s] by simp
next
  case (Cons t ts)
  show ?case
  proof (cases "breaks t")
    case True
    then show ?thesis using Cons.prems final_records by (auto simp: loop_Cons)
  next
    case False
    then have "loop ts (step t s) = (r, True)" using Cons.prems by (simp add: loop_Cons)
    from Cons.IH [OF this] show ?thesis
      using False record_stacks_cong [OF step_records] by simp
  qed
qed

text \<open>The loop ends exactly when a turn ends it, and sees nothing after that.\<close>

lemma loop_ends: "snd (loop ts s) \<longleftrightarrow> (\<exists>t\<in>set ts. breaks t)"
  by (induction ts arbitrary: s) (simp_all add: loop_Nil loop_Cons)

lemma loop_until: "snd (loop ts s) \<Longrightarrow> loop (turns_until breaks ts) s = loop ts s"
  by (induction ts arbitrary: s) (simp_all add: loop_Nil loop_Cons split: if_splits)

end

end
