(* ===== verification/Resources.thy ===== *)
theory Resources
  imports Prelude "HOL-Library.Multiset" "HOL-Library.Sublist"
begin

text \<open>
  Traces of calls that acquire, use and release resources: threads that are attached or suspended,
  descriptors, mappings, ports. A sampler gives for each call what it takes from the holdings and
  what it puts there; a call that only uses a resource takes it and puts it back. A trace for which
  \<open>held_after\<close> is defined uses and releases only what is held, so nothing is used or released after
  its release, and nothing is released twice.
\<close>

section \<open>Holdings\<close>

fun held_after :: "('c \<Rightarrow> 'r multiset \<times> 'r multiset) \<Rightarrow> 'c list \<Rightarrow> 'r multiset \<Rightarrow> 'r multiset option" where
  "held_after use [] held = Some held"
| "held_after use (c # cs) held =
     (if fst (use c) \<subseteq># held then held_after use cs (held - fst (use c) + snd (use c)) else None)"

text \<open>A trace that begins and ends with empty hands.\<close>

definition balanced :: "('c \<Rightarrow> 'r multiset \<times> 'r multiset) \<Rightarrow> 'c list \<Rightarrow> bool" where
  "balanced use calls \<longleftrightarrow> held_after use calls {#} = Some {#}"

text \<open>A trace that never holds more than \<open>n\<close> resources.\<close>

definition at_most :: "nat \<Rightarrow> ('c \<Rightarrow> 'r multiset \<times> 'r multiset) \<Rightarrow> 'c list \<Rightarrow> bool" where
  "at_most n use calls \<longleftrightarrow>
     list_all (\<lambda>cs. case held_after use cs {#} of None \<Rightarrow> False | Some held \<Rightarrow> size held \<le> n) (prefixes calls)"

lemma held_after_append:
  "held_after use (xs @ ys) held = Option.bind (held_after use xs held) (held_after use ys)"
  by (induction use xs held rule: held_after.induct) simp_all

text \<open>What else is held does not matter to a trace.\<close>

lemma held_after_frame:
  "held_after use calls held = Some held' \<Longrightarrow> held_after use calls (held + more) = Some (held' + more)"
proof (induction use calls held rule: held_after.induct)
  case (2 use c cs held)
  then have "fst (use c) \<subseteq># held" by (simp split: if_splits)
  then obtain left where "held = fst (use c) + left" by (auto simp: subset_mset.le_iff_add)
  then show ?case using 2 by (simp add: ac_simps)
qed simp

lemma balanced_held: "balanced use calls \<Longrightarrow> held_after use calls held = Some held"
  using held_after_frame [of use calls "{#}" "{#}" held] by (simp add: balanced_def)

lemma balanced_Nil [simp]: "balanced use []"
  by (simp add: balanced_def)

lemma balanced_append: "balanced use xs \<Longrightarrow> balanced use ys \<Longrightarrow> balanced use (xs @ ys)"
  by (simp add: balanced_def held_after_append)

text \<open>A balanced trace between acquiring and releasing.\<close>

lemma balanced_between:
  assumes "held_after use pre {#} = Some held" and "balanced use calls" and "held_after use post held = Some {#}"
  shows "balanced use (pre @ calls @ post)"
  using assms balanced_held [OF assms(2)] by (simp add: balanced_def held_after_append)

lemma prefixes_append_cases:
  "cs \<in> set (prefixes (xs @ ys)) \<Longrightarrow> cs \<in> set (prefixes xs) \<or> (\<exists>zs\<in>set (prefixes ys). cs = xs @ zs)"
  by (auto simp: prefix_append)

lemma at_most_Nil [simp]: "at_most n use []"
  by (simp add: at_most_def)

lemma at_most_append:
  assumes "at_most n use xs" and "balanced use xs" and "at_most n use ys"
  shows "at_most n use (xs @ ys)"
  unfolding at_most_def list_all_iff
proof
  fix cs assume "cs \<in> set (prefixes (xs @ ys))"
  from prefixes_append_cases [OF this]
  show "case held_after use cs {#} of None \<Rightarrow> False | Some held \<Rightarrow> size held \<le> n"
    using assms by (auto simp: at_most_def list_all_iff held_after_append balanced_def simp del: in_set_prefixes)
qed

section \<open>Scopes\<close>

text \<open>A body run once for each of a list of items, whose calls leave nothing held and never hold
  more than \<open>limit\<close> resources at a time: so does the whole run, and runs compose.\<close>

definition tidy :: "nat \<Rightarrow> ('c \<Rightarrow> 'r multiset \<times> 'r multiset) \<Rightarrow> 'c list \<Rightarrow> bool" where
  "tidy limit use calls \<longleftrightarrow> balanced use calls \<and> at_most limit use calls"

lemma tidy_Nil [simp]: "tidy limit use []"
  by (simp add: tidy_def)

lemma tidy_append [intro]: "tidy limit use xs \<Longrightarrow> tidy limit use ys \<Longrightarrow> tidy limit use (xs @ ys)"
  by (simp add: tidy_def balanced_append at_most_append)

lemma tidy_concat: "\<forall>calls\<in>set traces. tidy limit use calls \<Longrightarrow> tidy limit use (concat traces)"
  by (induction traces) auto

text \<open>A call that takes nothing and puts nothing.\<close>

lemma tidy_unused [simp]: "use c = ({#}, {#}) \<Longrightarrow> tidy limit use [c]"
  by (simp add: tidy_def balanced_def at_most_def)

lemma balanced_unused: "\<forall>c\<in>set calls. use c = ({#}, {#}) \<Longrightarrow> balanced use calls"
  unfolding balanced_def by (induction calls) simp_all

end
