(* ===== verification/Linux_Session.thy ===== *)
theory Linux_Session
  imports Sampling_Loop Perf_Ring Proc_Maps Resources
begin

text \<open>
  The Linux sampler as a whole (\<open>src/sampler/linux.rs\<close>): how threads are attached and released,
  how perf events are opened and closed, and the two sampling loops, with every early return.

  The kernel's answers are parameters. The calls that acquire or release something are recorded
  in a trace, in the order of the code, the destructors (\<open>Drop\<close>) included; a trace is what the
  release properties speak about, and each call that may fail has its outcome there. One turn of a
  loop is a record of what the loop observes in it. The mapping of a perf event is a list of bytes;
  a drain on it fails when it reads outside.
\<close>

section \<open>Attaching threads\<close>

datatype call = Seize u32 bool | Interrupt u32 bool | WaitStopped u32 bool | GetRegisters u32 | Detach u32 bool
  | PerfOpen int | Mmap int bool | Munmap int | Reset int | Enable int | Disable int | Close int

text \<open>The answers of the kernel to the calls made on a thread; a detach can fail as well, and the
  destructor ignores it.\<close>

record tracing =
  tg_seize :: "u32 \<Rightarrow> bool"
  tg_interrupt :: "u32 \<Rightarrow> bool"
  tg_stopped :: "u32 \<Rightarrow> bool"
  tg_detach :: "u32 \<Rightarrow> bool"
  tg_registers :: "u32 \<Rightarrow> (u64 \<times> u64) option"
  tg_memory :: "u32 \<Rightarrow> memory"

text \<open>\<open>Drop for AttachedThread\<close>.\<close>

definition drop_thread :: "tracing \<Rightarrow> u32 \<Rightarrow> call list" where
  "drop_thread k tid = [Detach tid (tg_detach k tid)]"

text \<open>\<open>AttachedThread::attach\<close>: once seized, an error drops the guard, which detaches.\<close>

definition attach_thread :: "tracing \<Rightarrow> u32 \<Rightarrow> bool \<times> call list" where
  "attach_thread k tid =
     (if \<not> tg_seize k tid then (False, [Seize tid False])
      else if \<not> tg_interrupt k tid then (False, [Seize tid True, Interrupt tid False] @ drop_thread k tid)
      else if \<not> tg_stopped k tid then
        (False, [Seize tid True, Interrupt tid True, WaitStopped tid False] @ drop_thread k tid)
      else (True, [Seize tid True, Interrupt tid True, WaitStopped tid True]))"

definition probe_ptrace :: "tracing \<Rightarrow> u32 \<Rightarrow> bool \<times> call list" where
  "probe_ptrace k tid =
     (let (attached, calls) = attach_thread k tid in
      (attached, calls @ (if attached then drop_thread k tid else [])))"

text \<open>\<open>sample_thread\<close> with its calls: the guard is dropped when the stack is read or given up.\<close>

definition trace_thread :: "tracing \<Rightarrow> u32 \<Rightarrow> u64 list option \<times> call list" where
  "trace_thread k tid =
     (let (attached, calls) = attach_thread k tid in
      if attached then
        (sample_thread (tg_registers k tid) (tg_memory k tid), calls @ [GetRegisters tid] @ drop_thread k tid)
      else (None, calls))"

definition trace_round :: "tracing \<Rightarrow> (u32 \<times> string) list \<Rightarrow> call list" where
  "trace_round k threads = concat (map (\<lambda>(tid, _). snd (trace_thread k tid)) threads)"

text \<open>The registers that \<open>sample_once\<close> of \<open>Linux_Sampler\<close> is given.\<close>

definition attached_registers :: "tracing \<Rightarrow> u32 \<Rightarrow> (u64 \<times> u64) option" where
  "attached_registers k tid = (if fst (attach_thread k tid) then tg_registers k tid else None)"

section \<open>Perf events\<close>

record perf_attr =
  at_type :: u32
  at_size :: u32
  at_config :: u64
  at_sample_freq :: u64
  at_sample_type :: u64
  at_read_format :: u64
  at_flags :: u64
  at_wakeup_events :: u32
  at_bp_type :: u32
  at_config1 :: u64

definition software_cpu_clock :: "u32 \<Rightarrow> perf_attr" where
  "software_cpu_clock freq_hz =
     (let flags = push_bit 0 1 OR push_bit 5 1 OR push_bit 6 1 OR push_bit 10 1 in
      \<lparr>at_type = 1, at_size = 64, at_config = 0, at_sample_freq = ucast freq_hz,
       at_sample_type = push_bit 0 1 OR push_bit 1 1 OR push_bit 5 1, at_read_format = 0,
       at_flags = flags, at_wakeup_events = 1, at_bp_type = 0, at_config1 = 0\<rparr>)"

datatype session_error = NoSuchProcess | PtraceFailed | PerfFailed int | PageSizeFailed | MmapFailed
  | BadRingLayout | EnableFailed | NoThreads | NoMatchingThread | SpawnFailed | SamplingPanicked

text \<open>What \<open>perf_event_open\<close>, \<open>sysconf\<close>, \<open>mmap\<close> and the ring's first page answer.\<close>

record perf_answer =
  pa_fd :: int
  pa_page_size :: int
  pa_mapped :: bool
  pa_data_offset :: u64
  pa_data_size :: u64
  pa_data_tail :: u64

record perf_event =
  pe_fd :: int
  pe_mapping_len :: u64
  pe_data_offset :: u64
  pe_data_size :: u64
  pe_tail :: u64

definition perf_data_pages :: u64 where
  "perf_data_pages = 8"

text \<open>The perf interface is asked with the attributes, so its answer may depend on them.\<close>

definition perf_open :: "(perf_attr \<Rightarrow> u32 \<Rightarrow> perf_answer) \<Rightarrow> u32 \<Rightarrow> u32
    \<Rightarrow> (session_error + perf_event) \<times> call list" where
  "perf_open perf tid freq_hz =
     (let a = perf (software_cpu_clock freq_hz) tid; fd = pa_fd a in
      if fd < 0 then (Inl (PerfFailed fd), [PerfOpen fd])
      else if pa_page_size a \<le> 0 then (Inl PageSizeFailed, [PerfOpen fd, Close fd])
      else
        let page_size = word_of_int (pa_page_size a);
            mapping_len = page_size * (1 + perf_data_pages) in
        if \<not> pa_mapped a then (Inl MmapFailed, [PerfOpen fd, Mmap fd False, Close fd])
        else
          let data_offset = (if pa_data_offset a = 0 then page_size else pa_data_offset a);
              data_size = (if pa_data_size a = 0 then mapping_len - page_size else pa_data_size a) in
          if (case checked_add_u64 data_offset data_size of None \<Rightarrow> True | Some e \<Rightarrow> mapping_len < e)
          then (Inl BadRingLayout, [PerfOpen fd, Mmap fd True, Munmap fd, Close fd])
          else
            (Inr \<lparr>pe_fd = fd, pe_mapping_len = mapping_len, pe_data_offset = data_offset,
                  pe_data_size = data_size, pe_tail = pa_data_tail a\<rparr>,
             [PerfOpen fd, Mmap fd True]))"

text \<open>\<open>Drop for PerfEvent\<close>.\<close>

definition perf_drop :: "perf_event \<Rightarrow> call list" where
  "perf_drop e = [Disable (pe_fd e), Munmap (pe_fd e), Close (pe_fd e)]"

text \<open>\<open>enable\<close>: the answers of the two \<open>ioctl\<close> calls are the parameter.\<close>

definition perf_enable :: "bool \<times> bool \<Rightarrow> perf_event \<Rightarrow> bool \<times> call list" where
  "perf_enable = (\<lambda>(reset, enable) e.
     if \<not> reset then (False, [Reset (pe_fd e)])
     else (enable, [Reset (pe_fd e), Enable (pe_fd e)]))"

section \<open>The sampler\<close>

record linux_sampler =
  ls_pid :: u32
  ls_freq_hz :: u32
  ls_is_self :: bool
  ls_thread_filter :: thread_filter

definition sampler_new :: "bool \<Rightarrow> tracing \<Rightarrow> u32 \<Rightarrow> u32 \<Rightarrow> (session_error + linux_sampler) \<times> call list" where
  "sampler_new exists k pid freq_hz =
     (if \<not> exists then (Inl NoSuchProcess, [])
      else
        let (attached, calls) = probe_ptrace k pid in
        (if attached
         then Inr \<lparr>ls_pid = pid, ls_freq_hz = freq_hz, ls_is_self = False, ls_thread_filter = All\<rparr>
         else Inl PtraceFailed, calls))"

text \<open>The event that is opened to test the permission is a temporary, dropped at once.\<close>

definition sampler_new_self :: "(perf_attr \<Rightarrow> u32 \<Rightarrow> perf_answer) \<Rightarrow> u32 \<Rightarrow> u32 \<Rightarrow> u32
    \<Rightarrow> (session_error + linux_sampler) \<times> call list" where
  "sampler_new_self perf pid tid freq_hz =
     (case perf_open perf tid freq_hz of
        (Inl e, calls) \<Rightarrow> (Inl e, calls)
      | (Inr event, calls) \<Rightarrow>
          (Inr \<lparr>ls_pid = pid, ls_freq_hz = freq_hz, ls_is_self = True, ls_thread_filter = All\<rparr>,
           calls @ perf_drop event))"

text \<open>\<open>LinuxSampler::spawn\<close>: the child, whether it was killed, and the sampler.\<close>

definition sampler_spawn :: "u32 option \<Rightarrow> bool \<Rightarrow> tracing \<Rightarrow> u32
    \<Rightarrow> (session_error + u32 \<times> linux_sampler) \<times> bool" where
  "sampler_spawn spawned exists k freq_hz =
     (case spawned of
        None \<Rightarrow> (Inl SpawnFailed, False)
      | Some pid \<Rightarrow>
          (case fst (sampler_new exists k pid freq_hz) of
             Inr sampler \<Rightarrow> (Inr (pid, sampler), False)
           | Inl e \<Rightarrow> (Inl e, True)))"

section \<open>The ptrace loop\<close>

record ptrace_turn =
  pt_stop :: bool
  pt_child_exited :: bool
  pt_clock :: nat
  pt_refresh :: bool
  pt_maps :: "u8 list option"
  pt_threads :: "u32 list option"
  pt_names :: "u32 \<Rightarrow> string"
  pt_tracing :: tracing
  pt_sampled :: "u32 \<Rightarrow> u64"
  pt_now :: nat

text \<open>\<open>read_loaded_images\<close>: \<open>read_to_string\<close> refuses text that is not UTF-8.\<close>

definition read_images :: "u8 list option \<Rightarrow> loaded_image list option" where
  "read_images maps =
     (case maps of None \<Rightarrow> None
      | Some text \<Rightarrow> if utf8_valid text then Some (parse_loaded_images text) else None)"

definition set_images :: "loaded_image list option \<Rightarrow> raw_profile \<Rightarrow> raw_profile" where
  "set_images images p =
     (case images of Some (i # is) \<Rightarrow> p\<lparr>rp_images := i # is\<rparr> | _ \<Rightarrow> p)"

definition turn_samples :: "thread_filter \<Rightarrow> ptrace_turn \<Rightarrow> thread_sample list" where
  "turn_samples f t = sample_once f (pt_names t) (pt_threads t)
     (attached_registers (pt_tracing t)) (\<lambda>tid. tg_memory (pt_tracing t) tid) (pt_sampled t)"

definition ptrace_breaks :: "bool \<Rightarrow> nat option \<Rightarrow> ptrace_turn \<Rightarrow> bool" where
  "ptrace_breaks check deadline t \<longleftrightarrow>
     pt_stop t \<or> (check \<and> pt_child_exited t) \<or> (case deadline of None \<Rightarrow> False | Some d \<Rightarrow> d \<le> pt_clock t)"

definition ptrace_step :: "thread_filter \<Rightarrow> ptrace_turn \<Rightarrow> raw_profile \<Rightarrow> raw_profile" where
  "ptrace_step f t p =
     (let p = (if pt_refresh t then set_images (read_images (pt_maps t)) p else p) in
      record_round (pt_now t) (turn_samples f t) p)"

text \<open>The loop over the turns: the profile and, when it has ended, that it has.\<close>

fun ptrace_loop :: "thread_filter \<Rightarrow> bool \<Rightarrow> nat option \<Rightarrow> ptrace_turn list \<Rightarrow> raw_profile \<Rightarrow> raw_profile \<times> bool" where
  "ptrace_loop f check deadline [] p = (p, False)"
| "ptrace_loop f check deadline (t # ts) p =
     (if ptrace_breaks check deadline t then (p, True)
      else ptrace_loop f check deadline ts (ptrace_step f t p))"

text \<open>After the loop: \<open>stop\<close> is set, and the images and the end time are read once more.\<close>

definition finish_sampling :: "u8 list option \<Rightarrow> nat \<Rightarrow> raw_profile \<Rightarrow> raw_profile" where
  "finish_sampling maps now p =
     (let images = (case read_images maps of None \<Rightarrow> [] | Some is \<Rightarrow> is);
          p = p\<lparr>rp_end_time := now\<rparr> in
      if images \<noteq> [] then p\<lparr>rp_images := images\<rparr> else p)"

text \<open>The result of a loop that has returned, and the flag \<open>stop\<close>. A frequency of zero makes the
  division that computes the interval panic.\<close>

record loop_end =
  en_result :: "session_error + raw_profile"
  en_stop :: bool

definition run_ptrace_sampling_loop :: "linux_sampler \<Rightarrow> bool \<Rightarrow> nat option \<Rightarrow> bool \<Rightarrow> ptrace_turn list
    \<Rightarrow> u8 list option \<Rightarrow> nat \<Rightarrow> raw_profile \<Rightarrow> loop_end option" where
  "run_ptrace_sampling_loop s check deadline stop ts maps now live =
     (if ls_freq_hz s = 0 then Some \<lparr>en_result = Inl SamplingPanicked, en_stop = stop\<rparr>
      else
        let (p, ended) = ptrace_loop (ls_thread_filter s) check deadline ts live in
        if ended then Some \<lparr>en_result = Inr (finish_sampling maps now p), en_stop = True\<rparr> else None)"

section \<open>The perf loop\<close>

record perf_turn =
  pf_stop :: bool
  pf_clock :: nat
  pf_rings :: "(u8 list \<times> u64) list"
  pf_timestamp :: u64
  pf_now :: nat

type_synonym perf_events = "(u32 \<times> string \<times> perf_event) list"

text \<open>Opening the events, keeping the first error.\<close>

fun open_events :: "(perf_attr \<Rightarrow> u32 \<Rightarrow> perf_answer) \<Rightarrow> u32 \<Rightarrow> (u32 \<times> string) list
    \<Rightarrow> perf_events \<times> session_error option \<times> call list" where
  "open_events perf freq_hz [] = ([], None, [])"
| "open_events perf freq_hz ((tid, name) # threads) =
     (let (opened, calls) = perf_open perf tid freq_hz;
          (events, first_error, calls') = open_events perf freq_hz threads in
      case opened of
        Inr event \<Rightarrow> ((tid, name, event) # events, first_error, calls @ calls')
      | Inl e \<Rightarrow> (events, Some e, calls @ calls'))"

fun enable_events :: "(int \<Rightarrow> bool \<times> bool) \<Rightarrow> perf_events \<Rightarrow> bool \<times> call list" where
  "enable_events ioctl [] = (True, [])"
| "enable_events ioctl ((tid, name, event) # events) =
     (let (enabled, calls) = perf_enable (ioctl (pe_fd event)) event in
      if \<not> enabled then (False, calls)
      else let (rest, calls') = enable_events ioctl events in (rest, calls @ calls'))"

definition drop_events :: "perf_events \<Rightarrow> call list" where
  "drop_events events = concat (map (\<lambda>(_, _, e). perf_drop e) events)"

text \<open>The rings of the events as the kernel has filled them by this turn.\<close>

definition fill_rings :: "(u8 list \<times> u64) list \<Rightarrow> (u32 \<times> string \<times> perf_ring) list
    \<Rightarrow> (u32 \<times> string \<times> perf_ring) list" where
  "fill_rings contents events =
     map2 (\<lambda>(data, head) (tid, name, r). (tid, name, r\<lparr>pr_data := data, pr_head := head\<rparr>)) contents events"

definition perf_drain :: "perf_turn \<Rightarrow> (u32 \<times> string \<times> perf_ring) list \<Rightarrow> raw_profile
    \<Rightarrow> (u32 \<times> string \<times> perf_ring) list \<times> raw_profile" where
  "perf_drain t events p = drain_perf_events (pf_now t) (pf_timestamp t) (fill_rings (pf_rings t) events) p"

definition perf_breaks :: "nat option \<Rightarrow> perf_turn \<Rightarrow> bool" where
  "perf_breaks deadline t \<longleftrightarrow> pf_stop t \<or> (case deadline of None \<Rightarrow> False | Some d \<Rightarrow> d \<le> pf_clock t)"

text \<open>The loop, ending with the drain after the events are disabled (its observations are those of
  the turn in which the loop breaks).\<close>

fun perf_loop :: "nat option \<Rightarrow> perf_turn list \<Rightarrow> (u32 \<times> string \<times> perf_ring) list \<Rightarrow> raw_profile
    \<Rightarrow> raw_profile \<times> bool" where
  "perf_loop deadline [] events p = (p, False)"
| "perf_loop deadline (t # ts) events p =
     (if perf_breaks deadline t then (snd (perf_drain t events p), True)
      else let (events, p) = perf_drain t events p in perf_loop deadline ts events p)"

definition event_rings :: "perf_events \<Rightarrow> (u32 \<times> string \<times> perf_ring) list" where
  "event_rings events =
     map (\<lambda>(tid, name, e). (tid, name, \<lparr>pr_data = [], pr_head = pe_tail e, pr_tail = pe_tail e\<rparr>)) events"

record perf_host =
  ph_sampler_tid :: u32
  ph_threads :: "u32 list option"
  ph_names :: "u32 \<Rightarrow> string"
  ph_perf :: "perf_attr \<Rightarrow> u32 \<Rightarrow> perf_answer"
  ph_ioctl :: "int \<Rightarrow> bool \<times> bool"

definition run_perf_sampling_loop :: "linux_sampler \<Rightarrow> perf_host \<Rightarrow> nat option \<Rightarrow> bool \<Rightarrow> perf_turn list
    \<Rightarrow> u8 list option \<Rightarrow> nat \<Rightarrow> raw_profile \<Rightarrow> (loop_end \<times> call list) option" where
  "run_perf_sampling_loop s h deadline stop ts maps now live =
     (case ph_threads h of
        None \<Rightarrow> Some (\<lparr>en_result = Inl NoThreads, en_stop = stop\<rparr>, [])
      | Some threads \<Rightarrow>
          let selected = selected_threads (ls_thread_filter s) (ph_names h) (Some (ph_sampler_tid h)) threads;
              (events, first_error, calls) = open_events (ph_perf h) (ls_freq_hz s) selected in
          if events = [] then
            Some (\<lparr>en_result = Inl (case first_error of Some e \<Rightarrow> e | None \<Rightarrow> NoMatchingThread), en_stop = stop\<rparr>, calls)
          else
            let (enabled, calls') = enable_events (ph_ioctl h) events in
            if \<not> enabled then
              Some (\<lparr>en_result = Inl EnableFailed, en_stop = stop\<rparr>, calls @ calls' @ drop_events events)
            else if ls_freq_hz s = 0 then
              Some (\<lparr>en_result = Inl SamplingPanicked, en_stop = stop\<rparr>, calls @ calls' @ drop_events events)
            else
              let (p, ended) = perf_loop deadline ts (event_rings events) live in
              if ended then
                Some (\<lparr>en_result = Inr (finish_sampling maps now p), en_stop = True\<rparr>,
                  calls @ calls' @ map (\<lambda>(_, _, e). Disable (pe_fd e)) events @ drop_events events)
              else None)"

section \<open>What is released\<close>

text \<open>What the calls of a trace take and put: the threads that are attached \<open>\<dots>\<close> A detach that the
  kernel refuses leaves its thread attached.\<close>

fun thread_use :: "call \<Rightarrow> u32 multiset \<times> u32 multiset" where
  "thread_use (Seize tid ok) = ({#}, if ok then {#tid#} else {#})"
| "thread_use (Interrupt tid ok) = ({#tid#}, {#tid#})"
| "thread_use (WaitStopped tid ok) = ({#tid#}, {#tid#})"
| "thread_use (GetRegisters tid) = ({#tid#}, {#tid#})"
| "thread_use (Detach tid ok) = ({#tid#}, if ok then {#} else {#tid#})"
| "thread_use _ = ({#}, {#})"

text \<open>\<open>\<dots>\<close> and the descriptors and mappings of perf events, a mapping known by its descriptor.\<close>

datatype perf_resource = Descriptor int | Mapping int

fun descriptor_use :: "call \<Rightarrow> perf_resource multiset \<times> perf_resource multiset" where
  "descriptor_use (PerfOpen fd) = ({#}, if fd < 0 then {#} else {#Descriptor fd#})"
| "descriptor_use (Mmap fd ok) =
     ({#Descriptor fd#}, if ok then {#Descriptor fd, Mapping fd#} else {#Descriptor fd#})"
| "descriptor_use (Munmap fd) = ({#Mapping fd#}, {#})"
| "descriptor_use (Reset fd) = ({#Descriptor fd#}, {#Descriptor fd#})"
| "descriptor_use (Enable fd) = ({#Descriptor fd#}, {#Descriptor fd#})"
| "descriptor_use (Disable fd) = ({#Descriptor fd#}, {#Descriptor fd#})"
| "descriptor_use (Close fd) = ({#Descriptor fd#}, {#})"
| "descriptor_use _ = ({#}, {#})"

text \<open>\<open>\<dots>\<close> and the threads that are known to be stopped: a confirmed wait stops one, a detach resumes it,
  and registers may only be read of a stopped thread.\<close>

fun stopped_after :: "call list \<Rightarrow> u32 set \<Rightarrow> u32 set option" where
  "stopped_after [] S = Some S"
| "stopped_after (WaitStopped tid ok # cs) S = stopped_after cs (if ok then insert tid S else S)"
| "stopped_after (GetRegisters tid # cs) S = (if tid \<in> S then stopped_after cs S else None)"
| "stopped_after (Detach tid ok # cs) S = stopped_after cs (if ok then S - {tid} else S)"
| "stopped_after (_ # cs) S = stopped_after cs S"

definition one_stopped :: "call list \<Rightarrow> bool" where
  "one_stopped calls \<longleftrightarrow> stopped_after calls {} = Some {}
     \<and> list_all (\<lambda>cs. case stopped_after cs {} of None \<Rightarrow> False | Some S \<Rightarrow> card S \<le> 1) (prefixes calls)"

lemma stopped_after_append: "stopped_after (xs @ ys) S = Option.bind (stopped_after xs S) (stopped_after ys)"
  by (induction xs S rule: stopped_after.induct) simp_all

lemma one_stopped_Nil [simp]: "one_stopped []"
  by (simp add: one_stopped_def)

lemma one_stopped_append:
  assumes "one_stopped xs" and "one_stopped ys"
  shows "one_stopped (xs @ ys)"
  unfolding one_stopped_def list_all_iff
proof (intro conjI ballI)
  show "stopped_after (xs @ ys) {} = Some {}" using assms by (simp add: one_stopped_def stopped_after_append)
  fix cs assume "cs \<in> set (prefixes (xs @ ys))"
  from prefixes_append_cases [OF this]
  show "case stopped_after cs {} of None \<Rightarrow> False | Some S \<Rightarrow> card S \<le> 1"
    using assms by (auto simp: one_stopped_def list_all_iff stopped_after_append simp del: in_set_prefixes)
qed

text \<open>The threads left attached: seized, not brought to a confirmed stop, and not let go by the kernel.\<close>

definition left_attached :: "tracing \<Rightarrow> u32 \<Rightarrow> bool" where
  "left_attached k tid \<longleftrightarrow> tg_seize k tid \<and> \<not> (tg_interrupt k tid \<and> tg_stopped k tid) \<and> \<not> tg_detach k tid"

text \<open>What ptrace(2) says of a detach: the thread has to be stopped, and one that is is let go.\<close>

definition detach_works :: "tracing \<Rightarrow> bool" where
  "detach_works k \<longleftrightarrow> (\<forall>tid. tg_seize k tid \<and> tg_interrupt k tid \<and> tg_stopped k tid \<longrightarrow> tg_detach k tid)"

lemma trace_thread_calls:
  assumes "detach_works k"
  shows "held_after thread_use (snd (trace_thread k tid)) {#} = Some (if left_attached k tid then {#tid#} else {#})"
    and "one_stopped (snd (trace_thread k tid))"
  using assms
  by (auto simp: trace_thread_def attach_thread_def drop_thread_def left_attached_def detach_works_def one_stopped_def)

lemma probe_calls:
  assumes "detach_works k"
  shows "held_after thread_use (snd (probe_ptrace k tid)) {#} = Some (if left_attached k tid then {#tid#} else {#})"
    and "one_stopped (snd (probe_ptrace k tid))"
  using assms
  by (auto simp: probe_ptrace_def attach_thread_def drop_thread_def left_attached_def detach_works_def one_stopped_def)

lemma sampler_new_calls:
  assumes "detach_works k"
  shows "held_after thread_use (snd (sampler_new exists k pid freq)) {#}
      = Some (if exists \<and> left_attached k pid then {#pid#} else {#})"
    and "one_stopped (snd (sampler_new exists k pid freq))"
  using probe_calls [OF assms, of pid] by (simp_all add: sampler_new_def split_beta)

lemma trace_round_calls:
  assumes "detach_works k"
  shows "held_after thread_use (trace_round k threads) {#} = Some (mset (filter (left_attached k) (map fst threads)))"
    and "one_stopped (trace_round k threads)"
proof -
  have "held_after thread_use (trace_round k threads) held
      = Some (held + mset (filter (left_attached k) (map fst threads))) \<and> one_stopped (trace_round k threads)" for held
  proof (induction threads arbitrary: held)
    case (Cons t threads)
    have "held_after thread_use (snd (trace_thread k (fst t))) held
        = Some (held + (if left_attached k (fst t) then {#fst t#} else {#}))"
      using held_after_frame [OF trace_thread_calls(1) [OF assms], of "fst t" held] by (simp add: ac_simps split: if_splits)
    then show ?case
      using Cons.IH one_stopped_append [OF trace_thread_calls(2) [OF assms, of "fst t"]]
      by (auto simp: trace_round_def split_beta held_after_append)
  qed (simp add: trace_round_def)
  then show "held_after thread_use (trace_round k threads) {#} = Some (mset (filter (left_attached k) (map fst threads)))"
    and "one_stopped (trace_round k threads)"
    by simp_all
qed

text \<open>The destructor ignores the answer: a thread that could not be brought to a stop stays attached, and no
  error says so.\<close>

lemma refused_detach_is_ignored:
  assumes "tg_seize k tid" and "tg_interrupt k tid" and "\<not> tg_stopped k tid" and "\<not> tg_detach k tid"
  shows "fst (trace_thread k tid) = None"
    and "held_after thread_use (snd (trace_thread k tid)) {#} = Some {#tid#}"
  using assms by (simp_all add: trace_thread_def attach_thread_def drop_thread_def)

text \<open>\<open>sample_once\<close> of \<open>Linux_Sampler\<close>, given the registers of the threads that could be attached,
  takes the stacks that the traced calls read.\<close>

lemma trace_thread_stack:
  "fst (trace_thread k tid) = sample_thread (attached_registers k tid) (tg_memory k tid)"
  by (auto simp: trace_thread_def attached_registers_def sample_thread_def split_beta)

text \<open>What an event holds, and a list of events.\<close>

definition holdings :: "perf_event \<Rightarrow> perf_resource multiset" where
  "holdings e = {#Descriptor (pe_fd e), Mapping (pe_fd e)#}"

definition all_holdings :: "perf_events \<Rightarrow> perf_resource multiset" where
  "all_holdings events = sum_list (map (\<lambda>(_, _, e). holdings e) events)"

lemma all_holdings_simps [simp]:
  "all_holdings [] = {#}" "all_holdings ((tid, name, e) # events) = holdings e + all_holdings events"
  by (simp_all add: all_holdings_def)

lemma perf_open_calls:
  "case perf_open perf tid freq of
     (Inl e, calls) \<Rightarrow> balanced descriptor_use calls
   | (Inr e, calls) \<Rightarrow> held_after descriptor_use calls {#} = Some (holdings e)"
  by (auto simp: perf_open_def Let_def balanced_def holdings_def split: option.split)

lemma perf_drop_calls: "held_after descriptor_use (perf_drop e) (holdings e + held) = Some held"
  by (simp add: perf_drop_def holdings_def)

lemma drop_events_calls: "held_after descriptor_use (drop_events events) (all_holdings events + held) = Some held"
proof (induction events)
  case (Cons x events)
  obtain tid name e where "x = (tid, name, e)" by (cases x)
  then show ?case
    using Cons perf_drop_calls [of e "all_holdings events + held"]
    by (simp add: drop_events_def held_after_append ac_simps)
qed (simp add: drop_events_def)

lemma open_events_calls:
  "open_events perf freq threads = (events, first_error, calls) \<Longrightarrow>
     held_after descriptor_use calls held = Some (all_holdings events + held)"
proof (induction threads arbitrary: events first_error calls held)
  case (Cons x threads)
  obtain tid name where x: "x = (tid, name)" by (cases x)
  obtain opened calls1 where o: "perf_open perf tid freq = (opened, calls1)" by (cases "perf_open perf tid freq")
  obtain events2 first2 calls2 where r: "open_events perf freq threads = (events2, first2, calls2)"
    by (cases "open_events perf freq threads") auto
  note IH = Cons.IH [OF r]
  show ?case
  proof (cases opened)
    case (Inl e)
    then have "balanced descriptor_use calls1" using perf_open_calls [of perf tid freq] o by simp
    then show ?thesis
      using Cons.prems IH [of held] Inl by (auto simp: x o r held_after_append balanced_held)
  next
    case (Inr e)
    then have "held_after descriptor_use calls1 {#} = Some (holdings e)"
      using perf_open_calls [of perf tid freq] o by simp
    from held_after_frame [OF this, of held] show ?thesis
      using Cons.prems IH [of "holdings e + held"] Inr by (auto simp: x o r held_after_append ac_simps)
  qed
qed simp

text \<open>Calls that only use the descriptors of open events.\<close>

lemma uses_descriptors:
  assumes "\<forall>c\<in>set calls. \<exists>(_, _, e)\<in>set events. c \<in> {Reset (pe_fd e), Enable (pe_fd e), Disable (pe_fd e)}"
  shows "held_after descriptor_use calls (all_holdings events) = Some (all_holdings events)"
  using assms
proof (induction calls)
  case (Cons c calls)
  then obtain tid name e where "(tid, name, e) \<in> set events"
    and c: "c \<in> {Reset (pe_fd e), Enable (pe_fd e), Disable (pe_fd e)}" by auto
  then have "Descriptor (pe_fd e) \<in># all_holdings events"
    by (induction events) (auto simp: holdings_def)
  then show ?case using Cons c by auto
qed simp

lemma enable_events_calls:
  "c \<in> set (snd (enable_events ioctl events)) \<Longrightarrow> \<exists>(_, _, e)\<in>set events. c \<in> {Reset (pe_fd e), Enable (pe_fd e)}"
proof (induction events)
  case (Cons x events)
  obtain tid name e where x: "x = (tid, name, e)" by (cases x)
  obtain reset enable where io: "ioctl (pe_fd e) = (reset, enable)" by (cases "ioctl (pe_fd e)")
  consider "c \<in> {Reset (pe_fd e), Enable (pe_fd e)}" | "c \<in> set (snd (enable_events ioctl events))"
    using Cons.prems by (auto simp: x io perf_enable_def split_beta split: if_splits)
  then show ?case using Cons.IH by cases (auto simp: x)
qed simp

lemma perf_loop_releases:
  assumes "run_perf_sampling_loop s h deadline stop ts maps now live = Some (e, calls)"
  shows "balanced descriptor_use calls"
proof (cases "ph_threads h")
  case None
  then show ?thesis using assms by (auto simp: run_perf_sampling_loop_def)
next
  case (Some threads)
  let ?sel = "selected_threads (ls_thread_filter s) (ph_names h) (Some (ph_sampler_tid h)) threads"
  obtain events first_error calls1 where o: "open_events (ph_perf h) (ls_freq_hz s) ?sel = (events, first_error, calls1)"
    by (cases "open_events (ph_perf h) (ls_freq_hz s) ?sel") auto
  obtain enabled calls2 where en: "enable_events (ph_ioctl h) events = (enabled, calls2)"
    by (cases "enable_events (ph_ioctl h) events")
  let ?disables = "map (\<lambda>(_, _, e). Disable (pe_fd e)) events"
  have cases: "calls = calls1 \<and> events = [] \<or> calls = calls1 @ calls2 @ drop_events events
    \<or> calls = calls1 @ (calls2 @ ?disables) @ drop_events events"
    using assms by (auto simp: run_perf_sampling_loop_def Some o en Let_def split: if_splits prod.splits)
  have opened: "held_after descriptor_use calls1 {#} = Some (all_holdings events)"
    using open_events_calls [OF o, of "{#}"] by simp
  have used: "held_after descriptor_use calls2 (all_holdings events) = Some (all_holdings events)"
    "held_after descriptor_use (calls2 @ ?disables) (all_holdings events) = Some (all_holdings events)"
    using enable_events_calls [of _ "ph_ioctl h" events]
    by (intro uses_descriptors, fastforce simp: en)+
  show ?thesis
    using cases opened used drop_events_calls [of events "{#}"]
    by (elim disjE) (simp_all add: balanced_def held_after_append)
qed

lemma sampler_new_self_calls: "balanced descriptor_use (snd (sampler_new_self perf pid tid freq))"
  using perf_open_calls [of perf tid freq] perf_drop_calls [of _ "{#}"]
  by (auto simp: sampler_new_self_def balanced_def held_after_append split: prod.splits sum.splits)

section \<open>The layout of a ring\<close>

text \<open>The reads of a drain as they are made, in the bytes of the whole mapping: a read of which a byte would
  lie outside is \<^const>\<open>None\<close>. \<open>head\<close> is the position the kernel announces.\<close>

definition mapping_slice :: "u8 list \<Rightarrow> nat \<Rightarrow> nat \<Rightarrow> u8 list option" where
  "mapping_slice mapping offset n = (if offset + n \<le> length mapping then Some (take n (drop offset mapping)) else None)"

definition event_copy_ring :: "perf_event \<Rightarrow> u8 list \<Rightarrow> u64 \<Rightarrow> nat \<Rightarrow> u8 list option" where
  "event_copy_ring e mapping pos len =
     (let start = unat pos mod unat (pe_data_size e);
          first_length = min len (unat (pe_data_size e) - start) in
      case mapping_slice mapping (unat (pe_data_offset e) + start) first_length of
        None \<Rightarrow> None
      | Some output \<Rightarrow>
          if first_length < len
          then map_option (\<lambda>rest. output @ rest) (mapping_slice mapping (unat (pe_data_offset e)) (len - first_length))
          else Some output)"

function event_drain_loop :: "perf_event \<Rightarrow> u8 list \<Rightarrow> u64 \<Rightarrow> u64 \<Rightarrow> perf_sample list
    \<Rightarrow> (perf_sample list \<times> u64) option" where
  "event_drain_loop e mapping head tail samples =
     (if saturating_sub_u64 head tail < 8 then Some (samples, tail)
      else
        (case event_copy_ring e mapping tail 8 of
           None \<Rightarrow> None
         | Some header \<Rightarrow>
             let record_type = le_word (take 4 header) :: u32;
                 record_size = unat (le_word (take 2 (drop 6 header)) :: u16)
             in if record_size < 8 \<or> unat (saturating_sub_u64 head tail) < record_size then Some (samples, tail)
                else
                  (case event_copy_ring e mapping tail record_size of
                     None \<Rightarrow> None
                   | Some bytes \<Rightarrow>
                       let tail = tail + word_of_nat record_size;
                           sample = (if record_type = perf_record_sample then parse_perf_sample bytes else None)
                       in event_drain_loop e mapping head tail
                            (case sample of None \<Rightarrow> samples | Some s \<Rightarrow> samples @ [s]))))"
  by pat_completeness auto

termination
proof (relation "measure (\<lambda>(e, mapping, head, tail, samples). unat head - unat tail)", goal_cases)
  case (2 e mapping head tail samples header record_type record_size bytes tail' sample)
  then have "record_size \<le> unat (saturating_sub_u64 head tail)" "0 < record_size" by auto
  from tail_advances [OF this] \<open>0 < record_size\<close>
  have "unat head - unat (tail + word_of_nat record_size) < unat head - unat tail" by linarith
  then show ?case using 2 by simp
qed simp

declare event_drain_loop.simps [simp del]

definition event_drain :: "perf_event \<Rightarrow> u8 list \<Rightarrow> u64 \<Rightarrow> (perf_sample list \<times> u64) option" where
  "event_drain e mapping head =
     event_drain_loop e mapping head
       (if pe_data_size e < saturating_sub_u64 head (pe_tail e) then head - pe_data_size e else pe_tail e) []"

text \<open>The data area of the mapping, which is the ring of \<open>Perf_Ring\<close>.\<close>

definition event_ring :: "perf_event \<Rightarrow> u8 list \<Rightarrow> u8 list" where
  "event_ring e mapping = take (unat (pe_data_size e)) (drop (unat (pe_data_offset e)) mapping)"

definition event_layout :: "perf_event \<Rightarrow> u8 list \<Rightarrow> bool" where
  "event_layout e mapping \<longleftrightarrow> 0 < unat (pe_data_size e)
     \<and> unat (pe_data_offset e) + unat (pe_data_size e) \<le> length mapping"

lemma perf_open_layout:
  assumes "perf_open perf tid freq = (Inr e, calls)" and "0 < pe_data_size e"
    and "length mapping = unat (pe_mapping_len e)"
  shows "event_layout e mapping"
proof -
  have "case checked_add_u64 (pe_data_offset e) (pe_data_size e) of None \<Rightarrow> False | Some x \<Rightarrow> x \<le> pe_mapping_len e"
    using assms(1) by (auto simp: perf_open_def Let_def not_less split: if_splits option.splits)
  then have "unat (pe_data_offset e) + unat (pe_data_size e) \<le> unat (pe_mapping_len e)"
    by (auto simp: checked_add_u64_Some word_le_nat_alt unat_add_u64 split: option.splits)
  then show ?thesis using assms(2,3) by (simp add: event_layout_def word_less_nat_alt)
qed

lemma event_copy_in_mapping:
  assumes "event_layout e mapping" and "n \<le> unat (pe_data_size e)"
  shows "event_copy_ring e mapping pos n = Some (copy_ring (event_ring e mapping) pos n)"
proof -
  define area where "area = unat (pe_data_size e)"
  define offset where "offset = unat (pe_data_offset e)"
  define start where "start = unat pos mod area"
  have layout: "start < area" "offset + area \<le> length mapping" "n \<le> area"
    using assms by (simp_all add: event_layout_def area_def offset_def start_def)
  have ring: "length (event_ring e mapping) = area"
    using layout(2) by (simp add: event_ring_def area_def [symmetric] offset_def [symmetric])
  have parts: "take m (drop start (event_ring e mapping)) = take m (drop (offset + start) mapping)" if "m \<le> area - start" for m
    using that by (simp add: event_ring_def area_def [symmetric] offset_def [symmetric] drop_take min_absorb1 add.commute)
  have front: "take m (event_ring e mapping) = take m (drop offset mapping)" if "m \<le> area" for m
    using that by (simp add: event_ring_def area_def [symmetric] offset_def [symmetric] min_absorb1)
  show ?thesis
  proof (cases "n \<le> area - start")
    case True
    then have "min n (area - start) = n" "offset + start + n \<le> length mapping" using layout by simp_all
    then show ?thesis
      using parts [OF True]
      by (simp add: event_copy_ring_def copy_ring_def mapping_slice_def ring Let_def
          area_def [symmetric] offset_def [symmetric] start_def [symmetric])
  next
    case False
    then have "min n (area - start) = area - start" "area - start < n" "offset + start + (area - start) \<le> length mapping"
      "offset + (n - (area - start)) \<le> length mapping" "n - (area - start) \<le> area"
      using layout by simp_all
    then show ?thesis
      using parts [OF order_refl] front [of "n - (area - start)"]
      by (simp add: event_copy_ring_def copy_ring_def mapping_slice_def ring Let_def
          area_def [symmetric] offset_def [symmetric] start_def [symmetric])
  qed
qed

lemma event_drain_loop_in_mapping:
  assumes "event_layout e mapping" and "saturating_sub_u64 head tail \<le> pe_data_size e"
  shows "event_drain_loop e mapping head tail samples = Some (drain_loop (event_ring e mapping) head tail samples)"
  using assms(2)
proof (induction "event_ring e mapping" head tail samples rule: drain_loop.induct)
  case (1 head tail samples)
  let ?header = "copy_ring (event_ring e mapping) tail 8"
  let ?size = "unat (le_word (take 2 (drop 6 ?header)) :: u16)"
  show ?case
  proof (cases "saturating_sub_u64 head tail < 8")
    case True
    then show ?thesis by (simp add: event_drain_loop.simps [of e] drain_loop.simps [of _ head])
  next
    case False
    then have eight: "8 \<le> unat (pe_data_size e)" using "1.prems" by (simp add: word_less_nat_alt word_le_nat_alt)
    note header = event_copy_in_mapping [OF assms(1) eight, of tail]
    show ?thesis
    proof (cases "?size < 8 \<or> unat (saturating_sub_u64 head tail) < ?size")
      case True
      then show ?thesis
        using False header by (simp add: event_drain_loop.simps [of e] drain_loop.simps [of _ head] Let_def)
    next
      case inside: False
      then have le: "?size \<le> unat (pe_data_size e)" using "1.prems" by (simp add: word_le_nat_alt)
      note copy = event_copy_in_mapping [OF assms(1) le, of tail]
      have "saturating_sub_u64 head (tail + word_of_nat ?size) \<le> pe_data_size e"
        using tail_advances [of ?size head tail] inside "1.prems"
        by (simp add: word_le_nat_alt unat_saturating_sub_u64)
      then show ?thesis
        using 1(1) [OF False refl refl refl inside refl refl refl] False inside header copy
        by (simp add: event_drain_loop.simps [of e] drain_loop.simps [of _ head] Let_def)
    qed
  qed
qed

section \<open>What a session records\<close>

definition session_samples :: "thread_filter \<Rightarrow> bool \<Rightarrow> nat option \<Rightarrow> ptrace_turn list \<Rightarrow> thread_sample list" where
  "session_samples f check deadline ts =
     concat (map (turn_samples f) (takeWhile (\<lambda>t. \<not> ptrace_breaks check deadline t) ts))"

lemma set_images_stacks [simp]: "rp_stacks (set_images images p) = rp_stacks p"
  by (simp add: set_images_def split: option.split list.split)

lemma ptrace_step_stacks:
  "rp_stacks (ptrace_step f t p) = rp_stacks (fold record_sample (turn_samples f t) p)"
  by (simp add: ptrace_step_def Let_def record_round_stacks
      record_stacks_cong [of "set_images (read_images (pt_maps t)) p" p])

interpretation ptrace: sampling_loop "ptrace_breaks check deadline" "ptrace_step f" "\<lambda>_ p. p"
  "ptrace_loop f check deadline" "\<lambda>p. p" "\<lambda>p. p" "\<lambda>t _. turn_samples f t" "\<lambda>_ _. []" for f check deadline
  by unfold_locales (simp_all add: ptrace_step_stacks)

lemma ptrace_taken: "ptrace.taken check deadline f ts p = session_samples f check deadline ts"
  by (induction ts arbitrary: p) (simp_all add: session_samples_def)

lemma finish_stacks [simp]: "rp_stacks (finish_sampling maps now p) = rp_stacks p"
  by (simp add: finish_sampling_def Let_def)

lemma ptrace_session:
  assumes "run_ptrace_sampling_loop s check deadline stop ts maps now live = Some e" and "en_result e = Inr raw"
  shows "rp_stacks raw = rp_stacks (fold record_sample (session_samples (ls_thread_filter s) check deadline ts) live)
    \<and> en_stop e"
proof -
  obtain p where "ptrace_loop (ls_thread_filter s) check deadline ts live = (p, True)"
    "e = \<lparr>en_result = Inr (finish_sampling maps now p), en_stop = True\<rparr>"
    using assms by (auto simp: run_ptrace_sampling_loop_def split: if_splits prod.splits)
  then show ?thesis using ptrace.loop_records assms(2) by (auto simp: ptrace_taken)
qed

text \<open>What a drain of the rings records: the samples of each ring with a stack, for the thread that
  the sample names or, when it names none, the thread of the event.\<close>

definition perf_thread_sample :: "u32 \<Rightarrow> string \<Rightarrow> u64 \<Rightarrow> perf_sample \<Rightarrow> thread_sample" where
  "perf_thread_sample tid name timestamp s =
     \<lparr>ts_thread_id = ucast (if ps_thread_id s = 0 then tid else ps_thread_id s), ts_thread_name = name,
      ts_stack = ps_stack s, ts_timestamp_nanos = timestamp\<rparr>"

definition perf_thread_samples :: "u32 \<Rightarrow> string \<Rightarrow> u64 \<Rightarrow> perf_sample list \<Rightarrow> thread_sample list" where
  "perf_thread_samples tid name timestamp ss =
     map (perf_thread_sample tid name timestamp) (filter (\<lambda>s. ps_stack s \<noteq> []) ss)"

fun drained_samples :: "u64 \<Rightarrow> (u32 \<times> string \<times> perf_ring) list \<Rightarrow> thread_sample list" where
  "drained_samples timestamp [] = []"
| "drained_samples timestamp ((tid, name, ring) # events) =
     perf_thread_samples tid name timestamp (fst (drain_samples ring)) @ drained_samples timestamp events"

lemma record_perf_samples:
  "fold (record_perf tid name timestamp) ss p = fold record_sample (perf_thread_samples tid name timestamp ss) p"
  by (induction ss arbitrary: p)
     (simp_all add: perf_thread_samples_def record_perf_def record_sample_def perf_thread_sample_def Let_def)

lemma drain_events_records:
  "snd (drain_events timestamp events p) = fold record_sample (drained_samples timestamp events) p"
proof (induction events arbitrary: p)
  case (Cons x events)
  obtain tid name ring where "x = (tid, name, ring)" by (cases x)
  then show ?case using Cons by (simp add: split_beta Let_def record_perf_samples)
qed simp

definition perf_turn_samples :: "perf_turn \<Rightarrow> (u32 \<times> string \<times> perf_ring) list \<Rightarrow> thread_sample list" where
  "perf_turn_samples t events = drained_samples (pf_timestamp t) (fill_rings (pf_rings t) events)"

lemma perf_drain_stacks:
  "rp_stacks (snd (perf_drain t events p)) = rp_stacks (fold record_sample (perf_turn_samples t events) p)"
  by (simp add: perf_drain_def drain_perf_events_def split_beta Let_def drain_events_records perf_turn_samples_def)

interpretation perf: sampling_loop "perf_breaks deadline" "\<lambda>t (events, p). perf_drain t events p"
  "\<lambda>t (events, p). snd (perf_drain t events p)" "\<lambda>ts (events, p). perf_loop deadline ts events p" snd "\<lambda>p. p"
  "\<lambda>t (events, p). perf_turn_samples t events" "\<lambda>t (events, p). perf_turn_samples t events" for deadline
  by unfold_locales (auto simp: split_beta Let_def perf_drain_stacks)

text \<open>What the kernel writes into a ring between two drains: whole records, from where the last
  drain left off, around the end of the ring but not over what is unread.\<close>

definition ring_gets :: "u8 list \<times> u64 \<Rightarrow> u64 \<Rightarrow> (u32 \<times> u8 list) list \<Rightarrow> bool" where
  "ring_gets content tail rs \<longleftrightarrow> ring_holds (fst content) (unat tail) (concat (map record_bytes rs))
     \<and> unat (snd content) = unat tail + length (concat (map record_bytes rs))
     \<and> list_all (\<lambda>r. length (snd r) \<le> 65527) rs"

fun rings_get :: "(u8 list \<times> u64) list \<Rightarrow> u64 list \<Rightarrow> (u32 \<times> u8 list) list list \<Rightarrow> bool" where
  "rings_get [] [] [] = True"
| "rings_get (c # cs) (t # ts) (rs # rss) = (ring_gets c t rs \<and> rings_get cs ts rss)"
| "rings_get _ _ _ = False"

fun kernel_writes :: "u64 list \<Rightarrow> perf_turn list \<Rightarrow> (u32 \<times> u8 list) list list list \<Rightarrow> bool" where
  "kernel_writes tails [] [] = True"
| "kernel_writes tails (t # ts) (rss # rsss) =
     (rings_get (pf_rings t) tails rss \<and> kernel_writes (map snd (pf_rings t)) ts rsss)"
| "kernel_writes _ _ _ = False"

text \<open>The samples among the records written to the rings of the events, ring by ring.\<close>

fun written_samples :: "u64 \<Rightarrow> (u32 \<times> string) list \<Rightarrow> (u32 \<times> u8 list) list list \<Rightarrow> thread_sample list" where
  "written_samples timestamp ((tid, name) # events) (rs # rss) =
     perf_thread_samples tid name timestamp (List.map_filter record_sample_of rs) @ written_samples timestamp events rss"
| "written_samples timestamp _ _ = []"

definition event_threads :: "(u32 \<times> string \<times> 'a) list \<Rightarrow> (u32 \<times> string) list" where
  "event_threads events = map (\<lambda>(tid, name, _). (tid, name)) events"

definition ring_tails :: "(u32 \<times> string \<times> perf_ring) list \<Rightarrow> u64 list" where
  "ring_tails events = map (\<lambda>(_, _, r). pr_tail r) events"

lemma drain_ring_gets:
  assumes "ring_gets (data, head) (pr_tail ring) rs"
  shows "drain_samples (ring\<lparr>pr_data := data, pr_head := head\<rparr>)
    = (List.map_filter record_sample_of rs, ring\<lparr>pr_data := data, pr_head := head, pr_tail := head\<rparr>)"
  using assms ring_drained [of "ring\<lparr>pr_data := data, pr_head := head\<rparr>" rs]
  by (simp add: ring_gets_def list_all_iff)

lemma fill_rings_simps [simp]:
  "fill_rings [] events = []"
  "fill_rings ((data, head) # cs) ((tid, name, ring) # events)
    = (tid, name, ring\<lparr>pr_data := data, pr_head := head\<rparr>) # fill_rings cs events"
  by (simp_all add: fill_rings_def)

lemma ring_tails_simps [simp]:
  "ring_tails [] = []" "ring_tails ((tid, name, r) # events) = pr_tail r # ring_tails events"
  by (simp_all add: ring_tails_def)

lemma event_threads_simps [simp]:
  "event_threads [] = []" "event_threads ((tid, name, r) # events) = (tid, name) # event_threads events"
  by (simp_all add: event_threads_def)

lemma drain_turn:
  assumes "rings_get contents (ring_tails events) rss"
  shows "drained_samples timestamp (fill_rings contents events) = written_samples timestamp (event_threads events) rss
    \<and> ring_tails (fst (drain_events timestamp (fill_rings contents events) p)) = map snd contents
    \<and> event_threads (fst (drain_events timestamp (fill_rings contents events) p)) = event_threads events"
  using assms
proof (induction events arbitrary: contents rss p)
  case Nil
  then show ?case by (cases contents; cases rss) simp_all
next
  case (Cons x events)
  obtain tid name ring where x: "x = (tid, name, ring)" by (cases x)
  obtain data head cs rs rss' where c: "contents = (data, head) # cs" "rss = rs # rss'"
    using Cons.prems by (cases contents; cases rss) (auto simp: x)
  have "ring_gets (data, head) (pr_tail ring) rs" "rings_get cs (ring_tails events) rss'"
    using Cons.prems by (simp_all add: x c)
  then show ?case
    using Cons.IH drain_ring_gets by (simp add: x c split_beta Let_def)
qed

lemma perf_taken:
  assumes "kernel_writes (ring_tails events) (turns_until (perf_breaks deadline) ts) rsss"
  shows "perf.taken deadline ts (events, p) = concat (map2 (\<lambda>t. written_samples (pf_timestamp t) (event_threads events))
      (turns_until (perf_breaks deadline) ts) rsss)"
  using assms
proof (induction ts arbitrary: events p rsss)
  case (Cons t ts)
  then obtain rss rest where r: "rsss = rss # rest" "rings_get (pf_rings t) (ring_tails events) rss"
    by (cases rsss) auto
  note turn = drain_turn [OF r(2), of "pf_timestamp t" p]
  have now: "perf_turn_samples t events = written_samples (pf_timestamp t) (event_threads events) rss"
    using turn by (simp add: perf_turn_samples_def)
  show ?case
  proof (cases "perf_breaks deadline t")
    case True
    then show ?thesis using now Cons.prems by (cases rest) (simp_all add: r(1))
  next
    case False
    obtain events' p' where step: "perf_drain t events p = (events', p')" by (cases "perf_drain t events p")
    then have "ring_tails events' = map snd (pf_rings t)" "event_threads events' = event_threads events"
      using turn by (auto simp: perf_drain_def drain_perf_events_def split_beta Let_def)
    then show ?thesis
      using Cons.IH [of events' rest p'] Cons.prems now False by (simp add: r(1) step)
  qed
qed simp

lemma turn_samples_nonempty: "s \<in> set (turn_samples f t) \<Longrightarrow> ts_stack s \<noteq> []"
proof -
  have walk: "walk_loop n mem fp stack \<noteq> []" if "stack \<noteq> []" for n mem fp stack
    using walk_loop_chain [of n mem fp stack] that by auto
  assume "s \<in> set (turn_samples f t)"
  then show ?thesis
    by (auto simp: turn_samples_def sample_once_def sample_thread_def walk_frame_pointers_def
        List.map_filter_def walk split: option.splits)
qed

text \<open>The flag \<open>stop\<close> that \<open>is_stopped\<close> reads is set when a loop ends in a profile, and left as it
  was when the perf loop ends in an error.\<close>

lemma perf_error_leaves_stop:
  assumes "run_perf_sampling_loop s h deadline stop ts maps now live = Some (e, calls)"
  shows "en_stop e = (stop \<or> (\<exists>raw. en_result e = Inr raw))"
  using assms by (auto simp: run_perf_sampling_loop_def Let_def split: option.splits prod.splits if_splits)

section \<open>Properties\<close>

text \<open>C15: sampling a round of threads, and the test made when a sampler is created: every thread that was
  seized is detached once, and none is interrupted, waited for, read or detached unless it is attached;
  what stays attached at the end are exactly the seized threads of which an interrupt or a wait
  failed and whose detach the kernel refused, as ptrace(2) has it for a thread that is not stopped
  (the code does not look, and such a thread may yet stop). No two threads are known to be stopped at
  a time, registers are read of stopped threads only, and at the end none of these is still stopped.\<close>

theorem sampling_releases_threads:
  assumes "detach_works k"
  shows "held_after thread_use (trace_round k threads) {#} = Some (mset (filter (left_attached k) (map fst threads)))
    \<and> one_stopped (trace_round k threads)
    \<and> held_after thread_use (snd (sampler_new exists k pid freq)) {#}
        = Some (if exists \<and> left_attached k pid then {#pid#} else {#})
    \<and> one_stopped (snd (sampler_new exists k pid freq))"
  using trace_round_calls [OF assms, of threads] sampler_new_calls [OF assms, of exists pid freq] by blast

text \<open>Two threads, of which the second does not stop and cannot be let go.\<close>

definition demo_stuck :: tracing where
  "demo_stuck = \<lparr>tg_seize = \<lambda>_. True, tg_interrupt = \<lambda>_. True, tg_stopped = \<lambda>tid. tid = 7,
     tg_detach = \<lambda>tid. tid = 7, tg_registers = \<lambda>_. Some (4114, 0), tg_memory = \<lambda>_ _. None\<rparr>"

theorem sampling_releases_threads_witness:
  "held_after thread_use (trace_round demo_stuck [(7, ''main''), (8, ''worker'')]) {#} = Some {#8#}
    \<and> one_stopped (trace_round demo_stuck [(7, ''main''), (8, ''worker'')])
    \<and> length (trace_round demo_stuck [(7, ''main''), (8, ''worker'')]) = 9"
proof -
  have "detach_works demo_stuck" by (simp add: detach_works_def demo_stuck_def)
  moreover have "filter (left_attached demo_stuck) [7, 8] = [8]"
    by (simp add: left_attached_def demo_stuck_def)
  moreover have "length (trace_round demo_stuck [(7, ''main''), (8, ''worker'')]) = 9"
    by (simp add: trace_round_def trace_thread_def attach_thread_def drop_thread_def demo_stuck_def)
  ultimately show ?thesis
    using sampling_releases_threads [of demo_stuck "[(7, ''main''), (8, ''worker'')]"] by simp
qed

text \<open>C16: a perf session, whichever of its exits it takes, and the test made when a sampler of the own
  process is created close every descriptor and unmap every ring they acquired, each once, and
  use none before it is acquired or after it is released.\<close>

theorem perf_session_releases:
  assumes "run_perf_sampling_loop s h deadline stop ts maps now live = Some (e, calls)"
  shows "balanced descriptor_use calls \<and> balanced descriptor_use (snd (sampler_new_self perf pid tid freq))"
  using perf_loop_releases [OF assms] sampler_new_self_calls by blast

text \<open>C26: a perf session records exactly what the kernel wrote: if between two drains the kernel puts
  whole records into the rings of the events, without overwriting what is unread, the profile holds
  the samples among these records, of every turn up to the one that ends the loop and including it,
  each once, in order, under the thread it names; and \<open>stop\<close> is set.\<close>

theorem perf_session_result:
  assumes "run_perf_sampling_loop s h deadline stop ts maps now live = Some (e, calls)" and "en_result e = Inr raw"
    and "open_events (ph_perf h) (ls_freq_hz s) (selected_threads (ls_thread_filter s) (ph_names h)
        (Some (ph_sampler_tid h)) (the (ph_threads h))) = (events, first_error, opens)"
    and "kernel_writes (map (\<lambda>(_, _, e). pe_tail e) events) (turns_until (perf_breaks deadline) ts) rsss"
  shows "rp_stacks raw = rp_stacks (fold record_sample
      (concat (map2 (\<lambda>t. written_samples (pf_timestamp t) (event_threads events))
        (turns_until (perf_breaks deadline) ts) rsss)) live) \<and> en_stop e"
proof -
  obtain p where loop: "perf_loop deadline ts (event_rings events) live = (p, True)"
    and e: "e = \<lparr>en_result = Inr (finish_sampling maps now p), en_stop = True\<rparr>"
    using assms(1-3) by (auto simp: run_perf_sampling_loop_def Let_def split: option.splits prod.splits if_splits)
  have rings: "ring_tails (event_rings events) = map (\<lambda>(_, _, e). pe_tail e) events"
    "event_threads (event_rings events) = event_threads events"
    by (induction events) (auto simp: event_rings_def)
  have raw: "raw = finish_sampling maps now p" using e assms(2) by simp
  show ?thesis
    using perf.loop_records [of deadline ts "(event_rings events, live)" p] loop e
      perf_taken [of "event_rings events" deadline ts rsss live] assms(4)
    unfolding raw by (simp add: rings)
qed

text \<open>C37: draining the ring of an event that \<open>open\<close> has accepted reads nothing outside its mapping, whatever
  the mapping holds and whatever position the kernel announces: every read of a header or of a record,
  with both parts of one that wraps around, lies inside, and the drain gives the samples and the new
  tail of the ring in the data area. The data area must not be empty.\<close>

theorem ring_copies_in_mapping:
  assumes "perf_open perf tid freq = (Inr e, calls)" and "0 < pe_data_size e"
    and "length mapping = unat (pe_mapping_len e)"
  shows "event_drain e mapping head = (case drain_samples \<lparr>pr_data = event_ring e mapping, pr_head = head, pr_tail = pe_tail e\<rparr> of
    (samples, ring) \<Rightarrow> Some (samples, pr_tail ring))"
proof -
  note layout = perf_open_layout [OF assms]
  let ?tail = "if pe_data_size e < saturating_sub_u64 head (pe_tail e) then head - pe_data_size e else pe_tail e"
  have ring: "length (event_ring e mapping) = unat (pe_data_size e)"
    using layout by (auto simp: event_layout_def event_ring_def)
  have "pe_data_size e \<le> head" if "pe_data_size e < saturating_sub_u64 head (pe_tail e)"
    using that by (auto simp: word_less_nat_alt word_le_nat_alt unat_saturating_sub_u64)
  then have "saturating_sub_u64 head ?tail \<le> pe_data_size e"
    by (auto simp: saturating_sub_u64_def not_less)
  from event_drain_loop_in_mapping [OF layout this, of "[]"] show ?thesis
    by (simp add: event_drain_def drain_samples_def ring word_less_nat_alt Let_def split_beta)
qed

definition demo_answer :: perf_answer where
  "demo_answer = \<lparr>pa_fd = 5, pa_page_size = 4096, pa_mapped = True, pa_data_offset = 0, pa_data_size = 0, pa_data_tail = 0\<rparr>"

definition demo_perf_host :: perf_host where
  "demo_perf_host = \<lparr>ph_sampler_tid = 9, ph_threads = Some [9, 7], ph_names = \<lambda>_. ''worker'',
     ph_perf = \<lambda>_ _. demo_answer, ph_ioctl = \<lambda>_. (True, False)\<rparr>"

definition demo_sampler :: linux_sampler where
  "demo_sampler = \<lparr>ls_pid = 7, ls_freq_hz = 99, ls_is_self = False, ls_thread_filter = All\<rparr>"

lemma demo_perf_open:
  "perf_open (\<lambda>_ _. demo_answer) tid freq =
     (Inr \<lparr>pe_fd = 5, pe_mapping_len = 36864, pe_data_offset = 4096, pe_data_size = 32768, pe_tail = 0\<rparr>,
      [PerfOpen 5, Mmap 5 True])"
  by (simp add: perf_open_def demo_answer_def perf_data_pages_def checked_add_u64_def)

theorem perf_session_releases_witness:
  "\<exists>e calls. run_perf_sampling_loop demo_sampler demo_perf_host None False [] None 0 demo_start = Some (e, calls)
     \<and> balanced descriptor_use calls \<and> length calls = 7"
proof -
  have "selected_threads All (\<lambda>_. ''worker'') (Some 9) [9, 7] = [(7, ''worker'')]"
    by (simp add: selected_threads_def select_step_def thread_matches_filter_def)
  then obtain e calls where run: "run_perf_sampling_loop demo_sampler demo_perf_host None False [] None 0 demo_start = Some (e, calls)"
    and "length calls = 7"
    by (simp add: run_perf_sampling_loop_def demo_sampler_def demo_perf_host_def demo_perf_open perf_enable_def drop_events_def perf_drop_def)
  then show ?thesis using perf_session_releases [OF run] by auto
qed

definition demo_ring :: "u8 list" where
  "demo_ring = [2, 0, 0, 0, 0, 0, 0, 0, 0, 0, 0, 0, 9, 0, 0, 0, 0, 0, 32, 0, 16, 0, 0, 0, 0, 0, 0, 0, 1, 0, 0, 0]"

definition demo_full_host :: perf_host where
  "demo_full_host = demo_perf_host\<lparr>ph_perf := \<lambda>_ _. demo_answer\<lparr>pa_data_size := 32, pa_data_tail := 44\<rparr>,
     ph_ioctl := \<lambda>_. (True, True)\<rparr>"

definition demo_perf_turn :: "bool \<Rightarrow> perf_turn" where
  "demo_perf_turn stop = \<lparr>pf_stop = stop, pf_clock = 0, pf_rings = [(demo_ring, 76)], pf_timestamp = 6, pf_now = 8\<rparr>"

definition demo_event :: perf_event where
  "demo_event = \<lparr>pe_fd = 5, pe_mapping_len = 36864, pe_data_offset = 4096, pe_data_size = 32, pe_tail = 44\<rparr>"

lemma demo_selected: "selected_threads All (\<lambda>_. ''worker'') (Some 9) [9, 7] = [(7, ''worker'')]"
  by (simp add: selected_threads_def select_step_def thread_matches_filter_def)

lemma demo_full_open: "open_events (ph_perf demo_full_host) 99 [(7, ''worker'')]
    = ([(7, ''worker'', demo_event)], None, [PerfOpen 5, Mmap 5 True])"
  by (simp add: demo_full_host_def perf_open_def demo_answer_def perf_data_pages_def checked_add_u64_def demo_event_def)

lemma demo_full_run:
  "\<exists>e calls raw. run_perf_sampling_loop demo_sampler demo_full_host None False
     [demo_perf_turn False, demo_perf_turn True] None 9 demo_start = Some (e, calls) \<and> en_result e = Inr raw"
  using demo_full_open
  by (simp add: run_perf_sampling_loop_def demo_sampler_def demo_full_host_def demo_perf_host_def demo_selected
      perf_enable_def demo_perf_turn_def perf_breaks_def split_beta Let_def)

lemma demo_writes:
  "ring_holds demo_ring 44 (concat (map record_bytes [(9, sample_body 16 1 2 [])]))"
  "length (concat (map record_bytes [(9, sample_body 16 1 2 [])])) = 32"
  "List.map_filter record_sample_of [(9, sample_body 16 1 2 [])] = [\<lparr>ps_thread_id = 2, ps_stack = [16]\<rparr>]"
  by code_simp+

text \<open>A mapping whose data area holds one sample that wraps around its end.\<close>

theorem ring_copies_in_mapping_witness:
  "event_drain demo_event (replicate 4096 0 @ demo_ring @ replicate 32736 0) 76 = Some ([\<lparr>ps_thread_id = 2, ps_stack = [16]\<rparr>], 76)"
proof -
  let ?mapping = "replicate 4096 0 @ demo_ring @ replicate 32736 0"
  have opened: "perf_open (\<lambda>_ _. demo_answer\<lparr>pa_data_size := 32, pa_data_tail := 44\<rparr>) 7 99 = (Inr demo_event, [PerfOpen 5, Mmap 5 True])"
    by (simp add: perf_open_def demo_answer_def perf_data_pages_def checked_add_u64_def demo_event_def)
  have "length demo_ring = 32" by (simp add: demo_ring_def)
  then have lengths: "0 < pe_data_size demo_event" "length ?mapping = unat (pe_mapping_len demo_event)"
    and ring: "event_ring demo_event ?mapping = demo_ring"
    by (simp_all add: demo_event_def event_ring_def)
  have "drain_samples \<lparr>pr_data = demo_ring, pr_head = 76, pr_tail = 44\<rparr>
      = (List.map_filter record_sample_of [(9, sample_body 16 1 2 [])], \<lparr>pr_data = demo_ring, pr_head = 76, pr_tail = 76\<rparr>)"
    using demo_writes(1,2) by (subst ring_drained [where rs = "[(9, sample_body 16 1 2 [])]"]) simp_all
  then have "drain_samples \<lparr>pr_data = demo_ring, pr_head = 76, pr_tail = pe_tail demo_event\<rparr>
      = ([\<lparr>ps_thread_id = 2, ps_stack = [16]\<rparr>], \<lparr>pr_data = demo_ring, pr_head = 76, pr_tail = 76\<rparr>)"
    unfolding demo_writes(3) by (simp add: demo_event_def)
  then show ?thesis using ring_copies_in_mapping [OF opened lengths, of 76] by (simp add: ring)
qed

theorem perf_session_result_witness:
  "\<exists>e calls raw. run_perf_sampling_loop demo_sampler demo_full_host None False
       [demo_perf_turn False, demo_perf_turn True] None 9 demo_start = Some (e, calls)
     \<and> en_result e = Inr raw \<and> rp_stacks raw = [((2, [16]), push_timestamp 6 (series_timed []))]"
proof -
  obtain e calls raw where run: "run_perf_sampling_loop demo_sampler demo_full_host None False
      [demo_perf_turn False, demo_perf_turn True] None 9 demo_start = Some (e, calls)" "en_result e = Inr raw"
    using demo_full_run by blast
  let ?rs = "[(9, sample_body 16 1 2 [])]"
  have turns: "turns_until (perf_breaks None) [demo_perf_turn False, demo_perf_turn True]
      = [demo_perf_turn False, demo_perf_turn True]"
    by (simp add: perf_breaks_def demo_perf_turn_def)
  have "length (sample_body 16 1 2 []) = 24" using demo_writes(2) by simp
  then have "ring_gets (demo_ring, 76) 44 ?rs" "ring_gets (demo_ring, 76) 76 []"
    using demo_writes(1,2) by (simp_all add: ring_gets_def ring_holds_def)
  then have writes: "kernel_writes [44] [demo_perf_turn False, demo_perf_turn True] [[?rs], [[]]]"
    by (simp add: demo_perf_turn_def)
  have sel: "open_events (ph_perf demo_full_host) (ls_freq_hz demo_sampler) (selected_threads (ls_thread_filter demo_sampler)
      (ph_names demo_full_host) (Some (ph_sampler_tid demo_full_host)) (the (ph_threads demo_full_host)))
    = ([(7, ''worker'', demo_event)], None, [PerfOpen 5, Mmap 5 True])"
    using demo_full_open demo_selected by (simp add: demo_sampler_def demo_full_host_def demo_perf_host_def)
  have samples: "written_samples 6 [(7, ''worker'')] [?rs] =
      [\<lparr>ts_thread_id = 2, ts_thread_name = ''worker'', ts_stack = [16], ts_timestamp_nanos = 6\<rparr>]"
    using demo_writes(3) by (simp add: perf_thread_samples_def perf_thread_sample_def)
  have "written_samples 6 [(7, ''worker'')] [[]] = []"
    by (simp add: perf_thread_samples_def List.map_filter_def)
  then have "rp_stacks raw = [((2, [16]), push_timestamp 6 (series_timed []))]"
    using perf_session_result [OF run sel, of "[[?rs], [[]]]"] writes samples
    by (simp add: perf_breaks_def demo_event_def demo_perf_turn_def demo_start_def record_sample_def)
  then show ?thesis using run by blast
qed

end
