(* ===== verification/Session.thy ===== *)
theory Session
  imports Linux_Session Symbolicated Encode
begin

text \<open>
  A profiling session from the builder to the profile: the settings of \<open>src/builder.rs\<close>, the handles
  of \<open>src/handle.rs\<close> and the sessions of \<open>src/profile.rs\<close>, on the Linux sampler.

  A spawned child is its process id. A session's thread is the result its loop returns; a lock that
  is never poisoned is transparent. The clock readings of \<open>start\<close> are separate parameters, in nanoseconds;
  an \<open>Instant\<close> holds less than 2^63 seconds.
\<close>

section \<open>The builder\<close>

record builder =
  bd_freq_hz :: u32
  bd_thread_filter :: thread_filter
  bd_duration :: "nat option"
  bd_symbolizer :: "symbolizer option"
  bd_unresolved :: unresolved

definition builder_new :: builder where
  "builder_new = \<lparr>bd_freq_hz = 99, bd_thread_filter = All, bd_duration = None, bd_symbolizer = None,
     bd_unresolved = Hex\<rparr>"

definition set_freq :: "u32 \<Rightarrow> builder \<Rightarrow> builder" where
  "set_freq hz b = b\<lparr>bd_freq_hz := hz\<rparr>"

definition set_duration :: "nat \<Rightarrow> builder \<Rightarrow> builder" where
  "set_duration d b = b\<lparr>bd_duration := Some d\<rparr>"

definition set_thread_name :: "string \<Rightarrow> builder \<Rightarrow> builder" where
  "set_thread_name name b = b\<lparr>bd_thread_filter := ByName name\<rparr>"

definition set_main_thread :: "builder \<Rightarrow> builder" where
  "set_main_thread b = b\<lparr>bd_thread_filter := MainThread\<rparr>"

definition set_thread_id :: "u64 \<Rightarrow> builder \<Rightarrow> builder" where
  "set_thread_id i b = b\<lparr>bd_thread_filter := ById i\<rparr>"

definition set_thread_mach_port :: "u32 \<Rightarrow> builder \<Rightarrow> builder" where
  "set_thread_mach_port port b = b\<lparr>bd_thread_filter := ByMachThread port\<rparr>"

definition set_symbolizer :: "symbolizer \<Rightarrow> builder \<Rightarrow> builder" where
  "set_symbolizer s b = b\<lparr>bd_symbolizer := Some s\<rparr>"

definition set_unresolved :: "unresolved \<Rightarrow> builder \<Rightarrow> builder" where
  "set_unresolved m b = b\<lparr>bd_unresolved := m\<rparr>"

section \<open>Handles\<close>

datatype target = SpawnTarget u32 | AttachTarget u32 | CurrentTarget

record handle =
  hd_sampler :: linux_sampler
  hd_freq_hz :: u32
  hd_duration :: "nat option"
  hd_symbolizer :: "symbolizer option"
  hd_unresolved :: unresolved
  hd_inner :: target

text \<open>What \<open>spawn\<close>, \<open>attach\<close> and \<open>current\<close> share: the sampler gets the filter, the handle the rest.\<close>

definition handle_of :: "builder \<Rightarrow> linux_sampler \<Rightarrow> target \<Rightarrow> handle" where
  "handle_of b s inner =
     \<lparr>hd_sampler = s\<lparr>ls_thread_filter := bd_thread_filter b\<rparr>, hd_freq_hz = bd_freq_hz b,
      hd_duration = bd_duration b, hd_symbolizer = bd_symbolizer b, hd_unresolved = bd_unresolved b,
      hd_inner = inner\<rparr>"

definition builder_spawn :: "u32 option \<Rightarrow> bool \<Rightarrow> tracing \<Rightarrow> builder \<Rightarrow> session_error + handle" where
  "builder_spawn spawned exists k b =
     bindr (fst (sampler_spawn spawned exists k (bd_freq_hz b))) (\<lambda>(pid, s). Inr (handle_of b s (SpawnTarget pid)))"

definition builder_attach :: "bool \<Rightarrow> tracing \<Rightarrow> u32 \<Rightarrow> builder \<Rightarrow> session_error + handle" where
  "builder_attach exists k pid b =
     bindr (fst (sampler_new exists k pid (bd_freq_hz b))) (\<lambda>s. Inr (handle_of b s (AttachTarget pid)))"

definition builder_current :: "(perf_attr \<Rightarrow> u32 \<Rightarrow> perf_answer) \<Rightarrow> u32 \<Rightarrow> u32 \<Rightarrow> builder
    \<Rightarrow> session_error + handle" where
  "builder_current perf pid tid b =
     bindr (fst (sampler_new_self perf pid tid (bd_freq_hz b))) (\<lambda>s. Inr (handle_of b s CurrentTarget))"

definition handle_pid :: "u32 \<Rightarrow> handle \<Rightarrow> u32" where
  "handle_pid me h = (case hd_inner h of SpawnTarget pid \<Rightarrow> pid | AttachTarget pid \<Rightarrow> pid | CurrentTarget \<Rightarrow> me)"

text \<open>\<open>wait\<close>: the exit status of the child, if there is one.\<close>

definition handle_wait :: "(u32 \<Rightarrow> 'status) \<Rightarrow> handle \<Rightarrow> 'status option" where
  "handle_wait waited h = (case hd_inner h of SpawnTarget pid \<Rightarrow> Some (waited pid) | _ \<Rightarrow> None)"

text \<open>Dropping a handle kills and reaps a spawned child, and nothing else.\<close>

definition handle_drop :: "handle \<Rightarrow> u32 list" where
  "handle_drop h = (case hd_inner h of SpawnTarget pid \<Rightarrow> [pid] | _ \<Rightarrow> [])"

section \<open>Sessions\<close>

text \<open>\<open>Profile\<close>. The sampling thread is the result it will have when joined, \<^const>\<open>None\<close> while it
  runs; its loop reads \<open>stop\<close>.\<close>

record sampling_session =
  sn_freq_hz :: u32
  sn_start_wall :: int
  sn_symbolizer :: "symbolizer option"
  sn_unresolved :: unresolved
  sn_deadline :: "nat option"
  sn_check :: bool
  sn_stop :: bool
  sn_live :: raw_profile

text \<open>\<open>Instant::now() + d\<close>: an \<open>Instant\<close> counts its seconds in an \<open>i64\<close>, and the addition panics when
  they overflow. Readings of the clock and durations are in nanoseconds.\<close>

definition instant_add :: "nat \<Rightarrow> nat \<Rightarrow> nat result" where
  "instant_add now d = (if now + d < 2 ^ 63 * 1000000000 then Inr (now + d) else Inl Panic)"

definition start_deadline :: "nat \<Rightarrow> nat option \<Rightarrow> nat option result" where
  "start_deadline now duration =
     (case duration of None \<Rightarrow> Inr None | Some d \<Rightarrow> bindr (instant_add now d) (\<lambda>t. Inr (Some t)))"

definition handle_start :: "int \<Rightarrow> nat \<Rightarrow> nat \<Rightarrow> nat \<Rightarrow> u8 list option \<Rightarrow> handle
    \<Rightarrow> (sampling_session \<times> handle) result" where
  "handle_start wall at_deadline at_start at_end maps h =
     bindr (start_deadline at_deadline (hd_duration h)) (\<lambda>deadline.
       let live = \<lparr>rp_stacks = [], rp_thread_names = [], rp_start_time = at_start, rp_end_time = at_end,
         rp_images = (case read_images maps of None \<Rightarrow> [] | Some is \<Rightarrow> is)\<rparr> in
       Inr (\<lparr>sn_freq_hz = hd_freq_hz h, sn_start_wall = wall, sn_symbolizer = hd_symbolizer h,
         sn_unresolved = hd_unresolved h, sn_deadline = deadline,
         sn_check = (case hd_inner h of CurrentTarget \<Rightarrow> False | _ \<Rightarrow> True), sn_stop = False, sn_live = live\<rparr>,
        h\<lparr>hd_symbolizer := None\<rparr>))"

definition snapshot_raw :: "sampling_session \<Rightarrow> raw_profile" where
  "snapshot_raw sn = sn_live sn"

definition signal_stop :: "sampling_session \<Rightarrow> sampling_session" where
  "signal_stop sn = sn\<lparr>sn_stop := True\<rparr>"

definition is_stopped :: "sampling_session \<Rightarrow> bool" where
  "is_stopped sn = sn_stop sn"

text \<open>The thread: the loop of the sampler, on what it observes.\<close>

record session_host =
  ho_perf :: perf_host
  ho_ptrace_turns :: "ptrace_turn list"
  ho_perf_turns :: "perf_turn list"
  ho_maps :: "u8 list option"
  ho_now :: nat

definition run_sampling_loop :: "linux_sampler \<Rightarrow> session_host \<Rightarrow> sampling_session \<Rightarrow> loop_end option" where
  "run_sampling_loop s ho sn =
     (if ls_is_self s then
        map_option fst (run_perf_sampling_loop s (ho_perf ho) (sn_deadline sn) (sn_stop sn) (ho_perf_turns ho)
          (ho_maps ho) (ho_now ho) (sn_live sn))
      else run_ptrace_sampling_loop s (sn_check sn) (sn_deadline sn) (sn_stop sn) (ho_ptrace_turns ho)
        (ho_maps ho) (ho_now ho) (sn_live sn))"

text \<open>\<open>Profile::stop\<close>, once the thread has been joined with the result \<open>joined\<close>.\<close>

definition session_symbolizer :: "demangler \<Rightarrow> disk \<Rightarrow> architecture \<Rightarrow> sampling_session \<Rightarrow> raw_profile \<Rightarrow> symbolizer" where
  "session_symbolizer demangle disk native sn raw =
     (let unique_addrs = all_addresses raw;
          nat_sym = native_symbolize (native_new demangle disk native (rp_images raw) unique_addrs) in
      case sn_symbolizer sn of
        Some custom \<Rightarrow> chain_symbolize [custom, nat_sym]
      | None \<Rightarrow> nat_sym)"

definition session_stop :: "demangler \<Rightarrow> disk \<Rightarrow> architecture \<Rightarrow> session_error + raw_profile \<Rightarrow> sampling_session
    \<Rightarrow> session_error + symbolicated_profile" where
  "session_stop demangle disk native joined sn =
     bindr joined (\<lambda>raw.
       Inr (from_raw_with_symbolizer raw (session_symbolizer demangle disk native sn raw)
         (sn_unresolved sn) (sn_freq_hz sn) (sn_start_wall sn)))"

definition session_stop_unsymbolicated :: "session_error + raw_profile \<Rightarrow> sampling_session
    \<Rightarrow> session_error + symbolicated_profile" where
  "session_stop_unsymbolicated joined sn =
     bindr joined (\<lambda>raw.
       Inr (from_raw_with_symbolizer raw (\<lambda>_. None) Hex (sn_freq_hz sn) (sn_start_wall sn)))"

text \<open>\<open>ProfilerBuilder::profile\<close> on Linux, with what the closure returned: \<^const>\<open>None\<close> while the
  sampling thread it joins has not ended, and \<^const>\<open>Panic\<close> when starting the session panics.\<close>

definition builder_profile :: "(perf_attr \<Rightarrow> u32 \<Rightarrow> perf_answer) \<Rightarrow> u32 \<Rightarrow> u32 \<Rightarrow> int \<Rightarrow> nat \<Rightarrow> nat \<Rightarrow> nat
    \<Rightarrow> u8 list option \<Rightarrow> session_host \<Rightarrow> demangler \<Rightarrow> disk \<Rightarrow> architecture \<Rightarrow> 'r \<Rightarrow> builder
    \<Rightarrow> (session_error + 'r \<times> symbolicated_profile) result option" where
  "builder_profile perf pid calling_thread wall at_deadline at_start at_end maps ho demangle disk native result b =
     (case builder_current perf pid calling_thread (set_thread_id (ucast calling_thread) b) of
        Inl e \<Rightarrow> Some (Inr (Inl e))
      | Inr h \<Rightarrow>
          (case handle_start wall at_deadline at_start at_end maps h of
             Inl panic \<Rightarrow> Some (Inl panic)
           | Inr (sn, h) \<Rightarrow>
               map_option
                 (\<lambda>e. Inr (bindr (session_stop demangle disk native (en_result e) (signal_stop sn))
                   (\<lambda>data. Inr (result, data))))
                 (run_sampling_loop (hd_sampler h) ho sn)))"

section \<open>From the samples to the profile\<close>

lemma session_symbolizer_eq:
  assumes "a \<in> set (all_addresses raw)"
  shows "session_symbolizer demangle disk native sn raw a =
    chain_symbolize ((case sn_symbolizer sn of None \<Rightarrow> [] | Some c \<Rightarrow> [c])
      @ [resolve_address demangle disk native (rp_images raw)]) a"
  using assms
  by (auto simp: session_symbolizer_def Let_def native_new_def resolve_all_lookup split: option.splits)

text \<open>The samples of one thread and stack.\<close>

definition samples_at :: "stack_key \<Rightarrow> symbolicated_profile \<Rightarrow> sym_sample list" where
  "samples_at k p = filter (\<lambda>s. (ss_thread_id s, ss_stack s) = k) (sp_samples p)"

lemma series_samples_at:
  assumes "snd k \<noteq> []"
  shows "filter (\<lambda>s. (ss_thread_id s, ss_stack s) = k) (samples_of_series {} (k', series)) =
    (if k' = k then samples_of_series {} (k', series) else [])"
proof -
  have "(ss_thread_id s, ss_stack s) = k'" if "s \<in> set (samples_of_series {} (k', series))" for s
    using that samples_of_series_stack [of s "{}" "fst k'" "snd k'" series] by (cases k') auto
  then show ?thesis by (auto simp: filter_id_conv filter_empty_conv)
qed

lemma stacks_samples_at:
  assumes "distinct (map fst stacks)" and "snd k \<noteq> []"
    and "\<And>k series. (k, series) \<in> set stacks \<Longrightarrow> rs_timestamps series \<noteq> None"
  shows "map (\<lambda>s. (ss_count s, ss_timestamp s))
      (filter (\<lambda>s. (ss_thread_id s, ss_stack s) = k) (concat (map (samples_of_series {}) stacks)))
    = map (\<lambda>t. (1, Some t)) (times_of stacks k)"
  using assms
proof (induction stacks)
  case Nil
  show ?case by (simp add: times_of_def)
next
  case (Cons e stacks)
  obtain k' series where e: "e = (k', series)" by (cases e)
  obtain ts where ts: "rs_timestamps series = Some ts" using Cons.prems(3) [of k' series] by (auto simp: e)
  have IH: "map (\<lambda>s. (ss_count s, ss_timestamp s))
      (filter (\<lambda>s. (ss_thread_id s, ss_stack s) = k) (concat (map (samples_of_series {}) stacks)))
    = map (\<lambda>t. (1, Some t)) (times_of stacks k)"
    using Cons.prems by (intro Cons.IH) auto
  show ?case
  proof (cases "k' = k")
    case True
    then have "map_of stacks k = None" using Cons.prems(1) by (auto simp: e map_of_eq_None_iff)
    moreover have "map (\<lambda>s. (ss_count s, ss_timestamp s)) (samples_of_series {} (k', series)) = map (\<lambda>t. (1, Some t)) ts"
      using ts assms(2) True by (cases k) (simp add: samples_of_series_def comp_def)
    ultimately show ?thesis
      using IH series_samples_at [OF assms(2), of k' series] True ts by (simp add: e times_of_def)
  next
    case False
    then show ?thesis using IH series_samples_at [OF assms(2), of k' series] by (simp add: e times_of_def)
  qed
qed

lemma hex_skips_nothing:
  "sp_samples (from_raw_with_symbolizer raw smb Hex freq wall) = concat (map (samples_of_series {}) (rp_stacks raw))"
proof -
  have none: "{a \<in> set (all_addresses raw). frame_of smb Hex a = None} = {}"
    by (simp add: frame_of_def split: option.split)
  show ?thesis by (simp add: none from_raw_with_symbolizer_def symbolize_addresses_eq)
qed

lemma session_samples_nonempty: "t \<in> set (session_samples f check deadline ts) \<Longrightarrow> ts_stack t \<noteq> []"
  by (auto simp: session_samples_def dest: set_takeWhileD turn_samples_nonempty)

lemma session_profile:
  assumes "run_ptrace_sampling_loop s check deadline stop ts maps now live = Some e" and "en_result e = Inr raw"
    and "rp_stacks live = []" and "length (session_samples (ls_thread_filter s) check deadline ts) < 2 ^ 64"
  shows "map (\<lambda>s. (ss_count s, ss_timestamp s)) (samples_at k (from_raw_with_symbolizer raw smb Hex freq wall))
    = map (\<lambda>t. (1, Some t)) (observed k (session_samples (ls_thread_filter s) check deadline ts))"
proof (cases "snd k = []")
  case True
  then have "samples_at k (from_raw_with_symbolizer raw smb Hex freq wall) = []"
    by (auto simp: samples_at_def hex_skips_nothing filter_empty_conv dest: samples_nonempty)
  moreover have "observed k (session_samples (ls_thread_filter s) check deadline ts) = []"
    using True by (auto simp: observed_def filter_empty_conv dest: session_samples_nonempty)
  ultimately show ?thesis by simp
next
  case False
  let ?ss = "session_samples (ls_thread_filter s) check deadline ts"
  have stacks: "rp_stacks raw = rp_stacks (fold record_sample ?ss live)"
    using ptrace_session [OF assms(1,2)] by simp
  have live: "timed_ok live" "times_of (rp_stacks live) k' = []" for k'
    using assms(3) by (simp_all add: timed_ok_def raw_ok_def times_of_def)
  have times: "times_of (rp_stacks raw) k' = observed k' ?ss" for k'
    unfolding stacks record_times live(2) by simp
  have short: "length (observed k' ?ss) \<le> length ?ss" for k' by (simp add: observed_def)
  have "length (times_of (rp_stacks (fold record_sample ?ss live)) k') < 2 ^ 64" for k'
    using times [unfolded stacks] le_less_trans [OF short assms(4)] by simp
  then have "timed_ok (fold record_sample ?ss live)" by (rule record_timed [OF live(1)])
  then have ok: "timed_ok raw" using timed_ok_stacks [OF stacks] by simp
  have "map (\<lambda>s. (ss_count s, ss_timestamp s)) (samples_at k (from_raw_with_symbolizer raw smb Hex freq wall))
      = map (\<lambda>t. (1, Some t)) (times_of (rp_stacks raw) k)"
    unfolding samples_at_def hex_skips_nothing
    by (rule stacks_samples_at [OF _ False]) (use ok in \<open>force simp: timed_ok_def raw_ok_def list_all_iff\<close>)+
  then show ?thesis unfolding times .
qed

text \<open>A session of a started handle, its frames and its samples.\<close>

lemma started_session:
  assumes "handle_start wall t0 t1 t2 maps h = Inr (sn, h')"
  shows "rp_stacks (sn_live sn) = []" and "sn_symbolizer sn = hd_symbolizer h" and "hd_symbolizer h' = None"
    and "sn_unresolved sn = hd_unresolved h" and "sn_freq_hz sn = hd_freq_hz h" and "sn_start_wall sn = wall"
    and "hd_sampler h' = hd_sampler h" and "hd_inner h' = hd_inner h"
  using assms by (auto simp: handle_start_def Let_def bindr_Inr_iff)

lemma second_start_is_native:
  assumes "handle_start wall t0 t1 t2 maps h = Inr (sn, h')" and "handle_start wall' t0' t1' t2' maps' h' = Inr (sn', h'')"
  shows "session_symbolizer demangle disk native sn' raw = native_symbolize (native_new demangle disk native (rp_images raw) (all_addresses raw))"
  using started_session [OF assms(1)] started_session [OF assms(2)] by (simp add: session_symbolizer_def Let_def)

lemma stop_frames:
  assumes "session_stop demangle disk native (Inr raw) sn = Inr p" and "a \<in> set (all_addresses raw)"
  shows "sp_frames p a = frame_of (chain_symbolize ((case sn_symbolizer sn of None \<Rightarrow> [] | Some c \<Rightarrow> [c])
      @ [resolve_address demangle disk native (rp_images raw)])) (sn_unresolved sn) a"
proof -
  have "sp_frames p a = frame_of (session_symbolizer demangle disk native sn raw) (sn_unresolved sn) a"
    using assms by (auto simp: session_stop_def from_raw_with_symbolizer_def symbolize_addresses_eq)
  then show ?thesis unfolding frame_of_def session_symbolizer_eq [OF assms(2)] .
qed

lemma delivered_samples:
  assumes "handle_start wall t0 t1 t2 maps h = Inr (sn, h')" and "\<not> ls_is_self (hd_sampler h)"
    and "run_sampling_loop (hd_sampler h) ho sn = Some e" and "en_result e = Inr raw"
    and "length (session_samples (ls_thread_filter (hd_sampler h)) (sn_check sn) (sn_deadline sn) (ho_ptrace_turns ho)) < 2 ^ 64"
  shows "map (\<lambda>s. (ss_count s, ss_timestamp s)) (samples_at k (from_raw_with_symbolizer raw smb Hex freq wall'))
    = map (\<lambda>t. (1, Some t)) (observed k (session_samples (ls_thread_filter (hd_sampler h)) (sn_check sn)
        (sn_deadline sn) (ho_ptrace_turns ho)))"
  by (rule session_profile [OF _ assms(4) started_session(1) [OF assms(1)] assms(5)])
    (use assms(2,3) in \<open>simp add: run_sampling_loop_def\<close>)

section \<open>Properties\<close>

text \<open>a session on another process delivers what was sampled: when the sampling loop has ended and
  the session is stopped with unresolved addresses kept, the samples of the profile for a thread and
  a stack are one for each time that the rounds of the loop saw it, with its timestamp, in order,
  up to the turn at which the stop flag, the deadline or the end of the process was seen.\<close>

theorem session_delivers_samples:
  assumes "handle_start wall t0 t1 t2 maps h = Inr (sn, h')" and "\<not> ls_is_self (hd_sampler h)"
    and "run_sampling_loop (hd_sampler h) ho sn = Some e"
    and "session_stop demangle disk native (en_result e) sn = Inr p" and "hd_unresolved h = Hex"
    and "length (session_samples (ls_thread_filter (hd_sampler h)) (sn_check sn) (sn_deadline sn) (ho_ptrace_turns ho)) < 2 ^ 64"
  shows "map (\<lambda>s. (ss_count s, ss_timestamp s)) (samples_at k p)
    = map (\<lambda>t. (1, Some t)) (observed k (session_samples (ls_thread_filter (hd_sampler h)) (sn_check sn)
        (sn_deadline sn) (ho_ptrace_turns ho)))"
proof -
  obtain raw where raw: "en_result e = Inr raw"
    and p: "p = from_raw_with_symbolizer raw (session_symbolizer demangle disk native sn raw) Hex (sn_freq_hz sn) (sn_start_wall sn)"
    using assms(4,5) started_session(4) [OF assms(1)] by (cases "en_result e") (auto simp: session_stop_def)
  show ?thesis unfolding p by (rule delivered_samples [OF assms(1-3) raw assms(6)])
qed

text \<open>C19: the frames of a stopped session: each sampled address is asked of the custom symbolizer of
  the handle first and then of the images, and the table \<open>NativeSymbolizer\<close> builds ahead answers as
  resolving that single address would; a second session has no custom symbolizer.\<close>

theorem session_symbolizes:
  assumes "handle_start wall t0 t1 t2 maps h = Inr (sn, h')" and "handle_start wall' t0' t1' t2' maps' h' = Inr (sn', h'')"
    and "session_stop demangle disk native (Inr raw) sn = Inr p"
    and "session_stop demangle disk native (Inr raw') sn' = Inr p'"
    and "a \<in> set (all_addresses raw)" and "a' \<in> set (all_addresses raw')"
  shows "sp_frames p a = frame_of (chain_symbolize ((case hd_symbolizer h of None \<Rightarrow> [] | Some c \<Rightarrow> [c])
      @ [resolve_address demangle disk native (rp_images raw)])) (hd_unresolved h) a
    \<and> sp_frames p' a' = frame_of (resolve_address demangle disk native (rp_images raw')) (hd_unresolved h) a'"
proof -
  note first = started_session [OF assms(1)] and second = started_session [OF assms(2)]
  have "hd_unresolved h' = hd_unresolved h" using assms(1) by (auto simp: handle_start_def Let_def bindr_Inr_iff)
  then show ?thesis
    using stop_frames [OF assms(3,5)] stop_frames [OF assms(4,6)] first second
    by (simp add: frame_of_def split: option.splits)
qed

definition demo_ptrace_turn :: "bool \<Rightarrow> u64 \<Rightarrow> ptrace_turn" where
  "demo_ptrace_turn stops taken = \<lparr>pt_stop = stops, pt_child_exited = False, pt_clock = 0, pt_refresh = True,
     pt_maps = None, pt_threads = Some [7], pt_names = \<lambda>_. ''worker'',
     pt_tracing = \<lparr>tg_seize = \<lambda>_. True, tg_interrupt = \<lambda>_. True, tg_stopped = \<lambda>_. True, tg_detach = \<lambda>_. True,
       tg_registers = \<lambda>_. Some (4114, 0), tg_memory = \<lambda>_ _. None\<rparr>,
     pt_sampled = \<lambda>_. taken, pt_now = 0\<rparr>"

definition demo_handle :: handle where
  "demo_handle = \<lparr>hd_sampler = demo_sampler, hd_freq_hz = 99, hd_duration = None,
     hd_symbolizer = Some Map.empty, hd_unresolved = Hex, hd_inner = AttachTarget 7\<rparr>"

definition demo_session_host :: session_host where
  "demo_session_host = \<lparr>ho_perf = demo_perf_host,
     ho_ptrace_turns = [demo_ptrace_turn False 5, demo_ptrace_turn False 9, demo_ptrace_turn True 11], ho_perf_turns = [],
     ho_maps = None, ho_now = 20\<rparr>"

lemma walk_loop_zero: "walk_loop n mem 0 stack = stack"
  by (cases n) simp_all

lemma demo_ptrace_turn_samples:
  "turn_samples All (demo_ptrace_turn stops taken) =
     [\<lparr>ts_thread_id = 7, ts_thread_name = ''worker'', ts_stack = [4114], ts_timestamp_nanos = taken\<rparr>]"
  by (simp add: turn_samples_def demo_ptrace_turn_def sample_once_def selected_threads_def select_step_def
      thread_matches_filter_def attached_registers_def attach_thread_def sample_thread_def
      walk_frame_pointers_def walk_loop_zero List.map_filter_def)

theorem session_delivers_samples_witness:
  "\<exists>sn h' e p. handle_start 0 0 0 0 None demo_handle = Inr (sn, h')
     \<and> run_sampling_loop demo_sampler demo_session_host sn = Some e
     \<and> session_stop (\<lambda>s. s) demo_disk X86_64 (en_result e) sn = Inr p
     \<and> map (\<lambda>s. (ss_count s, ss_timestamp s)) (samples_at (7, [4114]) p) = [(1, Some 5), (1, Some 9)]"
proof -
  obtain sn h' where start: "handle_start 0 0 0 0 None demo_handle = Inr (sn, h')"
    and sn: "sn_check sn" "sn_deadline sn = None" "\<not> sn_stop sn"
    by (simp add: handle_start_def start_deadline_def demo_handle_def Let_def)
  have breaks: "ptrace_breaks c None (demo_ptrace_turn stops taken) = stops" for c stops taken
    by (simp add: ptrace_breaks_def demo_ptrace_turn_def)
  obtain e where run: "run_sampling_loop (hd_sampler demo_handle) demo_session_host sn = Some e" and "isl (en_result e) = False"
    by (simp add: run_sampling_loop_def demo_handle_def demo_sampler_def demo_session_host_def
        run_ptrace_sampling_loop_def sn breaks split_beta)
  then obtain p where stop: "session_stop (\<lambda>s. s) demo_disk X86_64 (en_result e) sn = Inr p"
    by (cases "en_result e") (auto simp: session_stop_def)
  have samples: "session_samples (ls_thread_filter (hd_sampler demo_handle)) (sn_check sn) (sn_deadline sn) (ho_ptrace_turns demo_session_host)
    = [\<lparr>ts_thread_id = 7, ts_thread_name = ''worker'', ts_stack = [4114], ts_timestamp_nanos = 5\<rparr>,
       \<lparr>ts_thread_id = 7, ts_thread_name = ''worker'', ts_stack = [4114], ts_timestamp_nanos = 9\<rparr>]"
    by (simp add: session_samples_def demo_handle_def demo_sampler_def demo_session_host_def sn breaks demo_ptrace_turn_samples)
  have "map (\<lambda>s. (ss_count s, ss_timestamp s)) (samples_at (7, [4114]) p) = [(1, Some 5), (1, Some 9)]"
    using session_delivers_samples [OF start _ run stop, where k = "(7, [4114])"] unfolding samples
    by (simp add: demo_handle_def demo_sampler_def observed_def)
  moreover have "hd_sampler demo_handle = demo_sampler" by (simp add: demo_handle_def)
  ultimately show ?thesis using start run stop by auto
qed

theorem session_symbolizes_witness:
  "\<exists>sn h' sn' h'' p p'. handle_start 0 0 0 0 None demo_handle = Inr (sn, h') \<and> handle_start 1 1 1 1 None h' = Inr (sn', h'')
     \<and> session_stop (\<lambda>s. s) demo_disk X86_64 (Inr (demo_raw [5])) sn = Inr p
     \<and> session_stop (\<lambda>s. s) demo_disk X86_64 (Inr (demo_raw [6])) sn' = Inr p'
     \<and> map_option sf_function (sp_frames p 16) = Some (hex_name 16) \<and> sp_frames p' 16 \<noteq> None"
proof -
  obtain sn h' sn' h'' where start: "handle_start 0 0 0 0 None demo_handle = Inr (sn, h')" "handle_start 1 1 1 1 None h' = Inr (sn', h'')"
    by (simp add: handle_start_def start_deadline_def demo_handle_def Let_def)
  obtain p p' where stop: "session_stop (\<lambda>s. s) demo_disk X86_64 (Inr (demo_raw [5])) sn = Inr p"
    "session_stop (\<lambda>s. s) demo_disk X86_64 (Inr (demo_raw [6])) sn' = Inr p'"
    by (simp add: session_stop_def)
  have "16 \<in> set (all_addresses (demo_raw [5]))" "16 \<in> set (all_addresses (demo_raw [6]))"
    by (simp_all add: all_addresses_def demo_raw_def)
  moreover have "resolve_address (\<lambda>s. s) demo_disk X86_64 [] 16 = None"
    by (simp add: resolve_address_def open_images_def image_index_def partition_point_def Let_def)
  ultimately
  have "map_option sf_function (sp_frames p 16) = Some (hex_name 16) \<and> sp_frames p' 16 \<noteq> None"
    using session_symbolizes [OF start stop] by (simp add: demo_handle_def frame_of_def demo_raw_def)
  then show ?thesis using start stop by blast
qed

end
