(* ===== verification/Macos_Sampler.thy ===== *)
theory Macos_Sampler
  imports Linux_Session Symbolize
begin

text \<open>
  The macOS sampler (\<open>src/sampler/macos.rs\<close>): reading the memory of the target, walking frame
  pointers, one round over the threads, the images that dyld lists, and the sampling loop.

  The answers of the Mach calls are parameters. \<open>mach_vm_read_overwrite\<close> is a function of the
  address and the size that answers whether it succeeded and the bytes it wrote. The calls that
  suspend a thread or acquire or release a port are recorded in a trace. Both targets are
  little-endian. Address arithmetic wraps, as in a release build.
\<close>

section \<open>Memory of the target\<close>

type_synonym task_memory = "u64 \<Rightarrow> nat \<Rightarrow> bool \<times> u8 list"

datatype mach_error = MachFailed | ShortRead nat nat | NotStarted | ReadingDyldInfos mach_error

definition strip_pac :: "architecture \<Rightarrow> u64 \<Rightarrow> u64" where
  "strip_pac arch addr = (if arch = Aarch64 then addr AND 0x7FFFFFFFFF else addr)"

definition read_target_mem :: "task_memory \<Rightarrow> u64 \<Rightarrow> nat \<Rightarrow> mach_error + u8 list" where
  "read_target_mem mem addr len =
     (let (success, bytes) = mem addr len in
      if \<not> success then Inl MachFailed
      else if length bytes \<noteq> len then Inl (ShortRead len (length bytes))
      else Inr bytes)"

text \<open>The loop of \<open>read_target_cstr\<close>, 256 bytes at a time.\<close>

function cstr_loop :: "task_memory \<Rightarrow> u64 \<Rightarrow> nat \<Rightarrow> u8 list \<Rightarrow> u8 list" where
  "cstr_loop mem addr offset result =
     (case read_target_mem mem (addr + word_of_nat offset) 256 of
        Inl _ \<Rightarrow> result
      | Inr chunk \<Rightarrow>
          if 0 \<in> set chunk then result @ takeWhile (\<lambda>b. b \<noteq> 0) chunk
          else if offset + 256 > 4096 then result @ chunk
          else cstr_loop mem addr (offset + 256) (result @ chunk))"
  by pat_completeness auto

termination
  by (relation "measure (\<lambda>(mem, addr, offset, result). 4097 - offset)") auto

declare cstr_loop.simps [simp del]

definition read_target_cstr :: "task_memory \<Rightarrow> u64 \<Rightarrow> string" where
  "read_target_cstr mem addr = bytes_str (utf8_lossy (cstr_loop mem addr 0 []))"

section \<open>The frame-pointer walk\<close>

primrec mac_walk_loop :: "nat \<Rightarrow> architecture \<Rightarrow> task_memory \<Rightarrow> u64 \<Rightarrow> u64 list \<Rightarrow> u64 list" where
  "mac_walk_loop 0 arch mem fp addresses = addresses"
| "mac_walk_loop (Suc n) arch mem fp addresses =
     (if fp = 0 \<or> fp AND 7 \<noteq> 0 then addresses
      else
        (case read_target_mem mem fp 16 of
           Inl _ \<Rightarrow> addresses
         | Inr frame \<Rightarrow>
             let prev_fp = le_word (take 8 frame);
                 ret_addr = strip_pac arch (le_word (take 8 (drop 8 frame))) in
             if ret_addr = 0 then addresses
             else
               let addresses = addresses @ [ret_addr] in
               if prev_fp \<le> fp then addresses else mac_walk_loop n arch mem prev_fp addresses))"

definition mac_walk_frame_pointers :: "architecture \<Rightarrow> task_memory \<Rightarrow> u64 \<Rightarrow> u64 list \<Rightarrow> u64 list" where
  "mac_walk_frame_pointers arch mem start_fp addresses = mac_walk_loop 256 arch mem start_fp addresses"

text \<open>\<open>read_thread_stack\<close>, given the program counter and the frame pointer that the thread state
  holds.\<close>

definition read_thread_stack :: "architecture \<Rightarrow> (u64 \<times> u64) option \<Rightarrow> task_memory \<Rightarrow> u64 list option" where
  "read_thread_stack arch state mem =
     (case state of None \<Rightarrow> None
      | Some (pc, fp) \<Rightarrow> Some (mac_walk_frame_pointers arch mem (strip_pac arch fp) [strip_pac arch pc]))"

section \<open>The sampler\<close>

record macos_sampler =
  ms_task :: u32
  ms_freq_hz :: u32
  ms_owns_task_port :: bool
  ms_is_self :: bool
  ms_executable_path :: "string option"
  ms_thread_filter :: thread_filter

datatype mac_call = SpawnChild u32 | AwaitStop u32 | Continue u32 | TaskForPid u32
  | TaskThreads "u32 list" | ThreadSelf u32 | Suspend u32 bool | Resume u32 | PortFree u32 | ListFree nat

text \<open>The bytes that \<open>proc_pidpath\<close> wrote, none when it failed.\<close>

definition process_executable_path :: "u8 list \<Rightarrow> string option" where
  "process_executable_path pidpath = (if 0 < length pidpath then Some (bytes_str (utf8_lossy pidpath)) else None)"

definition mac_new :: "u32 option \<Rightarrow> u8 list \<Rightarrow> u32 \<Rightarrow> mach_error + macos_sampler" where
  "mac_new task_for_pid pidpath freq_hz =
     (case task_for_pid of
        None \<Rightarrow> Inl MachFailed
      | Some task \<Rightarrow>
          Inr \<lparr>ms_task = task, ms_freq_hz = freq_hz, ms_owns_task_port = True, ms_is_self = False,
            ms_executable_path = process_executable_path pidpath,
            ms_thread_filter = All\<rparr>)"

definition mac_new_self :: "u32 \<Rightarrow> u8 list option \<Rightarrow> u32 \<Rightarrow> macos_sampler" where
  "mac_new_self task_self current_exe freq_hz =
     \<lparr>ms_task = task_self, ms_freq_hz = freq_hz, ms_owns_task_port = False, ms_is_self = True,
      ms_executable_path = map_option (\<lambda>path. bytes_str (utf8_lossy path)) current_exe,
      ms_thread_filter = All\<rparr>"

text \<open>\<open>spawn\<close>: the child stops after \<open>exec\<close> and goes on only once the sampler has been made.\<close>

definition mac_spawn :: "u32 option \<Rightarrow> u32 option \<Rightarrow> u8 list \<Rightarrow> u32
    \<Rightarrow> (session_error + u32 \<times> macos_sampler) \<times> mac_call list" where
  "mac_spawn spawned task_for_pid pidpath freq_hz =
     (case spawned of
        None \<Rightarrow> (Inl SpawnFailed, [])
      | Some pid \<Rightarrow>
          (case mac_new task_for_pid pidpath freq_hz of
             Inl _ \<Rightarrow> (Inl PtraceFailed, [SpawnChild pid, AwaitStop pid])
           | Inr sampler \<Rightarrow>
               (Inr (pid, sampler), [SpawnChild pid, AwaitStop pid, TaskForPid (ms_task sampler), Continue pid])))"

definition mac_drop :: "macos_sampler \<Rightarrow> mac_call list" where
  "mac_drop s = (if ms_owns_task_port s then [PortFree (ms_task s)] else [])"

section \<open>One round over the threads\<close>

record mac_host =
  mh_threads :: "u32 list option"
  mh_suspends :: "u32 \<Rightarrow> bool"
  mh_thread_info :: "u32 \<Rightarrow> u64 option"
  mh_pthread :: "u32 \<Rightarrow> bool"
  mh_getname :: "u32 \<Rightarrow> u8 list option"
  mh_state :: "u32 \<Rightarrow> (u64 \<times> u64) option"
  mh_memory :: "u32 \<Rightarrow> task_memory"
  mh_sampled :: "u32 \<Rightarrow> u64"

definition get_thread_identity :: "bool \<Rightarrow> mac_host \<Rightarrow> u32 \<Rightarrow> u64 \<times> string" where
  "get_thread_identity is_self h thread =
     (let thread_id = (case mh_thread_info h thread of
                         Some i \<Rightarrow> if i \<noteq> 0 then i else ucast thread
                       | None \<Rightarrow> ucast thread);
          name = (if is_self then
                    if mh_pthread h thread then
                      (case mh_getname h thread of
                         Some buf \<Rightarrow> bytes_str (utf8_lossy (takeWhile (\<lambda>c. c \<noteq> 0) buf))
                       | None \<Rightarrow> [])
                    else []
                  else [])
      in (thread_id, name))"

definition mac_thread_matches_filter :: "thread_filter \<Rightarrow> u32 \<Rightarrow> u64 \<Rightarrow> string \<Rightarrow> nat \<Rightarrow> bool" where
  "mac_thread_matches_filter f thread thread_id name index =
     (case f of
        All \<Rightarrow> True
      | MainThread \<Rightarrow> index = 0
      | ByName n \<Rightarrow> sublist n name
      | ById i \<Rightarrow> thread_id = i
      | ByMachThread port \<Rightarrow> thread = port)"

text \<open>A thread that is not the sampler's: its sample, if it is taken, and the calls.\<close>

definition mac_sample_thread :: "architecture \<Rightarrow> macos_sampler \<Rightarrow> mac_host \<Rightarrow> nat \<Rightarrow> u32
    \<Rightarrow> thread_sample list \<times> mac_call list" where
  "mac_sample_thread arch s h index thread =
     (if \<not> mh_suspends h thread then ([], [Suspend thread False, PortFree thread])
      else
        let (thread_id, thread_name) = get_thread_identity (ms_is_self s) h thread;
            samples =
              (if mac_thread_matches_filter (ms_thread_filter s) thread thread_id thread_name index then
                 (case read_thread_stack arch (mh_state h thread) (mh_memory h thread) of
                    Some stack \<Rightarrow> [\<lparr>ts_thread_id = thread_id, ts_thread_name = thread_name, ts_stack = stack,
                                     ts_timestamp_nanos = mh_sampled h thread\<rparr>]
                  | None \<Rightarrow> [])
               else [])
        in (samples, [Suspend thread True, Resume thread, PortFree thread]))"

fun mac_sample_threads :: "architecture \<Rightarrow> macos_sampler \<Rightarrow> mac_host \<Rightarrow> u32 option \<Rightarrow> nat \<Rightarrow> u32 list
    \<Rightarrow> thread_sample list \<times> mac_call list" where
  "mac_sample_threads arch s h skip index [] = ([], [])"
| "mac_sample_threads arch s h skip index (thread # threads) =
     (if skip = Some thread then
        let (samples, calls) = mac_sample_threads arch s h skip index threads in
        (samples, PortFree thread # calls)
      else
        let (sample, calls) = mac_sample_thread arch s h index thread;
            (samples, calls') = mac_sample_threads arch s h skip (index + 1) threads
        in (sample @ samples, calls @ calls'))"

definition mac_sample_once :: "architecture \<Rightarrow> macos_sampler \<Rightarrow> u32 option \<Rightarrow> mac_host
    \<Rightarrow> thread_sample list \<times> mac_call list" where
  "mac_sample_once arch s skip h =
     (case mh_threads h of
        None \<Rightarrow> ([], [])
      | Some threads \<Rightarrow>
          let (samples, calls) = mac_sample_threads arch s h skip 0 threads in
          (samples, TaskThreads threads # calls @ [ListFree (length threads)]))"

section \<open>Loaded images\<close>

text \<open>\<open>Path::file_name\<close>: the last component, unless it is \<open>..\<close>; empty components and \<open>.\<close> are skipped.\<close>

fun split_slash :: "string \<Rightarrow> string \<Rightarrow> string list" where
  "split_slash acc [] = [acc]"
| "split_slash acc (c # cs) = (if c = CHR ''/'' then acc # split_slash [] cs else split_slash (acc @ [c]) cs)"

definition file_name :: "string \<Rightarrow> string option" where
  "file_name path =
     (let components = filter (\<lambda>c. c \<noteq> [] \<and> c \<noteq> ''.'') (split_slash [] path) in
      if components = [] \<or> last components = ''..'' then None else Some (last components))"

definition is_absolute :: "string \<Rightarrow> bool" where
  "is_absolute path \<longleftrightarrow> prefix ''/'' path"

definition resolve_image_path :: "string \<Rightarrow> string option \<Rightarrow> string" where
  "resolve_image_path path executable_path =
     (if is_absolute path then path
      else
        (case executable_path of
           Some exe \<Rightarrow> if file_name path = file_name exe then exe else path
         | None \<Rightarrow> path))"

definition append_dyld_loader_image :: "loaded_image list \<Rightarrow> u32 \<Rightarrow> u64 \<Rightarrow> loaded_image list" where
  "append_dyld_loader_image images version load_address =
     (if version < 2 \<or> load_address = 0 \<or> (\<exists>i\<in>set images. im_load_address i = load_address) then images
      else images @ [\<lparr>im_load_address = load_address, im_path = ''/usr/lib/dyld''\<rparr>])"

definition prefer_loaded_images :: "loaded_image list \<Rightarrow> loaded_image list \<Rightarrow> loaded_image list" where
  "prefer_loaded_images existing refreshed = (if refreshed = [] then existing else refreshed)"

text \<open>\<open>DyldAllImageInfos\<close> has 40 bytes and \<open>DyldImageInfo\<close> 24.\<close>

record all_image_infos =
  ai_version :: u32
  ai_count :: u32
  ai_array :: u64
  ai_loader :: u64

definition all_infos_of :: "u8 list \<Rightarrow> all_image_infos" where
  "all_infos_of b =
     \<lparr>ai_version = le_word (take 4 b), ai_count = le_word (take 4 (drop 4 b)),
      ai_array = le_word (take 8 (drop 8 b)), ai_loader = le_word (take 8 (drop 32 b))\<rparr>"

definition image_entry :: "task_memory \<Rightarrow> string option \<Rightarrow> u64 \<Rightarrow> nat \<Rightarrow> loaded_image option" where
  "image_entry mem exe array_addr i =
     (case read_target_mem mem (array_addr + word_of_nat (i * 24)) 24 of
        Inl _ \<Rightarrow> None
      | Inr entry \<Rightarrow>
          let load_address = le_word (take 8 entry); file_path = le_word (take 8 (drop 8 entry)) :: u64;
              path = (if file_path \<noteq> 0 then read_target_cstr mem file_path else []) in
          if path \<noteq> [] then Some \<lparr>im_load_address = load_address, im_path = resolve_image_path path exe\<rparr>
          else None)"

definition mac_read_images :: "u64 option \<Rightarrow> task_memory \<Rightarrow> string option \<Rightarrow> mach_error + loaded_image list" where
  "mac_read_images task_info mem exe =
     (case task_info of
        None \<Rightarrow> Inl MachFailed
      | Some info_addr \<Rightarrow>
          if info_addr = 0 then Inl NotStarted
          else
            bindr (map_error ReadingDyldInfos (read_target_mem mem info_addr 40)) (\<lambda>bytes.
              let infos = all_infos_of bytes;
                  images = (if ai_array infos = 0 then []
                            else List.map_filter (image_entry mem exe (ai_array infos)) [0..<unat (ai_count infos)])
              in Inr (append_dyld_loader_image images (ai_version infos) (ai_loader infos))))"

section \<open>The sampling loop\<close>

record mac_turn =
  mt_stop :: bool
  mt_child_exited :: bool
  mt_clock :: nat
  mt_refresh :: bool
  mt_task_info :: "u64 option"
  mt_image_memory :: task_memory
  mt_host :: mac_host
  mt_now :: nat

definition images_or_none :: "u64 option \<Rightarrow> task_memory \<Rightarrow> string option \<Rightarrow> loaded_image list" where
  "images_or_none task_info mem exe =
     (case mac_read_images task_info mem exe of Inl _ \<Rightarrow> [] | Inr images \<Rightarrow> images)"

definition mac_breaks :: "bool \<Rightarrow> nat option \<Rightarrow> mac_turn \<Rightarrow> bool" where
  "mac_breaks check deadline t \<longleftrightarrow>
     mt_stop t \<or> (check \<and> mt_child_exited t) \<or> (case deadline of None \<Rightarrow> False | Some d \<Rightarrow> d \<le> mt_clock t)"

definition mac_record :: "thread_sample \<Rightarrow> raw_profile \<Rightarrow> raw_profile" where
  "mac_record s p = (if ts_stack s \<noteq> [] then record_sample s p else p)"

definition mac_step :: "architecture \<Rightarrow> macos_sampler \<Rightarrow> u32 option \<Rightarrow> mac_turn \<Rightarrow> raw_profile
    \<Rightarrow> raw_profile \<times> mac_call list" where
  "mac_step arch s skip t p =
     (let p = (if mt_refresh t
               then p\<lparr>rp_images := prefer_loaded_images (rp_images p)
                        (images_or_none (mt_task_info t) (mt_image_memory t) (ms_executable_path s))\<rparr>
               else p);
          (round, calls) = mac_sample_once arch s skip (mt_host t)
      in ((fold mac_record round p)\<lparr>rp_end_time := mt_now t\<rparr>, calls))"

fun mac_loop :: "architecture \<Rightarrow> macos_sampler \<Rightarrow> u32 option \<Rightarrow> bool \<Rightarrow> nat option \<Rightarrow> mac_turn list \<Rightarrow> raw_profile
    \<Rightarrow> raw_profile \<times> bool \<times> mac_call list" where
  "mac_loop arch s skip check deadline [] p = (p, False, [])"
| "mac_loop arch s skip check deadline (t # ts) p =
     (if mac_breaks check deadline t then (p, True, [])
      else
        let (p, calls) = mac_step arch s skip t p;
            (p, ended, calls') = mac_loop arch s skip check deadline ts p
        in (p, ended, calls @ calls'))"

text \<open>\<open>start_time\<close> is the one that \<open>live\<close> had when the loop began; nothing changes it in between.\<close>

definition mac_finish :: "macos_sampler \<Rightarrow> nat \<Rightarrow> nat \<Rightarrow> u64 option \<Rightarrow> task_memory \<Rightarrow> raw_profile \<Rightarrow> raw_profile" where
  "mac_finish s start_time end_time task_info mem p =
     p\<lparr>rp_start_time := start_time, rp_end_time := end_time,
       rp_images := prefer_loaded_images (rp_images p) (images_or_none task_info mem (ms_executable_path s))\<rparr>"

definition mac_run_sampling_loop :: "architecture \<Rightarrow> macos_sampler \<Rightarrow> u32 \<Rightarrow> bool \<Rightarrow> nat option \<Rightarrow> bool
    \<Rightarrow> mac_turn list \<Rightarrow> u64 option \<Rightarrow> task_memory \<Rightarrow> nat \<Rightarrow> raw_profile \<Rightarrow> (loop_end \<times> mac_call list) option" where
  "mac_run_sampling_loop arch s this_thread check deadline stop ts task_info mem now live =
     (if ms_freq_hz s = 0 then Some (\<lparr>en_result = Inl SamplingPanicked, en_stop = stop\<rparr>, [])
      else
        let start_time = rp_start_time live;
            skip = (if ms_is_self s then Some this_thread else None);
            (p, ended, calls) = mac_loop arch s skip check deadline ts live in
        if ended then
          Some (\<lparr>en_result = Inr (mac_finish s start_time now task_info mem p), en_stop = True\<rparr>,
            (case skip of Some thread \<Rightarrow> [ThreadSelf thread] | None \<Rightarrow> []) @ calls
            @ (case skip of Some thread \<Rightarrow> [PortFree thread] | None \<Rightarrow> []))
        else None)"

section \<open>What is suspended and released\<close>

fun suspension_use :: "mac_call \<Rightarrow> u32 multiset \<times> u32 multiset" where
  "suspension_use (Suspend thread ok) = ({#}, if ok then {#thread#} else {#})"
| "suspension_use (Resume thread) = ({#thread#}, {#})"
| "suspension_use _ = ({#}, {#})"

text \<open>The ports of threads; a thread is suspended and resumed through its port.\<close>

fun port_use :: "mac_call \<Rightarrow> u32 multiset \<times> u32 multiset" where
  "port_use (TaskForPid task) = ({#}, {#task#})"
| "port_use (TaskThreads threads) = ({#}, mset threads)"
| "port_use (ThreadSelf thread) = ({#}, {#thread#})"
| "port_use (Suspend thread ok) = ({#thread#}, {#thread#})"
| "port_use (Resume thread) = ({#thread#}, {#thread#})"
| "port_use (PortFree port) = ({#port#}, {#})"
| "port_use _ = ({#}, {#})"

fun suspends :: "u32 option \<Rightarrow> mac_call \<Rightarrow> bool" where
  "suspends skip (Suspend thread _) = (skip = Some thread)"
| "suspends skip _ = False"

text \<open>A trace that suspends one thread at a time, never the skipped one, and leaves none.\<close>

definition considerate :: "u32 option \<Rightarrow> mac_call list \<Rightarrow> bool" where
  "considerate skip calls \<longleftrightarrow> tidy 1 suspension_use calls \<and> list_all (\<lambda>c. \<not> suspends skip c) calls"

lemma considerate_append [intro]: "considerate skip xs \<Longrightarrow> considerate skip ys \<Longrightarrow> considerate skip (xs @ ys)"
  by (auto simp: considerate_def)

lemma considerate_plain [simp]:
  "considerate skip []" "considerate skip [PortFree t]" "considerate skip [ListFree n]"
  "considerate skip [TaskThreads ts]" "considerate skip [ThreadSelf t]"
  by (simp_all add: considerate_def)

lemma mac_sample_thread_calls:
  "skip \<noteq> Some thread \<Longrightarrow> considerate skip (snd (mac_sample_thread arch s h index thread))
   \<and> held_after port_use (snd (mac_sample_thread arch s h index thread)) {#thread#} = Some {#}"
  by (simp add: mac_sample_thread_def Let_def split_beta considerate_def tidy_def balanced_def at_most_def)

lemma mac_sample_threads_calls:
  "mac_sample_threads arch s h skip index threads = (samples, calls) \<Longrightarrow>
     considerate skip calls \<and> held_after port_use calls (mset threads) = Some {#}"
proof (induction threads arbitrary: index samples calls)
  case (Cons thread threads)
  show ?case
  proof (cases "skip = Some thread")
    case True
    obtain samples2 calls2 where r: "mac_sample_threads arch s h skip index threads = (samples2, calls2)"
      by (cases "mac_sample_threads arch s h skip index threads")
    then have "calls = [PortFree thread] @ calls2" using Cons.prems True by simp
    then show ?thesis using Cons.IH [OF r] considerate_append [of skip "[PortFree thread]" calls2] by simp
  next
    case False
    obtain samples2 calls2 where r: "mac_sample_threads arch s h skip (index + 1) threads = (samples2, calls2)"
      by (cases "mac_sample_threads arch s h skip (index + 1) threads")
    then have "calls = snd (mac_sample_thread arch s h index thread) @ calls2"
      using Cons.prems False by (simp add: split_beta)
    then show ?thesis
      using Cons.IH [OF r] mac_sample_thread_calls [OF False, of arch s h index]
        held_after_frame [of port_use "snd (mac_sample_thread arch s h index thread)" "{#thread#}" "{#}" "mset threads"]
      by (auto simp: held_after_append)
  qed
qed simp

lemma mac_sample_once_calls:
  "considerate skip (snd (mac_sample_once arch s skip h)) \<and> balanced port_use (snd (mac_sample_once arch s skip h))"
proof (cases "mh_threads h")
  case (Some threads)
  obtain samples calls where r: "mac_sample_threads arch s h skip 0 threads = (samples, calls)"
    by (cases "mac_sample_threads arch s h skip 0 threads")
  have "considerate skip ([TaskThreads threads] @ calls @ [ListFree (length threads)])"
    using mac_sample_threads_calls [OF r] by (intro considerate_append) simp_all
  then show ?thesis
    using mac_sample_threads_calls [OF r] by (simp add: mac_sample_once_def Some r balanced_def held_after_append)
qed (simp add: mac_sample_once_def)

lemma mac_loop_calls:
  "mac_loop arch s skip check deadline ts p = (q, ended, calls) \<Longrightarrow>
     considerate skip calls \<and> balanced port_use calls"
proof (induction ts arbitrary: p q ended calls)
  case (Cons t ts)
  show ?case
  proof (cases "mac_breaks check deadline t")
    case False
    obtain p1 calls1 where one: "mac_step arch s skip t p = (p1, calls1)" by (cases "mac_step arch s skip t p")
    obtain q2 ended2 calls2 where rest: "mac_loop arch s skip check deadline ts p1 = (q2, ended2, calls2)"
      by (cases "mac_loop arch s skip check deadline ts p1") auto
    have "calls1 = snd (mac_sample_once arch s skip (mt_host t))"
      using one by (auto simp: mac_step_def Let_def split: prod.splits)
    moreover have "calls = calls1 @ calls2" using Cons.prems False one rest by simp
    ultimately show ?thesis
      using Cons.IH [OF rest] mac_sample_once_calls considerate_append balanced_append by metis
  qed (use Cons.prems in simp)
qed simp

lemma mac_run_calls:
  assumes "mac_run_sampling_loop arch s this_thread check deadline stop ts task_info mem now live = Some (e, calls)"
  shows "considerate (if ms_is_self s then Some this_thread else None) calls \<and> balanced port_use calls"
proof (cases "ms_freq_hz s = 0")
  case True
  then show ?thesis using assms by (simp add: mac_run_sampling_loop_def)
next
  case False
  let ?skip = "if ms_is_self s then Some this_thread else None"
  obtain q ended calls1 where loop: "mac_loop arch s ?skip check deadline ts live = (q, ended, calls1)"
    by (cases "mac_loop arch s ?skip check deadline ts live") auto
  have calls: "calls = (if ms_is_self s then [ThreadSelf this_thread] else []) @ calls1
      @ (if ms_is_self s then [PortFree this_thread] else [])"
    using assms False loop by (auto simp: mac_run_sampling_loop_def Let_def split: if_splits)
  note inner = mac_loop_calls [OF loop]
  have "considerate ?skip calls" unfolding calls using inner by (intro considerate_append) simp_all
  moreover have "balanced port_use calls"
    unfolding calls using inner balanced_between [of port_use "[ThreadSelf this_thread]" "{#this_thread#}" calls1 "[PortFree this_thread]"]
    by simp
  ultimately show ?thesis by blast
qed

text \<open>The port of the task, from the sampler of a spawned child to its drop.\<close>

lemma mac_spawn_ports:
  assumes "mac_spawn spawned task pidpath freq = (Inr (pid, sampler), calls)"
  shows "balanced port_use (calls @ mac_drop sampler)"
  using assms by (auto simp: mac_spawn_def mac_new_def mac_drop_def balanced_def split: option.splits sum.splits)

section \<open>The walk\<close>

text \<open>The memory as the walk of \<open>Linux_Sampler\<close> would have to see it: return addresses without their
  authentication codes.\<close>

definition stripped_memory :: "architecture \<Rightarrow> task_memory \<Rightarrow> memory" where
  "stripped_memory arch mem fp =
     (case read_target_mem mem fp 16 of
        Inl _ \<Rightarrow> None
      | Inr frame \<Rightarrow> Some (take 8 frame @ le_bytes 8 (strip_pac arch (le_word (take 8 (drop 8 frame))))))"

lemma read_target_mem_length: "read_target_mem mem a n = Inr bytes \<Longrightarrow> length bytes = n"
  by (auto simp: read_target_mem_def split: prod.splits if_splits)

lemma mac_walk_loop_eq:
  "mac_walk_loop n arch mem fp addresses = walk_loop n (stripped_memory arch mem) fp addresses"
proof (induction n arbitrary: fp addresses)
  case (Suc n)
  show ?case
  proof (cases "read_target_mem mem fp 16")
    case (Inr frame)
    define saved where "saved = take 8 frame"
    have len: "length saved = 8" using read_target_mem_length [OF Inr] by (simp add: saved_def)
    define ret where "ret = strip_pac arch (le_word (take 8 (drop 8 frame)))"
    have "stripped_memory arch mem fp = Some (saved @ le_bytes 8 ret)"
      by (simp add: stripped_memory_def Inr saved_def ret_def)
    then show ?thesis
      by (simp add: Inr saved_def [symmetric] ret_def [symmetric] len le_word_bytes Suc Let_def)
  qed (simp add: stripped_memory_def)
qed simp

section \<open>What a session records\<close>

definition mac_session_samples :: "architecture \<Rightarrow> macos_sampler \<Rightarrow> u32 option \<Rightarrow> bool \<Rightarrow> nat option \<Rightarrow> mac_turn list
    \<Rightarrow> thread_sample list" where
  "mac_session_samples arch s skip check deadline ts =
     concat (map (\<lambda>t. fst (mac_sample_once arch s skip (mt_host t))) (takeWhile (\<lambda>t. \<not> mac_breaks check deadline t) ts))"

text \<open>The image lists that the loop reads, in order.\<close>

definition mac_refreshes :: "macos_sampler \<Rightarrow> bool \<Rightarrow> nat option \<Rightarrow> mac_turn list \<Rightarrow> loaded_image list list" where
  "mac_refreshes s check deadline ts =
     map (\<lambda>t. images_or_none (mt_task_info t) (mt_image_memory t) (ms_executable_path s))
       (filter mt_refresh (takeWhile (\<lambda>t. \<not> mac_breaks check deadline t) ts))"

lemma mac_walk_nonempty: "mac_walk_frame_pointers arch mem fp (x # xs) \<noteq> []"
  using walk_loop_chain [of 256 "stripped_memory arch mem" fp "x # xs"]
  by (auto simp: mac_walk_frame_pointers_def mac_walk_loop_eq)

lemma mac_sample_nonempty: "x \<in> set (fst (mac_sample_thread arch s h index thread)) \<Longrightarrow> ts_stack x \<noteq> []"
proof -
  have stack: "st \<noteq> []" if "read_thread_stack arch state mem = Some st" for state mem st
    using that mac_walk_nonempty by (fastforce simp: read_thread_stack_def split: option.splits)
  have "map ts_stack (fst (mac_sample_thread arch s h index thread)) =
      (case read_thread_stack arch (mh_state h thread) (mh_memory h thread) of
         Some st \<Rightarrow> if map ts_stack (fst (mac_sample_thread arch s h index thread)) = [] then [] else [st] | None \<Rightarrow> [])"
    by (simp add: mac_sample_thread_def Let_def split_beta split: option.split)
  then have "\<forall>st\<in>set (map ts_stack (fst (mac_sample_thread arch s h index thread))). st \<noteq> []"
    using stack by (cases "read_thread_stack arch (mh_state h thread) (mh_memory h thread)") (auto split: if_splits)
  then show "x \<in> set (fst (mac_sample_thread arch s h index thread)) \<Longrightarrow> ts_stack x \<noteq> []" by simp
qed

lemma mac_samples_nonempty:
  "x \<in> set (fst (mac_sample_threads arch s h skip index threads)) \<Longrightarrow> ts_stack x \<noteq> []"
proof (induction threads arbitrary: index)
  case (Cons thread threads)
  then show ?case
    using mac_sample_nonempty [of x arch s h index thread] by (auto simp: split_beta Let_def split: if_splits)
qed simp

lemma mac_once_nonempty: "x \<in> set (fst (mac_sample_once arch s skip h)) \<Longrightarrow> ts_stack x \<noteq> []"
  by (auto simp: mac_sample_once_def split_beta dest: mac_samples_nonempty split: option.splits)

lemma mac_record_all: "\<forall>x\<in>set xs. ts_stack x \<noteq> [] \<Longrightarrow> fold mac_record xs p = fold record_sample xs p"
  by (induction xs arbitrary: p) (simp_all add: mac_record_def)

lemma record_images [simp]: "rp_images (fold record_sample xs p) = rp_images p"
  by (induction xs arbitrary: p) (simp_all add: record_sample_def Let_def)

lemma mac_step_records:
  "rp_stacks (fst (mac_step arch s skip t p)) = rp_stacks (fold record_sample (fst (mac_sample_once arch s skip (mt_host t))) p)
   \<and> rp_images (fst (mac_step arch s skip t p)) = (if mt_refresh t
        then prefer_loaded_images (rp_images p) (images_or_none (mt_task_info t) (mt_image_memory t) (ms_executable_path s))
        else rp_images p)"
proof -
  have "fold mac_record (fst (mac_sample_once arch s skip (mt_host t))) q
      = fold record_sample (fst (mac_sample_once arch s skip (mt_host t))) q" for q
    by (rule mac_record_all) (auto dest: mac_once_nonempty)
  then show ?thesis by (auto simp: mac_step_def Let_def split_beta intro: record_stacks_cong)
qed

interpretation mac: sampling_loop "mac_breaks check deadline"
  "\<lambda>t (p, cs). case mac_step arch s skip t p of (p, calls) \<Rightarrow> (p, cs @ calls)" "\<lambda>_ pc. pc"
  "\<lambda>ts (p, cs). case mac_loop arch s skip check deadline ts p of (q, ended, calls) \<Rightarrow> ((q, cs @ calls), ended)"
  fst fst "\<lambda>t _. fst (mac_sample_once arch s skip (mt_host t))" "\<lambda>_ _. []" for check deadline arch s skip
  by unfold_locales (auto simp: split_beta Let_def mac_step_records)

lemma mac_taken: "mac.taken check deadline arch s skip ts pc = mac_session_samples arch s skip check deadline ts"
  by (induction ts arbitrary: pc) (simp_all add: mac_session_samples_def)

lemma mac_loop_images:
  "mac_loop arch s skip check deadline ts p = (q, True, calls) \<Longrightarrow>
     rp_images q = foldl prefer_loaded_images (rp_images p) (mac_refreshes s check deadline ts)"
proof (induction ts arbitrary: p q calls)
  case (Cons t ts)
  then show ?case
    using mac_step_records [of arch s skip t p] by (auto simp: mac_refreshes_def split: prod.splits if_splits)
qed simp

lemma mac_loop_records:
  assumes "mac_loop arch s skip check deadline ts p = (q, True, calls)"
  shows "rp_stacks q = rp_stacks (fold record_sample (mac_session_samples arch s skip check deadline ts) p)
    \<and> rp_images q = foldl prefer_loaded_images (rp_images p) (mac_refreshes s check deadline ts)"
  using mac.loop_records [of arch s skip check deadline ts "(p, [])" "(q, calls)"] mac_loop_images [OF assms] assms
  by (simp add: mac_taken)

text \<open>The last list that was not empty.\<close>

lemma prefer_last: "foldl prefer_loaded_images i xs = last (i # filter (\<lambda>x. x \<noteq> []) xs)"
  by (induction xs arbitrary: i) (simp_all add: prefer_loaded_images_def)

section \<open>What the target's memory holds\<close>

definition holds :: "task_memory \<Rightarrow> u64 \<Rightarrow> u8 list \<Rightarrow> bool" where
  "holds mem a bytes \<longleftrightarrow>
     (\<forall>off n. off + n \<le> length bytes \<longrightarrow> mem (a + word_of_nat off) n = (True, take n (drop off bytes)))"

lemma holds_read:
  "holds mem a bytes \<Longrightarrow> off + n \<le> length bytes \<Longrightarrow>
     read_target_mem mem (a + word_of_nat off) n = Inr (take n (drop off bytes))"
  by (simp add: holds_def read_target_mem_def)

text \<open>A memory of one readable region.\<close>

definition one_region :: "u64 \<Rightarrow> u8 list \<Rightarrow> task_memory" where
  "one_region base bytes a n =
     (if base \<le> a \<and> unat (a - base) + n \<le> length bytes then (True, take n (drop (unat (a - base)) bytes))
      else (False, []))"

lemma holds_region:
  assumes "unat base + length bytes < 2 ^ 64" and "k + length part \<le> length bytes"
    and "take (length part) (drop k bytes) = part"
  shows "holds (one_region base bytes) (base + word_of_nat k) part"
  unfolding holds_def
proof (intro allI impI)
  fix off n assume n: "off + n \<le> length part"
  define a where "a = base + word_of_nat k + word_of_nat off"
  have small: "unat (word_of_nat (k + off) :: u64) = k + off"
    using assms(1,2) n by (subst unat_of_nat) (simp del: of_nat_add)
  have a: "a = base + word_of_nat (k + off)" by (simp add: a_def)
  then have "a - base = word_of_nat (k + off)" by simp
  then have "unat (a - base) = k + off" using small by (simp only:)
  moreover have "base \<le> a"
    unfolding a word_le_nat_alt using small assms(1,2) n by (subst unat_word_ariths) simp
  moreover have "take n (drop (k + off) bytes) = take n (drop off part)"
  proof -
    have "take n (drop off (take l (drop k bytes))) = take n (drop (k + off) bytes)" if "off + n \<le> l" for l
      using that by (simp add: drop_take min_def add.commute)
    from this [OF n] show ?thesis by (simp add: assms(3))
  qed
  ultimately have "one_region base bytes a n = (True, take n (drop off part))"
    using assms(2) n by (simp add: one_region_def)
  then show "one_region base bytes (base + word_of_nat k + word_of_nat off) n = (True, take n (drop off part))"
    by (simp add: a_def)
qed

text \<open>A terminated string is read whole when the chunk that holds its end can be read and it has
  less than 4352 bytes.\<close>

definition string_at :: "task_memory \<Rightarrow> u64 \<Rightarrow> u8 list \<Rightarrow> bool" where
  "string_at mem a str \<longleftrightarrow> 0 \<notin> set str \<and> length str < 4352
     \<and> (\<exists>rest. holds mem a (str @ 0 # rest) \<and> 256 * (length str div 256 + 1) \<le> length (str @ 0 # rest))"

lemma takeWhile_zero: "0 \<notin> set (str :: u8 list) \<Longrightarrow> takeWhile (\<lambda>b. b \<noteq> 0) (str @ 0 # rest) = str"
  by (induction str) auto

lemma cstr_loop_reads:
  assumes "holds mem a (str @ 0 # rest)" and "0 \<notin> set str" and "length str < 4352"
    and "256 * (length str div 256 + 1) \<le> length (str @ 0 # rest)" and "k \<le> length str div 256"
  shows "cstr_loop mem a (256 * k) (take (256 * k) str) = str"
  using assms(5)
proof (induction "length str div 256 - k" arbitrary: k)
  case 0
  then have k: "k = length str div 256" by simp
  have le: "256 * k \<le> length str" "length str < 256 * k + 256" unfolding k by simp_all
  let ?chunk = "take 256 (drop (256 * k) (str @ 0 # rest))"
  have read: "read_target_mem mem (a + word_of_nat (256 * k)) 256 = Inr ?chunk"
    by (rule holds_read [OF assms(1)]) (use assms(4) k in simp)
  have chunk: "?chunk = drop (256 * k) str @ 0 # take (255 - (length str - 256 * k)) rest"
    using le by (simp add: take_Cons')
  have "0 \<notin> set (drop (256 * k) str)" using assms(2) by (meson in_set_dropD)
  then show ?case
    by (subst cstr_loop.simps) (simp add: read [unfolded chunk] takeWhile_zero del: of_nat_mult of_nat_numeral)
next
  case (Suc j)
  then have k: "k < length str div 256" by simp
  then have le: "256 * k + 256 \<le> length str" by simp
  then have limit: "256 * k + 256 \<le> 4096" using assms(3) by (simp; presburger)
  let ?chunk = "take 256 (drop (256 * k) (str @ 0 # rest))"
  have read: "read_target_mem mem (a + word_of_nat (256 * k)) 256 = Inr ?chunk"
    by (rule holds_read [OF assms(1)]) (use le in simp)
  have chunk: "?chunk = take 256 (drop (256 * k) str)" using le by simp
  have "0 \<notin> set (take 256 (drop (256 * k) str))" using assms(2) by (meson in_set_dropD in_set_takeD)
  then have "cstr_loop mem a (256 * k) (take (256 * k) str)
      = cstr_loop mem a (256 * k + 256) (take (256 * k) str @ take 256 (drop (256 * k) str))"
    using limit by (subst cstr_loop.simps) (simp add: read [unfolded chunk] del: of_nat_mult of_nat_numeral)
  also have "\<dots> = cstr_loop mem a (256 * Suc k) (take (256 * Suc k) str)"
  proof -
    have "256 * Suc k = 256 * k + 256" by simp
    then show ?thesis by (simp only: take_add)
  qed
  also have "\<dots> = str" using Suc k by (intro Suc.hyps) simp_all
  finally show ?case .
qed

lemma read_string: "string_at mem a str \<Longrightarrow> read_target_cstr mem a = bytes_str (utf8_lossy str)"
  using cstr_loop_reads [of mem a str _ 0] by (auto simp: string_at_def read_target_cstr_def)

lemma utf8_lossy_empty: "utf8_lossy bs = [] \<longleftrightarrow> bs = []"
proof (cases "bs = []")
  case False
  obtain ok n where u: "utf8_chunk bs = (ok, n)" by (cases "utf8_chunk bs")
  have "0 < n" using utf8_chunk_pos [OF False] by (simp add: u)
  then show ?thesis using False by (subst utf8_lossy.simps) (simp add: u)
qed (simp add: utf8_lossy.simps)

text \<open>The structures as dyld lays them out: an entry is a load address, the address of a path, a
  modification date, and the path there.\<close>

type_synonym dyld_entry = "u64 \<times> u64 \<times> u64 \<times> u8 list"

definition entry_bytes :: "dyld_entry \<Rightarrow> u8 list" where
  "entry_bytes = (\<lambda>(load, file_path, mod_date, _). le_bytes 8 load @ le_bytes 8 file_path @ le_bytes 8 mod_date)"

definition info_bytes :: "u32 \<Rightarrow> nat \<Rightarrow> u64 \<Rightarrow> u64 \<Rightarrow> u8 list \<Rightarrow> u64 \<Rightarrow> u8 list" where
  "info_bytes version n array notification flags loader =
     le_bytes 4 version @ le_bytes 4 (word_of_nat n :: u32) @ le_bytes 8 array @ le_bytes 8 notification
     @ flags @ le_bytes 8 loader"

definition path_at :: "task_memory \<Rightarrow> dyld_entry \<Rightarrow> bool" where
  "path_at mem = (\<lambda>(_, file_path, _, path). if file_path = 0 then path = [] else string_at mem file_path path)"

definition listed_images :: "string option \<Rightarrow> dyld_entry list \<Rightarrow> loaded_image list" where
  "listed_images exe es =
     map (\<lambda>(load, _, _, path). \<lparr>im_load_address = load, im_path = resolve_image_path (bytes_str (utf8_lossy path)) exe\<rparr>)
       (filter (\<lambda>(_, _, _, path). path \<noteq> []) es)"

lemma length_entry [simp]: "length (entry_bytes e) = 24"
  by (simp add: entry_bytes_def split_beta)

lemma entries_part:
  "i < length es \<Longrightarrow> take 24 (drop (24 * i) (concat (map entry_bytes es))) = entry_bytes (es ! i)"
proof (induction es arbitrary: i)
  case (Cons e es)
  then show ?case by (cases i) simp_all
qed simp

lemma length_entries: "length (concat (map entry_bytes es)) = 24 * length es"
  by (induction es) simp_all

lemma image_entry_reads:
  assumes "holds mem array (concat (map entry_bytes es))" and "i < length es" and "path_at mem (es ! i)"
  shows "image_entry mem exe array i = (case listed_images exe [es ! i] of [] \<Rightarrow> None | x # _ \<Rightarrow> Some x)"
proof -
  obtain load file_path mod_date path where e: "es ! i = (load, file_path, mod_date, path)" by (cases "es ! i")
  have "24 * i + 24 \<le> length (concat (map entry_bytes es))" using assms(2) by (simp add: length_entries)
  from holds_read [OF assms(1) this] have "read_target_mem mem (array + word_of_nat (i * 24)) 24 = Inr (entry_bytes (es ! i))"
    unfolding entries_part [OF assms(2)] mult.commute [of i 24] .
  moreover have "(if file_path \<noteq> 0 then read_target_cstr mem file_path else []) = bytes_str (utf8_lossy path)"
    using assms(3) read_string by (auto simp: path_at_def e utf8_lossy.simps bytes_str_def)
  ultimately show ?thesis
    by (simp add: image_entry_def e entry_bytes_def le_word_bytes listed_images_def Let_def utf8_lossy_empty bytes_str_def
        del: of_nat_mult of_nat_numeral)
qed

lemma map_filter_nth:
  assumes "\<And>i. i < length es \<Longrightarrow> f i = (case g [es ! i] of [] \<Rightarrow> None | x # _ \<Rightarrow> Some x)"
    and "\<And>e. length (g [e]) \<le> 1" and "\<And>xs ys. g (xs @ ys) = g xs @ g ys" and "g [] = []"
  shows "List.map_filter f [0..<length es] = g es"
  using assms(1)
proof (induction es rule: rev_induct)
  case (snoc e es)
  have "List.map_filter f [0..<length es] = g es"
  proof (rule snoc.IH)
    show "f i = (case g [es ! i] of [] \<Rightarrow> None | x # _ \<Rightarrow> Some x)" if "i < length es" for i
      using snoc.prems [of i] that by (simp add: nth_append)
  qed
  moreover have "List.map_filter f [length es] = g [e]"
    using snoc.prems [of "length es"] assms(2) [of e]
    by (cases "g [e]") (auto simp: List.map_filter_def)
  ultimately show ?case using assms(3) [of es "[e]"] by (simp add: List.map_filter_def)
qed (simp add: assms(4) List.map_filter_def)

lemma mac_images:
  assumes "info \<noteq> 0" and "length flags = 8" and "length es < 2 ^ 32" and "array = 0 \<longrightarrow> es = []"
    and "holds mem info (info_bytes version (length es) array notification flags loader)"
    and "holds mem array (concat (map entry_bytes es))" and "\<forall>e\<in>set es. path_at mem e"
  shows "mac_read_images (Some info) mem exe = Inr (append_dyld_loader_image (listed_images exe es) version loader)"
proof -
  let ?bytes = "info_bytes version (length es) array notification flags loader"
  have len: "length ?bytes = 40" using assms(2) by (simp add: info_bytes_def)
  have "read_target_mem mem info 40 = Inr ?bytes"
    using holds_read [OF assms(5), of 0 40] len by simp
  moreover have "all_infos_of ?bytes = \<lparr>ai_version = version, ai_count = word_of_nat (length es), ai_array = array, ai_loader = loader\<rparr>"
    using assms(2) by (simp add: all_infos_of_def info_bytes_def le_word_bytes)
  moreover have "unat (word_of_nat (length es) :: u32) = length es" using assms(3) by (simp add: unat_of_nat)
  moreover have "List.map_filter (image_entry mem exe array) [0..<length es] = listed_images exe es"
  proof (rule map_filter_nth)
    show "image_entry mem exe array i = (case listed_images exe [es ! i] of [] \<Rightarrow> None | x # _ \<Rightarrow> Some x)"
      if "i < length es" for i
      using that assms(6,7) by (intro image_entry_reads) simp_all
  qed (auto simp: listed_images_def)
  ultimately show ?thesis using assms(1,4) by (auto simp: mac_read_images_def map_error_def listed_images_def Let_def)
qed

text \<open>A path whose end is less than 256 bytes away from unreadable memory is lost, though every byte
  of it can be read.\<close>

lemma path_at_mapping_end_lost:
  assumes "length bytes < 256"
  shows "read_target_cstr (one_region base bytes) base = []"
proof -
  have "read_target_mem (one_region base bytes) base 256 = Inl MachFailed"
    using assms by (simp add: read_target_mem_def one_region_def)
  then show ?thesis
    by (simp add: read_target_cstr_def cstr_loop.simps utf8_lossy.simps bytes_str_def)
qed

text \<open>When the task port cannot be had, the child that was spawned stays stopped.\<close>

lemma failed_spawn_leaves_child:
  "mac_spawn (Some pid) None pidpath freq = (Inl PtraceFailed, [SpawnChild pid, AwaitStop pid])"
  by (simp add: mac_spawn_def mac_new_def)

section \<open>Properties\<close>

text \<open>C12: whatever call fails, the macOS sampler suspends one thread at a time and resumes each, once;
  it frees every thread port it is given, once, and uses none after that; in a process that samples
  itself it never tries to suspend the thread it runs on.\<close>

theorem mac_sampling_releases:
  assumes "mac_run_sampling_loop arch s this_thread check deadline stop ts task_info mem now live = Some (e, calls)"
  shows "balanced suspension_use calls \<and> at_most 1 suspension_use calls
    \<and> list_all (\<lambda>c. \<not> suspends (if ms_is_self s then Some this_thread else None) c) calls
    \<and> balanced port_use calls"
  using mac_run_calls [OF assms] by (simp add: considerate_def tidy_def)

text \<open>C36: the walk of the macOS sampler is the walk of the Linux sampler on the same memory with the
  authentication codes stripped from the return addresses; so it appends the return addresses of a
  chain of at most 256 aligned frames at strictly increasing addresses.\<close>

theorem mac_walk_is_linux_walk:
  "mac_walk_frame_pointers arch mem fp addresses = walk_frame_pointers (stripped_memory arch mem) fp addresses
    \<and> (\<exists>frames. mac_walk_frame_pointers arch mem fp addresses = addresses @ map snd frames
         \<and> length frames \<le> 256 \<and> frame_chain (stripped_memory arch mem) frames
         \<and> sorted_wrt (<) (map fst frames))"
proof -
  obtain frames where "walk_loop 256 (stripped_memory arch mem) fp addresses = addresses @ map snd frames"
    "length frames \<le> 256" "frame_chain (stripped_memory arch mem) frames"
    using walk_loop_chain by blast
  then show ?thesis
    using frame_chain_increasing
    by (auto simp: mac_walk_frame_pointers_def mac_walk_loop_eq walk_frame_pointers_def max_depth_def)
qed

text \<open>C25: when every path of dyld's list is shorter than the 4352 bytes that are read of one at most,
  and the chunks of 256 bytes up to the one with its terminator are readable to their ends, the
  image list is the one dyld laid out in the target: of the entries of its array, in order, those
  with a path, each path read up to its terminator and a relative path of the executable's name
  resolved to the executable, and the loader where the structure has it and no entry does.  A path
  whose last chunk runs into memory that is not mapped is lost (\<open>path_at_mapping_end_lost\<close>).\<close>

theorem dyld_images_are_read:
  assumes "info \<noteq> 0" and "length flags = 8" and "length es < 2 ^ 32" and "array = 0 \<longrightarrow> es = []"
    and "holds mem info (info_bytes version (length es) array notification flags loader)"
    and "holds mem array (concat (map entry_bytes es))" and "\<forall>e\<in>set es. path_at mem e"
  shows "mac_read_images (Some info) mem exe = Inr (append_dyld_loader_image (listed_images exe es) version loader)"
  by (rule mac_images [OF assms])

text \<open>C24: when the macOS loop ends in a profile, \<open>stop\<close> is set, the stacks are those of recording the
  samples of all its rounds one by one, and the images are the last list read that was not empty:
  a failed or empty refresh never loses the images that were seen.\<close>

theorem mac_session_result:
  assumes "mac_run_sampling_loop arch s this_thread check deadline stop ts task_info mem now live = Some (e, calls)"
    and "en_result e = Inr raw"
  shows "en_stop e
    \<and> rp_stacks raw = rp_stacks (fold record_sample (mac_session_samples arch s
        (if ms_is_self s then Some this_thread else None) check deadline ts) live)
    \<and> rp_images raw = last (rp_images live # filter (\<lambda>is. is \<noteq> [])
        (mac_refreshes s check deadline ts @ [images_or_none task_info mem (ms_executable_path s)]))"
proof -
  let ?skip = "if ms_is_self s then Some this_thread else None"
  obtain q calls1 where loop: "mac_loop arch s ?skip check deadline ts live = (q, True, calls1)"
    and raw: "raw = mac_finish s (rp_start_time live) now task_info mem q" and stop: "en_stop e"
    using assms by (auto simp: mac_run_sampling_loop_def Let_def split: prod.splits if_splits)
  have "rp_images raw = foldl prefer_loaded_images (rp_images live)
      (mac_refreshes s check deadline ts @ [images_or_none task_info mem (ms_executable_path s)])"
    using mac_loop_records [OF loop] by (simp add: raw mac_finish_def)
  then show ?thesis
    using mac_loop_records [OF loop] stop unfolding prefer_last by (simp add: raw mac_finish_def)
qed

definition demo_mac_host :: mac_host where
  "demo_mac_host = \<lparr>mh_threads = Some [3, 5, 7], mh_suspends = \<lambda>t. t \<noteq> 7, mh_thread_info = \<lambda>_. Some 42,
     mh_pthread = \<lambda>_. False, mh_getname = \<lambda>_. None, mh_state = \<lambda>_. Some (4114, 0),
     mh_memory = \<lambda>_. one_region 0 [], mh_sampled = \<lambda>_. 6\<rparr>"

definition demo_mac_turn :: "bool \<Rightarrow> mac_turn" where
  "demo_mac_turn stops = \<lparr>mt_stop = stops, mt_child_exited = False, mt_clock = 0, mt_refresh = True,
     mt_task_info = None, mt_image_memory = one_region 0 [], mt_host = demo_mac_host, mt_now = 8\<rparr>"

definition demo_mac_sampler :: macos_sampler where
  "demo_mac_sampler = \<lparr>ms_task = 1, ms_freq_hz = 99, ms_owns_task_port = False, ms_is_self = True,
     ms_executable_path = None, ms_thread_filter = All\<rparr>"

lemma demo_mac_run:
  "mac_run_sampling_loop X86_64 demo_mac_sampler 3 False None False [demo_mac_turn False, demo_mac_turn True]
     None (one_region 0 []) 9 demo_start
   = Some (\<lparr>en_result = Inr (mac_finish demo_mac_sampler 0 9 None (one_region 0 [])
       (fst (mac_step X86_64 demo_mac_sampler (Some 3) (demo_mac_turn False) demo_start))), en_stop = True\<rparr>,
     [ThreadSelf 3, TaskThreads [3, 5, 7], PortFree 3, Suspend 5 True, Resume 5, PortFree 5,
      Suspend 7 False, PortFree 7, ListFree 3, PortFree 3])"
  by (simp add: mac_run_sampling_loop_def demo_mac_sampler_def demo_start_def mac_breaks_def demo_mac_turn_def
      mac_step_def demo_mac_host_def mac_sample_once_def mac_sample_thread_def split_beta Let_def)

theorem mac_sampling_releases_witness:
  "balanced port_use [ThreadSelf 3, TaskThreads [3, 5, 7], PortFree 3, Suspend 5 True, Resume 5, PortFree 5,
      Suspend 7 False, PortFree 7, ListFree 3, PortFree 3]"
  using mac_sampling_releases [OF demo_mac_run] by blast

theorem mac_session_result_witness:
  "\<exists>e calls raw. mac_run_sampling_loop X86_64 demo_mac_sampler 3 False None False
       [demo_mac_turn False, demo_mac_turn True] None (one_region 0 []) 9 demo_start = Some (e, calls)
     \<and> en_result e = Inr raw \<and> rp_stacks raw = [((42, [4114]), push_timestamp 6 (series_timed []))] \<and> rp_images raw = []"
proof -
  define raw where "raw = mac_finish demo_mac_sampler 0 9 None (one_region 0 [])
       (fst (mac_step X86_64 demo_mac_sampler (Some 3) (demo_mac_turn False) demo_start))"
  have "mac_walk_frame_pointers X86_64 mem 0 xs = xs" for mem xs
    by (simp add: mac_walk_frame_pointers_def numeral_eq_Suc)
  then have "mac_session_samples X86_64 demo_mac_sampler (Some 3) False None [demo_mac_turn False, demo_mac_turn True]
    = [\<lparr>ts_thread_id = 42, ts_thread_name = [], ts_stack = [4114], ts_timestamp_nanos = 6\<rparr>]"
    by (simp add: mac_session_samples_def mac_breaks_def demo_mac_turn_def demo_mac_host_def mac_sample_once_def
        mac_sample_thread_def get_thread_identity_def mac_thread_matches_filter_def read_thread_stack_def
        strip_pac_def demo_mac_sampler_def Let_def)
  moreover have "rp_stacks (record_sample \<lparr>ts_thread_id = 42, ts_thread_name = [], ts_stack = [4114], ts_timestamp_nanos = 6\<rparr> demo_start)
      = [((42, [4114]), push_timestamp 6 (series_timed []))]"
    by (simp add: record_sample_stacks demo_start_def)
  moreover have "mac_refreshes demo_mac_sampler False None [demo_mac_turn False, demo_mac_turn True] = [[]]"
    by (simp add: mac_refreshes_def mac_breaks_def demo_mac_turn_def images_or_none_def mac_read_images_def)
  ultimately have "rp_stacks raw = [((42, [4114]), push_timestamp 6 (series_timed []))] \<and> rp_images raw = []"
    using mac_session_result [OF demo_mac_run, of raw]
    by (simp add: raw_def demo_mac_sampler_def images_or_none_def mac_read_images_def demo_start_def)
  then show ?thesis unfolding demo_mac_run raw_def by auto
qed

definition demo_dyld :: "u8 list" where
  "demo_dyld = info_bytes 2 1 4136 0 (replicate 8 0) 8192
     @ concat (map entry_bytes [(16384, 4160, 0, [97])]) @ [97] @ 0 # replicate 254 0"

theorem dyld_images_are_read_witness:
  "mac_read_images (Some 4096) (one_region 4096 demo_dyld) (Some ''/x/a'')
    = Inr [\<lparr>im_load_address = 16384, im_path = ''/x/a''\<rparr>, \<lparr>im_load_address = 8192, im_path = ''/usr/lib/dyld''\<rparr>]"
proof -
  let ?mem = "one_region 4096 demo_dyld" and ?es = "[(16384, 4160, 0, [97])]"
  have info: "length (info_bytes v n a b (replicate 8 0) l) = 40" for v n a b l by (simp add: info_bytes_def)
  have len: "length demo_dyld = 320" by (simp add: demo_dyld_def info)
  have "holds ?mem (4096 + word_of_nat 0) (info_bytes 2 (length ?es) 4136 0 (replicate 8 0) 8192)"
    by (rule holds_region) (simp_all add: len info, simp add: demo_dyld_def info)
  moreover have "holds ?mem (4096 + word_of_nat 40) (concat (map entry_bytes ?es))"
    by (rule holds_region) (simp_all add: len, simp add: demo_dyld_def info)
  moreover have "holds ?mem (4096 + word_of_nat 64) ([97] @ 0 # replicate 254 0)"
    by (rule holds_region) (simp_all add: len, simp add: demo_dyld_def info)
  ultimately have "mac_read_images (Some 4096) ?mem (Some ''/x/a'')
      = Inr (append_dyld_loader_image (listed_images (Some ''/x/a'') ?es) 2 8192)"
    by (intro dyld_images_are_read [where flags = "replicate 8 0" and array = 4136 and notification = 0])
      (auto simp: path_at_def string_at_def)
  moreover have "utf8_lossy [97] = [97]"
    by (simp add: utf8_lossy.simps utf8_width_def)
  moreover have "resolve_image_path ''a'' (Some ''/x/a'') = ''/x/a''"
    by (simp add: resolve_image_path_def is_absolute_def file_name_def)
  moreover have "bytes_str [97] = ''a''" by code_simp
  ultimately show ?thesis by (simp add: listed_images_def append_dyld_loader_image_def)
qed

end
