(* ===== verification/Processes.thy ===== *)
theory Processes
  imports Malloc_History
begin

text \<open>
  The process listing (\<open>src/processes.rs\<close> and \<open>src/processes/linux.rs\<close>): on Linux the parser of
  \<open>/proc/<pid>/stat\<close> and the architecture of an ELF file, on macOS the code-signing rule that says
  which processes can be attached, and on both the list, sorted by name and identifier.

  The files and the kernel's answers are parameters; \<open>lower\<close> is \<open>str::to_lowercase\<close>, whose Unicode
  tables are not modelled.
\<close>

section \<open>Data\<close>

record process_info =
  pi_pid :: u32
  pi_parent_pid :: u32
  pi_uid :: u32
  pi_name :: string
  pi_executable_path :: "string option"
  pi_start_time_micros :: u64
  pi_architecture :: string
  pi_attachable :: bool
  pi_attachability_reason :: "string option"

text \<open>\<open>sort_by\<close> is stable, as \<^const>\<open>sort_key\<close> is.\<close>

definition process_order :: "(string \<Rightarrow> string) \<Rightarrow> process_info \<Rightarrow> string \<times> u32" where
  "process_order lower p = (lower (pi_name p), pi_pid p)"

definition sort_processes :: "(string \<Rightarrow> string) \<Rightarrow> process_info list \<Rightarrow> process_info list" where
  "sort_processes lower ps = sort_key (process_order lower) ps"

definition required_helper_arch :: "string \<Rightarrow> string \<Rightarrow> string option" where
  "required_helper_arch current target =
     (if target \<in> {''arm64'', ''x86_64''} \<and> target \<noteq> current then Some target else None)"

text \<open>\<open>process_exists\<close>, from the result of \<open>kill\<close> with signal zero and the error number: only \<open>ESRCH\<close>
  says that there is no such process.\<close>

definition process_exists :: "int \<Rightarrow> int \<Rightarrow> bool" where
  "process_exists rc errno \<longleftrightarrow> rc = 0 \<or> errno \<noteq> 3"

section \<open>Linux\<close>

definition find_byte :: "u8 \<Rightarrow> u8 list \<Rightarrow> nat option" where
  "find_byte c bs = (if c \<in> set bs then Some (length (takeWhile (\<lambda>b. b \<noteq> c) bs)) else None)"

definition rfind_byte :: "u8 \<Rightarrow> u8 list \<Rightarrow> nat option" where
  "rfind_byte c bs =
     (if c \<in> set bs then Some (length bs - 1 - length (takeWhile (\<lambda>b. b \<noteq> c) (rev bs))) else None)"

text \<open>\<open>str::get\<close> refuses a range that is out of order, out of bounds, or inside a character.\<close>

definition char_boundary :: "u8 list \<Rightarrow> nat \<Rightarrow> bool" where
  "char_boundary bs k \<longleftrightarrow> k = length bs \<or> (k < length bs \<and> \<not> utf8_cont (bs ! k))"

definition str_get :: "nat \<Rightarrow> nat \<Rightarrow> u8 list \<Rightarrow> u8 list option" where
  "str_get start stop bs =
     (if start \<le> stop \<and> char_boundary bs start \<and> char_boundary bs stop
      then Some (take (stop - start) (drop start bs)) else None)"

definition parse_u32 :: "u8 list \<Rightarrow> u32 option" where
  "parse_u32 bs =
     (case parse_nat (if prefix [43] bs then tl bs else bs) of
        Some n \<Rightarrow> if n < 2 ^ 32 then Some (word_of_nat n) else None
      | None \<Rightarrow> None)"

definition saturating_mul_u64 :: "u64 \<Rightarrow> u64 \<Rightarrow> u64" where
  "saturating_mul_u64 a b = (if unat a * unat b < 2 ^ 64 then a * b else - 1)"

definition nth_field :: "nat \<Rightarrow> u8 list list \<Rightarrow> u8 list option" where
  "nth_field n fds = (if n < length fds then Some (fds ! n) else None)"

definition parse_stat :: "int \<Rightarrow> u8 list \<Rightarrow> (string \<times> u32 \<times> u64) option" where
  "parse_stat ticks_per_second stat =
     Option.bind (find_byte 40 stat) (\<lambda>name_start.
     Option.bind (rfind_byte 41 stat) (\<lambda>name_end.
     Option.bind (str_get (name_start + 1) name_end stat) (\<lambda>name.
     Option.bind (str_get (name_end + 2) (length stat) stat) (\<lambda>rest.
       let fds = split_whitespace rest in
       Option.bind (Option.bind (nth_field 1 fds) parse_u32) (\<lambda>parent_pid.
       Option.bind (Option.bind (nth_field 19 fds) parse_u64) (\<lambda>start_ticks.
         if ticks_per_second \<le> 0 then None
         else
           Some (bytes_str name, parent_pid,
             saturating_mul_u64 start_ticks 1000000 div word_of_int ticks_per_second)))))))"

text \<open>The file's content, \<^const>\<open>None\<close> when it cannot be opened.\<close>

definition executable_architecture :: "u8 list option \<Rightarrow> string option" where
  "executable_architecture file =
     (case file of None \<Rightarrow> None
      | Some bytes \<Rightarrow>
          if length bytes < 20 then None
          else
            let header = take 20 bytes in
            if take 4 header \<noteq> [0x7F, 69, 76, 70] then None
            else
              let machine =
                (if header ! 5 = 1 then Some (256 * unat (header ! 19) + unat (header ! 18))
                 else if header ! 5 = 2 then Some (256 * unat (header ! 18) + unat (header ! 19))
                 else None)
              in map_option (\<lambda>m. if m = 62 then ''x86_64'' else if m = 183 then ''arm64'' else ''unknown'') machine)"

text \<open>An entry of \<open>/proc\<close>: its name when it is valid UTF-8, the owner, the text of \<open>stat\<close>, where
  \<open>exe\<close> points and the content of that file.\<close>

record proc_entry =
  pe_name :: "u8 list option"
  pe_owner :: "u32 option"
  pe_stat :: "u8 list option"
  pe_exe :: "u8 list option"
  pe_program :: "u8 list option"

definition process_of_entry :: "u32 \<Rightarrow> int \<Rightarrow> proc_entry \<Rightarrow> process_info option" where
  "process_of_entry current_uid hz e =
     Option.bind (Option.bind (pe_name e) parse_u32) (\<lambda>pid.
     Option.bind (pe_owner e) (\<lambda>uid.
       if uid \<noteq> current_uid then None
       else
         Option.bind (pe_stat e) (\<lambda>stat.
           if \<not> utf8_valid stat then None
           else
             Option.bind (parse_stat hz stat) (\<lambda>(name, parent_pid, start_time_micros).
               let architecture =
                 (case (if pe_exe e = None then None else executable_architecture (pe_program e)) of
                    Some a \<Rightarrow> a | None \<Rightarrow> ''unknown'') in
               Some \<lparr>pi_pid = pid, pi_parent_pid = parent_pid, pi_uid = uid, pi_name = name,
                 pi_executable_path = map_option (\<lambda>path. bytes_str (utf8_lossy path)) (pe_exe e),
                 pi_start_time_micros = start_time_micros, pi_architecture = architecture,
                 pi_attachable = True, pi_attachability_reason = None\<rparr>))))"

text \<open>\<open>read_dir\<close> may fail as a whole, and for single entries, which are skipped.\<close>

definition list_processes :: "(string \<Rightarrow> string) \<Rightarrow> u32 \<Rightarrow> int \<Rightarrow> proc_entry option list option
    \<Rightarrow> process_info list option" where
  "list_processes lower current_uid hz entries =
     map_option (\<lambda>es. sort_processes lower
       (List.map_filter (\<lambda>e. Option.bind e (process_of_entry current_uid hz)) es)) entries"

section \<open>macOS\<close>

record attachability =
  at_attachable :: bool
  at_reason :: "string option"

definition cs_get_task_allow :: u32 where
  "cs_get_task_allow = 0x4"

definition cs_runtime :: u32 where
  "cs_runtime = 0x10000"

definition cs_platform_binary :: u32 where
  "cs_platform_binary = 0x4000000"

definition classify_attachability :: "u32 \<Rightarrow> attachability" where
  "classify_attachability code_signing_flags =
     (let target_allows_debugging = code_signing_flags AND cs_get_task_allow \<noteq> 0;
          target_is_protected = code_signing_flags AND (cs_runtime OR cs_platform_binary) \<noteq> 0 in
      if target_is_protected \<and> \<not> target_allows_debugging then
        \<lparr>at_attachable = False, at_reason = Some ''Protected by macOS: this process does not allow debugging''\<rparr>
      else \<lparr>at_attachable = True, at_reason = None\<rparr>)"

text \<open>\<open>csops\<close> answers with the flags, or fails.\<close>

definition process_attachability :: "u32 option \<Rightarrow> attachability" where
  "process_attachability csops =
     (case csops of Some flags \<Rightarrow> classify_attachability flags
      | None \<Rightarrow> \<lparr>at_attachable = True, at_reason = None\<rparr>)"

definition c_char_array :: "u8 list \<Rightarrow> string option" where
  "c_char_array raw =
     (let bytes = takeWhile (\<lambda>b. b \<noteq> 0) raw in
      if bytes \<noteq> [] then Some (bytes_str (utf8_lossy bytes)) else None)"

text \<open>The identifiers, asked for with a buffer that doubles until the answer leaves room in it. The
  answers are those of the successive calls; \<^const>\<open>None\<close> when there are none left.\<close>

fun list_pids :: "nat \<Rightarrow> (nat \<Rightarrow> int \<times> int list) list \<Rightarrow> (unit + int list) option" where
  "list_pids capacity [] = None"
| "list_pids capacity (answer # answers) =
     (let (count, pids) = answer capacity in
      if count < 0 then Some (Inl ())
      else if nat count \<ge> capacity then list_pids (capacity * 2) answers
      else Some (Inr (take (nat count) pids)))"

record bsd_info =
  bi_pid :: u32
  bi_ppid :: u32
  bi_uid :: u32
  bi_name :: "u8 list"
  bi_comm :: "u8 list"
  bi_tvsec :: u64
  bi_tvusec :: u64

text \<open>What the kernel says of one process; \<open>bk_path\<close> is the buffer that \<open>proc_pidpath\<close> filled, when
  it returned a positive length.\<close>

record bsd_process =
  bk_info :: "bsd_info option"
  bk_path :: "u8 list option"
  bk_cpu_type :: "int option"
  bk_csops :: "u32 option"

definition mac_architecture :: "int option \<Rightarrow> string" where
  "mac_architecture cpu_type =
     (case cpu_type of
        Some c \<Rightarrow> if c = 0x100000C then ''arm64'' else if c = 0x1000007 then ''x86_64'' else ''unknown''
      | None \<Rightarrow> ''unknown'')"

definition mac_process :: "u32 \<Rightarrow> int \<Rightarrow> bsd_process \<Rightarrow> process_info option" where
  "mac_process uid pid k =
     (case bk_info k of None \<Rightarrow> None
      | Some bsd \<Rightarrow>
          if bi_uid bsd \<noteq> uid then None
          else
            let name = (case c_char_array (bi_name bsd) of Some n \<Rightarrow> n
                        | None \<Rightarrow> (case c_char_array (bi_comm bsd) of Some n \<Rightarrow> n
                                   | None \<Rightarrow> bytes_str (base_digits 10 (nat pid))));
                executable_path = Option.bind (bk_path k) (\<lambda>path.
                  if 0 \<in> set path then Some (bytes_str (utf8_lossy (takeWhile (\<lambda>b. b \<noteq> 0) path))) else None);
                attachability = process_attachability (bk_csops k)
            in Some \<lparr>pi_pid = bi_pid bsd, pi_parent_pid = bi_ppid bsd, pi_uid = bi_uid bsd, pi_name = name,
                 pi_executable_path = executable_path,
                 pi_start_time_micros = saturating_add_u64 (saturating_mul_u64 (bi_tvsec bsd) 1000000) (bi_tvusec bsd),
                 pi_architecture = mac_architecture (bk_cpu_type k),
                 pi_attachable = at_attachable attachability,
                 pi_attachability_reason = at_reason attachability\<rparr>)"

definition mac_list_processes :: "(string \<Rightarrow> string) \<Rightarrow> u32 \<Rightarrow> (nat \<Rightarrow> int \<times> int list) list
    \<Rightarrow> (int \<Rightarrow> bsd_process) \<Rightarrow> (unit + process_info list) option" where
  "mac_list_processes lower uid answers answered =
     map_option (\<lambda>pids. bindr pids (\<lambda>pids.
       Inr (sort_processes lower (List.map_filter (\<lambda>pid. mac_process uid pid (answered pid)) (filter (\<lambda>pid. 0 < pid) pids)))))
       (list_pids 1024 answers)"

section \<open>The stat line\<close>

text \<open>A line as the kernel writes it: the name between parentheses may hold any bytes.\<close>

definition stat_line :: "u32 \<Rightarrow> u8 list \<Rightarrow> u8 list list \<Rightarrow> u8 list" where
  "stat_line pid name fds =
     base_digits 10 (unat pid) @ [32, 40] @ name @ [41, 32] @ join_bytes [32] fds @ [10]"

definition stat_field :: "u8 list \<Rightarrow> bool" where
  "stat_field f \<longleftrightarrow> graphic f \<and> f \<noteq> [] \<and> 41 \<notin> set f"

lemma find_byte_at: "c \<notin> set xs \<Longrightarrow> find_byte c (xs @ c # ys) = Some (length xs)"
  by (simp add: find_byte_def takeWhile_stop)

lemma rfind_byte_at: "c \<notin> set ys \<Longrightarrow> rfind_byte c (xs @ c # ys) = Some (length xs)"
proof -
  assume "c \<notin> set ys"
  then have "takeWhile (\<lambda>b. b \<noteq> c) (rev ys @ c # rev xs) = rev ys" by (subst takeWhile_append2) auto
  then show ?thesis by (simp add: rfind_byte_def)
qed

lemma join_set: "set (join_bytes [32] fs) \<subseteq> insert 32 (\<Union>f\<in>set fs. set f)"
proof -
  have "set (join_bytes sep xs) \<subseteq> set sep \<union> (\<Union>f\<in>set xs. set f)" for sep xs
    by (induction sep xs rule: join_bytes.induct) auto
  from this [of "[32]" fs] show ?thesis by auto
qed

lemma split_joined:
  "list_all stat_field fs \<Longrightarrow> split_from [] (join_bytes [32] fs @ [10]) = fs"
proof (induction fs rule: induct_list012)
  case 1
  show ?case by (simp add: split_from.simps)
next
  case (2 f)
  then have "graphic f" "f \<noteq> []" by (simp_all add: stat_field_def)
  moreover have "split_from f [10] = [f]" if "f \<noteq> []"
    using that by (subst split_from.simps) (simp add: split_from.simps)
  ultimately show ?case using split_from_graphic [of f "[]" "[10]"] by simp
next
  case (3 f g fs)
  then have "graphic f" "f \<noteq> []" by (simp_all add: stat_field_def)
  then show ?case using split_words(1) [of f "join_bytes [32] (g # fs) @ [10]"] 3 by simp
qed

lemma parse_u32_text: "parse_u32 (base_digits 10 (unat w)) = Some w"
proof -
  have "\<not> prefix [43] (base_digits 10 (unat w))"
    using base_digits_not [of 10 43 "unat w"] by (auto simp: prefix_def)
  moreover have "unat w < 2 ^ 32" using unsigned_less [of w, where ?'a = nat] by simp
  ultimately show ?thesis by (simp add: parse_u32_def parse_nat_digits)
qed

lemma parse_stat_line:
  assumes "list_all stat_field fds" and "20 \<le> length fds" and "0 < hz"
    and "fds ! 1 = base_digits 10 (unat parent)" and "fds ! 19 = base_digits 10 (unat ticks)"
    and "name = [] \<or> \<not> utf8_cont (hd name)"
  shows "parse_stat hz (stat_line pid name fds)
    = Some (bytes_str name, parent, saturating_mul_u64 ticks 1000000 div word_of_int hz)"
proof -
  let ?pid = "base_digits 10 (unat pid) @ [32]" and ?rest = "join_bytes [32] fds @ [10]"
  define line where "line = stat_line pid name fds"
  have line: "line = ?pid @ 40 # name @ 41 # 32 # ?rest" "line = (?pid @ 40 # name) @ 41 # 32 # ?rest"
    by (simp_all add: line_def stat_line_def)
  have "40 \<notin> set ?pid" using base_digits_not [of 10 40 "unat pid"] by simp
  then have first: "find_byte 40 line = Some (length ?pid)" unfolding line(1) by (rule find_byte_at)
  have "41 \<notin> set (32 # ?rest)"
    using join_set [of fds] assms(1) by (auto simp: list_all_iff stat_field_def)
  then have last: "rfind_byte 41 line = Some (length (?pid @ 40 # name))" unfolding line(2) by (rule rfind_byte_at)
  have "?rest \<noteq> []" by simp
  have head: "\<not> utf8_cont (hd ?rest)"
  proof -
    obtain f fs where fs: "fds = f # fs" using assms(2) by (cases fds) auto
    then have "f \<noteq> []" "graphic f" using assms(1) by (simp_all add: stat_field_def)
    then have "hd ?rest = hd f" "hd f \<in> set f" by (cases fs; simp add: fs)+
    moreover have "b \<le> 126" if "b \<in> set f" for b using \<open>graphic f\<close> that by (simp add: graphic_def list_all_iff)
    ultimately show ?thesis by (force simp: utf8_cont_def word_le_nat_alt)
  qed
  have "str_get (length ?pid + 1) (length (?pid @ 40 # name)) line = Some name"
    using assms(6) by (cases name) (simp_all add: str_get_def char_boundary_def line(1) nth_append utf8_cont_def)
  moreover have "str_get (length (?pid @ 40 # name) + 2) (length line) line = Some ?rest"
    using head \<open>?rest \<noteq> []\<close>
    by (simp add: str_get_def char_boundary_def line(2) nth_append hd_conv_nth drop_Cons' del: hd_append)
  moreover have "split_whitespace ?rest = fds" by (simp only: split_whitespace_def split_joined [OF assms(1)])
  ultimately show ?thesis
    using first last assms(2-5)
    by (simp add: parse_stat_def line_def [symmetric] nth_field_def parse_u32_text Let_def)
qed

text \<open>\<open>read_to_string\<close> refuses a line that is not UTF-8, so a process whose name the kernel cut inside a
  character is not listed.\<close>

lemma cut_name_hides_process:
  "\<not> utf8_valid stat \<Longrightarrow> process_of_entry uid hz (e\<lparr>pe_stat := Some stat\<rparr>) = None"
  by (simp add: process_of_entry_def split: bind_split)

lemma listed_processes:
  assumes "list_processes lower uid hz (Some es) = Some ps"
  shows "mset ps = mset (List.map_filter (\<lambda>e. Option.bind e (process_of_entry uid hz)) es)
    \<and> sorted (map (process_order lower) ps) \<and> list_all (\<lambda>p. pi_uid p = uid \<and> pi_attachable p) ps"
proof -
  let ?sel = "List.map_filter (\<lambda>e. Option.bind e (process_of_entry uid hz)) es"
  have ps: "ps = sort_key (process_order lower) ?sel" using assms by (simp add: list_processes_def sort_processes_def)
  have one: "pi_uid p = uid \<and> pi_attachable p" if "process_of_entry uid hz e = Some p" for e p
    using that unfolding process_of_entry_def Option.bind_eq_Some_conv Let_def
    by (elim exE conjE; simp split: if_splits; elim exE conjE; simp add: Option.bind_eq_Some_conv split: if_splits prod.splits; elim exE conjE; auto)
  then have "pi_uid p = uid \<and> pi_attachable p" if "p \<in> set ?sel" for p
    using that by (auto simp: List.map_filter_def Option.bind_eq_Some_conv)
  then show ?thesis by (simp add: ps list_all_iff)
qed

text \<open>A line is UTF-8 exactly when the name in it is.\<close>

lemma utf8_valid_ascii: "list_all (\<lambda>b. b < 0x80) xs \<Longrightarrow> utf8_valid (xs @ ys) = utf8_valid ys"
  by (induction xs) simp_all

lemma utf8_valid_before:
  assumes "b < 0x80"
  shows "utf8_valid (xs @ b # ys) \<longleftrightarrow> utf8_valid xs \<and> utf8_valid ys"
proof -
  have "\<not> utf8_cont b" using assms by (auto simp: utf8_cont_def word_less_nat_alt word_le_nat_alt)
  then show ?thesis
  proof (induction xs rule: utf8_valid.induct)
    case 1
    then show ?case using assms by simp
  next
    case (2 a bs)
    note step = utf8_valid.simps(2) [of a]
    consider "a < 0x80" | "\<not> a < 0x80" "0xC2 \<le> a \<and> a \<le> 0xDF"
      | "\<not> a < 0x80" "\<not> (0xC2 \<le> a \<and> a \<le> 0xDF)" "0xE0 \<le> a \<and> a \<le> 0xEF"
      | "\<not> a < 0x80" "\<not> (0xC2 \<le> a \<and> a \<le> 0xDF)" "\<not> (0xE0 \<le> a \<and> a \<le> 0xEF)" "0xF0 \<le> a \<and> a \<le> 0xF4"
      | "\<not> a < 0x80" "\<not> (0xC2 \<le> a \<and> a \<le> 0xDF)" "\<not> (0xE0 \<le> a \<and> a \<le> 0xEF)" "\<not> (0xF0 \<le> a \<and> a \<le> 0xF4)"
      by blast
    then show ?case
    proof cases
      case 1
      then show ?thesis using 2(1) [OF 1] "2.prems" unfolding append_Cons step by simp
    next
      case c: 2
      show ?thesis
        unfolding append_Cons step by (cases bs) (use 2(2) [OF c] "2.prems" in \<open>simp_all only: c if_True if_False append.simps list.case, auto\<close>)
    next
      case c: 3
      show ?thesis
        unfolding append_Cons step
        by (cases bs rule: remdups_adj.cases)
          (use 2(3) [OF c] "2.prems" in \<open>simp_all only: c if_True if_False append.simps list.case, auto split: list.split\<close>)
    next
      case c: 4
      then show ?thesis
        unfolding append_Cons step
        by (cases bs; cases "tl bs"; cases "tl (tl bs)")
          (use 2(4) [OF c] "2.prems" in \<open>simp_all only: c if_True if_False append.simps list.case list.sel, auto split: list.split\<close>)
    next
      case c: 5
      show ?thesis unfolding append_Cons step by (simp only: c if_False simp_thms)
    qed
  qed
qed

lemma graphic_ascii: "graphic bs \<Longrightarrow> list_all (\<lambda>b. b < 0x80) bs"
  by (auto simp: graphic_def list_all_iff word_less_nat_alt word_le_nat_alt)

lemma stat_line_utf8:
  assumes "list_all stat_field fds"
  shows "utf8_valid (stat_line pid name fds) \<longleftrightarrow> utf8_valid name"
proof -
  let ?pid = "base_digits 10 (unat pid) @ [32, 40]" and ?rest = "32 # join_bytes [32] fds @ [10]"
  have "b < 0x80" if "b \<in> set f" "f \<in> set fds" for b f
    using that assms graphic_ascii [of f] by (simp add: list_all_iff stat_field_def)
  then have "list_all (\<lambda>b. b < 0x80) ?rest"
    using join_set [of fds] unfolding list_all_iff by auto
  then have "utf8_valid ?rest" using utf8_valid_ascii [of ?rest "[]"] by (simp only: append_Nil2) simp
  moreover have "list_all (\<lambda>b. b < 0x80) ?pid" using graphic_ascii [OF graphic_digits [of 10]] by simp
  then have "utf8_valid (?pid @ name @ 41 # ?rest) = utf8_valid (name @ 41 # ?rest)" by (rule utf8_valid_ascii)
  ultimately show ?thesis using utf8_valid_before [of 41 name ?rest] by (simp add: stat_line_def)
qed

section \<open>Properties\<close>

text \<open>C40: an own process whose \<open>/proc/<pid>/stat\<close> has the usual fields is listed exactly when its name is
  UTF-8, then with that name, whatever spaces, parentheses and line feeds it holds, with its parent
  and with its start in microseconds; a name that is not UTF-8 makes the process disappear.\<close>

theorem stat_line_read:
  assumes "list_all stat_field fds" and "20 \<le> length fds" and "0 < hz"
    and "fds ! 1 = base_digits 10 (unat parent)" and "fds ! 19 = base_digits 10 (unat ticks)"
    and "pe_name e = Some (base_digits 10 (unat pid))" and "pe_owner e = Some uid"
    and "pe_stat e = Some (stat_line pid name fds)"
  shows "map_option (\<lambda>p. (pi_pid p, pi_name p, pi_parent_pid p, pi_start_time_micros p)) (process_of_entry uid hz e)
    = (if utf8_valid name
       then Some (pid, bytes_str name, parent, saturating_mul_u64 ticks 1000000 div word_of_int hz)
       else None)"
proof (cases "utf8_valid name")
  case True
  then have "name = [] \<or> \<not> utf8_cont (hd name)"
    by (cases name) (auto simp: utf8_cont_def word_less_nat_alt word_le_nat_alt split: if_splits)
  from parse_stat_line [OF assms(1-5) this] show ?thesis
    using True assms(6-8) stat_line_utf8 [OF assms(1)] by (simp add: process_of_entry_def parse_u32_text Let_def)
next
  case False
  then show ?thesis
    using assms(6-8) stat_line_utf8 [OF assms(1)] by (simp add: process_of_entry_def parse_u32_text)
qed

definition demo_entry :: proc_entry where
  "demo_entry = \<lparr>pe_name = Some (base_digits 10 42), pe_owner = Some 1000,
     pe_stat = Some (stat_line 42 [41, 32, 0xC3, 0xA9, 40, 10] ([[83], [55]] @ replicate 17 [48] @ [[57]])),
     pe_exe = None, pe_program = None\<rparr>"

theorem stat_line_read_witness:
  "map_option (\<lambda>p. (pi_pid p, pi_name p, pi_parent_pid p, pi_start_time_micros p)) (process_of_entry 1000 100 demo_entry)
    = Some (42, bytes_str [41, 32, 0xC3, 0xA9, 40, 10], 7, 90000)"
proof -
  let ?fds = "[[83], [55]] @ replicate 17 [48] @ [[57]] :: u8 list list"
  let ?name = "[41, 32, 0xC3, 0xA9, 40, 10] :: u8 list"
  have digits: "base_digits 10 7 = [55]" "base_digits 10 9 = [57]"
    by (simp_all add: base_digits.simps digit_def)
  have fields: "list_all stat_field ?fds" by (simp add: stat_field_def graphic_def list_all_iff)
  have numbers: "?fds ! 1 = base_digits 10 (unat (7 :: u32))" "?fds ! 19 = base_digits 10 (unat (9 :: u64))"
    by (simp_all add: digits nth_append)
  have entry: "pe_name demo_entry = Some (base_digits 10 (unat (42 :: u32)))" "pe_owner demo_entry = Some 1000"
    "pe_stat demo_entry = Some (stat_line 42 ?name ?fds)"
    by (simp_all add: demo_entry_def)
  have "utf8_valid ?name" by (simp add: utf8_cont_def)
  moreover have "saturating_mul_u64 9 1000000 div word_of_int 100 = 90000"
    by (simp add: saturating_mul_u64_def)
  ultimately show ?thesis
    using stat_line_read [OF fields _ _ numbers entry, of 100] by simp
qed

end
