(* ===== verification/Capture.thy ===== *)
theory Capture
  imports Heap_Log Malloc_History
begin

text \<open>
  Heap capture (\<open>src/heap/capture.rs\<close>): the guards of \<open>run\<close> and \<open>attach\<close>, and the capture loops on
  macOS, which asks \<open>malloc_history\<close> for the whole history at every checkpoint and talks to the
  recorder in the target over a channel.

  One turn of a loop is a record of what the loop observes in it. What the capture does to the
  outside is a trace. A \<open>Duration\<close> is a number of nanoseconds.
\<close>

section \<open>Options\<close>

record capture_options =
  co_interval :: nat
  co_duration :: "nat option"

definition default_options :: capture_options where
  "default_options = \<lparr>co_interval = 2000000000, co_duration = None\<rparr>"

definition capture_done :: "nat \<Rightarrow> capture_options \<Rightarrow> bool \<Rightarrow> bool" where
  "capture_done elapsed options stop \<longleftrightarrow>
     stop \<or> (case co_duration options of None \<Rightarrow> False | Some d \<Rightarrow> d \<le> elapsed)"

datatype capture_error = ZeroInterval | LogCapture log_error | HistoryCapture history_error
  | ToolFailed | ToolNotStarted | NoRecorderLibrary | PreloadInUse | TargetNotLaunched
  | NoRecorderConfiguration | NotLoggingFully | ReplacedBySecondStart | ChannelFailed
  | WaitFailed | ExitedWithoutCheckpoint string | FinalizerSilent | PprofFailed error

text \<open>\<open>run\<close> and \<open>attach\<close> refuse a zero interval before anything else.\<close>

definition capture_guard :: "capture_options \<Rightarrow> (capture_error + 'p) option \<times> 'c list
    \<Rightarrow> (capture_error + 'p) option \<times> 'c list" where
  "capture_guard options go = (if co_interval options = 0 then (Some (Inl ZeroInterval), []) else go)"

text \<open>Dropping the child that a capture owns: its process group is killed unless it has exited, and it
  is reaped.\<close>

datatype child_call = KillGroup u32 | Reap u32

definition drop_child :: "u32 \<Rightarrow> bool \<Rightarrow> child_call list" where
  "drop_child pid exited = (if exited then [] else [KillGroup pid]) @ [Reap pid]"

section \<open>Linux\<close>

text \<open>\<open>run\<close> on Linux around its loop. \<open>library\<close> is the recorder that the build embeds.\<close>

definition capture_run :: "capture_options \<Rightarrow> u8 list \<Rightarrow> bool \<Rightarrow> u32 option \<Rightarrow> u32 \<Rightarrow> string \<Rightarrow> turn list
    \<Rightarrow> (capture_error + profile) option \<times> profile list" where
  "capture_run options library preload_set spawned me log ts =
     capture_guard options
     (if library = [] then (Some (Inl NoRecorderLibrary), [])
      else if preload_set then (Some (Inl PreloadInUse), [])
      else
        (case spawned of
           None \<Rightarrow> (Some (Inl TargetNotLaunched), [])
         | Some pid \<Rightarrow>
             let (result, ps) = run_loop me log pid ts None in (map_option (map_error LogCapture) result, ps)))"

definition capture_attach :: "capture_options \<Rightarrow> u8 list option \<Rightarrow> (u8 list \<Rightarrow> u8 list \<times> u32 \<times> u32) \<Rightarrow> u32 \<Rightarrow> u32
    \<Rightarrow> turn list \<Rightarrow> (capture_error + profile) option \<times> profile list" where
  "capture_attach options environ open_log me pid ts =
     capture_guard options
       (case Option.bind environ recorder_path of
           None \<Rightarrow> (Some (Inl NoRecorderConfiguration), [])
         | Some path \<Rightarrow>
             let (result, ps) = attach me ts (bytes_str path) pid (open_log path) in
             (map_option (map_error LogCapture) result, ps))"

section \<open>The malloc history tool\<close>

record tool_run =
  tr_started :: bool
  tr_output :: "u8 list"
  tr_waited :: bool
  tr_success :: bool
  tr_now :: int

text \<open>\<open>macos_snapshot\<close>. A report that cannot be parsed makes it kill the tool, and wins over its exit
  status.\<close>

definition macos_snapshot :: "tool_run \<Rightarrow> capture_error + profile" where
  "macos_snapshot t =
     (if \<not> tr_started t then Inl ToolNotStarted
      else
        let parsed = parse_reader (tr_now t) (tr_output t) in
        if \<not> tr_waited t then Inl WaitFailed
        else
          (case parsed of
             Inl e \<Rightarrow> Inl (HistoryCapture e)
           | Inr hp \<Rightarrow> if \<not> tr_success t then Inl ToolFailed else map_error PprofFailed (to_pprof hp)))"

section \<open>Capturing a new process on macOS\<close>

text \<open>What a read of the channel gives: a start, a finalisation, an error that is neither
  \<open>WouldBlock\<close> nor \<open>Interrupted\<close>, or nothing that counts.\<close>

datatype channel = Started | Finalize | Broken | Nothing

record mac_capture_turn =
  ct_channel :: channel
  ct_wait :: "unit + string option"
  ct_child_waits :: bool
  ct_stop :: bool
  ct_done :: bool
  ct_due :: bool
  ct_late :: bool
  ct_tool :: tool_run

datatype capture_call = Checkpoint profile | Acknowledge | AwaitChild

definition with_comment :: "string \<Rightarrow> profile \<Rightarrow> profile" where
  "with_comment note p =
     (let (i, strings) = intern (p_strings p) note in p\<lparr>p_strings := strings, p_comments := p_comments p @ [i]\<rparr>)"

definition exit_note :: "string \<Rightarrow> string" where
  "exit_note status = ''Target exited with '' @ status
     @ '' before finalization; this is the last successfully collected checkpoint.''"

text \<open>The rest of a turn, after the channel: the child's exit, a checkpoint that is due, the end of the
  capture, and a recorder that never reported. It gives the result, if the loop returns, the last
  profile, and the trace.\<close>

definition after_channel :: "mac_capture_turn \<Rightarrow> bool \<Rightarrow> profile option
    \<Rightarrow> (capture_error + profile) option \<times> profile option \<times> capture_call list" where
  "after_channel t ready last_profile =
     (case ct_wait t of
        Inl _ \<Rightarrow> (Some (Inl WaitFailed), last_profile, [])
      | Inr (Some status) \<Rightarrow>
          (case last_profile of
             Some p \<Rightarrow> (Some (Inr (with_comment (exit_note status) p)), last_profile, [])
           | None \<Rightarrow> (Some (Inl (ExitedWithoutCheckpoint status)), last_profile, []))
      | Inr None \<Rightarrow>
          let finished = (ready \<and> ct_done t) in
          if ready \<and> (ct_due t \<or> finished) then
            (case macos_snapshot (ct_tool t) of
               Inl e \<Rightarrow> (Some (Inl e), last_profile, [])
             | Inr p \<Rightarrow> (if finished then Some (Inr p) else None, Some p, [Checkpoint p]))
          else if \<not> ready \<and> (ct_stop t \<or> ct_late t) then (Some (Inl FinalizerSilent), last_profile, [])
          else (None, last_profile, []))"

fun mac_capture_loop :: "mac_capture_turn list \<Rightarrow> bool \<Rightarrow> profile option
    \<Rightarrow> (capture_error + profile) option \<times> capture_call list" where
  "mac_capture_loop [] ready last_profile = (None, [])"
| "mac_capture_loop (t # ts) ready last_profile =
     (if ct_channel t = Finalize then
        (case macos_snapshot (ct_tool t) of
           Inl e \<Rightarrow> (Some (Inl e), [Acknowledge])
         | Inr p \<Rightarrow>
             (Some (if ct_child_waits t then Inr p else Inl WaitFailed), [Acknowledge, Checkpoint p, AwaitChild]))
      else if ct_channel t = Broken then (Some (Inl ChannelFailed), [])
      else if ct_channel t = Started \<and> ready then (Some (Inl ReplacedBySecondStart), [])
      else
        let ready = (ready \<or> ct_channel t = Started);
            (result, last_profile, calls) = after_channel t ready last_profile in
        if result \<noteq> None then (result, calls)
        else
          let (result, calls') = mac_capture_loop ts ready last_profile in (result, calls @ calls'))"

definition mac_capture_run :: "capture_options \<Rightarrow> bool \<Rightarrow> bool \<Rightarrow> u32 option \<Rightarrow> mac_capture_turn list
    \<Rightarrow> (capture_error + profile) option \<times> capture_call list" where
  "mac_capture_run options channel_passed insert_set spawned ts =
     capture_guard options
     (if \<not> channel_passed then (Some (Inl ChannelFailed), [])
      else if insert_set then (Some (Inl PreloadInUse), [])
      else if spawned = None then (Some (Inl TargetNotLaunched), [])
      else mac_capture_loop ts False None)"

section \<open>Attaching on macOS\<close>

text \<open>The output of \<open>ps\<close> must show full logging.\<close>

definition logging_fully :: "u8 list \<Rightarrow> bool" where
  "logging_fully environment =
     (let words = split_whitespace environment in
      str_bytes ''MallocStackLoggingNoCompact=1'' \<in> set words
      \<and> \<not> list_ex (prefix (str_bytes ''MallocStackLogging='')) words)"

text \<open>A turn of the attach loop: whether it goes on, whether the process is there after the wait, the
  report, and whether the process is there when the report has failed.\<close>

record mac_attach_turn =
  mc_running :: bool
  mc_alive :: bool
  mc_tool :: tool_run
  mc_alive_after :: bool

fun mac_attach_loop :: "mac_attach_turn list \<Rightarrow> profile \<Rightarrow> (capture_error + profile) option \<times> profile list" where
  "mac_attach_loop [] p = (None, [])"
| "mac_attach_loop (t # ts) p =
     (if \<not> mc_running t then (Some (Inr p), [])
      else if \<not> mc_alive t then mac_attach_loop ts p
      else
        (case macos_snapshot (mc_tool t) of
           Inr q \<Rightarrow> let (result, qs) = mac_attach_loop ts q in (result, q # qs)
         | Inl e \<Rightarrow> if \<not> mc_alive_after t then (Some (Inr p), []) else (Some (Inl e), [])))"

definition mac_capture_attach :: "capture_options \<Rightarrow> u8 list option \<Rightarrow> tool_run \<Rightarrow> mac_attach_turn list
    \<Rightarrow> (capture_error + profile) option \<times> profile list" where
  "mac_capture_attach options ps first ts =
     capture_guard options
       (case ps of
           None \<Rightarrow> (Some (Inl ToolNotStarted), [])
         | Some output \<Rightarrow>
             if \<not> logging_fully (utf8_lossy output) then (Some (Inl NotLoggingFully), [])
             else
               (case macos_snapshot first of
                  Inl e \<Rightarrow> (Some (Inl e), [])
                | Inr p \<Rightarrow> let (result, ps) = mac_attach_loop ts p in (result, p # ps)))"

section \<open>What a capture returns\<close>

fun checkpoints :: "capture_call list \<Rightarrow> profile list" where
  "checkpoints [] = []"
| "checkpoints (Checkpoint p # calls) = p # checkpoints calls"
| "checkpoints (_ # calls) = checkpoints calls"

lemma checkpoints_append [simp]: "checkpoints (xs @ ys) = checkpoints xs @ checkpoints ys"
  by (induction xs rule: checkpoints.induct) simp_all

text \<open>The last profile that a list of checkpoints, after an earlier one, leaves.\<close>

definition last_of :: "profile option \<Rightarrow> profile list \<Rightarrow> profile option" where
  "last_of earlier ps = (if ps = [] then earlier else Some (last ps))"

lemma last_of_simps [simp]: "last_of e [] = e" "last_of e [p] = Some p" "last_of e (xs @ ys) = last_of (last_of e xs) ys"
  by (simp_all add: last_of_def)

lemma after_channel_last:
  "after_channel t ready lp = (result, lp', calls) \<Longrightarrow>
     lp' = last_of lp (checkpoints calls)
     \<and> (\<forall>p. result = Some (Inr p) \<longrightarrow> (\<exists>q. lp' = Some q \<and> (p = q \<or> (\<exists>status. p = with_comment (exit_note status) q))))"
  by (auto simp: after_channel_def Let_def split: sum.splits option.splits if_splits)

lemma mac_capture_returns:
  "mac_capture_loop ts ready lp = (Some (Inr p), calls) \<Longrightarrow>
     \<exists>q. last_of lp (checkpoints calls) = Some q \<and> (p = q \<or> (\<exists>status. p = with_comment (exit_note status) q))"
proof (induction ts arbitrary: ready lp calls)
  case (Cons t ts)
  show ?case
  proof (cases "ct_channel t = Finalize \<or> ct_channel t = Broken \<or> ct_channel t = Started \<and> ready")
    case True
    then show ?thesis using Cons.prems by (auto split: sum.splits if_splits)
  next
    case False
    define ready' where "ready' = (ready \<or> ct_channel t = Started)"
    obtain result lp' calls1 where after: "after_channel t ready' lp = (result, lp', calls1)"
      by (cases "after_channel t ready' lp") auto
    note last = after_channel_last [OF after]
    have loop: "mac_capture_loop (t # ts) ready lp =
        (if result \<noteq> None then (result, calls1)
         else let (result, calls') = mac_capture_loop ts ready' lp' in (result, calls1 @ calls'))"
    proof -
      have "ct_channel t \<noteq> Finalize" "ct_channel t \<noteq> Broken" "\<not> (ct_channel t = Started \<and> ready)"
        using False by auto
      then show ?thesis using after by (simp add: ready'_def Let_def del: de_Morgan_conj)
    qed
    show ?thesis
    proof (cases result)
      case None
      obtain calls2 where "mac_capture_loop ts ready' lp' = (Some (Inr p), calls2)" "calls = calls1 @ calls2"
        using Cons.prems None unfolding loop by (auto split: prod.splits)
      then show ?thesis using Cons.IH last by simp
    next
      case (Some r)
      then have "result = Some (Inr p)" "calls = calls1"
        using Cons.prems unfolding loop by simp_all
      moreover obtain q where "lp' = Some q" "p = q \<or> (\<exists>status. p = with_comment (exit_note status) q)"
        using last calculation(1) by blast
      ultimately show ?thesis using last by (intro exI [of _ q]) simp
    qed
  qed
qed simp

lemma finalize_acknowledged:
  "ct_channel t = Finalize \<Longrightarrow> Acknowledge \<in> set (snd (mac_capture_loop (t # ts) ready lp))"
  by (simp split: sum.split)

lemma mac_attach_returns:
  "mac_attach_loop ts p = (Some (Inr q), ps) \<Longrightarrow> q = last (p # ps)"
proof (induction ts arbitrary: p ps)
  case (Cons t ts)
  show ?case
  proof (cases "mc_running t \<and> mc_alive t \<and> (\<exists>r. macos_snapshot (mc_tool t) = Inr r)")
    case True
    then obtain r qs where "mac_attach_loop ts r = (Some (Inr q), qs)" "ps = r # qs"
      using Cons.prems by (auto split: prod.splits)
    then show ?thesis using Cons.IH [of r qs] by simp
  next
    case False
    then show ?thesis using Cons.prems Cons.IH [of p ps] by (auto split: if_splits sum.splits)
  qed
qed simp

section \<open>Properties\<close>

text \<open>on macOS a capture that returns a profile returns the last checkpoint it published, from a
  new process with a note when the target ended before finalisation, and unchanged from a process
  it attached to: no artifact is newer than, or differs from, what the callback has seen.\<close>

theorem mac_capture_returns_checkpoint:
  assumes "mac_capture_run options channel_passed insert_set spawned ts = (Some (Inr p), calls)"
    and "mac_capture_attach options' ps first turns = (Some (Inr q), published)"
  shows "(\<exists>r. last_of None (checkpoints calls) = Some r \<and> (p = r \<or> (\<exists>status. p = with_comment (exit_note status) r)))
    \<and> published \<noteq> [] \<and> q = last published"
proof
  have "mac_capture_loop ts False None = (Some (Inr p), calls)"
    using assms(1) by (auto simp: mac_capture_run_def capture_guard_def split: if_splits)
  then show "\<exists>r. last_of None (checkpoints calls) = Some r \<and> (p = r \<or> (\<exists>status. p = with_comment (exit_note status) r))"
    by (rule mac_capture_returns)
  obtain r qs where "mac_attach_loop turns r = (Some (Inr q), qs)" "published = r # qs"
    using assms(2) by (auto simp: mac_capture_attach_def capture_guard_def split: if_splits option.splits sum.splits prod.splits)
  then show "published \<noteq> [] \<and> q = last published" using mac_attach_returns [of turns r q qs] by simp
qed

definition demo_tool :: tool_run where
  "demo_tool = \<lparr>tr_started = True,
     tr_output = report_text (report_lines [] [] []), tr_waited = True, tr_success = True, tr_now = 5\<rparr>"

lemma demo_tool_snapshot: "\<exists>r. macos_snapshot demo_tool = Inr r \<and> tables_small r"
proof -
  have texts: "str_bytes ''malloc_history Report Version:  2.0'' = [109, 97, 108, 108, 111, 99, 95, 104, 105, 115, 116, 111, 114,
      121, 32, 82, 101, 112, 111, 114, 116, 32, 86, 101, 114, 115, 105, 111, 110, 58, 32, 32, 50, 46, 48]"
    by (simp add: str_bytes_def byte_of_char_def)
  have "list_all plain (report_lines [] [] [])"
    by (simp add: report_lines_def plain_def texts event_words)
  then have lines: "str_lines (tr_output demo_tool) = report_lines [] [] []"
    by (simp add: demo_tool_def str_lines_report)
  have utf8: "utf8_valid (str_bytes ''malloc_history Report Version:  2.0'')" "utf8_valid (str_bytes ''----'')"
    "utf8_valid (str_bytes ''Binary Images:'')"
    by (simp_all add: texts event_words)
  have "str_bytes ''----'' \<noteq> str_bytes ''Binary Images:''" by (simp add: event_words)
  then have "\<exists>hp. parse_reader 5 (tr_output demo_tool) = Inr hp \<and> hp_samples hp = [] \<and> hp_domain hp = ''native''
      \<and> hp_collected_at hp = 5 \<and> hp_comment hp = history_comment 0"
    unfolding parse_reader_def lines report_lines_def
    by (simp add: utf8 ensure_def history_step_def history_new_def tr_snapshot_def tracker_new_def map_error_def
        heap_profile_new_def annotate_samples_def)
  then obtain hp where hp: "parse_reader 5 (tr_output demo_tool) = Inr hp"
    and fields: "hp_samples hp = []" "hp_domain hp = ''native''" "hp_collected_at hp = 5" "hp_comment hp = history_comment 0"
    by blast
  obtain cs where comment: "hp_comment hp = CHR ''E'' # cs" by (simp add: fields(4) history_comment_def)
  have "\<exists>r. to_pprof hp = Inr r \<and> tables_small r"
    by (simp add: to_pprof_def fields(1-3) comment nanos_since_epoch_def i64_max_def heap_header_def heap_types_def push_value_type_def
        profile_intern_def profile_new_def st_new_def st_empty_def intern_def tables_small_def st_small_def Let_def
        split: option.split)
  then show ?thesis using hp by (auto simp: macos_snapshot_def demo_tool_def)
qed

definition demo_capture_turn :: "channel \<Rightarrow> string option \<Rightarrow> mac_capture_turn" where
  "demo_capture_turn c status = \<lparr>ct_channel = c, ct_wait = Inr status, ct_child_waits = True, ct_stop = False,
     ct_done = False, ct_due = True, ct_late = False, ct_tool = demo_tool\<rparr>"

theorem mac_capture_returns_checkpoint_witness:
  "\<exists>p calls q published.
     mac_capture_run default_options True False (Some 7) [demo_capture_turn Started None, demo_capture_turn Nothing (Some ''signal 9'')]
       = (Some (Inr p), calls)
     \<and> mac_capture_attach default_options (Some (str_bytes ''app MallocStackLoggingNoCompact=1'')) demo_tool
         [\<lparr>mc_running = False, mc_alive = False, mc_tool = demo_tool, mc_alive_after = False\<rparr>] = (Some (Inr q), published)
     \<and> length (checkpoints calls) = 1 \<and> q = last published"
proof -
  obtain r where r: "macos_snapshot demo_tool = Inr r" using demo_tool_snapshot by blast
  obtain p calls where run: "mac_capture_run default_options True False (Some 7)
      [demo_capture_turn Started None, demo_capture_turn Nothing (Some ''signal 9'')] = (Some (Inr p), calls)"
    and one: "length (checkpoints calls) = 1"
    by (simp add: mac_capture_run_def capture_guard_def default_options_def demo_capture_turn_def after_channel_def r)
  have "logging_fully (utf8_lossy (str_bytes ''app MallocStackLoggingNoCompact=1''))" by code_simp
  then obtain q published where att: "mac_capture_attach default_options (Some (str_bytes ''app MallocStackLoggingNoCompact=1'')) demo_tool
      [\<lparr>mc_running = False, mc_alive = False, mc_tool = demo_tool, mc_alive_after = False\<rparr>] = (Some (Inr q), published)"
    by (simp add: mac_capture_attach_def capture_guard_def default_options_def r)
  from mac_capture_returns_checkpoint [OF run att] have "q = last published" by blast
  then show ?thesis using run att one by blast
qed

end
