(* ===== verification/Main_Program.thy ===== *)
theory Main_Program
  imports Commands Session Processes
begin

text \<open>
  The program around the commands (\<open>src/main.rs\<close>, \<open>src/cli.rs\<close>): the signal handler, the \<open>run\<close> and
  \<open>attach\<close> commands with their publishing loop, the checks before an attach, installing the heap
  recorder, printing the process list, and the dispatch of the command line.

  What the loop of a command observes in one turn is a record. The commands run the Linux sampler;
  the checks that only macOS makes are in \<open>mac_preflight\<close>. A result of \<^const>\<open>None\<close> means that the
  command has not ended.
\<close>

section \<open>Signals\<close>

record signal_state =
  sg_stop :: bool
  sg_child :: int

text \<open>\<open>signal_handler\<close>: the new state, and the signals that are forwarded.\<close>

definition signal_handler :: "int \<Rightarrow> signal_state \<Rightarrow> signal_state \<times> (int \<times> int) list" where
  "signal_handler sig st =
     (st\<lparr>sg_stop := True\<rparr>, if 0 < sg_child st then [(sg_child st, sig)] else [])"

section \<open>Settings\<close>

text \<open>\<open>Duration::from_secs_f64\<close>, in nanoseconds; \<^const>\<open>None\<close> is its panic.\<close>

definition duration_from_secs :: "f64 \<Rightarrow> nat option" where
  "duration_from_secs secs =
     (case secs of
        Finite s \<Rightarrow> if 0 \<le> s \<and> s < 2 ^ 64 then Some (nat (round_half_even (s * 1000000000))) else None
      | _ \<Rightarrow> None)"

definition apply_duration :: "f64 option \<Rightarrow> builder \<Rightarrow> builder option" where
  "apply_duration secs b =
     (case secs of
        None \<Rightarrow> Some b
      | Some s \<Rightarrow> map_option (\<lambda>d. set_duration d b) (duration_from_secs s))"

definition filter_builder :: "string option \<Rightarrow> u64 option \<Rightarrow> bool \<Rightarrow> builder \<Rightarrow> builder" where
  "filter_builder thread thread_id main_thread b =
     b\<lparr>bd_thread_filter := apply_thread_filter (bd_thread_filter b) thread thread_id main_thread\<rparr>"

record settings =
  sx_freq :: u32
  sx_output :: path
  sx_duration :: "f64 option"
  sx_thread :: "string option"
  sx_thread_id :: "u64 option"
  sx_main_thread :: bool
  sx_publish :: bool

definition settings_builder :: "settings \<Rightarrow> builder option" where
  "settings_builder x = apply_duration (sx_duration x)
     (filter_builder (sx_thread x) (sx_thread_id x) (sx_main_thread x) (set_freq (sx_freq x) builder_new))"

section \<open>The loop of a session\<close>

datatype main_error = CommandFailed command_error | SessionFailed session_error | Panicked
  | ListFailed | Unattachable string | RecorderNotSupported | AlreadyThere

record live_turn =
  lt_stop_flag :: bool
  lt_is_stopped :: bool
  lt_due :: bool
  lt_network :: "environment \<times> environment"
  lt_snapshot :: raw_profile

text \<open>The variables of the loop are those of \<open>Publish\<close>, absent when nothing is published.\<close>

fun session_loop :: "host \<Rightarrow> u32 \<Rightarrow> int \<Rightarrow> live_turn list \<Rightarrow> session option \<Rightarrow> (session option) result option" where
  "session_loop h freq wall [] s = None"
| "session_loop h freq wall (t # ts) s =
     (if lt_stop_flag t \<or> lt_is_stopped t then Some (Inr s)
      else
        (case s of
           None \<Rightarrow> session_loop h freq wall ts None
         | Some se \<Rightarrow>
             if lt_due t then
               (case publish_update h freq wall (lt_network t) (lt_snapshot t) se of
                  Inl e \<Rightarrow> Some (Inl e)
                | Inr se \<Rightarrow> session_loop h freq wall ts (Some se))
             else session_loop h freq wall ts s))"

text \<open>What a session meets outside the program.\<close>

record surroundings =
  sv_host :: host
  sv_sampling :: session_host
  sv_turns :: "live_turn list"
  sv_wall :: int
  sv_deadline_clock :: nat
  sv_start_clock :: nat
  sv_end_clock :: nat
  sv_maps :: "u8 list option"
  sv_session_id :: string
  sv_network :: "environment \<times> environment"
  sv_gzip :: gzip
  sv_outcome :: write_outcome

text \<open>What \<open>handle.start()\<close> gives, and the command from there to its end. An error of \<open>profile.stop()\<close>
  ends it before anything is written.\<close>

definition session_of :: "surroundings \<Rightarrow> handle \<Rightarrow> sampling_session result" where
  "session_of v h =
     bindr (handle_start (sv_wall v) (sv_deadline_clock v) (sv_start_clock v) (sv_end_clock v) (sv_maps v) h)
       (\<lambda>(sn, _). Inr sn)"

definition run_session :: "surroundings \<Rightarrow> settings \<Rightarrow> handle \<Rightarrow> sampling_session \<Rightarrow> publisher option \<Rightarrow> files
    \<Rightarrow> ((main_error + publisher option) \<times> files) option" where
  "run_session v x h sn publisher files =
     (case session_loop (sv_host v) (sx_freq x) (sv_wall v) (sv_turns v) (map_option session_new publisher) of
        None \<Rightarrow> None
      | Some (Inl _) \<Rightarrow> Some (Inl Panicked, files)
      | Some (Inr s) \<Rightarrow>
          map_option
            (\<lambda>e. case session_stop (h_demangle (sv_host v)) (h_disk (sv_host v)) (h_native (sv_host v)) (en_result e)
                   (signal_stop sn) of
               Inl err \<Rightarrow> (Inl (SessionFailed err), files)
             | Inr sp \<Rightarrow>
                 (case finish_session (sv_gzip v) (h_file_size (sv_host v)) (sv_network v) (sv_outcome v) (Inr sp)
                    (sx_output x) (map_option se_publisher s) files of
                    (Inl err, files) \<Rightarrow> (Inl (CommandFailed err), files)
                  | (Inr p, files) \<Rightarrow> (Inr p, files)))
            (run_sampling_loop (hd_sampler h) (sv_sampling v) sn))"

definition session_publisher :: "surroundings \<Rightarrow> settings \<Rightarrow> string \<Rightarrow> string \<Rightarrow> u32 \<Rightarrow> string \<Rightarrow> publisher option" where
  "session_publisher v x session_id mode pid name =
     (if sx_publish x
      then Some (publisher_new default_session_port (session_hello_new session_id mode pid name (sx_freq x)))
      else None)"

section \<open>Running a program\<close>

definition run_command :: "surroundings \<Rightarrow> u32 option \<Rightarrow> bool \<Rightarrow> tracing \<Rightarrow> string \<Rightarrow> settings \<Rightarrow> files
    \<Rightarrow> ((main_error + publisher option) \<times> files) option" where
  "run_command v spawned exists k binary x files =
     (case settings_builder x of
        None \<Rightarrow> Some (Inl Panicked, files)
      | Some b \<Rightarrow>
          (case builder_spawn spawned exists k b of
             Inl e \<Rightarrow> Some (Inl (SessionFailed e), files)
           | Inr h \<Rightarrow>
               (case session_of v h of
                  Inl _ \<Rightarrow> Some (Inl Panicked, files)
                | Inr sn \<Rightarrow>
                    run_session v x h sn (session_publisher v x (sv_session_id v) ''run'' (handle_pid 0 h) binary) files)))"

section \<open>Attaching to a process\<close>

definition find_process :: "u32 \<Rightarrow> process_info list \<Rightarrow> process_info option" where
  "find_process pid ps = find (\<lambda>p. pi_pid p = pid) ps"

definition check_identity :: "u64 option \<Rightarrow> process_info option \<Rightarrow> command_error + unit" where
  "check_identity expected_start_time target_process =
     (case expected_start_time of
        None \<Rightarrow> Inr ()
      | Some expected \<Rightarrow> validate_process_identity expected (map_option pi_start_time_micros target_process))"

definition attach_preflight_error :: "u32 \<Rightarrow> bool \<Rightarrow> string option \<Rightarrow> string option" where
  "attach_preflight_error pid attachable reason =
     (if attachable then None
      else Some (''cannot attach to pid '' @ dec_digits (unat pid)
        @ '': the target process is protected by macOS and does not permit debugging. ''
        @ ''Production-signed and system processes normally omit the get-task-allow entitlement.''
        @ (case reason of Some r \<Rightarrow> '' ('' @ r @ '')'' | None \<Rightarrow> [])))"

text \<open>The checks on macOS: the error, or the architecture of the helper that has to take over.\<close>

definition mac_preflight :: "string \<Rightarrow> u32 \<Rightarrow> process_info option \<Rightarrow> main_error + string option" where
  "mac_preflight current_arch pid target_process =
     (case target_process of
        None \<Rightarrow> Inr None
      | Some p \<Rightarrow>
          (case attach_preflight_error pid (pi_attachable p) (pi_attachability_reason p) of
             Some e \<Rightarrow> Inl (Unattachable e)
           | None \<Rightarrow> Inr (required_helper_arch current_arch (pi_architecture p))))"

text \<open>The processes are listed twice: before the attach, for the identity of the process, and once the
  session runs, for its name.\<close>

definition attach_command :: "surroundings \<Rightarrow> process_info list option \<Rightarrow> process_info list option \<Rightarrow> bool \<Rightarrow> tracing
    \<Rightarrow> u64 option \<Rightarrow> string option \<Rightarrow> u32 \<Rightarrow> settings \<Rightarrow> files \<Rightarrow> ((main_error + publisher option) \<times> files) option" where
  "attach_command v listed listed_again exists k expected_start_time requested_session_id pid x files =
     (case listed of
        None \<Rightarrow> Some (Inl ListFailed, files)
      | Some ps \<Rightarrow>
          (case check_identity expected_start_time (find_process pid ps) of
             Inl e \<Rightarrow> Some (Inl (CommandFailed e), files)
           | Inr _ \<Rightarrow>
               (case settings_builder x of
                  None \<Rightarrow> Some (Inl Panicked, files)
                | Some b \<Rightarrow>
                    (case builder_attach exists k pid b of
                       Inl e \<Rightarrow> Some (Inl (SessionFailed e), files)
                     | Inr h \<Rightarrow>
                         (case session_of v h of
                            Inl _ \<Rightarrow> Some (Inl Panicked, files)
                          | Inr sn \<Rightarrow>
                              (case listed_again of
                                 None \<Rightarrow> Some (Inl ListFailed, files)
                               | Some ps \<Rightarrow>
                                   let process_name = (case find_process pid ps of Some p \<Rightarrow> pi_name p | None \<Rightarrow> dec_digits (unat pid));
                                       session_id = (case requested_session_id of Some s \<Rightarrow> s | None \<Rightarrow> sv_session_id v)
                                   in run_session v x h sn (session_publisher v x session_id ''attach'' pid process_name) files))))))"

section \<open>The other commands\<close>

text \<open>\<open>install_heap_recorder\<close> on Linux: the file must be new.\<close>

definition install_heap_recorder :: "u8 list \<Rightarrow> write_outcome \<Rightarrow> path \<Rightarrow> files \<Rightarrow> (main_error + unit) \<times> files" where
  "install_heap_recorder library outcome output files =
     (if library = [] then (Inl RecorderNotSupported, files)
      else if fl_data files (fl_file files output) \<noteq> None then (Inl AlreadyThere, files)
      else
        (case write_file outcome output library files of
           (Inl e, files) \<Rightarrow> (Inl (CommandFailed e), files)
         | (Inr _, files) \<Rightarrow> (Inr (), files)))"

text \<open>\<open>{:>7}\<close> and \<open>{:<8}\<close>.\<close>

definition pad_start :: "nat \<Rightarrow> string \<Rightarrow> string" where
  "pad_start n s = replicate (n - length s) CHR '' '' @ s"

definition pad_end :: "nat \<Rightarrow> string \<Rightarrow> string" where
  "pad_end n s = s @ replicate (n - length s) CHR '' ''"

definition process_line :: "process_info \<Rightarrow> string" where
  "process_line p = pad_start 7 (dec_digits (unat (pi_pid p))) @ ''  '' @ pad_end 8 (pi_architecture p) @ ''  '' @ pi_name p"

definition parse_positive_usize :: "string \<Rightarrow> nat option" where
  "parse_positive_usize s = (case parse_usize s of None \<Rightarrow> None | Some n \<Rightarrow> if n = 0 then None else Some n)"

text \<open>\<open>parsed\<close> is the result of \<open>parse::<f64>()\<close>.\<close>

definition parse_percentage :: "f64 option \<Rightarrow> f64 option" where
  "parse_percentage parsed =
     (case parsed of Some (Finite x) \<Rightarrow> if 0 \<le> x \<and> x \<le> 100 then Some (Finite x) else None | _ \<Rightarrow> None)"

section \<open>Dispatch\<close>

datatype command =
    RunCommand profile_kind u64 string "string list" settings
  | AttachCommand profile_kind u64 "u64 option" "string option" settings u32
  | CompareCommand path path path
  | PublishCommand path string
  | HeapRecorderCommand path
  | ProcessesCommand bool
  | AnalyzeCommand path analyze_view analyze_format "string option" "string option" nat f64 "path option"

text \<open>The ranges and the conflicts that the declarations of the options state to clap.\<close>

definition settings_accepted :: "settings \<Rightarrow> bool" where
  "settings_accepted x \<longleftrightarrow> 1 \<le> sx_freq x \<and> sx_freq x \<le> 1000
     \<and> length (filter (\<lambda>given. given) [sx_thread x \<noteq> None, sx_thread_id x \<noteq> None, sx_main_thread x]) \<le> 1"

definition accepted :: "command \<Rightarrow> bool" where
  "accepted c \<longleftrightarrow>
     (case c of
        RunCommand kind heap_interval binary args x \<Rightarrow> 1 \<le> heap_interval \<and> settings_accepted x
      | AttachCommand kind heap_interval expected session_id x pid \<Rightarrow> 1 \<le> heap_interval \<and> settings_accepted x
      | AnalyzeCommand input shape format sample_type heap limit min_percent output \<Rightarrow>
          1 \<le> limit \<and> parse_percentage (Some min_percent) \<noteq> None
      | _ \<Rightarrow> True)"

text \<open>What is called, with its arguments.\<close>

datatype job =
    CallRun string "string list" settings
  | CallAttach "u64 option" "string option" u32 settings
  | CallHeap "(string \<times> string list) option" "u32 option" path "f64 option" u64 bool "string option"
  | CallCompare path path path
  | CallPublish path string
  | CallInstall path
  | PrintProcesses bool
  | CallAnalyze path analyze_view analyze_format "string option" "string option" nat f64 "path option"
  | Refuse command_error

definition dispatch :: "process_info list option \<Rightarrow> command \<Rightarrow> job" where
  "dispatch listed c =
     (case c of
        RunCommand kind heap_interval binary args x \<Rightarrow>
          (case choose_profiler kind (sx_thread x) (sx_thread_id x) (sx_main_thread x) of
             Inl e \<Rightarrow> Refuse e
           | Inr HeapProfile \<Rightarrow>
               CallHeap (Some (binary, args)) None (sx_output x) (sx_duration x) heap_interval (sx_publish x) None
           | Inr StackProfile \<Rightarrow> CallRun binary args x)
      | AttachCommand kind heap_interval expected_start_time session_id x pid \<Rightarrow>
          (if kind = HeapProfile then
             (case check_identity expected_start_time (Option.bind listed (find_process pid)) of
                Inl e \<Rightarrow> Refuse e
              | Inr _ \<Rightarrow>
                  (case choose_profiler kind (sx_thread x) (sx_thread_id x) (sx_main_thread x) of
                     Inl e \<Rightarrow> Refuse e
                   | Inr _ \<Rightarrow> CallHeap None (Some pid) (sx_output x) (sx_duration x) heap_interval (sx_publish x) session_id))
           else CallAttach expected_start_time session_id pid x)
      | CompareCommand base current output \<Rightarrow> CallCompare base current output
      | PublishCommand input name \<Rightarrow> CallPublish input name
      | HeapRecorderCommand output \<Rightarrow> CallInstall output
      | ProcessesCommand json \<Rightarrow> PrintProcesses json
      | AnalyzeCommand input shape format sample_type heap limit min_percent output \<Rightarrow>
          CallAnalyze input shape format sample_type heap limit min_percent output)"

text \<open>The end of \<open>main\<close>: an error is printed, with its causes, and the exit status is one.\<close>

definition main_exit :: "('e \<Rightarrow> u8 list) \<Rightarrow> 'e + 'r \<Rightarrow> u8 list \<times> int" where
  "main_exit describe result =
     (case result of
        Inl e \<Rightarrow> (str_bytes ''pprofessor: error: '' @ describe e @ [10], 1)
      | Inr _ \<Rightarrow> ([], 0))"

section \<open>What a session leaves\<close>

text \<open>The samples that the sampling thread takes in a session with these settings.\<close>

definition settings_filter :: "settings \<Rightarrow> thread_filter" where
  "settings_filter x = apply_thread_filter All (sx_thread x) (sx_thread_id x) (sx_main_thread x)"

definition settings_deadline :: "surroundings \<Rightarrow> settings \<Rightarrow> nat option" where
  "settings_deadline v x = map_option (\<lambda>d. sv_deadline_clock v + d) (Option.bind (sx_duration x) duration_from_secs)"

definition taken_samples :: "surroundings \<Rightarrow> settings \<Rightarrow> thread_sample list" where
  "taken_samples v x = session_samples (settings_filter x) True (settings_deadline v x) (ho_ptrace_turns (sv_sampling v))"

lemma settings_builder_fields:
  assumes "settings_builder x = Some b"
  shows "bd_thread_filter b = settings_filter x" and "bd_unresolved b = Hex"
    and "bd_duration b = Option.bind (sx_duration x) duration_from_secs" and "bd_symbolizer b = None"
  using assms
  by (auto simp: settings_builder_def apply_duration_def filter_builder_def set_freq_def builder_new_def
      set_duration_def settings_filter_def split: option.splits)

text \<open>A handle on another process, with these settings.\<close>

definition started_with :: "settings \<Rightarrow> handle \<Rightarrow> bool" where
  "started_with x h \<longleftrightarrow> \<not> ls_is_self (hd_sampler h) \<and> hd_unresolved h = Hex
     \<and> ls_thread_filter (hd_sampler h) = settings_filter x
     \<and> hd_duration h = Option.bind (sx_duration x) duration_from_secs \<and> hd_inner h \<noteq> CurrentTarget
     \<and> hd_symbolizer h = None"

lemma spawned_handle:
  assumes "settings_builder x = Some b" and "builder_spawn spawned exists k b = Inr h"
  shows "started_with x h"
  using assms settings_builder_fields [OF assms(1)]
  by (auto simp: builder_spawn_def sampler_spawn_def sampler_new_def probe_ptrace_def handle_of_def started_with_def
      Let_def bindr_Inr_iff split: option.splits sum.splits prod.splits if_splits)

lemma attached_handle:
  assumes "settings_builder x = Some b" and "builder_attach exists k pid b = Inr h"
  shows "started_with x h"
  using assms settings_builder_fields [OF assms(1)]
  by (auto simp: builder_attach_def sampler_new_def probe_ptrace_def handle_of_def started_with_def
      Let_def bindr_Inr_iff split: option.splits sum.splits prod.splits if_splits)

text \<open>What the sampling thread of a session has recorded when its loop has ended, and the profile that is
  built of it when the session is stopped.\<close>

definition session_recording :: "surroundings \<Rightarrow> handle \<Rightarrow> raw_profile option" where
  "session_recording v h =
     (case session_of v h of
        Inl _ \<Rightarrow> None
      | Inr sn \<Rightarrow>
          Option.bind (run_sampling_loop (hd_sampler h) (sv_sampling v) sn) (\<lambda>e.
            case en_result e of Inr raw \<Rightarrow> Some raw | Inl _ \<Rightarrow> None))"

definition session_built :: "surroundings \<Rightarrow> handle \<Rightarrow> profile option" where
  "session_built v h =
     (case session_of v h of
        Inl _ \<Rightarrow> None
      | Inr sn \<Rightarrow>
          Option.bind (run_sampling_loop (hd_sampler h) (sv_sampling v) sn) (\<lambda>e.
            case bindr (session_stop (h_demangle (sv_host v)) (h_disk (sv_host v)) (h_native (sv_host v)) (en_result e)
                (signal_stop sn)) (\<lambda>sp. Inr (build_profile (h_file_size (sv_host v)) sp)) of
              Inr (Inr p) \<Rightarrow> Some p
            | _ \<Rightarrow> None))"

lemma run_session_records:
  assumes "run_session v x h sn publisher files = Some (Inr q, files')" and "session_of v h = Inr sn"
    and "started_with x h" and "length (taken_samples v x) < 2 ^ 64"
  shows "\<exists>raw smb wall p. session_recording v h = Some raw \<and> session_built v h = Some p
    \<and> build_profile (h_file_size (sv_host v)) (from_raw_with_symbolizer raw smb Hex (hd_freq_hz h) wall) = Inr p
    \<and> write_gzip (sv_gzip v) (sv_outcome v) (profile_encode p) (sx_output x) files = (Inr (), files')
    \<and> (\<forall>a\<in>set (all_addresses raw).
         smb a = resolve_address (h_demangle (sv_host v)) (h_disk (sv_host v)) (h_native (sv_host v)) (rp_images raw) a)
    \<and> (\<forall>key. map (\<lambda>s. (ss_count s, ss_timestamp s)) (samples_at key (from_raw_with_symbolizer raw smb Hex (hd_freq_hz h) wall))
         = map (\<lambda>t. (1, Some t)) (observed key (taken_samples v x)))"
proof -
  obtain h' where start: "handle_start (sv_wall v) (sv_deadline_clock v) (sv_start_clock v) (sv_end_clock v) (sv_maps v) h = Inr (sn, h')"
    using assms(2) by (auto simp: session_of_def bindr_Inr_iff)
  let ?loop = "session_loop (sv_host v) (sx_freq x) (sv_wall v) (sv_turns v) (map_option session_new publisher)"
  obtain s where loop: "?loop = Some (Inr s)"
    using assms(1) by (cases ?loop) (auto simp: run_session_def Let_def split: sum.splits)
  obtain e where run: "run_sampling_loop (hd_sampler h) (sv_sampling v) sn = Some e"
    using assms(1) by (auto simp: run_session_def Let_def loop)
  let ?stop = "session_stop (h_demangle (sv_host v)) (h_disk (sv_host v)) (h_native (sv_host v)) (en_result e) (signal_stop sn)"
  obtain sp where stop: "?stop = Inr sp"
    using assms(1) by (cases ?stop) (auto simp: run_session_def Let_def loop run)
  let ?fin = "finish_session (sv_gzip v) (h_file_size (sv_host v)) (sv_network v) (sv_outcome v) (Inr sp)
        (sx_output x) (map_option se_publisher s) files"
  have fin: "?fin = (Inr q, files')"
    using assms(1) by (cases ?fin; cases "fst ?fin") (auto simp: run_session_def Let_def loop run stop)
  have sn: "sn_check sn" "sn_deadline sn = settings_deadline v x" "sn_unresolved sn = Hex"
    using start assms(3)
    by (auto simp: handle_start_def start_deadline_def instant_add_def Let_def started_with_def settings_deadline_def bindr_Inr_iff
        split: target.splits option.splits if_splits)
  have taken: "session_samples (ls_thread_filter (hd_sampler h)) (sn_check sn) (sn_deadline sn) (ho_ptrace_turns (sv_sampling v))
      = taken_samples v x"
    using assms(3) by (simp add: sn taken_samples_def started_with_def)
  obtain raw where raw: "en_result e = Inr raw" using stop by (cases "en_result e") (auto simp: session_stop_def)
  define smb where "smb = session_symbolizer (h_demangle (sv_host v)) (h_disk (sv_host v)) (h_native (sv_host v)) (signal_stop sn) raw"
  have sp: "sp = from_raw_with_symbolizer raw smb Hex (hd_freq_hz h) (sn_start_wall sn)"
    using stop sn(3) started_session(5) [OF start] by (simp add: session_stop_def raw signal_stop_def smb_def)
  have "smb a = resolve_address (h_demangle (sv_host v)) (h_disk (sv_host v)) (h_native (sv_host v)) (rp_images raw) a"
    if "a \<in> set (all_addresses raw)" for a
    using that started_session(2) [OF start] assms(3)
    by (simp add: smb_def session_symbolizer_def Let_def signal_stop_def started_with_def native_new_def resolve_all_lookup)
  moreover have "map (\<lambda>s. (ss_count s, ss_timestamp s)) (samples_at key sp) = map (\<lambda>t. (1, Some t)) (observed key (taken_samples v x))" for key
    unfolding sp taken [symmetric]
    by (rule delivered_samples [OF start _ run raw]) (use assms(3,4) taken in \<open>simp_all add: started_with_def\<close>)
  moreover obtain p where "build_profile (h_file_size (sv_host v)) sp = Inr p"
    "write_gzip (sv_gzip v) (sv_outcome v) (profile_encode p) (sx_output x) files = (Inr (), files')"
    using fin
    by (auto simp: finish_session_def Let_def bindr_Inr_iff build_proto_def split: sum.splits option.splits prod.splits)
  moreover from this(1) have "session_built v h = Some p"
    using run stop assms(2) by (simp add: session_built_def)
  moreover have "session_recording v h = Some raw" using run raw assms(2) by (simp add: session_recording_def)
  ultimately show ?thesis unfolding sp by blast
qed

text \<open>Both commands, when they end well.\<close>

lemma command_session:
  assumes "run_command v spawned exists k binary x files = Some (Inr q, files')
    \<or> attach_command v listed listed_again exists k expected_start_time requested_session_id pid x files = Some (Inr q, files')"
  obtains h sn publisher where "run_session v x h sn publisher files = Some (Inr q, files')"
    and "session_of v h = Inr sn" and "started_with x h"
  using assms
proof
  assume "run_command v spawned exists k binary x files = Some (Inr q, files')"
  then obtain b h sn publisher where "settings_builder x = Some b" "builder_spawn spawned exists k b = Inr h"
    "session_of v h = Inr sn" "run_session v x h sn publisher files = Some (Inr q, files')"
    by (auto simp: run_command_def split: option.splits sum.splits)
  then show thesis using that spawned_handle by blast
next
  assume "attach_command v listed listed_again exists k expected_start_time requested_session_id pid x files = Some (Inr q, files')"
  then obtain b h sn publisher where "settings_builder x = Some b" "builder_attach exists k pid b = Inr h"
    "session_of v h = Inr sn" "run_session v x h sn publisher files = Some (Inr q, files')"
    by (auto simp: attach_command_def Let_def split: option.splits sum.splits)
  then show thesis using that attached_handle by blast
qed

lemma write_gzip_written:
  assumes "write_gzip z outcome data output files = (Inr (), files')"
  shows "\<exists>bytes. gz_compress z data = Some bytes \<and> read_file files' output = Inr bytes"
  using assms
  by (auto simp: write_gzip_def gzip_data_def write_file_def read_file_def split: option.splits write_outcome.splits)

lemma session_loop_stays: "session_loop h freq wall ts None \<noteq> Some (Inl e)"
  by (induction h freq wall ts "None :: session option" rule: session_loop.induct) auto

lemma publish_update_total: "freq \<noteq> 0 \<Longrightarrow> \<exists>s'. publish_update h freq wall env snapshot s = Inr s'"
proof -
  assume "freq \<noteq> 0"
  then have "\<exists>bs. build_proto f (from_raw_with_symbolizer d smb Hex freq wall) = Inr bs" for f d smb
    by (intro build_proto_total) (simp add: from_raw_with_symbolizer_def split_beta)
  then show ?thesis
    by (auto simp: publish_update_def Let_def split_beta bindr_Inr_iff split: option.splits)
qed

lemma session_loop_total: "freq \<noteq> 0 \<Longrightarrow> session_loop h freq wall ts s \<noteq> Some (Inl e)"
proof (induction h freq wall ts s rule: session_loop.induct)
  case (2 h freq wall t ts s)
  show ?case
  proof (cases s)
    case (Some se)
    obtain se' where "publish_update h freq wall (lt_network t) (lt_snapshot t) se = Inr se'"
      using publish_update_total [OF \<open>freq \<noteq> 0\<close>] by blast
    then show ?thesis using 2 Some by auto
  qed (use 2 in auto)
qed simp

lemma loop_panics:
  assumes "run_sampling_loop s ho sn = Some e" and "\<not> ls_is_self s" and "ls_freq_hz s \<noteq> 0"
  shows "\<exists>raw. en_result e = Inr raw"
  using assms by (auto simp: run_sampling_loop_def run_ptrace_sampling_loop_def split: prod.splits if_splits)

lemma run_session_error:
  assumes "run_session v x h sn publisher files = Some (Inl err, files')" and "started_with x h"
    and "sx_freq x \<noteq> 0" and "ls_freq_hz (hd_sampler h) = sx_freq x" and "hd_freq_hz h = sx_freq x" and "session_of v h = Inr sn"
  shows "\<exists>e. err = CommandFailed e \<and> e \<noteq> ProfileError Panic"
proof -
  let ?loop = "session_loop (sv_host v) (sx_freq x) (sv_wall v) (sv_turns v) (map_option session_new publisher)"
  obtain s where loop: "?loop = Some (Inr s)"
    using assms(1) session_loop_total [OF assms(3)]
    by (cases ?loop) (auto simp: run_session_def Let_def split: sum.splits)
  obtain e where run: "run_sampling_loop (hd_sampler h) (sv_sampling v) sn = Some e"
    using assms(1) by (auto simp: run_session_def Let_def loop)
  obtain raw where raw: "en_result e = Inr raw"
    using loop_panics [OF run] assms(2-4) by (auto simp: started_with_def)
  have freq: "sn_freq_hz sn = sx_freq x"
    using assms(5,6) by (auto simp: session_of_def handle_start_def Let_def bindr_Inr_iff)
  let ?stop = "session_stop (h_demangle (sv_host v)) (h_disk (sv_host v)) (h_native (sv_host v)) (en_result e) (signal_stop sn)"
  obtain sp where stop: "?stop = Inr sp" and "sp_freq_hz sp = sx_freq x"
    by (simp add: session_stop_def raw from_raw_with_symbolizer_def split_beta freq signal_stop_def)
  then obtain data where "build_proto (h_file_size (sv_host v)) sp = Inr data" using build_proto_total assms(3) by metis
  then have fin: "fst (finish_session (sv_gzip v) (h_file_size (sv_host v)) (sv_network v) (sv_outcome v) (Inr sp)
        (sx_output x) p files) \<noteq> Inl (ProfileError Panic)" for p
    by (auto simp: finish_session_def Let_def write_gzip_def gzip_data_def write_file_def
        split: option.splits sum.splits prod.splits write_outcome.splits)
  let ?fin = "finish_session (sv_gzip v) (h_file_size (sv_host v)) (sv_network v) (sv_outcome v) (Inr sp)
        (sx_output x) (map_option se_publisher s) files"
  show ?thesis
    using assms(1) fin [of "map_option se_publisher s"]
    by (cases ?fin; cases "fst ?fin") (auto simp: run_session_def Let_def loop run stop)
qed

lemma builder_freq: "settings_builder x = Some b \<Longrightarrow> bd_freq_hz b = sx_freq x"
  by (auto simp: settings_builder_def apply_duration_def filter_builder_def set_freq_def builder_new_def
      set_duration_def split: option.splits)

lemma spawned_freq:
  assumes "settings_builder x = Some b" and "builder_spawn spawned exists k b = Inr h"
  shows "ls_freq_hz (hd_sampler h) = sx_freq x" and "hd_freq_hz h = sx_freq x"
  using assms(2) builder_freq [OF assms(1)]
  by (auto simp: builder_spawn_def sampler_spawn_def sampler_new_def handle_of_def
      Let_def bindr_Inr_iff split: option.splits sum.splits prod.splits if_splits)

lemma attached_freq:
  assumes "settings_builder x = Some b" and "builder_attach exists k pid b = Inr h"
  shows "ls_freq_hz (hd_sampler h) = sx_freq x" and "hd_freq_hz h = sx_freq x"
  using assms(2) builder_freq [OF assms(1)]
  by (auto simp: builder_attach_def sampler_new_def handle_of_def
      Let_def bindr_Inr_iff split: option.splits sum.splits prod.splits if_splits)

lemma no_builder: "settings_builder x = None \<longleftrightarrow> (\<exists>s. sx_duration x = Some s \<and> duration_from_secs s = None)"
  by (auto simp: settings_builder_def apply_duration_def split: option.splits)

lemma builder_errors:
  "builder_spawn spawned exists k b \<noteq> Inl SamplingPanicked" "builder_attach exists k pid b \<noteq> Inl SamplingPanicked"
  by (auto simp: builder_spawn_def builder_attach_def sampler_spawn_def sampler_new_def Let_def bindr_def
      split: option.splits sum.splits prod.splits if_splits)

text \<open>How a command fails once it has its handle.\<close>

lemma command_fails:
  assumes "started_with x h" and "sx_freq x \<noteq> 0"
    and "ls_freq_hz (hd_sampler h) = sx_freq x" and "hd_freq_hz h = sx_freq x"
  shows "run_session v x h sn publisher files = Some (Inl err, files') \<Longrightarrow> session_of v h = Inr sn \<Longrightarrow>
      err \<noteq> SessionFailed SamplingPanicked \<and> err \<noteq> CommandFailed (ProfileError Panic) \<and> err \<noteq> Panicked"
  using run_session_error [OF _ assms] by blast

section \<open>Properties\<close>

text \<open>an attach that names the start time of its process goes no further when the identifier now
  belongs to another process or to none: it fails and writes nothing, whichever profiler it is for.\<close>

theorem replaced_process_refused:
  assumes "find_process pid ps = None \<or> pi_start_time_micros (the (find_process pid ps)) \<noteq> expected"
  shows "attach_command v (Some ps) listed_again exists k (Some expected) requested_session_id pid x files
      = Some (Inl (CommandFailed ProcessReplaced), files)
    \<and> dispatch (Some ps) (AttachCommand HeapProfile heap_interval (Some expected) requested_session_id x pid) = Refuse ProcessReplaced"
  using assms
  by (auto simp: attach_command_def dispatch_def check_identity_def validate_process_identity_def)

text \<open>A negative or non-finite \<open>--duration\<close> is not refused by \<open>run\<close> and \<open>attach\<close>: it panics.\<close>

lemma bad_duration_panics:
  assumes "sx_duration x = Some s" and "duration_from_secs s = None"
  shows "run_command v spawned exists k binary x files = Some (Inl Panicked, files)"
  using assms by (simp add: run_command_def settings_builder_def apply_duration_def)

definition demo_surroundings :: surroundings where
  "demo_surroundings = \<lparr>sv_host = \<lparr>h_demangle = \<lambda>s. s, h_disk = \<lambda>_. None, h_native = X86_64, h_file_size = \<lambda>_. None\<rparr>,
     sv_sampling = demo_session_host,
     sv_turns = [\<lparr>lt_stop_flag = True, lt_is_stopped = False, lt_due = False, lt_network = (demo_offline, demo_offline),
       lt_snapshot = demo_start\<rparr>],
     sv_wall = 0, sv_deadline_clock = 0, sv_start_clock = 0, sv_end_clock = 0, sv_maps = None, sv_session_id = ''id'',
     sv_network = (demo_offline, demo_offline), sv_gzip = demo_gzip, sv_outcome = Written\<rparr>"

definition demo_settings :: settings where
  "demo_settings = \<lparr>sx_freq = 99, sx_output = [''c''], sx_duration = None, sx_thread = None, sx_thread_id = None,
     sx_main_thread = False, sx_publish = False\<rparr>"

theorem replaced_process_refused_witness:
  "attach_command demo_surroundings (Some []) None True (pt_tracing (demo_ptrace_turn False 5)) (Some 5) None 7
     demo_settings demo_files = Some (Inl (CommandFailed ProcessReplaced), demo_files)"
  using replaced_process_refused [of 7 "[]" 5] by (simp add: find_process_def)

text \<open>An attach with these settings that samples one thread twice.\<close>

definition demo_tracing :: tracing where
  "demo_tracing = pt_tracing (demo_ptrace_turn False 5)"

definition demo_recording :: raw_profile where
  "demo_recording = \<lparr>rp_stacks = [((7, [4114]), \<lparr>rs_count = 2, rs_timestamps = Some [5, 9]\<rparr>)],
     rp_thread_names = [(7, ''worker'')], rp_start_time = 0, rp_end_time = 20, rp_images = []\<rparr>"

definition demo_result :: symbolicated_profile where
  "demo_result = from_raw_with_symbolizer demo_recording Map.empty Hex 99 0"

lemma demo_taken:
  "taken_samples demo_surroundings demo_settings
    = [\<lparr>ts_thread_id = 7, ts_thread_name = ''worker'', ts_stack = [4114], ts_timestamp_nanos = 5\<rparr>,
       \<lparr>ts_thread_id = 7, ts_thread_name = ''worker'', ts_stack = [4114], ts_timestamp_nanos = 9\<rparr>]"
  by (simp add: taken_samples_def settings_filter_def settings_deadline_def demo_settings_def apply_thread_filter_def
      session_samples_def demo_surroundings_def demo_session_host_def demo_ptrace_turn_samples ptrace_breaks_def)
    (simp add: demo_ptrace_turn_def)

lemma demo_session:
  "\<exists>b h q files'. settings_builder demo_settings = Some b \<and> builder_attach True demo_tracing 7 b = Inr h
     \<and> attach_command demo_surroundings (Some []) (Some []) True demo_tracing None None 7 demo_settings demo_files = Some (Inr q, files')
     \<and> session_recording demo_surroundings h = Some demo_recording
     \<and> session_built demo_surroundings h = (case build_profile (\<lambda>_. None) demo_result of Inr p \<Rightarrow> Some p | Inl _ \<Rightarrow> None)"
proof -
  have attached: "fst (attach_thread demo_tracing 7)" by (simp add: demo_tracing_def demo_ptrace_turn_def attach_thread_def)
  define b where "b = filter_builder None None False (set_freq 99 builder_new)"
  have b: "settings_builder demo_settings = Some b" "bd_freq_hz b = 99" "bd_unresolved b = Hex" "bd_duration b = None"
    "bd_thread_filter b = All" "bd_symbolizer b = None"
    by (simp_all add: b_def settings_builder_def demo_settings_def apply_duration_def filter_builder_def set_freq_def
        builder_new_def apply_thread_filter_def)
  define h where "h = handle_of b \<lparr>ls_pid = 7, ls_freq_hz = 99, ls_is_self = False, ls_thread_filter = All\<rparr> (AttachTarget 7)"
  have h: "builder_attach True demo_tracing 7 b = Inr h"
    using attached by (simp add: h_def builder_attach_def sampler_new_def probe_ptrace_def Let_def split_beta b)
  have sampler: "hd_sampler h = \<lparr>ls_pid = 7, ls_freq_hz = 99, ls_is_self = False, ls_thread_filter = All\<rparr>"
    and rest: "hd_unresolved h = Hex" "hd_duration h = None" "hd_inner h = AttachTarget 7" "hd_freq_hz h = 99"
      "hd_symbolizer h = None"
    by (simp_all add: h_def handle_of_def b)
  define sn where "sn = (case session_of demo_surroundings h of Inr sn \<Rightarrow> sn | Inl _ \<Rightarrow> undefined)"
  have start: "session_of demo_surroundings h = Inr sn"
    and sn: "sn_deadline sn = None" "\<not> sn_stop sn" "sn_freq_hz sn = 99" "sn_symbolizer sn = None" "sn_unresolved sn = Hex"
    "sn_start_wall sn = 0" "sn_check sn" "sn_live sn = \<lparr>rp_stacks = [], rp_thread_names = [], rp_start_time = 0, rp_end_time = 0, rp_images = []\<rparr>"
    by (simp_all add: sn_def session_of_def handle_start_def start_deadline_def Let_def rest demo_surroundings_def read_images_def)
  have turn: "turn_samples All (demo_ptrace_turn stops taken) = [\<lparr>ts_thread_id = 7, ts_thread_name = ''worker'', ts_stack = [4114], ts_timestamp_nanos = taken\<rparr>]"
    "ptrace_breaks c None (demo_ptrace_turn stops taken) = stops" "pt_now (demo_ptrace_turn stops taken) = 0"
    "pt_maps (demo_ptrace_turn stops taken) = None" for stops taken c
    by (rule demo_ptrace_turn_samples) (simp_all add: demo_ptrace_turn_def ptrace_breaks_def)
  have run: "run_sampling_loop (hd_sampler h) (sv_sampling demo_surroundings) sn = Some \<lparr>en_result = Inr demo_recording, en_stop = True\<rparr>"
    by (simp add: run_sampling_loop_def sampler demo_surroundings_def demo_session_host_def run_ptrace_sampling_loop_def sn
        ptrace_step_def turn read_images_def set_images_def record_round_def record_sample_def push_timestamp_def
        series_timed_def alist_insert_def finish_sampling_def demo_recording_def saturating_add_u64_def)
  have "session_symbolizer (\<lambda>s. s) (\<lambda>_. None) X86_64 (signal_stop sn) demo_recording a = None" for a
    by (simp add: session_symbolizer_def Let_def signal_stop_def sn native_new_def resolve_all_lookup demo_recording_def
        resolve_address_def open_images_def image_index_def partition_point_def)
  then have stop: "session_stop (\<lambda>s. s) (\<lambda>_. None) X86_64 (Inr demo_recording) (signal_stop sn) = Inr demo_result"
    by (simp add: session_stop_def signal_stop_def sn demo_result_def) presburger
  have "sp_freq_hz demo_result \<noteq> 0" by (simp add: demo_result_def from_raw_with_symbolizer_def split_beta)
  then obtain data where data: "build_proto (\<lambda>_. None) demo_result = Inr data" using build_proto_total by blast
  obtain files' where fin: "finish_session demo_gzip (\<lambda>_. None) (demo_offline, demo_offline) Written (Inr demo_result) [''c''] None demo_files
      = (Inr None, files')"
    by (simp add: finish_session_def Let_def data write_gzip_def gzip_data_def demo_gzip_def write_file_def)
  have "attach_command demo_surroundings (Some []) (Some []) True demo_tracing None None 7 demo_settings demo_files = Some (Inr None, files')"
    using run
    by (simp add: attach_command_def check_identity_def b(1) h find_process_def session_publisher_def run_session_def start)
      (simp add: demo_settings_def demo_surroundings_def stop fin)
  moreover have "session_built demo_surroundings h = (case build_profile (\<lambda>_. None) demo_result of Inr p \<Rightarrow> Some p | Inl _ \<Rightarrow> None)"
    using run by (simp add: session_built_def start) (simp add: demo_surroundings_def stop split: sum.split)
  moreover have "session_recording demo_surroundings h = Some demo_recording"
    using run by (simp add: session_recording_def start)
  ultimately show ?thesis using b(1) h by blast
qed

text \<open>A deadline that \<open>Instant\<close> cannot hold makes \<open>start\<close> panic, although the duration itself is accepted.\<close>

lemma session_of_panics:
  "(\<exists>e. session_of v h = Inl e) \<longleftrightarrow> (\<exists>d. hd_duration h = Some d \<and> instant_add (sv_deadline_clock v) d = Inl Panic)"
  by (auto simp: session_of_def handle_start_def start_deadline_def instant_add_def bindr_Inl_iff Let_def
      split: option.splits if_splits)

text \<open>What makes a command panic: the conversion of the duration, or the addition in \<open>start\<close>.\<close>

definition duration_panics :: "surroundings \<Rightarrow> settings \<Rightarrow> bool" where
  "duration_panics v x \<longleftrightarrow>
     (case sx_duration x of
        None \<Rightarrow> False
      | Some s \<Rightarrow>
          (case duration_from_secs s of
             None \<Rightarrow> True
           | Some d \<Rightarrow> instant_add (sv_deadline_clock v) d = Inl Panic))"

lemma start_panics:
  assumes "session_of v h = Inl e" and "started_with x h"
  shows "duration_panics v x"
proof -
  obtain d where "hd_duration h = Some d" "instant_add (sv_deadline_clock v) d = Inl Panic"
    using assms(1) session_of_panics [of v h] by blast
  then show ?thesis using assms(2) by (auto simp: started_with_def duration_panics_def split: option.splits bind_splits)
qed

lemma no_builder_panics: "settings_builder x = None \<Longrightarrow> duration_panics v x"
  using no_builder [of x] by (auto simp: duration_panics_def split: option.splits)

text \<open>\<open>--duration 1e19\<close>: accepted as a duration, and the program is spawned before it panics.\<close>

lemma long_duration_panics:
  assumes "sx_duration x = Some (Finite (10 ^ 19))" and "builder_spawn spawned exists k b = Inr h"
    and "settings_builder x = Some b"
  shows "run_command v spawned exists k binary x files = Some (Inl Panicked, files)"
proof -
  have d: "duration_from_secs (Finite (10 ^ 19)) = Some (10 ^ 28)"
    by (simp add: duration_from_secs_def round_half_even_def)
  have "hd_duration h = Some (10 ^ 28)"
    using spawned_handle [OF assms(3,2)] assms(1) d by (simp add: started_with_def)
  then have "\<exists>e. session_of v h = Inl e" by (simp add: session_of_panics instant_add_def)
  then show ?thesis using assms(2,3) by (auto simp: run_command_def)
qed

text \<open>C34: with the options that the command line accepts, \<open>run\<close> and \<open>attach\<close> cannot panic on a zero
  frequency, neither in the sampling thread nor when a profile is encoded; the one panic left is a
  \<open>--duration\<close>: one that is negative, not a number or too large for a \<open>Duration\<close>, or one that the clock
  cannot be advanced by, since \<open>start\<close> adds it to an \<open>Instant\<close>.\<close>

theorem accepted_options_panic_only_on_duration:
  assumes "settings_accepted x"
    and "run_command v spawned exists k binary x files = Some (Inl err, files')
      \<or> attach_command v listed listed_again exists k expected_start_time requested_session_id pid x files = Some (Inl err, files')"
  shows "err \<noteq> SessionFailed SamplingPanicked \<and> err \<noteq> CommandFailed (ProfileError Panic)
    \<and> (err = Panicked \<longrightarrow> (\<exists>s. sx_duration x = Some s \<and> (duration_from_secs s = None
        \<or> (\<exists>d. duration_from_secs s = Some d \<and> 2 ^ 63 * 1000000000 \<le> sv_deadline_clock v + d))))"
proof -
  have freq: "sx_freq x \<noteq> 0" using assms(1) by (auto simp: settings_accepted_def)
  have "err \<noteq> SessionFailed SamplingPanicked \<and> err \<noteq> CommandFailed (ProfileError Panic) \<and> (err = Panicked \<longrightarrow> duration_panics v x)"
    using assms(2)
  proof
    assume run: "run_command v spawned exists k binary x files = Some (Inl err, files')"
    show ?thesis
    proof (cases "settings_builder x")
      case None
      then show ?thesis using run no_builder_panics by (simp add: run_command_def)
    next
      case (Some b)
      show ?thesis
      proof (cases "builder_spawn spawned exists k b")
        case (Inl e)
        then show ?thesis using run builder_errors(1) Some by (auto simp: run_command_def)
      next
        case (Inr h)
        show ?thesis
          using run Some Inr command_fails [OF spawned_handle [OF Some Inr] freq spawned_freq [OF Some Inr]]
            start_panics [OF _ spawned_handle [OF Some Inr], of v]
          by (auto simp: run_command_def split: sum.splits)
      qed
    qed
  next
    assume att: "attach_command v listed listed_again exists k expected_start_time requested_session_id pid x files = Some (Inl err, files')"
    show ?thesis
    proof (cases "settings_builder x")
      case None
      then show ?thesis using att no_builder_panics
        by (auto simp: attach_command_def check_identity_def validate_process_identity_def split: option.splits sum.splits if_splits)
    next
      case (Some b)
      show ?thesis
      proof (cases "builder_attach exists k pid b")
        case (Inl e)
        then show ?thesis using att builder_errors(2) Some
          by (auto simp: attach_command_def check_identity_def validate_process_identity_def split: option.splits sum.splits if_splits)
      next
        case (Inr h)
        show ?thesis
          using att Some Inr command_fails [OF attached_handle [OF Some Inr] freq attached_freq [OF Some Inr]]
            start_panics [OF _ attached_handle [OF Some Inr], of v]
          by (auto simp: attach_command_def Let_def check_identity_def validate_process_identity_def
              split: option.splits sum.splits if_splits)
      qed
    qed
  qed
  moreover have "\<exists>s. sx_duration x = Some s \<and> (duration_from_secs s = None
      \<or> (\<exists>d. duration_from_secs s = Some d \<and> 2 ^ 63 * 1000000000 \<le> sv_deadline_clock v + d))" if "duration_panics v x"
    using that by (auto simp: duration_panics_def instant_add_def split: option.splits if_splits)
  ultimately show ?thesis by blast
qed

theorem accepted_options_panic_only_on_duration_witness:
  "run_command demo_surroundings (Some 7) True (pt_tracing (demo_ptrace_turn False 5)) ''app''
     (demo_settings\<lparr>sx_duration := Some (Finite (10 ^ 19))\<rparr>) demo_files = Some (Inl Panicked, demo_files)
   \<and> (\<exists>d. duration_from_secs (Finite (10 ^ 19)) = Some d
        \<and> 2 ^ 63 * 1000000000 \<le> sv_deadline_clock demo_surroundings + d)"
proof -
  let ?x = "demo_settings\<lparr>sx_duration := Some (Finite (10 ^ 19))\<rparr>"
  have d: "duration_from_secs (Finite (10 ^ 19)) = Some (10 ^ 28)"
    by (simp add: duration_from_secs_def round_half_even_def)
  then obtain b where b: "settings_builder ?x = Some b"
    by (simp add: settings_builder_def apply_duration_def demo_settings_def)
  have "fst (attach_thread (pt_tracing (demo_ptrace_turn False 5)) 7)"
    by (simp add: demo_ptrace_turn_def attach_thread_def)
  then obtain h where h: "builder_spawn (Some 7) True (pt_tracing (demo_ptrace_turn False 5)) b = Inr h"
    by (simp add: builder_spawn_def sampler_spawn_def sampler_new_def probe_ptrace_def Let_def split_beta)
  have run: "run_command demo_surroundings (Some 7) True (pt_tracing (demo_ptrace_turn False 5)) ''app'' ?x demo_files
      = Some (Inl Panicked, demo_files)"
    by (rule long_duration_panics [OF _ h b]) simp
  have "settings_accepted ?x" by (simp add: settings_accepted_def demo_settings_def)
  from accepted_options_panic_only_on_duration [OF this disjI1 [OF run]] run d show ?thesis by auto
qed

end
