(* ===== verification/Heap_Session.thy ===== *)
theory Heap_Session
  imports Main_Program Capture
begin

text \<open>
  Heap profiling from the command line to the artifact: \<open>heap_command\<close> of \<open>src/main.rs\<close> on the
  capture backends of \<open>src/heap/capture.rs\<close>.

  What the command relies on is the locale \<open>heap_backend\<close>: every checkpoint is a written heap
  profile, and the result is the last checkpoint, at most with the note about an early exit. The
  four backends interpret it. What follows holds of the command on each of them.
\<close>

section \<open>The backends\<close>

text \<open>The arguments of \<open>run\<close> and \<open>attach\<close> on both systems, and what they observe.\<close>

datatype heap_source =
    LinuxRun "u8 list" bool "u32 option" u32 string "turn list"
  | LinuxAttach "u8 list option" "u8 list \<Rightarrow> u8 list \<times> u32 \<times> u32" u32 u32 "turn list"
  | MacRun bool bool "u32 option" "mac_capture_turn list"
  | MacAttach "u8 list option" tool_run "mac_attach_turn list"

text \<open>What a capture on macOS gives its caller: the result and the checkpoints of the trace.\<close>

definition mac_run_checkpoints :: "capture_options \<Rightarrow> bool \<Rightarrow> bool \<Rightarrow> u32 option \<Rightarrow> mac_capture_turn list
    \<Rightarrow> (capture_error + profile) option \<times> profile list" where
  "mac_run_checkpoints options channel_passed insert_set spawned ts =
     (let (result, calls) = mac_capture_run options channel_passed insert_set spawned ts in (result, checkpoints calls))"

fun captured :: "capture_options \<Rightarrow> heap_source \<Rightarrow> (capture_error + profile) option \<times> profile list" where
  "captured options (LinuxRun library preload_set spawned me path ts) =
     capture_run options library preload_set spawned me path ts"
| "captured options (LinuxAttach environ open_log me pid ts) = capture_attach options environ open_log me pid ts"
| "captured options (MacRun channel_passed insert_set spawned ts) =
     mac_run_checkpoints options channel_passed insert_set spawned ts"
| "captured options (MacAttach ps first ts) = mac_capture_attach options ps first ts"

text \<open>The options of the capture: \<open>Duration::from_millis\<close>, and the duration that was checked.\<close>

definition heap_options :: "f64 option \<Rightarrow> u64 \<Rightarrow> capture_options" where
  "heap_options duration interval =
     \<lparr>co_interval = unat interval * 1000000, co_duration = Option.bind duration duration_from_secs\<rparr>"

text \<open>The command on a backend. \<open>display\<close> renders a capture's error; \<open>envs\<close> is the network at each
  checkpoint. A bad duration ends the command before anything is captured.\<close>

definition heap_session :: "gzip \<Rightarrow> (capture_error \<Rightarrow> u8 list) \<Rightarrow> f64 option \<Rightarrow> u64 \<Rightarrow> bool \<Rightarrow> string \<Rightarrow> string \<Rightarrow> string
    \<Rightarrow> u32 \<Rightarrow> heap_source \<Rightarrow> (nat \<Rightarrow> environment) \<Rightarrow> environment \<Rightarrow> (command_error \<Rightarrow> u8 list) \<Rightarrow> write_outcome
    \<Rightarrow> path \<Rightarrow> files \<Rightarrow> ((command_error + unit) \<times> publisher option \<times> files) option" where
  "heap_session z display duration interval publish session_id mode name pid source envs env describe outcome output files =
     (case check_duration duration of
        Inl e \<Rightarrow> Some (Inl e, None, files)
      | Inr _ \<Rightarrow>
          let (result, ps) = captured (heap_options duration interval) source in
          map_option
            (\<lambda>r. heap_command z duration publish session_id mode name
               (map (\<lambda>i. (envs i, pid, ps ! i)) [0..<length ps], map_error (\<lambda>e. CaptureFailed (display e)) r)
               env describe outcome output files)
            result)"

section \<open>What is written is valid\<close>

lemma checkpoint_written:
  assumes "to_pprof hp = Inr p" and "tables_small p"
  shows "heap_valid p \<and> st_ok (p_strings p)"
  using to_pprof_correct(1,4) [OF assms] by blast

text \<open>A comment only adds to the string table.\<close>

lemma with_comment_valid:
  assumes "heap_valid p" and "st_ok (p_strings p)" and "st_small (p_strings (with_comment note p))"
  shows "heap_valid (with_comment note p) \<and> p_samples (with_comment note p) = p_samples p"
proof -
  define q where "q = snd (profile_intern p note)"
  define i where "i = fst (profile_intern p note)"
  have w: "with_comment note p = q\<lparr>p_comments := p_comments p @ [i]\<rparr>"
    by (simp add: with_comment_def q_def i_def profile_intern_def split_beta Let_def)
  have g: "grown p q" unfolding q_def by (rule grown_intern)
  have tables: "p_mappings q = p_mappings p" "p_functions q = p_functions p" "p_locations q = p_locations p"
    "p_samples q = p_samples p" "p_comments q = p_comments p" "p_value_types q = p_value_types p"
    by (simp_all add: q_def profile_intern_def split_beta Let_def)
  have "st_small (p_strings (snd (profile_intern p note)))" using assms(3) by (simp add: w q_def)
  then have i: "valid_string q i"
    using valid_string_intern [OF assms(2)] by (simp add: q_def i_def)
  have "hd (st_strings (p_strings q)) = []" "st_strings (p_strings q) \<noteq> []"
    using g assms(1,2) by (auto simp: grown_def st_ok_def)
  then have "heap_valid q"
    using assms(1) header_valid_grown [OF _ g] valid_grown [OF g]
    by (auto simp: heap_valid_def tables_valid_def tables)
  then have "heap_valid (with_comment note p)"
    using i unfolding w
    by (auto simp: heap_valid_def tables_valid_def header_valid_def metrics_valid_def mapping_valid_def
        function_valid_def location_valid_def sample_valid_def label_valid_def valid_string_def
        profile_string_def profile_get_def tables cong: map_cong)
  then show ?thesis by (simp add: w tables)
qed

section \<open>The contract of a backend\<close>

locale heap_backend =
  fixes capture :: "'t list \<Rightarrow> (capture_error + profile) option \<times> profile list"
  assumes published: "capture ts = (result, ps) \<Longrightarrow> q \<in> set ps \<Longrightarrow> \<exists>hp. to_pprof hp = Inr q"
    and returned: "capture ts = (Some (Inr p), ps) \<Longrightarrow>
      ps \<noteq> [] \<and> (p = last ps \<or> (\<exists>status. p = with_comment (exit_note status) (last ps)))"
begin

lemma checkpoints_valid:
  assumes "capture ts = (result, ps)" and "list_all tables_small ps"
  shows "list_all heap_valid ps"
  using published [OF assms(1)] checkpoint_written assms(2) unfolding list_all_iff by blast

text \<open>The artifact is valid, with the samples of the last checkpoint.\<close>

lemma artifact_valid:
  assumes "capture ts = (Some (Inr p), ps)" and "list_all tables_small (p # ps)"
  shows "ps \<noteq> [] \<and> heap_valid p \<and> p_samples p = p_samples (last ps)"
proof -
  have r: "ps \<noteq> []" "p = last ps \<or> (\<exists>status. p = with_comment (exit_note status) (last ps))"
    using returned [OF assms(1)] by blast+
  then obtain hp where "to_pprof hp = Inr (last ps)" using published [OF assms(1)] by fastforce
  moreover have "tables_small (last ps)" using assms(2) r(1) by (simp add: list_all_iff)
  ultimately have "heap_valid (last ps)" "st_ok (p_strings (last ps))" using checkpoint_written by blast+
  moreover have "st_small (p_strings p)" using assms(2) by (simp add: tables_small_def)
  ultimately show ?thesis using r with_comment_valid by auto
qed

end

lemma checkpoint_to_pprof:
  "checkpoint env file final r = Inr (r', q) \<Longrightarrow> \<exists>hp. to_pprof hp = Inr q"
  by (auto simp: checkpoint_def bindr_Inr_iff)

lemma run_loop_checkpoints:
  "run_loop me path pid ts reader = (result, ps) \<Longrightarrow>
     (\<forall>q\<in>set ps. \<exists>hp. to_pprof hp = Inr q) \<and> (\<forall>p. result = Some (Inr p) \<longrightarrow> ps \<noteq> [] \<and> p = last ps)"
proof (induction ts arbitrary: reader result ps)
  case (Cons t ts)
  show ?case
    using Cons.prems
    by (auto split: sum.splits if_splits option.splits prod.splits dest!: Cons.IH dest: checkpoint_to_pprof)
qed simp

lemma attach_loop_checkpoints:
  "attach_loop ts r = (result, ps) \<Longrightarrow>
     (\<forall>q\<in>set ps. \<exists>hp. to_pprof hp = Inr q) \<and> (\<forall>p. result = Some (Inr p) \<longrightarrow> ps \<noteq> [] \<and> p = last ps)"
proof (induction ts arbitrary: r result ps)
  case (Cons t ts)
  show ?case
    using Cons.prems
    by (auto split: sum.splits if_splits prod.splits dest!: Cons.IH dest: checkpoint_to_pprof)
qed simp

lemma macos_snapshot_to_pprof: "macos_snapshot t = Inr q \<Longrightarrow> \<exists>hp. to_pprof hp = Inr q"
  by (auto simp: macos_snapshot_def Let_def split: if_splits sum.splits)

lemma after_channel_checkpoints:
  "after_channel t ready lp = (result, lp', calls) \<Longrightarrow> q \<in> set (checkpoints calls) \<Longrightarrow> \<exists>hp. to_pprof hp = Inr q"
  by (auto simp: after_channel_def Let_def split: sum.splits option.splits if_splits dest: macos_snapshot_to_pprof)

lemma mac_capture_checkpoints:
  "mac_capture_loop ts ready lp = (result, calls) \<Longrightarrow> q \<in> set (checkpoints calls) \<Longrightarrow> \<exists>hp. to_pprof hp = Inr q"
proof (induction ts arbitrary: ready lp result calls)
  case (Cons t ts)
  show ?case
    using Cons.prems
    by (auto simp: Let_def split: sum.splits if_splits prod.splits
        dest: macos_snapshot_to_pprof after_channel_checkpoints Cons.IH)
qed simp

lemma mac_attach_checkpoints:
  "mac_attach_loop ts p = (result, ps) \<Longrightarrow> q \<in> set ps \<Longrightarrow> \<exists>hp. to_pprof hp = Inr q"
proof (induction ts arbitrary: p result ps)
  case (Cons t ts)
  show ?case
    using Cons.prems
    by (auto split: sum.splits if_splits prod.splits dest: macos_snapshot_to_pprof Cons.IH)
qed simp

interpretation linux_run: heap_backend "capture_run options library preload_set spawned me path"
  for options library preload_set spawned me path
  using run_loop_checkpoints [of me path]
  by unfold_locales
     (fastforce simp: capture_run_def capture_guard_def split: if_splits option.splits prod.splits)+

interpretation linux_attach: heap_backend "capture_attach options environ open_log me pid"
  for options environ open_log me pid
  using attach_loop_checkpoints
  by unfold_locales
     (fastforce simp: capture_attach_def capture_guard_def attach_def split: if_splits option.splits prod.splits sum.splits)+

interpretation mac_run: heap_backend "mac_run_checkpoints options channel_passed insert_set spawned"
  for options channel_passed insert_set spawned
proof unfold_locales
  fix ts result ps q
  assume "mac_run_checkpoints options channel_passed insert_set spawned ts = (result, ps)" and "q \<in> set ps"
  then show "\<exists>hp. to_pprof hp = Inr q"
    using mac_capture_checkpoints [of ts False None]
    by (fastforce simp: mac_run_checkpoints_def mac_capture_run_def capture_guard_def split: prod.splits if_splits)
next
  fix ts p ps
  assume "mac_run_checkpoints options channel_passed insert_set spawned ts = (Some (Inr p), ps)"
  then obtain calls where "mac_capture_loop ts False None = (Some (Inr p), calls)" "ps = checkpoints calls"
    by (auto simp: mac_run_checkpoints_def mac_capture_run_def capture_guard_def split: prod.splits if_splits)
  then show "ps \<noteq> [] \<and> (p = last ps \<or> (\<exists>status. p = with_comment (exit_note status) (last ps)))"
    using mac_capture_returns [of ts False None p calls] by (auto simp: last_of_def split: if_splits)
qed

interpretation mac_attach: heap_backend "mac_capture_attach options processes first" for options processes first
proof unfold_locales
  fix ts result ps q
  assume "mac_capture_attach options processes first ts = (result, ps)" and "q \<in> set ps"
  then show "\<exists>hp. to_pprof hp = Inr q"
    using mac_attach_checkpoints [of ts] macos_snapshot_to_pprof [of first]
    by (fastforce simp: mac_capture_attach_def capture_guard_def split: prod.splits if_splits option.splits sum.splits)
next
  fix ts p ps
  assume "mac_capture_attach options processes first ts = (Some (Inr p), ps)"
  then obtain r qs where "mac_attach_loop ts r = (Some (Inr p), qs)" "ps = r # qs"
    by (auto simp: mac_capture_attach_def capture_guard_def split: if_splits option.splits sum.splits prod.splits)
  then show "ps \<noteq> [] \<and> (p = last ps \<or> (\<exists>status. p = with_comment (exit_note status) (last ps)))"
    using mac_attach_returns [of ts r p qs] by simp
qed

text \<open>Hence the command's source, whichever it is.\<close>

lemma captured_valid:
  assumes "captured options source = (Some (Inr p), ps)" and "list_all tables_small (p # ps)"
  shows "ps \<noteq> [] \<and> list_all heap_valid (p # ps) \<and> p_samples p = p_samples (last ps)"
proof (cases source)
  case (LinuxRun library preload_set spawned me path ts)
  then show ?thesis
    using assms linux_run.artifact_valid linux_run.checkpoints_valid by (metis captured.simps(1) list.pred_inject(2))
next
  case (LinuxAttach environ open_log me pid ts)
  then show ?thesis
    using assms linux_attach.artifact_valid linux_attach.checkpoints_valid by (metis captured.simps(2) list.pred_inject(2))
next
  case (MacRun channel_passed insert_set spawned ts)
  then show ?thesis
    using assms mac_run.artifact_valid mac_run.checkpoints_valid by (metis captured.simps(3) list.pred_inject(2))
next
  case (MacAttach processes first ts)
  then show ?thesis
    using assms mac_attach.artifact_valid mac_attach.checkpoints_valid by (metis captured.simps(4) list.pred_inject(2))
qed

section \<open>What is delivered\<close>

text \<open>The frames of checkpoints, numbered.\<close>

definition checkpoint_frames :: "u64 list \<Rightarrow> profile list \<Rightarrow> frame list" where
  "checkpoint_frames ns ps = map2 (\<lambda>n q. (ProfileCheckpoint, n, profile_encode q)) ns ps"

lemma publish_checkpoint_healthy:
  assumes "healthy env hello" and "heap_valid q"
  shows "pub_stream (snd (publish_heap_checkpoint env q p)) = Some (
      (case pub_stream p of Some sent \<Rightarrow> sent
        | None \<Rightarrow> frame_bytes Hello (saturating_add_u64 (pub_sequence p) 1) hello)
      @ frame_bytes ProfileCheckpoint (pub_sequence (snd (publish_heap_checkpoint env q p))) (profile_encode q))"
proof -
  have "validate_profile q = Inr ()" using assms(2) by (simp add: validate_profile_iff)
  then have "snd (publish_heap_checkpoint env q p) = snd (send env ProfileCheckpoint (profile_encode q) p)"
    by (simp add: publish_heap_checkpoint_def split: sum.splits prod.splits)
  then show ?thesis using send_healthy [OF assms(1)] by simp
qed

lemma checkpoints_streamed:
  assumes "\<forall>i<length ps. healthy (envs i) hello" and "list_all heap_valid ps"
  shows "case fold (heap_checkpoint True session_id mode name) (map (\<lambda>i. (envs i, pid, ps ! i)) [0..<length ps]) None of
      None \<Rightarrow> ps = []
    | Some P \<Rightarrow> \<exists>n0 ns. length ns = length ps
        \<and> pub_stream P = Some (frames_bytes ((Hello, n0, hello) # checkpoint_frames ns ps))"
  using assms
proof (induction ps rule: rev_induct)
  case (snoc q ps)
  let ?run = "\<lambda>qs. fold (heap_checkpoint True session_id mode name) (map (\<lambda>i. (envs i, pid, qs ! i)) [0..<length qs]) None"
  have rows: "map (\<lambda>i. (envs i, pid, (ps @ [q]) ! i)) [0..<length (ps @ [q])]
      = map (\<lambda>i. (envs i, pid, ps ! i)) [0..<length ps] @ [(envs (length ps), pid, q)]"
    by (rule nth_equalityI) (auto simp: nth_append less_Suc_eq)
  have run: "?run (ps @ [q]) = heap_checkpoint True session_id mode name (envs (length ps), pid, q) (?run ps)"
    by (simp only: rows fold_append) simp
  have q: "healthy (envs (length ps)) hello" "heap_valid q" using snoc.prems by simp_all
  have IH: "case ?run ps of None \<Rightarrow> ps = []
    | Some P \<Rightarrow> \<exists>n0 ns. length ns = length ps
        \<and> pub_stream P = Some (frames_bytes ((Hello, n0, hello) # checkpoint_frames ns ps))"
    using snoc by simp
  show ?case
  proof (cases "?run ps")
    case None
    let ?p = "publisher_new default_session_port (session_hello_new session_id mode pid name 0)"
    let ?P = "snd (publish_heap_checkpoint (envs (length ps)) q ?p)"
    have ps: "ps = []" using IH None by simp
    have "pub_stream ?p = None" by (simp add: publisher_new_def)
    then have "pub_stream ?P = Some (frames_bytes ((Hello, saturating_add_u64 (pub_sequence ?p) 1, hello)
        # checkpoint_frames [pub_sequence ?P] [q]))"
      using publish_checkpoint_healthy [OF q, of ?p] by (simp add: frames_bytes_def checkpoint_frames_def)
    then have "\<exists>n0 ns. length ns = length (ps @ [q])
        \<and> pub_stream ?P = Some (frames_bytes ((Hello, n0, hello) # checkpoint_frames ns (ps @ [q])))"
      by (intro exI [of _ "saturating_add_u64 (pub_sequence ?p) 1"] exI [of _ "[pub_sequence ?P]"]) (simp add: ps)
    moreover have "?run (ps @ [q]) = Some ?P" unfolding run None by (simp add: heap_checkpoint_def)
    ultimately show ?thesis by (simp only: option.case)
  next
    case (Some P)
    let ?P = "snd (publish_heap_checkpoint (envs (length ps)) q P)"
    obtain n0 ns where ns: "length ns = length ps"
      "pub_stream P = Some (frames_bytes ((Hello, n0, hello) # checkpoint_frames ns ps))"
      using IH Some by auto
    have "pub_stream ?P = Some (frames_bytes ((Hello, n0, hello)
        # checkpoint_frames (ns @ [pub_sequence ?P]) (ps @ [q])))"
      using publish_checkpoint_healthy [OF q, of P] ns by (simp add: frames_bytes_def checkpoint_frames_def)
    then have "\<exists>n0 ns. length ns = length (ps @ [q])
        \<and> pub_stream ?P = Some (frames_bytes ((Hello, n0, hello) # checkpoint_frames ns (ps @ [q])))"
      using ns(1) by (intro exI [of _ n0] exI [of _ "ns @ [pub_sequence ?P]"]) simp
    moreover have "?run (ps @ [q]) = Some ?P" unfolding run Some by (simp add: heap_checkpoint_def)
    ultimately show ?thesis by (simp only: option.case)
  qed
qed simp

lemma heap_session_delivered:
  assumes run: "heap_session z display duration interval publish session_id mode name pid source envs env describe outcome
      output files = Some (Inr (), publisher, files')"
    and captured: "captured (heap_options duration interval) source = (Some (Inr p), ps)"
    and "list_all tables_small (p # ps)"
    and "\<forall>i<length ps. healthy (envs i) hello" and "healthy env hello"
  shows "\<exists>compressed. gz_compress z (profile_encode p) = Some compressed \<and> read_file files' output = Inr compressed
    \<and> (if publish then \<exists>P n0 ns n. publisher = Some P \<and> length ns = length ps
        \<and> pub_stream P = Some (frames_bytes ((Hello, n0, hello) # checkpoint_frames ns ps @ [(FinalProfile, n, compressed)]))
       else publisher = None)"
proof -
  let ?run = "fold (heap_checkpoint publish session_id mode name) (map (\<lambda>i. (envs i, pid, ps ! i)) [0..<length ps]) None"
  have command: "heap_command z duration publish session_id mode name (map (\<lambda>i. (envs i, pid, ps ! i)) [0..<length ps], Inr p)
      env describe outcome output files = (Inr (), publisher, files')"
    using run captured by (auto simp: heap_session_def split: sum.splits)
  then obtain compressed where z: "gz_compress z (profile_encode p) = Some compressed"
    and w: "write_file outcome output compressed files = (Inr (), files')"
    and pub: "publisher = map_option (\<lambda>P. snd (send env FinalProfile compressed P)) ?run"
    by (auto simp: heap_command_def Let_def write_gzip_def gzip_data_def split: sum.splits option.splits prod.splits)
  have written: "read_file files' output = Inr compressed"
    using w by (auto simp: write_file_def read_file_def split: write_outcome.splits)
  have valid: "ps \<noteq> []" "list_all heap_valid ps" using captured_valid [OF captured assms(3)] by simp_all
  show ?thesis
  proof (cases publish)
    case False
    have "fold (heap_checkpoint False session_id mode name) cs P = P" for cs P
      by (induction cs) (simp_all add: heap_checkpoint_def split_beta)
    then show ?thesis using z written pub False by simp
  next
    case True
    obtain P n0 ns where P: "?run = Some P" "length ns = length ps"
      "pub_stream P = Some (frames_bytes ((Hello, n0, hello) # checkpoint_frames ns ps))"
      using checkpoints_streamed [OF assms(4) valid(2), of session_id mode name pid] valid(1) True
      by (auto split: option.splits)
    let ?Q = "snd (send env FinalProfile compressed P)"
    have "pub_stream ?Q = Some (frames_bytes ((Hello, n0, hello) # checkpoint_frames ns ps
        @ [(FinalProfile, pub_sequence ?Q, compressed)]))"
      using send_healthy [OF assms(5), of FinalProfile compressed P] P(3) by (simp add: frames_bytes_def)
    then show ?thesis using z written pub P(1,2) True by auto
  qed
qed

section \<open>Properties\<close>

text \<open>C30: a heap profiling session that ends well over a working network, whichever backend captured it:
  the output file holds the compressed encoding of a valid heap profile with the samples of the
  last checkpoint, and when it publishes, the connection holds the greeting, every checkpoint in
  order and, as the final profile, the bytes of the file; otherwise there is no connection.\<close>

theorem heap_session_delivers:
  assumes "heap_session z display duration interval publish session_id mode name pid source envs env describe outcome
      output files = Some (Inr (), publisher, files')"
    and "captured (heap_options duration interval) source = (Some (Inr p), ps)"
    and "list_all tables_small (p # ps)"
    and "\<forall>i<length ps. healthy (envs i) hello" and "healthy env hello"
  shows "heap_valid p \<and> ps \<noteq> [] \<and> p_samples p = p_samples (last ps)
    \<and> (\<exists>compressed. gz_compress z (profile_encode p) = Some compressed \<and> read_file files' output = Inr compressed
      \<and> (if publish then \<exists>P n0 ns n. publisher = Some P \<and> length ns = length ps
          \<and> pub_stream P = Some (frames_bytes ((Hello, n0, hello) # checkpoint_frames ns ps @ [(FinalProfile, n, compressed)]))
         else publisher = None))"
  using captured_valid [OF assms(2,3)] heap_session_delivered [OF assms] by simp

definition demo_source :: heap_source where
  "demo_source = MacAttach (Some (str_bytes ''app MallocStackLoggingNoCompact=1'')) demo_tool
     [\<lparr>mc_running = True, mc_alive = True, mc_tool = demo_tool, mc_alive_after = True\<rparr>,
      \<lparr>mc_running = False, mc_alive = False, mc_tool = demo_tool, mc_alive_after = False\<rparr>]"

definition demo_heap_session :: "((command_error + unit) \<times> publisher option \<times> files) option" where
  "demo_heap_session = heap_session demo_gzip (\<lambda>_. []) None 500 True ''s'' ''attach'' ''pid 7'' 7 demo_source
     (\<lambda>_. demo_network) demo_network (\<lambda>_. []) Written [''c''] demo_files"

theorem heap_session_delivers_witness:
  "\<exists>r files' P n0 n1 n2 n. demo_heap_session = Some (Inr (), Some P, files') \<and> heap_valid r
    \<and> read_file files' [''c''] = Inr (gzip_magic @ profile_encode r)
    \<and> pub_stream P = Some (frames_bytes [(Hello, n0, [123, 125]), (ProfileCheckpoint, n1, profile_encode r),
        (ProfileCheckpoint, n2, profile_encode r), (FinalProfile, n, gzip_magic @ profile_encode r)])"
proof -
  obtain r where r: "macos_snapshot demo_tool = Inr r" "tables_small r" using demo_tool_snapshot by blast
  have "logging_fully (utf8_lossy (str_bytes ''app MallocStackLoggingNoCompact=1''))" by code_simp
  then have captured: "captured (heap_options None 500) demo_source = (Some (Inr r), [r, r])"
    by (simp add: demo_source_def mac_capture_attach_def capture_guard_def heap_options_def r(1))
  then obtain P files' where run: "demo_heap_session = Some (Inr (), Some P, files')"
    by (auto simp: demo_heap_session_def heap_session_def check_duration_def heap_command_def Let_def write_gzip_def
        gzip_data_def demo_gzip_def write_file_def upt_rec heap_checkpoint_def)
  have gz: "gz_compress demo_gzip bs = Some (gzip_magic @ bs)" for bs by (simp add: demo_gzip_def)
  have "list_all tables_small (r # [r, r])" "\<forall>i<length [r, r]. healthy demo_network [123, 125]"
    using r(2) demo_healthy by simp_all
  from heap_session_delivers [OF run [unfolded demo_heap_session_def] captured this demo_healthy]
  have "heap_valid r \<and> read_file files' [''c''] = Inr (gzip_magic @ profile_encode r)
    \<and> (\<exists>n0 ns n. length ns = Suc (Suc 0) \<and> pub_stream P = Some (frames_bytes ((Hello, n0, [123, 125]) # checkpoint_frames ns [r, r]
        @ [(FinalProfile, n, gzip_magic @ profile_encode r)])))"
    by (simp add: gz)
  then obtain n0 ns n where "heap_valid r" "read_file files' [''c''] = Inr (gzip_magic @ profile_encode r)"
    "length ns = Suc (Suc 0)" "pub_stream P = Some (frames_bytes ((Hello, n0, [123, 125]) # checkpoint_frames ns [r, r]
        @ [(FinalProfile, n, gzip_magic @ profile_encode r)]))"
    by blast
  then obtain n1 n2 where "ns = [n1, n2]" by (auto simp: length_Suc_conv)
  with \<open>pub_stream P = _\<close> have "pub_stream P = Some (frames_bytes [(Hello, n0, [123, 125]),
      (ProfileCheckpoint, n1, profile_encode r), (ProfileCheckpoint, n2, profile_encode r),
      (FinalProfile, n, gzip_magic @ profile_encode r)])"
    by (simp add: checkpoint_frames_def)
  then show ?thesis using run \<open>heap_valid r\<close> \<open>read_file files' _ = _\<close> by blast
qed

end
