(* ===== verification/Written_Profile.thy ===== *)
theory Written_Profile
  imports Encode Report Pprof_Codec
begin

text \<open>
  A CPU profile read by the analysis: what \<open>build_proto\<close> of \<open>src/encode.rs\<close> writes, decoded and
  handed to \<open>ProfileReport\<close> of \<open>src/report.rs\<close>.

  The encoder makes one function and one location for each address, with the same identifier, so
  the rows of a report are the addresses that were sampled.
\<close>

section \<open>The tables\<close>

text \<open>Functions and locations are appended together, one of each for an address.\<close>

definition lockstep :: "encoder \<Rightarrow> bool" where
  "lockstep en \<longleftrightarrow>
     length (p_functions (en_profile en)) = length (p_locations (en_profile en))
     \<and> distinct (map loc_address (p_locations (en_profile en)))
     \<and> (\<forall>a. en_loc_ids en a = None \<longrightarrow>
          a \<notin> loc_address ` set (p_locations (en_profile en)) \<and> en_func_ids en a = None)
     \<and> list_all (\<lambda>l. \<exists>n. loc_lines l = [ln_default\<lparr>ln_function_id := loc_id l, ln_line := n\<rparr>])
         (p_locations (en_profile en))"

lemma encode_location_lockstep:
  assumes "lockstep en"
  shows "lockstep (snd (encode_location images a f en))"
proof (cases "en_loc_ids en a")
  case None
  then have "en_func_ids en a = None" using assms by (simp add: lockstep_def)
  then show ?thesis
    using assms None
    by (simp add: encode_location_def encode_function_def profile_intern_def Let_def split_beta lockstep_def) blast
qed (use assms in \<open>simp add: encode_location_def\<close>)

lemma encode_stack_lockstep: "lockstep en \<Longrightarrow> lockstep (snd (encode_stack frames images addrs en))"
  by (induction addrs arbitrary: en)
     (auto simp: Let_def split_beta encode_location_lockstep split: option.split)

text \<open>What the header wrote stays.\<close>

definition header_kept :: "profile \<Rightarrow> profile \<Rightarrow> bool" where
  "header_kept p q \<longleftrightarrow> p_value_types q = p_value_types p \<and> p_default_sample_type q = p_default_sample_type p
     \<and> prefix (st_strings (p_strings p)) (st_strings (p_strings q))"

lemma header_kept_refl [simp]: "header_kept p p"
  by (simp add: header_kept_def)

lemma header_kept_trans [trans]: "header_kept p q \<Longrightarrow> header_kept q r \<Longrightarrow> header_kept p r"
  by (auto simp: header_kept_def intro: prefix_order.trans)

lemma header_kept_intern: "header_kept p (snd (profile_intern p s))"
  using extends_intern [of p s]
  by (auto simp: header_kept_def extends_def) (simp_all add: profile_intern_def split_beta)

lemma header_kept_tables [simp]:
  "header_kept p (q\<lparr>p_functions := fs\<rparr>) = header_kept p q" "header_kept p (q\<lparr>p_locations := ls\<rparr>) = header_kept p q"
  "header_kept p (q\<lparr>p_samples := ss\<rparr>) = header_kept p q" "header_kept p (q\<lparr>p_mappings := ms\<rparr>) = header_kept p q"
  by (simp_all add: header_kept_def)

lemma header_kept_interns:
  "header_kept p (snd (profile_intern (snd (profile_intern p s)) t))"
  by (rule header_kept_trans [OF header_kept_intern header_kept_intern])

lemma mapping_step_header: "header_kept p (mapping_step fs images i p)"
  by (simp add: mapping_step_def Let_def split_beta header_kept_intern)

lemma encode_location_header: "header_kept (en_profile en) (en_profile (snd (encode_location images a f en)))"
  by (auto simp: encode_location_def encode_function_def Let_def split_beta header_kept_interns split: option.split)

lemma encode_stack_header: "header_kept (en_profile en) (en_profile (snd (encode_stack frames images addrs en)))"
  by (induction addrs arbitrary: en)
     (auto simp: Let_def split_beta intro: header_kept_trans encode_location_header split: option.split)

lemma sample_labels_header: "header_kept p (snd (sample_labels k threads s p))"
  by (simp add: sample_labels_def Let_def split_beta header_kept_intern)

lemma encode_sample_keeps:
  assumes "lockstep en" and "header_kept p (en_profile en)"
  shows "lockstep (encode_sample k n sp images s en) \<and> header_kept p (en_profile (encode_sample k n sp images s en))"
proof -
  let ?en = "snd (encode_stack (sp_frames sp) images (ss_stack s) en)"
  have "lockstep ?en" by (rule encode_stack_lockstep [OF assms(1)])
  moreover have "header_kept p (en_profile ?en)" by (rule header_kept_trans [OF assms(2) encode_stack_header])
  moreover from this have "header_kept p (snd (sample_labels k (sp_threads sp) s (en_profile ?en)))"
    by (rule header_kept_trans [OF _ sample_labels_header])
  ultimately show ?thesis
    using sample_labels_extends [of "en_profile ?en" k "sp_threads sp" s]
    by (simp add: encode_sample_def Let_def split_beta lockstep_def)
qed

lemma encode_samples_keep:
  assumes "lockstep en" and "header_kept p (en_profile en)"
  shows "lockstep (fold (encode_sample k n sp images) ss en)
    \<and> header_kept p (en_profile (fold (encode_sample k n sp images) ss en))"
  using assms by (induction ss arbitrary: en) (simp_all add: encode_sample_keeps)

lemma mapping_steps_header: "header_kept p (fold (mapping_step fs images) js p)"
proof (induction js arbitrary: p)
  case (Cons i js)
  have "header_kept p (fold (mapping_step fs images) js (mapping_step fs images i p))"
    by (rule header_kept_trans [OF mapping_step_header Cons.IH])
  then show ?case by simp
qed simp

definition cpu_header :: "profile \<Rightarrow> bool" where
  "cpu_header p \<longleftrightarrow> p_value_types p = [\<lparr>vt_type = 1, vt_unit = 2\<rparr>, \<lparr>vt_type = 3, vt_unit = 4\<rparr>]
     \<and> p_default_sample_type p = 0
     \<and> prefix [[], ''samples'', ''count'', ''wall'', ''nanoseconds'', ''thread_id'', ''thread_name'', ''pprofessor::timestamp'']
         (st_strings (p_strings p))"

lemma encode_strings_header:
  "cpu_header (encode_header sp n (fst (encode_strings profile_new)) (snd (encode_strings profile_new)))"
  by (simp add: cpu_header_def encode_header_def encode_strings_def profile_intern_def profile_new_def st_new_def
      st_empty_def intern_def Let_def)

text \<open>Every profile that \<open>build_proto\<close> writes.\<close>

definition cpu_tables :: "profile \<Rightarrow> bool" where
  "cpu_tables p \<longleftrightarrow> cpu_header p \<and> st_ok (p_strings p)
     \<and> numbered (map fn_id (p_functions p)) \<and> numbered (map loc_id (p_locations p))
     \<and> length (p_functions p) = length (p_locations p) \<and> length (p_locations p) < 2 ^ 64
     \<and> distinct (map loc_address (p_locations p))
     \<and> list_all (\<lambda>l. \<exists>n. loc_lines l = [ln_default\<lparr>ln_function_id := loc_id l, ln_line := n\<rparr>]) (p_locations p)"

lemma build_profile_tables:
  assumes "build_profile file_size sp = Inr p" and "frames_ok (sp_frames sp)"
    and "st_small (p_strings p)" and "length (p_functions p) < 2 ^ 64" and "length (p_locations p) < 2 ^ 64"
  shows "cpu_tables p"
proof -
  define n :: i64 where "n = word_of_int (1000000000 div uint (sp_freq_hz sp))"
  define images where "images = sort_key im_load_address (sp_images sp)"
  obtain k p0 where keys: "encode_strings profile_new = (k, p0)" by (cases "encode_strings profile_new")
  define p1 where "p1 = encode_header sp n k p0"
  define p2 where "p2 = fold (mapping_step file_size images) [0..<length images] p1"
  define en0 where "en0 = \<lparr>en_profile = p2, en_func_ids = Map.empty, en_loc_ids = Map.empty\<rparr>"
  define en where "en = fold (encode_sample k n sp images) (sp_samples sp) en0"
  have p: "p = en_profile en"
    using assms(1) by (simp add: build_profile_def keys Let_def n_def images_def p1_def p2_def en0_def en_def
        split: if_splits)
  obtain st where p0: "p0 = profile_new\<lparr>p_strings := st\<rparr>" "st_ok st"
    using encode_strings_profile [of profile_new] st_ok_new keys by (auto simp: profile_new_def)
  then have "built n sp [] en0"
    using mapping_steps [of file_size images "[0..<length images]" p1]
    by (simp add: built_def encoder_ok_def en0_def p2_def p1_def encode_header_def profile_new_def)
  then have "built n sp (sp_samples sp) en"
    using encode_samples_built [of n sp "[]" en0 k images "sp_samples sp"] assms(2-5) p
    by (simp add: en_def encoder_small_def)
  moreover have "header_kept p1 (en_profile en0)" by (simp add: en0_def p2_def mapping_steps_header)
  moreover have "lockstep en0"
    using mapping_steps [of file_size images "[0..<length images]" p1] p0
    by (simp add: lockstep_def en0_def p2_def) (simp add: p1_def encode_header_def profile_new_def)
  ultimately have "lockstep en" "header_kept p1 p" "encoder_ok (sp_frames sp) en"
    using encode_samples_keep [of en0 p1 k n sp images "sp_samples sp"] by (simp_all add: en_def p built_def)
  moreover have "cpu_header p1" using encode_strings_header [of sp n] by (simp add: p1_def keys)
  ultimately show ?thesis
    using assms(5)
    by (auto simp: cpu_tables_def cpu_header_def header_kept_def lockstep_def encoder_ok_def p
        intro: prefix_order.trans)
qed

section \<open>Labels\<close>

text \<open>What a sample says of its thread and of its time: the labels of these names.\<close>

definition label_num :: "profile \<Rightarrow> string \<Rightarrow> sample \<Rightarrow> i64 option" where
  "label_num p name s = map_option lb_num (find (\<lambda>l. profile_get p (lb_key l) = Some name) (sm_labels s))"

definition sample_thread_label :: "profile \<Rightarrow> sample \<Rightarrow> i64 option" where
  "sample_thread_label p = label_num p ''thread_id''"

definition sample_time_label :: "profile \<Rightarrow> sample \<Rightarrow> i64 option" where
  "sample_time_label p = label_num p ''pprofessor::timestamp''"

text \<open>The labels of the encoder, by the indices of its keys.\<close>

definition key_num :: "u64 \<Rightarrow> sample \<Rightarrow> i64 option" where
  "key_num k s = map_option lb_num (find (\<lambda>l. lb_key l = k) (sm_labels s))"

definition label_keys :: "encode_keys \<Rightarrow> bool" where
  "label_keys k \<longleftrightarrow> k_thread_id k = 5 \<and> k_thread_name k = 6 \<and> k_timestamp k = 7"

definition plain_labels :: "sample \<Rightarrow> bool" where
  "plain_labels s \<longleftrightarrow> list_all (\<lambda>l. lb_key l \<in> {5, 6, 7}) (sm_labels s)"

definition labelled :: "sym_sample \<Rightarrow> sample \<Rightarrow> bool" where
  "labelled s m \<longleftrightarrow> plain_labels m \<and> key_num 5 m = Some (ss_thread_id s)
     \<and> key_num 7 m = map_option word_min_i64 (ss_timestamp s)"

lemma encode_strings_keys: "label_keys (fst (encode_strings profile_new))"
  by (simp add: label_keys_def encode_strings_def profile_intern_def profile_new_def st_new_def
      st_empty_def intern_def Let_def)

lemma sample_labels_labelled:
  assumes "label_keys k" and "sm_labels m = fst (sample_labels k threads s p)"
  shows "labelled s m"
  using assms
  by (auto simp: labelled_def plain_labels_def key_num_def label_keys_def sample_labels_def Let_def split_beta
      split: option.split)

lemma encode_stack_length:
  "length (fst (encode_stack frames images addrs en)) = length (List.map_filter frames addrs)"
  by (induction addrs arbitrary: en) (simp_all add: Let_def split_beta List.map_filter_simps split: option.split)

lemma encode_sample_labelled:
  assumes "label_keys k"
  shows "\<exists>ms. p_samples (en_profile (encode_sample k n sp images s en)) = p_samples (en_profile en) @ ms
    \<and> list_all2 labelled (filter (\<lambda>s. resolve_stack sp s \<noteq> []) [s]) ms"
proof -
  let ?r = "encode_stack (sp_frames sp) images (ss_stack s) en"
  have same: "p_samples (en_profile (snd ?r)) = p_samples (en_profile en)" using encode_stack_extends by blast
  have empty: "fst ?r = [] \<longleftrightarrow> resolve_stack sp s = []"
    using encode_stack_length [of "sp_frames sp" images "ss_stack s" en] by (auto simp: resolve_stack_def)
  show ?thesis
    using sample_labels_extends [of "en_profile (snd ?r)" k "sp_threads sp" s] sample_labels_labelled [OF assms] same empty
    by (simp add: encode_sample_def Let_def split_beta)
qed

lemma encode_samples_labelled:
  assumes "label_keys k"
  shows "\<exists>ms. p_samples (en_profile (fold (encode_sample k n sp images) ss en)) = p_samples (en_profile en) @ ms
    \<and> list_all2 labelled (filter (\<lambda>s. resolve_stack sp s \<noteq> []) ss) ms"
proof (induction ss rule: rev_induct)
  case (snoc s ss)
  then obtain ms where "p_samples (en_profile (fold (encode_sample k n sp images) ss en)) = p_samples (en_profile en) @ ms"
    "list_all2 labelled (filter (\<lambda>s. resolve_stack sp s \<noteq> []) ss) ms" by blast
  moreover obtain ms' where "p_samples (en_profile (fold (encode_sample k n sp images) (ss @ [s]) en))
      = p_samples (en_profile (fold (encode_sample k n sp images) ss en)) @ ms'"
    "list_all2 labelled (filter (\<lambda>s. resolve_stack sp s \<noteq> []) [s]) ms'"
    using encode_sample_labelled [OF assms, of n sp images s "fold (encode_sample k n sp images) ss en"] by auto
  ultimately show ?case by (simp del: filter.simps add: list_all2_appendI)
qed simp

lemma label_num_key:
  assumes "cpu_header p" and "plain_labels m"
  shows "sample_thread_label p m = key_num 5 m" and "sample_time_label p m = key_num 7 m"
proof -
  have "unat (5 :: u64) = 5" "unat (6 :: u64) = 6" "unat (7 :: u64) = 7" by simp_all
  then have names: "profile_get p 5 = Some ''thread_id''" "profile_get p 6 = Some ''thread_name''"
    "profile_get p 7 = Some ''pprofessor::timestamp''"
    using assms(1) by (auto simp: cpu_header_def profile_get_def st_get_def prefix_def)
  have key: "find (\<lambda>l. profile_get p (lb_key l) = Some name) ls = find (\<lambda>l. lb_key l = j) ls"
    if "list_all (\<lambda>l. lb_key l \<in> {5, 6, 7}) ls" "(name, j) \<in> {(''thread_id'', 5), (''pprofessor::timestamp'', 7)}" for ls name j
    using that by (induction ls) (auto simp: names)
  have plain: "list_all (\<lambda>l. lb_key l \<in> {5, 6, 7}) (sm_labels m)" using assms(2) by (simp only: plain_labels_def)
  show "sample_thread_label p m = key_num 5 m"
    using key [OF plain, of "''thread_id''" 5] by (simp add: sample_thread_label_def label_num_def key_num_def)
  show "sample_time_label p m = key_num 7 m"
    using key [OF plain, of "''pprofessor::timestamp''" 7] by (simp add: sample_time_label_def label_num_def key_num_def)
qed

lemma build_profile_labels:
  assumes "build_profile file_size sp = Inr p" and "cpu_header p"
  shows "map (\<lambda>m. (sample_thread_label p m, sample_time_label p m)) (p_samples p)
    = map (\<lambda>s. (Some (ss_thread_id s), map_option word_min_i64 (ss_timestamp s)))
        (filter (\<lambda>s. resolve_stack sp s \<noteq> []) (sp_samples sp))"
proof -
  define n :: i64 where "n = word_of_int (1000000000 div uint (sp_freq_hz sp))"
  define images where "images = sort_key im_load_address (sp_images sp)"
  obtain k p0 where keys: "encode_strings profile_new = (k, p0)" by (cases "encode_strings profile_new")
  define p1 where "p1 = fold (mapping_step file_size images) [0..<length images] (encode_header sp n k p0)"
  define en0 where "en0 = \<lparr>en_profile = p1, en_func_ids = Map.empty, en_loc_ids = Map.empty\<rparr>"
  have p: "p = en_profile (fold (encode_sample k n sp images) (sp_samples sp) en0)"
    using assms(1) by (simp add: build_profile_def keys Let_def n_def images_def p1_def en0_def split: if_splits)
  obtain st where "p0 = profile_new\<lparr>p_strings := st\<rparr>"
    using encode_strings_profile [of profile_new] st_ok_new keys by (auto simp: profile_new_def)
  then have none: "p_samples (en_profile en0) = []"
    using mapping_steps [of file_size images "[0..<length images]" "encode_header sp n k p0"]
    by (simp add: en0_def p1_def encode_header_def profile_new_def)
  have "label_keys k" using encode_strings_keys by (simp add: keys)
  then have "list_all2 labelled (filter (\<lambda>s. resolve_stack sp s \<noteq> []) (sp_samples sp)) (p_samples p)"
    using encode_samples_labelled [of k n sp images "sp_samples sp" en0] by (auto simp: p none)
  then show ?thesis
    by (induction rule: list_all2_induct) (simp_all add: labelled_def label_num_key [OF assms(2)])
qed

section \<open>Reading it back\<close>

text \<open>Nothing that the analysis looks at is pruned.\<close>

lemma written_pruned:
  assumes "cpu_tables p"
  shows "p_functions (profile_prune p) = p_functions p" and "p_locations (profile_prune p) = p_locations p"
    and "p_value_types (profile_prune p) = p_value_types p"
proof -
  have ids: "0 \<notin> set (map fn_id (p_functions p))" "0 \<notin> set (map loc_id (p_locations p))"
    using assms numbered_distinct [of "map fn_id (p_functions p)"] numbered_distinct [of "map loc_id (p_locations p)"]
    by (auto simp: cpu_tables_def)
  have "\<not> fn_blank f" if "f \<in> set (p_functions p)" for f
    using ids(1) that by (auto simp: fn_blank_def fn_default_def image_iff)
  then show "p_functions (profile_prune p) = p_functions p" by (simp add: profile_prune_def filter_id_conv)
  have "\<not> loc_blank l \<and> loc_prune l = l" if l: "l \<in> set (p_locations p)" for l
  proof -
    have "loc_id l \<noteq> 0" using ids(2) l by (auto simp: image_iff)
    moreover obtain n where "loc_lines l = [ln_default\<lparr>ln_function_id := loc_id l, ln_line := n\<rparr>]"
      using assms l by (auto simp: cpu_tables_def list_all_iff)
    ultimately show ?thesis by (simp add: loc_blank_def loc_prune_def ln_blank_def)
  qed
  then show "p_locations (profile_prune p) = p_locations p"
    by (simp add: profile_prune_def filter_id_conv map_idI)
  show "p_value_types (profile_prune p) = p_value_types p"
    using assms by (simp add: profile_prune_def cpu_tables_def cpu_header_def vt_blank_def)
qed

lemma index_by_find: "distinct (map f xs) \<Longrightarrow> index_by f xs i = find (\<lambda>x. f x = i) xs"
proof (induction xs)
  case (Cons a xs)
  have "f x \<noteq> f a" if "x \<in> set xs" for x
  proof
    assume "f x = f a"
    then have "f a \<in> f ` set xs" by (rule rev_image_eqI [OF that sym])
    then show False using Cons.prems by simp
  qed
  then have "find (\<lambda>x. f x = f a) xs = None" by (auto simp: find_None_iff)
  then show ?case using Cons by (auto simp: index_by_def map_add_def split: option.split)
qed (simp add: index_by_def)

text \<open>The row of an address: its frame, under the identifier of its location.\<close>

definition row_frame :: "u64 \<Rightarrow> stack_frame \<Rightarrow> resolved_frame" where
  "row_frame i f = \<lparr>rv_identity = IdFunction i, rv_function = sf_function f, rv_file = sf_file f,
     rv_line = ucast (sf_line f)\<rparr>"

lemma location_frames_written:
  assumes "cpu_tables p" and "resolve_location p i = Some (view f)"
  shows "location_frames (profile_prune p) i = [row_frame i f]"
proof -
  have d: "distinct (map fn_id (p_functions p))" "distinct (map loc_id (p_locations p))"
    using assms(1) numbered_distinct [of "map fn_id (p_functions p)"] numbered_distinct [of "map loc_id (p_locations p)"]
    by (auto simp: cpu_tables_def)
  obtain l where l: "find (\<lambda>l. loc_id l = i) (p_locations p) = Some l"
    and lines: "those (map (resolve_line p) (loc_lines l)) = Some [(sf_function f, sf_file f, ucast (sf_line f))]"
    using assms(2) by (auto simp: resolve_location_def view_def split: option.splits)
  have "l \<in> set (p_locations p)" "loc_id l = i" using l by (auto simp: find_Some_iff)
  then obtain n where n: "loc_lines l = [ln_default\<lparr>ln_function_id := i, ln_line := n\<rparr>]"
    using assms(1) by (auto simp: cpu_tables_def list_all_iff)
  then obtain fn where fn: "find (\<lambda>f. fn_id f = i) (p_functions p) = Some fn" "profile_get p (fn_name fn) = Some (sf_function f)"
    "profile_get p (fn_filename fn) = Some (sf_file f)" "n = ucast (sf_line f)"
    using lines by (auto simp: resolve_line_def resolve_function_def split: option.splits)
  have "fn_id fn = i" using fn(1) by (auto simp: find_Some_iff)
  moreover have "profile_get (profile_prune p) = profile_get p" by (simp add: fun_eq_iff profile_get_def profile_prune_def)
  ultimately show ?thesis
    using fn(2-4)
    by (simp add: location_frames_def line_frame_def written_pruned [OF assms(1)] index_by_find d l n fn(1)
        List.map_filter_simps profile_string_def row_frame_def ln_default_def)
qed

definition location_of :: "profile \<Rightarrow> u64 \<Rightarrow> u64" where
  "location_of p a = (case find (\<lambda>l. loc_address l = a) (p_locations p) of None \<Rightarrow> 0 | Some l \<Rightarrow> loc_id l)"

lemma location_of_resolved:
  assumes "cpu_tables p" and "resolve_location p i = Some (view f)"
  shows "location_of p (sf_address f) = i"
proof -
  obtain l where found: "find (\<lambda>l. loc_id l = i) (p_locations p) = Some l" and "loc_address l = sf_address f"
    using assms(2) by (auto simp: resolve_location_def view_def split: option.splits)
  then have l: "l \<in> set (p_locations p)" "loc_id l = i" "loc_address l = sf_address f"
    by (auto simp: find_Some_iff)
  have "find (\<lambda>l. loc_address l = sf_address f) (p_locations p) = Some l"
  proof (cases "find (\<lambda>l. loc_address l = sf_address f) (p_locations p)")
    case None
    then show ?thesis using l by (auto simp: find_None_iff)
  next
    case (Some m)
    then have "m \<in> set (p_locations p)" "loc_address m = sf_address f" by (auto simp: find_Some_iff)
    moreover have "inj_on loc_address (set (p_locations p))" using assms(1) by (simp add: cpu_tables_def distinct_map)
    ultimately have "m = l" using l by (metis inj_onD)
    then show ?thesis using Some by simp
  qed
  then show ?thesis by (simp add: location_of_def l(2))
qed

text \<open>The samples of the profile, as stacks of addresses with their frames.\<close>

definition stack_view :: "(u64 \<Rightarrow> stack_frame) \<Rightarrow> i64 \<Rightarrow> u64 list \<Rightarrow> frame_view option list \<times> i64 list" where
  "stack_view fr w st = (map (\<lambda>a. Some (view (fr a))) st, [1, w])"

lemma report_stack_written:
  assumes "cpu_tables p" and "\<And>a. a \<in> set st \<Longrightarrow> sf_address (fr a) = a" and "sample_view p s = stack_view fr w st"
  shows "report_stack (profile_prune p) (sm_prune s) = rev (map (\<lambda>a. row_frame (location_of p a) (fr a)) st)"
proof -
  have frames: "location_frames (profile_prune p) i = [row_frame (location_of p a) (fr a)]"
    if "resolve_location p i = Some (view (fr a))" "a \<in> set st" for i a
    using location_frames_written [OF assms(1) that(1)] location_of_resolved [OF assms(1) that(1)] assms(2) [OF that(2)] by simp
  have "map (resolve_location p) (sm_location_ids s) = map (\<lambda>a. Some (view (fr a))) st"
    using assms(3) by (simp add: sample_view_def stack_view_def)
  then have "map (location_frames (profile_prune p)) (sm_location_ids s) = map (\<lambda>a. [row_frame (location_of p a) (fr a)]) st"
    using frames
  proof (induction st arbitrary: s)
    case (Cons a st)
    then obtain i ids where ids: "sm_location_ids s = i # ids" "resolve_location p i = Some (view (fr a))"
      "map (resolve_location p) ids = map (\<lambda>a. Some (view (fr a))) st"
      by (auto simp: Cons_eq_map_conv)
    then show ?case using Cons.IH [of "s\<lparr>sm_location_ids := ids\<rparr>"] Cons.prems(2) by simp
  qed simp
  then have "map (location_frames (profile_prune p)) (rev (sm_location_ids s)) = map (\<lambda>a. [row_frame (location_of p a) (fr a)]) (rev st)"
    by (metis rev_map)
  moreover have "concat (map (\<lambda>x. [g x]) xs) = map g xs" for g :: "u64 \<Rightarrow> resolved_frame" and xs
    by (induction xs) simp_all
  ultimately show ?thesis by (simp add: report_stack_def sm_prune_def rev_map)
qed

lemma charged_written:
  assumes "cpu_tables p" and "\<And>st a. st \<in> set stacks \<Longrightarrow> a \<in> set st \<Longrightarrow> sf_address (fr a) = a"
    and "map (sample_view p) (p_samples p) = map (stack_view fr w) stacks" and i: "i < 2"
  shows "charged (profile_prune p) i (p_samples (profile_prune p))
      = map (\<lambda>st. (rev (map (\<lambda>a. row_frame (location_of p a) (fr a)) st), [1, w] ! i)) stacks"
    and "length (p_samples (profile_prune p)) = length stacks"
proof -
  have "filter (\<lambda>m. \<not> sm_blank m) ss = ss \<and> map (\<lambda>s. (report_stack (profile_prune p) (sm_prune s), sm_values s)) ss
      = map (\<lambda>st. (rev (map (\<lambda>a. row_frame (location_of p a) (fr a)) st), [1, w])) sts"
    if "map (sample_view p) ss = map (stack_view fr w) sts" "set sts \<subseteq> set stacks" for ss sts
    using that
  proof (induction ss arbitrary: sts)
    case (Cons s ss)
    then obtain st sts' where st: "sts = st # sts'" "sample_view p s = stack_view fr w st"
      "map (sample_view p) ss = map (stack_view fr w) sts'"
      by (auto simp: Cons_eq_map_conv)
    then have "report_stack (profile_prune p) (sm_prune s) = rev (map (\<lambda>a. row_frame (location_of p a) (fr a)) st)"
      using Cons.prems(2) assms(2) by (intro report_stack_written [OF assms(1)]) auto
    moreover have "sm_values s = [1, w]" using st(2) by (simp add: sample_view_def stack_view_def)
    ultimately show ?case using Cons.IH [OF st(3)] Cons.prems(2) by (simp add: st(1) sm_blank_def)
  qed simp
  note all = this [OF assms(3) subset_refl]
  then have samples: "p_samples (profile_prune p) = map sm_prune (p_samples p)" by (simp add: profile_prune_def)
  show "length (p_samples (profile_prune p)) = length stacks"
    using assms(3) [THEN arg_cong [where f = length]] by (simp add: samples)
  have two: "list_all (\<lambda>m. sm_values m = [1, w]) ss \<and> map (\<lambda>s. (report_stack (profile_prune p) (sm_prune s), [1, w] ! i)) ss = map (\<lambda>st. (g st, [1, w] ! i)) sts"
    if "map (\<lambda>s. (report_stack (profile_prune p) (sm_prune s), sm_values s)) ss = map (\<lambda>st. (g st, [1, w])) sts"
    for g :: "u64 list \<Rightarrow> resolved_frame list" and ss sts
    using that by (induction ss arbitrary: sts) (auto simp: Cons_eq_map_conv)
  have values_ok: "list_all (\<lambda>m. sm_values m = [1, w]) (p_samples p)"
    and c: "map (\<lambda>s. (report_stack (profile_prune p) (sm_prune s), [1, w] ! i)) (p_samples p)
      = map (\<lambda>st. (rev (map (\<lambda>a. row_frame (location_of p a) (fr a)) st), [1, w] ! i)) stacks"
    using two [OF conjunct2 [OF all]] by blast+
  have "charged (profile_prune p) i (p_samples (profile_prune p))
      = map (\<lambda>s. (report_stack (profile_prune p) (sm_prune s), [1, w] ! i)) (p_samples p)"
    unfolding charged_def samples using values_ok i
    by (auto simp: filter_map comp_def list_all_iff sm_prune_def filter_id_conv intro!: map_cong)
  then show "charged (profile_prune p) i (p_samples (profile_prune p))
      = map (\<lambda>st. (rev (map (\<lambda>a. row_frame (location_of p a) (fr a)) st), [1, w] ! i)) stacks"
    unfolding c .
qed

section \<open>The rows of a report\<close>

text \<open>A row of the statistics is named by a frame of its identity.\<close>

definition named_rows :: "resolved_frame set \<Rightarrow> stats \<Rightarrow> bool" where
  "named_rows F stats \<longleftrightarrow> (\<forall>(k, s)\<in>set stats. \<exists>f\<in>F. rv_identity f = k
     \<and> fs_function s = rv_function f \<and> fs_file s = rv_file f \<and> fs_line s = rv_line f)"

lemma alist_upsert_mem:
  "e \<in> set (alist_upsert k d f m) \<Longrightarrow> e \<in> set m \<or> (\<exists>x. e = (k, f x) \<and> (x = d \<or> (k, x) \<in> set m))"
  by (induction k d f m rule: alist_upsert.induct) (auto split: if_splits)

lemma named_rows_upsert:
  assumes "named_rows F stats" and "f \<in> F"
    and "\<And>s. fs_function (g s) = fs_function s \<and> fs_file (g s) = fs_file s \<and> fs_line (g s) = fs_line s"
  shows "named_rows F (alist_upsert (rv_identity f) (stat_of f) g stats)"
proof -
  have "\<exists>f\<in>F. rv_identity f = k \<and> fs_function s = rv_function f \<and> fs_file s = rv_file f \<and> fs_line s = rv_line f"
    if "(k, s) \<in> set (alist_upsert (rv_identity f) (stat_of f) g stats)" for k s
    using alist_upsert_mem [OF that] assms by (fastforce simp: named_rows_def stat_of_def)
  then show ?thesis by (auto simp: named_rows_def)
qed

lemma named_rows_cumulative:
  "named_rows F stats \<Longrightarrow> set fs \<subseteq> F \<Longrightarrow> named_rows F (cumulative_loop v seen fs stats)"
proof (induction v seen fs stats rule: cumulative_loop.induct)
  case (2 v seen f fs stats)
  have "named_rows F (alist_upsert (rv_identity f) (stat_of f) (add_cumulative v) stats)"
    by (rule named_rows_upsert) (use "2.prems" in \<open>simp_all add: add_cumulative_def\<close>)
  then show ?case using 2 by simp
qed simp

lemma named_rows_leaf:
  assumes "named_rows F stats" and "set fs \<subseteq> F"
  shows "named_rows F (leaf_step v fs stats)"
proof (cases "fs = []")
  case False
  then have "last fs \<in> F" using assms(2) by auto
  then show ?thesis
    using named_rows_upsert [OF assms(1), of "last fs" "add_flat v"] False by (simp add: leaf_step_def add_flat_def)
qed (simp add: leaf_step_def assms(1))

lemma analyze_named:
  assumes "\<And>s. s \<in> set ss \<Longrightarrow> i < length (sm_values s) \<Longrightarrow> set (report_stack p s) \<subseteq> F"
  shows "named_rows F (fst (fold (sample_step p i) ss ([], [], 0)))"
  using assms
proof (induction ss rule: rev_induct)
  case (snoc s ss)
  obtain stats stacks total where acc: "fold (sample_step p i) ss ([], [], 0) = (stats, stacks, total)"
    by (metis prod.exhaust)
  moreover have "named_rows F (fst (fold (sample_step p i) ss ([], [], 0)))" using snoc by simp
  ultimately have "named_rows F (fst (sample_step p i s (stats, stacks, total)))"
    using snoc.prems [of s] by (simp add: sample_step_def Let_def named_rows_cumulative named_rows_leaf)
  then show ?case by (simp add: acc)
qed (simp add: named_rows_def)

text \<open>Sums of equal values that stay in range.\<close>

definition sums_fit :: "nat \<Rightarrow> i64 \<Rightarrow> bool" where
  "sums_fit n v \<longleftrightarrow> 0 \<le> sint v \<and> int n * sint v < 2 ^ 63"

lemma sums_fit_le: "sums_fit n v \<Longrightarrow> m \<le> n \<Longrightarrow> sums_fit m v"
  unfolding sums_fit_def by (meson le_less_trans mult_right_mono of_nat_mono)

lemma sat_sum_equal:
  assumes "sums_fit n v"
  shows "sat_sum (replicate n v) = word_of_nat n * v"
proof -
  have "i64_range (int m * sint v)" if "m \<le> n" for m
  proof -
    have "0 \<le> int m * sint v \<and> int m * sint v < 2 ^ 63"
      using sums_fit_le [OF assms that] by (simp add: sums_fit_def)
    then show ?thesis by (simp add: i64_range_def i64_min_def i64_max_def)
  qed
  then have "sint (sat_sum (replicate n v)) = int n * sint v"
    by (subst sint_sat_sum) (simp_all add: sum_list_replicate)
  then have "word_of_int (sint (sat_sum (replicate n v))) = (word_of_int (int n * sint v) :: i64)" by simp
  then show ?thesis by simp
qed

lemma equal_filter: "map snd (filter P (map (\<lambda>x. (g x, v)) xs)) = replicate (length (filter (\<lambda>x. P (g x, v)) xs)) (v :: i64)"
  by (induction xs) auto

text \<open>What the report should say of an address, and of nothing else, when each sample counts \<open>v\<close>.\<close>

definition address_row :: "(u64 \<Rightarrow> stack_frame) \<Rightarrow> i64 \<Rightarrow> u64 list list \<Rightarrow> u64 \<Rightarrow> frame_stat" where
  "address_row fr v stacks a = \<lparr>fs_function = sf_function (fr a), fs_file = sf_file (fr a), fs_line = ucast (sf_line (fr a)),
     fs_flat = word_of_nat (length (filter (\<lambda>st. st \<noteq> [] \<and> hd st = a) stacks)) * v,
     fs_cumulative = word_of_nat (length (filter (\<lambda>st. a \<in> set st) stacks)) * v\<rparr>"

text \<open>The costs of stacks of equal weight, whose frames \<open>row a\<close> have an identity per address.\<close>

definition observed_rows :: "(u64 \<Rightarrow> resolved_frame) \<Rightarrow> i64 \<Rightarrow> u64 list list \<Rightarrow> (resolved_frame list \<times> i64) list" where
  "observed_rows row v stacks = map (\<lambda>st. (rev (map row st), v)) stacks"

lemma observed_costs:
  assumes inj: "inj_on (\<lambda>a. rv_identity (row a)) (\<Union> (set ` set stacks))" and a: "a \<in> \<Union> (set ` set stacks)"
    and small: "sums_fit (length stacks) v"
  shows "flat_cost (observed_rows row v stacks) (rv_identity (row a))
      = word_of_nat (length (filter (\<lambda>st. st \<noteq> [] \<and> hd st = a) stacks)) * v"
    and "cumulative_cost (observed_rows row v stacks) (rv_identity (row a))
      = word_of_nat (length (filter (\<lambda>st. a \<in> set st) stacks)) * v"
proof -
  have eq: "rv_identity (row b) = rv_identity (row a) \<longleftrightarrow> b = a" if "st \<in> set stacks" "b \<in> set st" for st b
  proof -
    have "b \<in> \<Union> (set ` set stacks)" using that by blast
    then show ?thesis using inj_on_eq_iff [OF inj _ a] by blast
  qed
  have "filter (\<lambda>st. rev (map row st) \<noteq> [] \<and> rv_identity (last (rev (map row st))) = rv_identity (row a)) stacks
      = filter (\<lambda>st. st \<noteq> [] \<and> hd st = a) stacks"
  proof (rule filter_cong [OF refl])
    fix st assume "st \<in> set stacks"
    then show "(rev (map row st) \<noteq> [] \<and> rv_identity (last (rev (map row st))) = rv_identity (row a)) = (st \<noteq> [] \<and> hd st = a)"
      using eq [of st "hd st"] by (cases "st = []") (simp_all add: last_rev hd_map)
  qed
  moreover have "sums_fit (length (filter P stacks)) v" for P
    by (rule sums_fit_le [OF small length_filter_le])
  ultimately show "flat_cost (observed_rows row v stacks) (rv_identity (row a))
      = word_of_nat (length (filter (\<lambda>st. st \<noteq> [] \<and> hd st = a) stacks)) * v"
    by (simp only: flat_cost_def observed_rows_def equal_filter case_prod_conv sat_sum_equal)
  have "filter (\<lambda>st. rv_identity (row a) \<in> rv_identity ` set (rev (map row st))) stacks = filter (\<lambda>st. a \<in> set st) stacks"
  proof (rule filter_cong [OF refl])
    fix st assume st: "st \<in> set stacks"
    have "rv_identity (row a) \<in> rv_identity ` set (rev (map row st)) \<longleftrightarrow> (\<exists>b\<in>set st. rv_identity (row b) = rv_identity (row a))"
      unfolding set_rev set_map image_image image_iff by (metis (lifting))
    then show "(rv_identity (row a) \<in> rv_identity ` set (rev (map row st))) = (a \<in> set st)" using eq [OF st] by simp
  qed
  moreover have "sums_fit (length (filter P stacks)) v" for P
    by (rule sums_fit_le [OF small length_filter_le])
  ultimately show "cumulative_cost (observed_rows row v stacks) (rv_identity (row a))
      = word_of_nat (length (filter (\<lambda>st. a \<in> set st) stacks)) * v"
    by (simp only: cumulative_cost_def observed_rows_def equal_filter case_prod_conv sat_sum_equal)
qed

lemma named_by_address:
  assumes "named_rows (row ` A) stats" and "inj_on (\<lambda>a. rv_identity (row a)) A"
    and "(rv_identity (row a), s) \<in> set stats" and "a \<in> A"
  shows "fs_function s = rv_function (row a) \<and> fs_file s = rv_file (row a) \<and> fs_line s = rv_line (row a)"
proof -
  obtain b where b: "b \<in> A" "rv_identity (row b) = rv_identity (row a)"
    "fs_function s = rv_function (row b) \<and> fs_file s = rv_file (row b) \<and> fs_line s = rv_line (row b)"
    using assms(1,3) unfolding named_rows_def by fast
  then have "b = a" using inj_onD [OF assms(2) b(2,1) assms(4)] by simp
  then show ?thesis using b(3) by simp
qed

lemma observed_statistics:
  assumes analyzed: "analyzed (observed_rows row v stacks) (stats, stk, cost)"
    and named: "named_rows (row ` \<Union> (set ` set stacks)) stats"
    and row: "\<And>a. a \<in> \<Union> (set ` set stacks) \<Longrightarrow> row a = row_frame (lid a) (fr a)"
    and inj: "inj_on lid (\<Union> (set ` set stacks))" and small: "sums_fit (length stacks) v"
  shows "mset (map snd stats) = image_mset (address_row fr v stacks) (mset_set (\<Union> (set ` set stacks)))"
    and "cost = word_of_nat (length stacks) * v"
proof -
  define A where "A = \<Union> (set ` set stacks)"
  define key where "key = (\<lambda>a. rv_identity (row a))"
  have rows: "row a = row_frame (lid a) (fr a)" "key a = IdFunction (lid a)" if "a \<in> A" for a
    using row that by (simp_all add: A_def key_def row_frame_def)
  have inj': "inj_on key A" using inj rows by (simp add: inj_on_def A_def)
  have ids: "identities (observed_rows row v stacks) = key ` A"
    by (auto simp: identities_def observed_rows_def A_def key_def)
  have costs: "stat_costs stats k = (if k \<in> key ` A then
      Some (flat_cost (observed_rows row v stacks) k, cumulative_cost (observed_rows row v stacks) k) else None)" for k
    using analyzed by (simp add: analyzed_def ids)
  have distinct: "distinct (map fst stats)" using analyzed by (simp add: analyzed_def)
  have entry: "s = address_row fr v stacks a" if s: "(key a, s) \<in> set stats" and a: "a \<in> A" for a s
  proof -
    have "stat_costs stats (key a) = Some (fs_flat s, fs_cumulative s)"
      using s distinct by (simp add: stat_costs_def)
    moreover have "fs_function s = sf_function (fr a) \<and> fs_file s = sf_file (fr a) \<and> fs_line s = ucast (sf_line (fr a))"
      using named_by_address [OF named [folded A_def] inj' [unfolded key_def] s [unfolded key_def] a] rows [OF a]
      by (simp add: row_frame_def)
    ultimately show ?thesis
      using a observed_costs [OF inj' [unfolded key_def A_def] a [unfolded A_def] small]
      by (simp add: costs address_row_def) (simp add: key_def)
  qed
  have keys: "fst ` set stats = key ` A"
  proof -
    have "stat_costs stats k \<noteq> None \<longleftrightarrow> k \<in> fst ` set stats" for k
      by (simp add: stat_costs_def map_of_eq_None_iff)
    moreover have "stat_costs stats k \<noteq> None \<longleftrightarrow> k \<in> key ` A" for k by (simp add: costs)
    ultimately show ?thesis by blast
  qed
  have "snd e = address_row fr v stacks (the_inv_into A key (fst e))" if "e \<in> set stats" for e
  proof -
    have "fst e \<in> key ` A" using that keys by (metis imageI)
    then obtain a where a: "a \<in> A" "fst e = key a" by blast
    then have "snd e = address_row fr v stacks a" using entry [of a "snd e"] that by (metis prod.collapse)
    then show ?thesis by (simp add: a the_inv_into_f_f [OF inj'])
  qed
  then have "mset (map snd stats) = mset (map (\<lambda>e. address_row fr v stacks (the_inv_into A key (fst e))) stats)"
    by (metis (no_types, lifting) list.map_cong)
  also have "\<dots> = image_mset (\<lambda>k. address_row fr v stacks (the_inv_into A key k)) (mset_set (key ` A))"
    using mset_set_set [OF distinct] by (simp add: keys [symmetric] image_mset.compositionality comp_def)
  also have "\<dots> = image_mset (\<lambda>a. address_row fr v stacks (the_inv_into A key (key a))) (mset_set A)"
    by (simp add: image_mset_mset_set [OF inj', symmetric] image_mset.compositionality comp_def)
  also have "\<dots> = image_mset (address_row fr v stacks) (mset_set A)"
    by (rule image_mset_cong) (simp add: A_def the_inv_into_f_f [OF inj', unfolded A_def])
  finally show "mset (map snd stats) = image_mset (address_row fr v stacks) (mset_set (\<Union> (set ` set stacks)))"
    by (simp add: A_def)
  have "saturating_abs v = v"
    using small by (simp add: saturating_abs_def sums_fit_def sat_i64_def i64_clamp_id sint_i64_bounds)
  then have "cost = sat_sum (replicate (length stacks) v)"
    using analyzed by (simp add: analyzed_def observed_rows_def comp_def map_replicate_const)
  then show "cost = word_of_nat (length stacks) * v" using sat_sum_equal [OF small] by simp
qed

text \<open>The value that a sample type selects in a CPU profile: by its name, by its index, or the last one.\<close>

definition cpu_index :: "string option \<Rightarrow> nat option" where
  "cpu_index requested =
     (case requested of
        None \<Rightarrow> Some 1
      | Some r \<Rightarrow>
          (case parse_usize r of
             Some i \<Rightarrow> if i < 2 then Some i else None
           | None \<Rightarrow> if r = ''samples'' then Some 0 else if r = ''wall'' then Some 1 else None))"

lemma cpu_index_bound: "cpu_index requested = Some i \<Longrightarrow> i < 2"
  by (auto simp: cpu_index_def split: option.splits if_splits)

lemma cpu_sample_index:
  assumes "cpu_tables p"
  shows "case cpu_index requested of
      Some i \<Rightarrow> sample_index (profile_prune p) requested = Inr i
    | None \<Rightarrow> \<exists>e. sample_index (profile_prune p) requested = Inl e"
    and "length (p_value_types (profile_prune p)) = 2"
proof -
  have header: "cpu_header p" using assms by (simp add: cpu_tables_def)
  have "unat (3 :: u64) = 3" by simp
  then have "profile_get p 1 = Some ''samples''" "profile_get p 3 = Some ''wall''"
    using header by (auto simp: cpu_header_def profile_get_def st_get_def prefix_def)
  then have names: "profile_string (profile_prune p) 1 = ''samples''" "profile_string (profile_prune p) 3 = ''wall''"
    by (simp_all add: profile_string_def profile_get_def profile_prune_def)
  have types: "p_value_types (profile_prune p) = [\<lparr>vt_type = 1, vt_unit = 2\<rparr>, \<lparr>vt_type = 3, vt_unit = 4\<rparr>]"
    and default: "p_default_sample_type (profile_prune p) = 0"
    using header by (simp_all add: written_pruned(3) [OF assms] cpu_header_def) (simp add: profile_prune_def)
  show "case cpu_index requested of
      Some i \<Rightarrow> sample_index (profile_prune p) requested = Inr i
    | None \<Rightarrow> \<exists>e. sample_index (profile_prune p) requested = Inl e"
    by (auto simp: cpu_index_def sample_index_def type_position_def types default names split: option.splits)
  show "length (p_value_types (profile_prune p)) = 2" by (simp add: types)
qed

lemma location_of_views:
  assumes tables: "cpu_tables p" and fr: "\<And>st a. st \<in> set stacks \<Longrightarrow> a \<in> set st \<Longrightarrow> sf_address (fr a) = a"
    and views: "map (sample_view p) (p_samples p) = map (stack_view fr w) stacks"
  shows "inj_on (location_of p) (\<Union> (set ` set stacks))"
proof (rule inj_on_inverseI [where g = "\<lambda>i. fst (the (resolve_location p i))"])
  fix a assume "a \<in> \<Union> (set ` set stacks)"
  then obtain st where st: "st \<in> set stacks" "a \<in> set st" by blast
  then obtain s where s: "sample_view p s = stack_view fr w st"
    using views by (metis (no_types, lifting) imageE image_eqI list.set_map)
  then have "Some (view (fr a)) \<in> set (map (resolve_location p) (sm_location_ids s))"
    using st(2) by (simp add: sample_view_def stack_view_def)
  then obtain i where i: "resolve_location p i = Some (view (fr a))" by auto
  then show "fst (the (resolve_location p (location_of p a))) = a"
    using location_of_resolved [OF tables i] fr [OF st] by (simp add: view_def)
qed

text \<open>A report of observed stacks that count \<open>v\<close> each: their weight, and one row for each address in them, ranked.\<close>

definition reports_stacks :: "(u64 \<Rightarrow> stack_frame) \<Rightarrow> i64 \<Rightarrow> u64 list list \<Rightarrow> profile_report \<Rightarrow> bool" where
  "reports_stacks fr v stacks rep \<longleftrightarrow>
     pr_total_value rep = word_of_nat (length stacks) * v \<and> pr_sample_records rep = length stacks
     \<and> sorted (map frame_rank (pr_top_frames rep))
     \<and> mset (pr_top_frames rep) = image_mset (address_row fr v stacks) (mset_set (\<Union> (set ` set stacks)))"

text \<open>Two addresses of one function are two rows, although the view is one of functions.\<close>

lemma function_split_by_address:
  assumes "reports_stacks fr v stacks rep" and "{a, b} \<subseteq> \<Union> (set ` set stacks)" and "a \<noteq> b"
    and "sf_function (fr a) = sf_function (fr b)"
  shows "2 \<le> length (filter (\<lambda>r. fs_function r = sf_function (fr a)) (pr_top_frames rep))"
proof -
  let ?A = "\<Union> (set ` set stacks)"
  have "size (filter_mset (\<lambda>r. fs_function r = sf_function (fr a)) (mset (pr_top_frames rep)))
      = card {c \<in> ?A. sf_function (fr c) = sf_function (fr a)}"
    using assms(1) by (simp add: reports_stacks_def filter_mset_image_mset address_row_def filter_mset_mset_set)
  moreover have "card {a, b} \<le> card {c \<in> ?A. sf_function (fr c) = sf_function (fr a)}"
    by (rule card_mono) (use assms(2,4) in auto)
  ultimately show ?thesis using assms(3) by (simp add: mset_filter [symmetric] del: mset_filter)
qed

lemma written_report:
  assumes tables: "cpu_tables p" and fr: "\<And>st a. st \<in> set stacks \<Longrightarrow> a \<in> set st \<Longrightarrow> sf_address (fr a) = a"
    and views: "map (sample_view p) (p_samples p) = map (stack_view fr w) stacks"
    and index: "cpu_index requested = Some i" and small: "sums_fit (length stacks) ([1, w] ! i)"
  shows "\<exists>rep. report_from_profile (profile_prune p) requested = Inr rep \<and> reports_stacks fr ([1, w] ! i) stacks rep"
proof -
  let ?q = "profile_prune p"
  define row where "row = (\<lambda>a. row_frame (location_of p a) (fr a))"
  have charged: "charged ?q i (p_samples ?q) = observed_rows row ([1, w] ! i) stacks" and records: "length (p_samples ?q) = length stacks"
    unfolding row_def observed_rows_def by (rule charged_written [OF tables fr views cpu_index_bound [OF index]]; assumption)+
  have at: "sample_index ?q requested = Inr i" "i < length (p_value_types ?q)"
    using cpu_sample_index(1) [OF tables, of requested] cpu_sample_index(2) [OF tables] cpu_index_bound [OF index] by (simp_all add: index)
  obtain stats stk cost where a: "analyze ?q i = (stats, stk, cost)" by (metis prod.exhaust)
  have analyzed: "analyzed (observed_rows row ([1, w] ! i) stacks) (stats, stk, cost)"
    using analyze_samples [of ?q i "p_samples ?q"] a by (simp add: analyze_def charged)
  have named: "named_rows (row ` \<Union> (set ` set stacks)) stats"
  proof -
    have "set (report_stack ?q s) \<subseteq> row ` \<Union> (set ` set stacks)" if "s \<in> set (p_samples ?q)" "i < length (sm_values s)" for s
    proof -
      have "report_stack ?q s \<in> fst ` set (charged ?q i (p_samples ?q))" using that by (force simp: charged_def)
      then obtain st where "st \<in> set stacks" "report_stack ?q s = rev (map row st)" by (auto simp: charged observed_rows_def)
      then show ?thesis by (simp only: set_rev set_map) blast
    qed
    then show ?thesis using analyze_named [of "p_samples ?q" i ?q] a by (simp add: analyze_def)
  qed
  note statistics = observed_statistics [OF analyzed named _ location_of_views [OF tables fr views] small, where fr = fr]
  have "report_from_profile ?q requested = Inr rep \<Longrightarrow> pr_total_value rep = cost
      \<and> pr_sample_records rep = length stacks \<and> pr_top_frames rep = sort_key frame_rank (map snd stats)" for rep
    by (auto simp: report_from_profile_def at a records)
  moreover obtain rep where "report_from_profile ?q requested = Inr rep"
    by (simp add: report_from_profile_def at a)
  ultimately show ?thesis using statistics by (auto simp: row_def reports_stacks_def)
qed

end
