(* ===== verification/Report_File.thy ===== *)
theory Report_File
  imports Commands
begin

text \<open>
  A report straight from the bytes of a file (\<open>ProfileReport::from_pprof\<close> of \<open>src/report.rs\<close>), and how
  it relates to what the command \<open>analyze\<close> does.
\<close>

section \<open>Reading\<close>

definition decompress_if_needed :: "gzip \<Rightarrow> u8 list \<Rightarrow> command_error + u8 list" where
  "decompress_if_needed z data =
     (if prefix gzip_magic data
      then (case gz_decompress z data of None \<Rightarrow> Inl GunzipFailed | Some decoded \<Rightarrow> Inr decoded)
      else Inr data)"

definition from_pprof :: "gzip \<Rightarrow> u8 list \<Rightarrow> string option \<Rightarrow> command_error + profile_report" where
  "from_pprof z data sample_type =
     bindr (decompress_if_needed z data) (\<lambda>data.
     bindr (lift_error (profile_decode data)) (\<lambda>profile.
       lift_error (report_from_profile profile sample_type)))"

definition default_render_options :: render_options where
  "default_render_options = \<lparr>ro_view = Summary, ro_format = Terminal, ro_limit = 10, ro_min_percent = Finite 0\<rparr>"

section \<open>The command and the library\<close>

lemma read_profile_bytes:
  "read_file files input = Inr data \<Longrightarrow>
     read_profile z input files = bindr (decompress_if_needed z data) (\<lambda>bytes. lift_error (profile_decode bytes))"
  by (simp add: read_profile_def decompress_if_needed_def)

lemma from_pprof_read:
  assumes "read_file files input = Inr data"
  shows "from_pprof z data sample_type
    = bindr (read_profile z input files) (\<lambda>p. lift_error (report_from_profile p sample_type))"
  unfolding read_profile_bytes [OF assms] from_pprof_def by (simp add: bindr_assoc)

text \<open>On every profile but those of several heap domains, \<open>analyze\<close> prints the report of \<open>from_pprof\<close>.\<close>

lemma analyze_is_from_pprof:
  assumes "read_file files input = Inr data" and "read_profile z input files = Inr p" and "select_domain None p = Inr p"
  shows "analyze_command z outcome input shape format sample_type None limit m None files
    = (case from_pprof z data sample_type of
         Inl e \<Rightarrow> (Inl e, files)
       | Inr report \<Rightarrow> (Inr (render report \<lparr>ro_view = view_of shape, ro_format = format_of format,
           ro_limit = limit, ro_min_percent = m\<rparr>), files))"
  by (simp add: analyze_command_def from_pprof_read [OF assms(1)] assms(2,3) Let_def split: sum.split)

text \<open>On those, \<open>analyze\<close> asks for a domain, and the library adds the overlapping domains up.\<close>

lemma library_adds_domains:
  assumes "read_file files input = Inr data" and "read_profile z input files = Inr p" and "select_domain None p = Inl e"
    and "sample_index p sample_type = Inr i"
  shows "analyze_command z outcome input shape format sample_type None limit m None files = (Inl (ProfileError e), files)
    \<and> (\<exists>report. from_pprof z data sample_type = Inr report \<and> pr_sample_records report = length (p_samples p)
        \<and> pr_total_value report = sat_sum (map (saturating_abs \<circ> snd) (charged p i (p_samples p))))"
proof -
  have "\<exists>report. report_from_profile p sample_type = Inr report"
    using sample_index_bound [OF assms(4)] assms(4) by (auto simp: report_from_profile_def split: prod.split)
  then obtain report where report: "report_from_profile p sample_type = Inr report" by blast
  have "pr_sample_records report = length (p_samples p)"
    using report assms(4) by (cases "analyze p i") (auto simp: report_from_profile_def bindr_Inr_iff)
  moreover have "pr_total_value report = sat_sum (map (saturating_abs \<circ> snd) (charged p i (p_samples p)))"
    using report_analysis [OF report] assms(4) by (auto simp: analyzed_def)
  ultimately show ?thesis
    using report by (simp add: analyze_command_def from_pprof_read [OF assms(1)] assms(2,3) lift_error_def)
qed

end
