(* ===== verification/Session_Report.thy ===== *)
theory Session_Report
  imports Main_Program Written_Profile Report_File
begin

text \<open>
  From a session to the file it leaves and to what a report says of it: a profile that \<open>run\<close> or
  \<open>attach\<close> of \<open>src/main.rs\<close> wrote, against the samples of the session, and read back and analysed
  by \<open>analyze\<close> for every sample type.
\<close>

section \<open>The samples of a session\<close>

lemma count_mset_filter: "count (mset xs) k = length (filter (\<lambda>x. x = k) xs)"
  by (induction xs) auto

text \<open>When every thread and stack has the samples that were taken, the stacks are those that were
  taken, in some order, and each sample is one observation.\<close>

lemma same_observations:
  assumes "\<And>key. map (\<lambda>s. (ss_count s, ss_timestamp s)) (samples_at key sp) = map (\<lambda>t. (1, Some t)) (observed key ts)"
  shows "mset (map ss_stack (sp_samples sp)) = mset (map ts_stack ts)" and "s \<in> set (sp_samples sp) \<Longrightarrow> ss_count s = 1"
proof -
  have keys: "mset (map (\<lambda>s. (ss_thread_id s, ss_stack s)) (sp_samples sp)) = mset (map (\<lambda>t. (ts_thread_id t, ts_stack t)) ts)"
  proof (rule multiset_eqI)
    fix key
    have "length (samples_at key sp) = length (observed key ts)" using assms [of key, THEN arg_cong [where f = length]] by simp
    then show "count (mset (map (\<lambda>s. (ss_thread_id s, ss_stack s)) (sp_samples sp))) key
        = count (mset (map (\<lambda>t. (ts_thread_id t, ts_stack t)) ts)) key"
      by (simp only: count_mset_filter) (simp add: samples_at_def observed_def filter_map comp_def)
  qed
  then have "image_mset snd (mset (map (\<lambda>s. (ss_thread_id s, ss_stack s)) (sp_samples sp)))
      = image_mset snd (mset (map (\<lambda>t. (ts_thread_id t, ts_stack t)) ts))" by simp
  then show "mset (map ss_stack (sp_samples sp)) = mset (map ts_stack ts)"
    by (simp add: image_mset.compositionality comp_def)
  assume s: "s \<in> set (sp_samples sp)"
  define key where "key = (ss_thread_id s, ss_stack s)"
  have "ss_count s \<in> set (map fst (map (\<lambda>s. (ss_count s, ss_timestamp s)) (samples_at key sp)))"
    using s by (force simp: samples_at_def key_def)
  then show "ss_count s = 1" unfolding assms by auto
qed

text \<open>What is found of an address in the images, or its hexadecimal name.\<close>

definition frame_at :: "host \<Rightarrow> loaded_image list \<Rightarrow> u64 \<Rightarrow> stack_frame" where
  "frame_at h images a = the (frame_of (resolve_address (h_demangle h) (h_disk h) (h_native h) images) Hex a)"

lemma frame_at_address: "sf_address (frame_at h images a) = a"
  by (simp add: frame_at_def frame_of_def split: option.split)

text \<open>A profile whose identifiers and lengths fit into \<open>u64\<close>, of Rust strings.\<close>

definition tables_fit :: "profile \<Rightarrow> bool" where
  "tables_fit p \<longleftrightarrow> st_small (p_strings p) \<and> length (p_functions p) < 2 ^ 64 \<and> length (p_locations p) < 2 ^ 64"

definition fits :: "profile \<Rightarrow> bool" where
  "fits p \<longleftrightarrow> utf8_strings p \<and> length (profile_encode p) < 2 ^ 64 \<and> tables_fit p"

text \<open>The time one sample stands for, as it is written.\<close>

definition period_ns :: "u32 \<Rightarrow> i64" where
  "period_ns freq = word_of_int (1000000000 div uint freq)"

lemma saturating_mul_one: "saturating_mul 1 n = n"
  by (simp add: saturating_mul_def sat_i64_def i64_clamp_id sint_i64_bounds)

lemma period_bounds: "0 \<le> 1000000000 div uint freq" "1000000000 div uint freq \<le> 1000000000"
proof -
  have "1000000000 div uint freq = int (1000000000 div unat freq)" by (simp only: uint_nat zdiv_int of_nat_numeral)
  moreover have "1000000000 div unat freq \<le> 1000000000" by (rule div_le_dividend)
  ultimately show "0 \<le> 1000000000 div uint freq" "1000000000 div uint freq \<le> 1000000000" by linarith+
qed

lemma sint_period: "sint (period_ns freq) = 1000000000 div uint freq"
  unfolding period_ns_def
  by (rule sint_word_of_int_id) (use period_bounds [of freq] in \<open>simp add: i64_range_def i64_min_def i64_max_def\<close>)

lemma sampled_addresses:
  assumes "s \<in> set (sp_samples (from_raw_with_symbolizer raw smb Hex freq wall))"
  shows "set (ss_stack s) \<subseteq> set (all_addresses raw)"
proof -
  obtain k series where e: "(k, series) \<in> set (rp_stacks raw)" "s \<in> set (samples_of_series {} (k, series))"
    using assms by (auto simp: hex_skips_nothing)
  then show ?thesis using samples_of_series_stack [of s "{}" "fst k" "snd k" series] by (force simp: all_addresses_def)
qed

lemma recorded_views:
  assumes build: "build_profile file_size (from_raw_with_symbolizer raw smb Hex freq wall) = Inr p" and "tables_fit p"
    and smb: "\<forall>a\<in>set (all_addresses raw). smb a = resolve_address (h_demangle h) (h_disk h) (h_native h) (rp_images raw) a"
    and ones: "\<And>s. s \<in> set (sp_samples (from_raw_with_symbolizer raw smb Hex freq wall)) \<Longrightarrow> ss_count s = 1"
  shows "map (sample_view p) (p_samples p) = map (stack_view (frame_at h (rp_images raw)) (period_ns freq))
      (map ss_stack (sp_samples (from_raw_with_symbolizer raw smb Hex freq wall)))"
    and "map (\<lambda>m. (sample_thread_label p m, sample_time_label p m)) (p_samples p)
      = map (\<lambda>s. (Some (ss_thread_id s), map_option word_min_i64 (ss_timestamp s)))
          (sp_samples (from_raw_with_symbolizer raw smb Hex freq wall))"
proof -
  let ?sp = "from_raw_with_symbolizer raw smb Hex freq wall"
  have freq: "sp_freq_hz ?sp = freq" by (simp add: from_raw_with_symbolizer_def split_beta)
  have all: "filter (\<lambda>s. resolve_stack ?sp s \<noteq> []) (sp_samples ?sp) = sp_samples ?sp"
    using from_raw_resolve_stack by (simp add: filter_id_conv)
  have "expected_view (period_ns freq) ?sp s = stack_view (frame_at h (rp_images raw)) (period_ns freq) (ss_stack s)"
    if s: "s \<in> set (sp_samples ?sp)" for s
  proof -
    have "frame_of smb Hex a = frame_of (resolve_address (h_demangle h) (h_disk h) (h_native h) (rp_images raw)) Hex a"
      if "a \<in> set (ss_stack s)" for a
      using sampled_addresses [OF s] smb that by (auto simp: frame_of_def)
    then have "resolve_stack ?sp s = map (frame_at h (rp_images raw)) (ss_stack s)"
      by (simp add: from_raw_resolve_stack(1) [OF s] frame_at_def)
    then show ?thesis using ones [OF s] by (simp add: expected_view_def stack_view_def word_min_i64_def saturating_mul_one)
  qed
  then have "map (expected_view (period_ns freq) ?sp) (sp_samples ?sp)
      = map (stack_view (frame_at h (rp_images raw)) (period_ns freq)) (map ss_stack (sp_samples ?sp))" by simp
  then show "map (sample_view p) (p_samples p)
      = map (stack_view (frame_at h (rp_images raw)) (period_ns freq)) (map ss_stack (sp_samples ?sp))"
    using build_profile_views [OF build from_raw_frames_ok] assms(2) unfolding all tables_fit_def period_ns_def freq by metis
  have "cpu_header p"
    using build_profile_tables [OF build from_raw_frames_ok] assms(2) by (simp add: tables_fit_def cpu_tables_def)
  then show "map (\<lambda>m. (sample_thread_label p m, sample_time_label p m)) (p_samples p)
      = map (\<lambda>s. (Some (ss_thread_id s), map_option word_min_i64 (ss_timestamp s))) (sp_samples ?sp)"
    using build_profile_labels [OF build] by (simp only: all)
qed

text \<open>The samples of the file, taken apart by their thread and stack.\<close>

lemma stack_view_inj:
  assumes "\<And>a. sf_address (fr a) = a"
  shows "stack_view fr w st = stack_view fr w st' \<longleftrightarrow> st = st'"
proof
  assume eq: "stack_view fr w st = stack_view fr w st'"
  have addresses: "map (\<lambda>v. fst (the v)) (fst (stack_view fr w st)) = st" for st
    by (simp add: stack_view_def view_def comp_def assms)
  then show "st = st'" using arg_cong [OF eq, of "\<lambda>v. map (\<lambda>v. fst (the v)) (fst v)"] by simp
qed simp

lemma written_samples_at:
  assumes fr: "\<And>a. sf_address (fr a) = a"
    and "map (sample_view p) ms = map (stack_view fr w) (map ss_stack ss)"
    and "map (\<lambda>m. (sample_thread_label p m, sample_time_label p m)) ms
      = map (\<lambda>s. (Some (ss_thread_id s), map_option word_min_i64 (ss_timestamp s))) ss"
  shows "map (sample_time_label p) (filter (\<lambda>m. sample_thread_label p m = Some tid \<and> sample_view p m = stack_view fr w stack) ms)
    = map (\<lambda>s. map_option word_min_i64 (ss_timestamp s)) (filter (\<lambda>s. (ss_thread_id s, ss_stack s) = (tid, stack)) ss)"
  using assms(2,3)
  by (induction ss arbitrary: ms) (auto simp: Cons_eq_map_conv map_eq_Cons_conv stack_view_inj [OF fr])

text \<open>Reading the file back and reporting on it.\<close>

definition shows_report :: "gzip \<Rightarrow> path \<Rightarrow> files \<Rightarrow> string option \<Rightarrow> profile_report \<Rightarrow> bool" where
  "shows_report z input files sample_type rep \<longleftrightarrow>
     (\<forall>outcome shape format limit m.
       let rendered = render rep \<lparr>ro_view = view_of shape, ro_format = format_of format, ro_limit = limit, ro_min_percent = m\<rparr> in
       analyze_command z outcome input shape format sample_type None limit m None files = (Inr rendered, files)
       \<and> (\<forall>output. output \<noteq> input \<longrightarrow>
            analyze_command z outcome input shape format sample_type None limit m (Some output) files
              = (case write_file outcome output (str_bytes rendered) files of
                   (Inl e, files) \<Rightarrow> (Inl e, files)
                 | (Inr _, files) \<Rightarrow> (Inr [], files))))
     \<and> (\<exists>data. read_file files input = Inr data \<and> from_pprof z data sample_type = Inr rep)"

lemma read_written:
  assumes "gzip_ok z" and "write_gzip z outcome (profile_encode p) output files = (Inr (), files')"
    and "cpu_tables p" and "fits p"
  shows "read_profile z output files' = Inr (profile_prune p)" and "\<not> is_heap_profile (profile_prune p)"
proof -
  have "writable p" using assms(3,4) by (simp add: writable_def cpu_tables_def fits_def tables_fit_def)
  then show "read_profile z output files' = Inr (profile_prune p)"
    using write_gzip_read [OF assms(1,2)] assms(4) by (simp add: fits_def)
  have header: "cpu_header p" using assms(3) by (simp add: cpu_tables_def)
  have "unat (3 :: u64) = 3" by simp
  then have "profile_get (profile_prune p) 1 = Some ''samples''" "profile_get (profile_prune p) 3 = Some ''wall''"
    using header by (auto simp: cpu_header_def profile_get_def st_get_def prefix_def profile_prune_def)
  then show "\<not> is_heap_profile (profile_prune p)"
    using header written_pruned(3) [OF assms(3)] by (simp add: is_heap_profile_def cpu_header_def)
qed

lemma analyze_written:
  assumes "read_profile z output files = Inr q" and "\<not> is_heap_profile q"
  shows "report_from_profile q sample_type = Inr rep \<Longrightarrow> shows_report z output files sample_type rep"
    and "report_from_profile q sample_type = Inl e \<Longrightarrow>
      analyze_command z outcome output shape format sample_type None limit m None files = (Inl (ProfileError e), files)"
    and "analyze_command z outcome output shape format sample_type (Some domain) limit m None files
      = (Inl (ProfileError HeapSelectionNeedsHeap), files)"
proof -
  have domain: "select_domain None q = Inr q" "select_domain (Some domain) q = Inl HeapSelectionNeedsHeap"
    using assms(2) by (simp_all add: select_domain_def ensure_def)
  obtain data where data: "read_file files output = Inr data"
    using assms(1) by (cases "read_file files output") (simp_all add: read_profile_def)
  show "shows_report z output files sample_type rep" if "report_from_profile q sample_type = Inr rep"
    using that data
    by (auto simp: shows_report_def analyze_command_def assms(1) domain from_pprof_read [OF data] lift_error_def Let_def
        split: prod.split sum.split)
  show "analyze_command z outcome output shape format sample_type None limit m None files = (Inl (ProfileError e), files)"
    if "report_from_profile q sample_type = Inl e"
    using that by (simp add: analyze_command_def assms(1) domain lift_error_def)
  show "analyze_command z outcome output shape format sample_type (Some domain) limit m None files
      = (Inl (ProfileError HeapSelectionNeedsHeap), files)"
    by (simp add: analyze_command_def assms(1) domain lift_error_def)
qed

lemma reports_stacks_cong:
  assumes "reports_stacks fr v stacks rep" and "mset stacks = mset stacks'"
  shows "reports_stacks fr v stacks' rep"
proof -
  have "length (filter P stacks) = length (filter P stacks')" for P
    using assms(2) by (metis mset_filter size_mset)
  moreover have "length stacks = length stacks'" "set stacks = set stacks'"
    using assms(2) by (metis size_mset, metis set_mset_mset)
  moreover from calculation have "address_row fr v stacks = address_row fr v stacks'"
    by (simp add: fun_eq_iff address_row_def)
  ultimately show ?thesis using assms(1) by (simp add: reports_stacks_def)
qed

lemma report_refused:
  assumes "cpu_tables p" and "cpu_index sample_type = None"
  shows "\<exists>e. report_from_profile (profile_prune p) sample_type = Inl e"
  using cpu_sample_index(1) [OF assms(1), of sample_type] assms(2) by (auto simp: report_from_profile_def)

section \<open>A session and its file\<close>

text \<open>Both commands, when they end well with this handle.\<close>

lemma command_handle:
  assumes "settings_builder x = Some b"
    and "builder_spawn spawned exists k b = Inr h \<and> run_command v spawned exists k binary x files = Some (Inr q, files')
      \<or> builder_attach exists k pid b = Inr h
        \<and> attach_command v listed listed_again exists k expected_start_time requested_session_id pid x files = Some (Inr q, files')"
  shows "\<exists>sn publisher. run_session v x h sn publisher files = Some (Inr q, files') \<and> session_of v h = Inr sn"
    and "started_with x h" and "hd_freq_hz h = sx_freq x"
proof -
  show "\<exists>sn publisher. run_session v x h sn publisher files = Some (Inr q, files') \<and> session_of v h = Inr sn"
    using assms by (auto simp: run_command_def attach_command_def Let_def split: option.splits sum.splits)
  show "started_with x h" using assms spawned_handle attached_handle by blast
  show "hd_freq_hz h = sx_freq x"
    using assms(2) spawned_freq(2) [OF assms(1)] attached_freq(2) [OF assms(1)] by blast
qed

lemma session_written:
  assumes "settings_builder x = Some b"
    and "builder_spawn spawned exists k b = Inr h \<and> run_command v spawned exists k binary x files = Some (Inr q, files')
      \<or> builder_attach exists k pid b = Inr h
        \<and> attach_command v listed listed_again exists k expected_start_time requested_session_id pid x files = Some (Inr q, files')"
    and "length (taken_samples v x) < 2 ^ 64"
  obtains raw p and ss :: "sym_sample list" where "session_recording v h = Some raw" and "session_built v h = Some p"
    and "write_gzip (sv_gzip v) (sv_outcome v) (profile_encode p) (sx_output x) files = (Inr (), files')"
    and "tables_fit p \<Longrightarrow> cpu_tables p"
    and "tables_fit p \<Longrightarrow> map (sample_view p) (p_samples p)
      = map (stack_view (frame_at (sv_host v) (rp_images raw)) (period_ns (sx_freq x))) (map ss_stack ss)"
    and "tables_fit p \<Longrightarrow> map (\<lambda>m. (sample_thread_label p m, sample_time_label p m)) (p_samples p)
      = map (\<lambda>s. (Some (ss_thread_id s), map_option word_min_i64 (ss_timestamp s))) ss"
    and "mset (map ss_stack ss) = mset (map ts_stack (taken_samples v x))"
    and "\<And>key. map ss_timestamp (filter (\<lambda>s. (ss_thread_id s, ss_stack s) = key) ss) = map Some (observed key (taken_samples v x))"
proof -
  note handle = command_handle [OF assms(1,2)]
  obtain sn publisher where run: "run_session v x h sn publisher files = Some (Inr q, files')" "session_of v h = Inr sn"
    using handle(1) by blast
  obtain raw smb wall p where raw: "session_recording v h = Some raw" and p: "session_built v h = Some p"
    and build: "build_profile (h_file_size (sv_host v)) (from_raw_with_symbolizer raw smb Hex (sx_freq x) wall) = Inr p"
    and written: "write_gzip (sv_gzip v) (sv_outcome v) (profile_encode p) (sx_output x) files = (Inr (), files')"
    and smb: "\<forall>a\<in>set (all_addresses raw). smb a = resolve_address (h_demangle (sv_host v)) (h_disk (sv_host v)) (h_native (sv_host v)) (rp_images raw) a"
    and samples: "\<And>key. map (\<lambda>s. (ss_count s, ss_timestamp s)) (samples_at key (from_raw_with_symbolizer raw smb Hex (sx_freq x) wall))
         = map (\<lambda>t. (1, Some t)) (observed key (taken_samples v x))"
    using run_session_records [OF run handle(2) assms(3)] unfolding handle(3) by blast
  let ?sp = "from_raw_with_symbolizer raw smb Hex (sx_freq x) wall"
  note same = same_observations [OF samples]
  have times: "map ss_timestamp (filter (\<lambda>s. (ss_thread_id s, ss_stack s) = key) (sp_samples ?sp)) = map Some (observed key (taken_samples v x))" for key
    using arg_cong [OF samples [of key], of "map snd"] by (simp add: samples_at_def comp_def)
  have tables: "cpu_tables p" if "tables_fit p"
    using build_profile_tables [OF build from_raw_frames_ok] that by (simp add: tables_fit_def)
  have views: "map (sample_view p) (p_samples p)
      = map (stack_view (frame_at (sv_host v) (rp_images raw)) (period_ns (sx_freq x))) (map ss_stack (sp_samples ?sp))"
    and labels: "map (\<lambda>m. (sample_thread_label p m, sample_time_label p m)) (p_samples p)
      = map (\<lambda>s. (Some (ss_thread_id s), map_option word_min_i64 (ss_timestamp s))) (sp_samples ?sp)" if "tables_fit p"
    by (rule recorded_views [OF build that smb]; erule same(2))+
  show thesis
    by (rule that [OF raw p written]) (erule tables, erule views, erule labels, rule same(1), rule times)
qed

section \<open>Properties\<close>

text \<open>C5: when \<open>run\<close> or \<open>attach\<close> on the Linux sampler ends well, the output file holds the compressed
  encoding of the profile of its session, and that profile has exactly the samples the session took:
  as many, and for every thread and stack those whose \<open>thread_id\<close> label is the thread and whose
  locations resolve, through the tables, to the addresses of the stack with what the images say of
  them, each with the values one and the period, carry in their \<open>pprofessor::timestamp\<close> labels the
  times of the samples that were taken of it, in order. The tables have to be indexed by \<open>u64\<close>.\<close>

theorem command_writes_the_session:
  assumes "settings_builder x = Some b"
    and "builder_spawn spawned exists k b = Inr h \<and> run_command v spawned exists k binary x files = Some (Inr q, files')
      \<or> builder_attach exists k pid b = Inr h
        \<and> attach_command v listed listed_again exists k expected_start_time requested_session_id pid x files = Some (Inr q, files')"
    and "length (taken_samples v x) < 2 ^ 64"
  shows "\<exists>raw p bytes. session_recording v h = Some raw \<and> session_built v h = Some p
    \<and> gz_compress (sv_gzip v) (profile_encode p) = Some bytes \<and> read_file files' (sx_output x) = Inr bytes
    \<and> (tables_fit p \<longrightarrow> length (p_samples p) = length (taken_samples v x)
        \<and> (\<forall>tid stack. map (sample_time_label p) (filter (\<lambda>m. sample_thread_label p m = Some tid
              \<and> sample_view p m = stack_view (frame_at (sv_host v) (rp_images raw)) (period_ns (sx_freq x)) stack) (p_samples p))
            = map (\<lambda>t. Some (word_min_i64 t)) (observed (tid, stack) (taken_samples v x))))"
proof (rule session_written [OF assms])
  fix raw p and ss :: "sym_sample list"
  assume raw: "session_recording v h = Some raw" and p: "session_built v h = Some p"
    and written: "write_gzip (sv_gzip v) (sv_outcome v) (profile_encode p) (sx_output x) files = (Inr (), files')"
    and views: "tables_fit p \<Longrightarrow> map (sample_view p) (p_samples p)
      = map (stack_view (frame_at (sv_host v) (rp_images raw)) (period_ns (sx_freq x))) (map ss_stack ss)"
    and labels: "tables_fit p \<Longrightarrow> map (\<lambda>m. (sample_thread_label p m, sample_time_label p m)) (p_samples p)
      = map (\<lambda>s. (Some (ss_thread_id s), map_option word_min_i64 (ss_timestamp s))) ss"
    and stacks: "mset (map ss_stack ss) = mset (map ts_stack (taken_samples v x))"
    and times: "\<And>key. map ss_timestamp (filter (\<lambda>s. (ss_thread_id s, ss_stack s) = key) ss) = map Some (observed key (taken_samples v x))"
  have "length (p_samples p) = length (taken_samples v x)" if "tables_fit p"
    using arg_cong [OF views [OF that], of length] arg_cong [OF stacks, of size] by simp
  moreover have "map (sample_time_label p) (filter (\<lambda>m. sample_thread_label p m = Some tid
        \<and> sample_view p m = stack_view (frame_at (sv_host v) (rp_images raw)) (period_ns (sx_freq x)) stack) (p_samples p))
      = map (\<lambda>t. Some (word_min_i64 t)) (observed (tid, stack) (taken_samples v x))" if "tables_fit p" for tid stack
    using arg_cong [OF times [of "(tid, stack)"], of "map (map_option word_min_i64)"]
    by (simp add: written_samples_at [OF frame_at_address views [OF that] labels [OF that]] comp_def)
  ultimately show ?thesis using raw p write_gzip_written [OF written] by blast
qed

text \<open>C6: what \<open>analyze\<close> says of a profile that \<open>run\<close> or \<open>attach\<close> wrote. The sample type is \<open>samples\<close>,
  where each sample counts one, or \<open>wall\<close>, the default, where it counts the period (their indices zero and one
  do as well); any other is refused, and so is the selection of a heap. It reads the file and prints
  the report, or writes it to an output other than its input; it is the report that \<open>from_pprof\<close> gives
  of the bytes. Its total is the number of samples the session took, times their weight, and it has
  one row for each address that was sampled, named by what the images say of it (or in hexadecimal),
  whose flat cost is the weight of the samples at the address and whose cumulative cost that of the
  samples with the address anywhere in their stack, ranked.\<close>

theorem session_is_reported:
  assumes "settings_builder x = Some b"
    and "builder_spawn spawned exists k b = Inr h \<and> run_command v spawned exists k binary x files = Some (Inr q, files')
      \<or> builder_attach exists k pid b = Inr h
        \<and> attach_command v listed listed_again exists k expected_start_time requested_session_id pid x files = Some (Inr q, files')"
    and "session_built v h = Some p" and "fits p" and "gzip_ok (sv_gzip v)"
    and "length (taken_samples v x) < 2 ^ 63"
    and "int (length (taken_samples v x)) * (1000000000 div uint (sx_freq x)) < 2 ^ 63"
  shows "\<exists>raw. session_recording v h = Some raw
    \<and> (\<forall>sample_type. case cpu_index sample_type of
         Some i \<Rightarrow> \<exists>rep. shows_report (sv_gzip v) (sx_output x) files' sample_type rep
           \<and> reports_stacks (frame_at (sv_host v) (rp_images raw)) ([1, period_ns (sx_freq x)] ! i)
               (map ts_stack (taken_samples v x)) rep
       | None \<Rightarrow> \<exists>e. \<forall>outcome shape format limit m. analyze_command (sv_gzip v) outcome (sx_output x) shape format
           sample_type None limit m None files' = (Inl (ProfileError e), files'))
    \<and> (\<forall>outcome shape format sample_type domain limit m. analyze_command (sv_gzip v) outcome (sx_output x) shape format
         sample_type (Some domain) limit m None files' = (Inl (ProfileError HeapSelectionNeedsHeap), files'))"
proof (rule session_written [OF assms(1,2)])
  show "length (taken_samples v x) < 2 ^ 64" using assms(6) by simp
  fix raw p' and ss :: "sym_sample list"
  assume raw: "session_recording v h = Some raw" and p': "session_built v h = Some p'"
    and w': "write_gzip (sv_gzip v) (sv_outcome v) (profile_encode p') (sx_output x) files = (Inr (), files')"
    and t': "tables_fit p' \<Longrightarrow> cpu_tables p'"
    and v': "tables_fit p' \<Longrightarrow> map (sample_view p') (p_samples p')
      = map (stack_view (frame_at (sv_host v) (rp_images raw)) (period_ns (sx_freq x))) (map ss_stack ss)"
    and same: "mset (map ss_stack ss) = mset (map ts_stack (taken_samples v x))"
  have p: "p' = p" using p' assms(3) by simp
  have tables: "cpu_tables p" using t' assms(4) by (simp add: p fits_def)
  have views: "map (sample_view p) (p_samples p)
      = map (stack_view (frame_at (sv_host v) (rp_images raw)) (period_ns (sx_freq x))) (map ss_stack ss)"
    using v' assms(4) by (simp add: p fits_def)
  note read = read_written [OF assms(5) w' [unfolded p] tables assms(4)]
  have "length (map ss_stack ss) = length (taken_samples v x)" using arg_cong [OF same, of size] by simp
  then have small: "sums_fit (length (map ss_stack ss)) ([1, period_ns (sx_freq x)] ! i)" if "i < 2" for i
    using that assms(6,7) by (auto simp: sums_fit_def sint_period less_2_cases_iff period_bounds)
  have "case cpu_index sample_type of
      Some i \<Rightarrow> \<exists>rep. shows_report (sv_gzip v) (sx_output x) files' sample_type rep
        \<and> reports_stacks (frame_at (sv_host v) (rp_images raw)) ([1, period_ns (sx_freq x)] ! i) (map ts_stack (taken_samples v x)) rep
    | None \<Rightarrow> \<exists>e. \<forall>outcome shape format limit m. analyze_command (sv_gzip v) outcome (sx_output x) shape format
        sample_type None limit m None files' = (Inl (ProfileError e), files')" for sample_type
  proof (cases "cpu_index sample_type")
    case None
    then show ?thesis using report_refused [OF tables None] analyze_written(2) [OF read] by auto
  next
    case (Some i)
    obtain rep where "report_from_profile (profile_prune p) sample_type = Inr rep"
      "reports_stacks (frame_at (sv_host v) (rp_images raw)) ([1, period_ns (sx_freq x)] ! i) (map ss_stack ss) rep"
      using written_report [OF tables frame_at_address views Some small [OF cpu_index_bound [OF Some]]] by blast
    then show ?thesis unfolding Some option.case
      using analyze_written(1) [OF read] reports_stacks_cong [OF _ same] by blast
  qed
  then show ?thesis using raw analyze_written(3) [OF read] by blast
qed

lemma demo_result:
  "demo_result = \<lparr>sp_images = [], sp_frames = [4114 \<mapsto> \<lparr>sf_address = 4114, sf_function = hex_name 4114, sf_file = [], sf_line = 0\<rparr>],
     sp_threads = [(7, ''worker'')],
     sp_samples = [\<lparr>ss_thread_id = 7, ss_stack = [4114], ss_count = 1, ss_timestamp = Some 5\<rparr>,
       \<lparr>ss_thread_id = 7, ss_stack = [4114], ss_count = 1, ss_timestamp = Some 9\<rparr>],
     sp_start_time = 0, sp_duration = 20, sp_freq_hz = 99\<rparr>"
  by (simp add: demo_result_def from_raw_with_symbolizer_def symbolize_addresses_def demo_recording_def all_addresses_def
      frame_step_def samples_of_series_def Let_def)

definition demo_sample_of :: "i64 \<Rightarrow> sample" where
  "demo_sample_of t = \<lparr>sm_location_ids = [1], sm_values = [1, 10101010],
     sm_labels = [\<lparr>lb_key = 5, lb_str_index = 0, lb_num = 7, lb_num_unit = 0\<rparr>,
       \<lparr>lb_key = 6, lb_str_index = 9, lb_num = 0, lb_num_unit = 0\<rparr>,
       \<lparr>lb_key = 7, lb_str_index = 0, lb_num = t, lb_num_unit = 4\<rparr>]\<rparr>"

lemma demo_built:
  "\<exists>p. build_profile (\<lambda>_. None) demo_result = Inr p
    \<and> st_strings (p_strings p) = [[], ''samples'', ''count'', ''wall'', ''nanoseconds'', ''thread_id'', ''thread_name'',
        ''pprofessor::timestamp'', hex_name 4114, ''worker'']
    \<and> p_value_types p = [\<lparr>vt_type = 1, vt_unit = 2\<rparr>, \<lparr>vt_type = 3, vt_unit = 4\<rparr>]
    \<and> p_samples p = [demo_sample_of 5, demo_sample_of 9] \<and> p_mappings p = []
    \<and> p_locations p = [loc_default\<lparr>loc_id := 1, loc_address := 4114, loc_lines := [ln_default\<lparr>ln_function_id := 1, ln_line := 0\<rparr>]\<rparr>]
    \<and> p_functions p = [\<lparr>fn_id = 1, fn_name = 8, fn_system_name = 8, fn_filename = 0, fn_start_line = 0\<rparr>]
    \<and> p_drop_frames p = 0 \<and> p_keep_frames p = 0 \<and> p_time_nanos p = 0 \<and> p_duration_nanos p = 20
    \<and> p_period_type p = \<lparr>vt_type = 3, vt_unit = 4\<rparr> \<and> p_period p = 10101010 \<and> p_comments p = []
    \<and> p_default_sample_type p = 0 \<and> p_doc_url p = 0"
  by (simp add: demo_result build_profile_def encode_strings_def profile_intern_def
      profile_new_def st_new_def st_empty_def intern_def encode_header_def encode_sample_def
      encode_location_def encode_function_def sample_labels_def Let_def hex_name_def partition_point_def
      demo_sample_of_def word_min_i64_def saturating_mul_def sat_i64_def i64_clamp_def i64_min_def i64_max_def loc_default_def)

lemma demo_fits: "\<exists>p. build_profile (\<lambda>_. None) demo_result = Inr p \<and> fits p"
proof -
  obtain p where p: "build_profile (\<lambda>_. None) demo_result = Inr p"
    and strings: "st_strings (p_strings p) = [[], ''samples'', ''count'', ''wall'', ''nanoseconds'', ''thread_id'', ''thread_name'',
        ''pprofessor::timestamp'', hex_name 4114, ''worker'']"
    and tables: "p_value_types p = [\<lparr>vt_type = 1, vt_unit = 2\<rparr>, \<lparr>vt_type = 3, vt_unit = 4\<rparr>]"
    "p_samples p = [demo_sample_of 5, demo_sample_of 9]" "p_mappings p = []"
    "p_locations p = [loc_default\<lparr>loc_id := 1, loc_address := 4114, loc_lines := [ln_default\<lparr>ln_function_id := 1, ln_line := 0\<rparr>]\<rparr>]"
    "p_functions p = [\<lparr>fn_id = 1, fn_name = 8, fn_system_name = 8, fn_filename = 0, fn_start_line = 0\<rparr>]"
    "p_drop_frames p = 0" "p_keep_frames p = 0" "p_time_nanos p = 0" "p_duration_nanos p = 20"
    "p_period_type p = \<lparr>vt_type = 3, vt_unit = 4\<rparr>" "p_period p = 10101010" "p_comments p = []"
    "p_default_sample_type p = 0" "p_doc_url p = 0"
    using demo_built by blast
  have hex: "hex_name 4114 = ''0x0000000000001012''" by code_simp
  have "utf8_strings p" unfolding utf8_strings_def strings hex by (simp add: str_bytes_def byte_of_char_def)
  moreover have "length (profile_encode p) < 2 ^ 64"
    unfolding profile_encode_append strings tables hex
    by (simp add: varint_fields_def opt_varint_def wire_varint_def opt_bytes_def wire_bytes_def leaf_encode
        leaf_fields_defs loc_encode_append sm_encode_append demo_sample_of_def loc_default_def ln_default_def str_bytes_def
        varint_bytes_rec [of 4114] varint_bytes_rec [of 32] varint_bytes_rec [of 10101010] varint_bytes_rec [of 78914] varint_bytes_rec [of 616] varint_bytes_small)
  ultimately have "fits p" by (simp add: fits_def tables_fit_def st_small_def strings tables)
  then show ?thesis using p by blast
qed

text \<open>A session of two samples, its file and its default report.\<close>

theorem command_writes_the_session_witness:
  "\<exists>q files' p bytes. attach_command demo_surroundings (Some []) (Some []) True demo_tracing None None 7
       demo_settings demo_files = Some (Inr q, files')
     \<and> gz_compress demo_gzip (profile_encode p) = Some bytes \<and> read_file files' [''c''] = Inr bytes
     \<and> length (p_samples p) = 2
     \<and> map (sample_time_label p) (filter (\<lambda>m. sample_thread_label p m = Some 7
           \<and> sample_view p m = stack_view (frame_at (sv_host demo_surroundings) []) (period_ns 99) [4114]) (p_samples p)) = [Some 5, Some 9]"
proof -
  obtain b h q files' where b: "settings_builder demo_settings = Some b" and h: "builder_attach True demo_tracing 7 b = Inr h"
    and run: "attach_command demo_surroundings (Some []) (Some []) True demo_tracing None None 7 demo_settings demo_files = Some (Inr q, files')"
    and recorded: "session_recording demo_surroundings h = Some demo_recording"
    and built: "session_built demo_surroundings h = (case build_profile (\<lambda>_. None) demo_result of Inr p \<Rightarrow> Some p | Inl _ \<Rightarrow> None)"
    using demo_session by blast
  have parts: "sv_gzip demo_surroundings = demo_gzip" "sx_output demo_settings = [''c'']" "sx_freq demo_settings = 99"
    by (simp_all add: demo_surroundings_def demo_settings_def)
  have seen: "map (\<lambda>t. Some (word_min_i64 t)) (observed (7, [4114]) (taken_samples demo_surroundings demo_settings)) = [Some 5, Some 9]"
    "length (taken_samples demo_surroundings demo_settings) = 2"
    by (simp_all add: demo_taken observed_def word_min_i64_def)
  then have "length (taken_samples demo_surroundings demo_settings) < 2 ^ 64" by simp
  from command_writes_the_session [OF b disjI2 [OF conjI [OF h run]] this]
  obtain raw :: raw_profile and p bytes where raw: "session_recording demo_surroundings h = Some raw"
    and p: "session_built demo_surroundings h = Some p"
    and stored: "gz_compress demo_gzip (profile_encode p) = Some bytes" "read_file files' [''c''] = Inr bytes"
    and holds: "tables_fit p \<longrightarrow> length (p_samples p) = 2
      \<and> (\<forall>tid stack. map (sample_time_label p) (filter (\<lambda>m. sample_thread_label p m = Some tid
           \<and> sample_view p m = stack_view (frame_at (sv_host demo_surroundings) (rp_images raw)) (period_ns 99) stack) (p_samples p))
         = map (\<lambda>t. Some (word_min_i64 t)) (observed (tid, stack) (taken_samples demo_surroundings demo_settings)))"
    unfolding parts seen(2) by (elim exE conjE) (rule that, assumption+)
  have none: "rp_images raw = []" using raw recorded by (auto simp: demo_recording_def)
  have "tables_fit p" using demo_fits built p by (auto simp: fits_def)
  then have "length (p_samples p) = 2"
    and "map (sample_time_label p) (filter (\<lambda>m. sample_thread_label p m = Some 7
           \<and> sample_view p m = stack_view (frame_at (sv_host demo_surroundings) []) (period_ns 99) [4114]) (p_samples p))
         = [Some 5, Some 9]"
    using holds unfolding seen(1) [symmetric] none by blast+
  with run stored show ?thesis by (intro exI conjI)
qed

theorem session_is_reported_witness:
  "\<exists>q files' rep. attach_command demo_surroundings (Some []) (Some []) True demo_tracing None None 7
       demo_settings demo_files = Some (Inr q, files')
     \<and> analyze_command demo_gzip Written [''c''] ViewTop FormatMarkdown None None 10 (Finite 0) None files'
       = (Inr (render rep \<lparr>ro_view = TopFrames, ro_format = Markdown, ro_limit = 10, ro_min_percent = Finite 0\<rparr>), files')
     \<and> pr_total_value rep = 20202020 \<and> map (\<lambda>r. (fs_flat r, fs_cumulative r)) (pr_top_frames rep) = [(20202020, 20202020)]"
proof -
  obtain b h q files' where b: "settings_builder demo_settings = Some b" and h: "builder_attach True demo_tracing 7 b = Inr h"
    and run: "attach_command demo_surroundings (Some []) (Some []) True demo_tracing None None 7 demo_settings demo_files = Some (Inr q, files')"
    and built: "session_built demo_surroundings h = (case build_profile (\<lambda>_. None) demo_result of Inr p \<Rightarrow> Some p | Inl _ \<Rightarrow> None)"
    using demo_session by blast
  obtain p where p: "session_built demo_surroundings h = Some p" "fits p"
    using demo_fits built by auto
  have parts: "sv_gzip demo_surroundings = demo_gzip" "sx_output demo_settings = [''c'']" "sx_freq demo_settings = 99"
    by (simp_all add: demo_surroundings_def demo_settings_def)
  have gzip: "gzip_ok (sv_gzip demo_surroundings)" unfolding parts by (rule demo_gzip_ok)
  have taken: "map ts_stack (taken_samples demo_surroundings demo_settings) = [[4114], [4114]]"
    and bounds: "length (taken_samples demo_surroundings demo_settings) < 2 ^ 63"
      "int (length (taken_samples demo_surroundings demo_settings)) * (1000000000 div uint (sx_freq demo_settings)) < 2 ^ 63"
    by (simp_all add: demo_taken parts)
  have w: "[1, period_ns 99] ! 1 = 10101010" by (simp add: period_ns_def)
  have "cpu_index None = Some 1" by (simp add: cpu_index_def)
  moreover obtain raw :: raw_profile where "\<forall>sample_type. case cpu_index sample_type of
         Some i \<Rightarrow> \<exists>rep. shows_report demo_gzip [''c''] files' sample_type rep
           \<and> reports_stacks (frame_at (sv_host demo_surroundings) (rp_images raw)) ([1, period_ns 99] ! i) [[4114], [4114]] rep
       | None \<Rightarrow> \<exists>e. \<forall>outcome shape format limit m. analyze_command demo_gzip outcome [''c''] shape format
           sample_type None limit m None files' = (Inl (ProfileError e), files')"
    using session_is_reported [OF b disjI2 [OF conjI [OF h run]] p gzip bounds] unfolding parts taken
    by (elim exE conjE) (rule that, assumption+)
  note spec [OF this, of None]
  ultimately obtain rep where shown: "shows_report demo_gzip [''c''] files' None rep"
    and rep: "reports_stacks (frame_at (sv_host demo_surroundings) (rp_images raw)) 10101010 [[4114], [4114]] rep"
    by (simp only: option.case w) blast
  have "analyze_command demo_gzip Written [''c''] ViewTop FormatMarkdown None None 10 (Finite 0) None files'
      = (Inr (render rep \<lparr>ro_view = view_of ViewTop, ro_format = format_of FormatMarkdown, ro_limit = 10, ro_min_percent = Finite 0\<rparr>), files')"
    using shown by (simp only: shows_report_def Let_def)
  moreover have "\<Union> (set ` set [[4114], [4114]]) = {4114 :: u64}" by simp
  then have "mset (pr_top_frames rep) = {#address_row (frame_at (sv_host demo_surroundings) (rp_images raw)) 10101010 [[4114], [4114]] 4114#}"
    using rep by (simp only: reports_stacks_def mset_set.insert_remove) simp
  then have "pr_top_frames rep = [address_row (frame_at (sv_host demo_surroundings) (rp_images raw)) 10101010 [[4114], [4114]] 4114]" by simp
  then have "map (\<lambda>r. (fs_flat r, fs_cumulative r)) (pr_top_frames rep) = [(20202020, 20202020)]" by (simp add: address_row_def)
  moreover have "pr_total_value rep = 20202020" using rep by (simp add: reports_stacks_def)
  ultimately show ?thesis using run by (intro exI conjI) (assumption | simp)+
qed

end
