(* ===== verification/Saved_Profile.thy ===== *)
theory Saved_Profile
  imports Symbolicated
begin

text \<open>
  The saved form of a symbolicated profile: the field helpers of \<open>src/symbolicated.rs\<close> for times and
  for the frame table. The text that serde and its data format make of the fields is third-party; what
  is modelled are the values they are given.
\<close>

section \<open>The helpers\<close>

type_synonym u128 = "128 word"

text \<open>\<open>system_time_serde\<close>: nanoseconds since the epoch, zero for a time before it; read back through
  \<open>as u64\<close>. A time is in nanoseconds from the epoch.\<close>

definition serialize_time :: "int \<Rightarrow> u128" where
  "serialize_time t = word_of_int (max 0 t)"

definition deserialize_time :: "u128 \<Rightarrow> int" where
  "deserialize_time nanos = uint (ucast nanos :: u64)"

definition serialize_duration :: "nat \<Rightarrow> u128" where
  "serialize_duration d = word_of_nat d"

definition deserialize_duration :: "u128 \<Rightarrow> nat" where
  "deserialize_duration nanos = unat (ucast nanos :: u64)"

text \<open>\<open>frame_map_serde\<close>: pairs in the order of the map's iterator; a later pair replaces an earlier one.\<close>

definition serialize_frames :: "u64 list \<Rightarrow> (u64 \<rightharpoonup> stack_frame) \<Rightarrow> (u64 \<times> stack_frame) list" where
  "serialize_frames order m = List.map_filter (\<lambda>a. map_option (Pair a) (m a)) order"

definition deserialize_frames :: "(u64 \<times> stack_frame) list \<Rightarrow> (u64 \<rightharpoonup> stack_frame)" where
  "deserialize_frames pairs = map_of (rev pairs)"

text \<open>The values of the fields, and a profile made from them.\<close>

record saved_profile =
  sd_images :: "loaded_image list"
  sd_frames :: "(u64 \<times> stack_frame) list"
  sd_threads :: "(u64 \<times> string) list"
  sd_samples :: "sym_sample list"
  sd_start_time :: u128
  sd_duration :: u128
  sd_freq_hz :: u32

definition save_profile :: "u64 list \<Rightarrow> symbolicated_profile \<Rightarrow> saved_profile" where
  "save_profile order sp = \<lparr>sd_images = sp_images sp, sd_frames = serialize_frames order (sp_frames sp),
     sd_threads = sp_threads sp, sd_samples = sp_samples sp, sd_start_time = serialize_time (sp_start_time sp),
     sd_duration = serialize_duration (sp_duration sp), sd_freq_hz = sp_freq_hz sp\<rparr>"

definition load_profile :: "saved_profile \<Rightarrow> symbolicated_profile" where
  "load_profile s = \<lparr>sp_images = sd_images s, sp_frames = deserialize_frames (sd_frames s),
     sp_threads = sd_threads s, sp_samples = sd_samples s, sp_start_time = deserialize_time (sd_start_time s),
     sp_duration = deserialize_duration (sd_duration s), sp_freq_hz = sd_freq_hz s\<rparr>"

section \<open>What is read back\<close>

lemma map_of_serialized: "map_of (serialize_frames order m) a = (if a \<in> set order then m a else None)"
  by (induction order) (auto simp: serialize_frames_def List.map_filter_simps split: option.split)

lemma serialize_frames_rev: "rev (serialize_frames order m) = serialize_frames (rev order) m"
  by (simp add: serialize_frames_def List.map_filter_def rev_map rev_filter)

lemma frames_round_trip: "dom m \<subseteq> set order \<Longrightarrow> deserialize_frames (serialize_frames order m) = m"
  by (rule ext) (auto simp: deserialize_frames_def serialize_frames_rev map_of_serialized, metis domI subsetD not_None_eq)

lemma time_round_trip: "deserialize_time (serialize_time t) = max 0 t mod 2 ^ 64"
  by (simp add: deserialize_time_def serialize_time_def unsigned_ucast_eq unsigned_of_int take_bit_take_bit take_bit_eq_mod
      mod_mod_cancel)

lemma duration_round_trip: "deserialize_duration (serialize_duration d) = d mod 2 ^ 64"
  by (simp add: deserialize_duration_def serialize_duration_def unsigned_ucast_eq unsigned_of_nat take_bit_take_bit take_bit_eq_mod
      mod_mod_cancel)

section \<open>Properties\<close>

text \<open>a profile that is saved and loaded is the same profile, whatever the order of the frame table,
  exactly when it started at or after the epoch and its start and duration fit 64 bits of nanoseconds;
  an earlier start becomes the epoch, and longer times lose their high bits.\<close>

theorem saved_profile_round_trip:
  assumes "dom (sp_frames sp) \<subseteq> set order"
  shows "load_profile (save_profile order sp) = sp\<lparr>sp_start_time := max 0 (sp_start_time sp) mod 2 ^ 64,
      sp_duration := sp_duration sp mod 2 ^ 64\<rparr>
    \<and> (load_profile (save_profile order sp) = sp
      \<longleftrightarrow> 0 \<le> sp_start_time sp \<and> sp_start_time sp < 2 ^ 64 \<and> sp_duration sp < 2 ^ 64)"
proof -
  have "load_profile (save_profile order sp) = sp\<lparr>sp_start_time := max 0 (sp_start_time sp) mod 2 ^ 64,
      sp_duration := sp_duration sp mod 2 ^ 64\<rparr>"
    unfolding load_profile_def save_profile_def using assms
    by (simp add: frames_round_trip time_round_trip duration_round_trip)
  moreover have "max 0 t mod 2 ^ 64 = t \<longleftrightarrow> 0 \<le> t \<and> t < 2 ^ 64" for t :: int
    by (smt (verit) mod_pos_pos_trivial pos_mod_bound pos_mod_sign zero_less_power)
  moreover have "d mod 2 ^ 64 = d \<longleftrightarrow> d < 2 ^ 64" for d :: nat
    by (metis mod_less mod_less_divisor zero_less_numeral zero_less_power)
  moreover have "sp\<lparr>sp_start_time := t, sp_duration := d\<rparr> = sp \<longleftrightarrow> t = sp_start_time sp \<and> d = sp_duration sp" for t d
    by (cases sp) auto
  ultimately show ?thesis by metis
qed

theorem saved_profile_round_trip_witness:
  "sp_start_time (load_profile (save_profile [] \<lparr>sp_images = [], sp_frames = Map.empty, sp_threads = [], sp_samples = [],
      sp_start_time = -5, sp_duration = 10, sp_freq_hz = 99\<rparr>)) = 0"
  using saved_profile_round_trip [of "\<lparr>sp_images = [], sp_frames = Map.empty, sp_threads = [], sp_samples = [],
      sp_start_time = -5, sp_duration = 10, sp_freq_hz = 99\<rparr>" "[]"] by simp

end
