(* ===== verification/Closure_Profile.thy ===== *)
theory Closure_Profile
  imports Session Macos_Sampler
begin

text \<open>
  Profiling a closure on macOS (\<open>profile\<close> of \<open>src/builder.rs\<close>), and dropping a session that was not
  stopped (\<open>src/profile.rs\<close>).
\<close>

section \<open>The closure\<close>

text \<open>The sampler of the process itself, with the filter of the calling thread; creating it does not fail on macOS,
  and starting the session only panics, on a deadline that \<open>Instant\<close> cannot hold. \<open>sampling_thread\<close> is the port of the thread that samples. With what
  the closure returned, the calls, in order: \<^const>\<open>None\<close> while the sampling thread has not ended.\<close>

definition closure_sampler :: "u32 \<Rightarrow> u8 list option \<Rightarrow> u32 \<Rightarrow> builder \<Rightarrow> macos_sampler" where
  "closure_sampler task exe calling_thread b =
     (mac_new_self task exe (bd_freq_hz b))
       \<lparr>ms_thread_filter := bd_thread_filter (set_thread_mach_port calling_thread b)\<rparr>"

definition mac_closure_start :: "int \<Rightarrow> nat \<Rightarrow> nat \<Rightarrow> nat \<Rightarrow> loaded_image list \<Rightarrow> builder \<Rightarrow> sampling_session result" where
  "mac_closure_start wall at_deadline at_start at_end images b =
     bindr (start_deadline at_deadline (bd_duration b)) (\<lambda>deadline.
       Inr \<lparr>sn_freq_hz = bd_freq_hz b, sn_start_wall = wall, sn_symbolizer = bd_symbolizer b,
         sn_unresolved = bd_unresolved b, sn_deadline = deadline,
         sn_check = False, sn_stop = False,
         sn_live = \<lparr>rp_stacks = [], rp_thread_names = [], rp_start_time = at_start, rp_end_time = at_end, rp_images = images\<rparr>\<rparr>)"

definition mac_builder_profile :: "architecture \<Rightarrow> u32 \<Rightarrow> u8 list option \<Rightarrow> u32 \<Rightarrow> u32 \<Rightarrow> int \<Rightarrow> nat \<Rightarrow> nat \<Rightarrow> nat
    \<Rightarrow> mac_turn list \<Rightarrow> u64 option \<Rightarrow> task_memory \<Rightarrow> nat \<Rightarrow> demangler \<Rightarrow> disk \<Rightarrow> architecture \<Rightarrow> 'r \<Rightarrow> builder
    \<Rightarrow> ((session_error + 'r \<times> symbolicated_profile) result \<times> mac_call list) option" where
  "mac_builder_profile arch task exe calling_thread sampling_thread wall at_deadline at_start at_end ts task_info mem now
       demangle disk native result b =
     (let s = closure_sampler task exe calling_thread b in
      case mac_closure_start wall at_deadline at_start at_end (images_or_none task_info mem (ms_executable_path s)) b of
        Inl panic \<Rightarrow> Some (Inl panic, [ThreadSelf calling_thread])
      | Inr sn \<Rightarrow>
          map_option
            (\<lambda>(e, calls).
              case session_stop demangle disk native (en_result e) (signal_stop sn) of
                Inl err \<Rightarrow> (Inr (Inl err), ThreadSelf calling_thread # calls)
              | Inr data \<Rightarrow> (Inr (Inr (result, data)), ThreadSelf calling_thread # calls @ [PortFree calling_thread]))
            (mac_run_sampling_loop arch s sampling_thread (sn_check sn) (sn_deadline sn) (sn_stop sn) ts task_info mem now (sn_live sn)))"

text \<open>Dropping a session: the flag is set and the thread is joined; its result is lost.\<close>

definition session_drop :: "session_error + raw_profile \<Rightarrow> sampling_session \<Rightarrow> sampling_session" where
  "session_drop joined sn = sn\<lparr>sn_stop := True\<rparr>"

section \<open>The port of the calling thread\<close>

text \<open>a profiled closure gives back the port of the calling thread when the session succeeds; when the
  start panics or the sampling thread fails, exactly that port is left behind.\<close>

lemma closure_ports:
  assumes "mac_builder_profile arch task exe calling_thread sampling_thread wall t0 t1 t2 ts task_info mem now
      demangle disk native result b = Some (r, calls)"
  shows "held_after port_use calls {#} = Some (case r of Inr (Inr _) \<Rightarrow> {#} | _ \<Rightarrow> {#calling_thread#})"
proof (cases "mac_closure_start wall t0 t1 t2 (images_or_none task_info mem (ms_executable_path (closure_sampler task exe calling_thread b))) b")
  case (Inl panic)
  then show ?thesis using assms by (auto simp: mac_builder_profile_def Let_def)
next
  case (Inr sn)
  let ?s = "closure_sampler task exe calling_thread b"
  obtain e inner where run: "mac_run_sampling_loop arch ?s sampling_thread (sn_check sn) (sn_deadline sn) (sn_stop sn) ts
      task_info mem now (sn_live sn) = Some (e, inner)"
    using assms Inr by (auto simp: mac_builder_profile_def Let_def)
  have "held_after port_use inner {#} = Some {#}" using mac_run_calls [OF run] by (simp add: balanced_def)
  then have "held_after port_use inner {#calling_thread#} = Some {#calling_thread#}"
    using held_after_frame [of port_use inner "{#}" "{#}" "{#calling_thread#}"] by simp
  then show ?thesis
    using assms run Inr by (auto simp: mac_builder_profile_def Let_def held_after_append split: sum.splits)
qed

text \<open>A frequency of zero makes it fail.\<close>

lemma closure_leaks_port:
  assumes "bd_freq_hz b = 0" and "bd_duration b = None"
  shows "\<exists>err calls. mac_builder_profile arch task exe calling_thread sampling_thread wall t0 t1 t2 ts task_info mem now
      demangle disk native result b = Some (Inr (Inl err), calls) \<and> held_after port_use calls {#} = Some {#calling_thread#}"
proof -
  obtain err calls where r: "mac_builder_profile arch task exe calling_thread sampling_thread wall t0 t1 t2 ts task_info mem now
      demangle disk native result b = Some (Inr (Inl err), calls)"
    using assms by (simp add: mac_builder_profile_def Let_def closure_sampler_def mac_new_self_def mac_run_sampling_loop_def
        mac_closure_start_def start_deadline_def session_stop_def bindr_def)
  then show ?thesis using closure_ports [OF r] by auto
qed

end
