(* ===== verification/Proc_Tasks.thy ===== *)
theory Proc_Tasks
  imports Linux_Session Malloc_History Processes
begin

text \<open>
  What the Linux sampler reads of a process: its threads and their names from \<open>/proc/<pid>/task\<close>,
  registers and memory of a thread (\<open>list_threads\<close>, \<open>thread_name\<close>, \<open>read_registers\<close> and
  \<open>read_process_memory\<close> of \<open>src/sampler/linux.rs\<close>). The theories of the sampling loops take these as
  answers; here they come from what the kernel gives.
\<close>

section \<open>The readers\<close>

text \<open>The entries of the directory, \<^const>\<open>None\<close> for one that could not be read.\<close>

definition list_threads :: "u8 list option list option \<Rightarrow> u32 list option" where
  "list_threads entries =
     map_option (\<lambda>es. List.map_filter (\<lambda>name. parse_u32 (utf8_lossy name)) (List.map_filter id es)) entries"

text \<open>\<open>read_to_string\<close> refuses a name that is not UTF-8, and the default is the empty name.\<close>

definition thread_name :: "u8 list option \<Rightarrow> string" where
  "thread_name comm =
     (case comm of
        None \<Rightarrow> []
      | Some bytes \<Rightarrow> if utf8_valid bytes then bytes_str (trim_end bytes) else [])"

datatype user_regs = UserRegsX86 u64 u64 | UserRegsAarch64 u64 "u64 list"

text \<open>The program counter and the frame pointer: \<open>rip\<close> and \<open>rbp\<close>, or \<open>pc\<close> and \<open>regs[29]\<close>.\<close>

fun read_registers :: "user_regs option \<Rightarrow> (u64 \<times> u64) option" where
  "read_registers None = None"
| "read_registers (Some (UserRegsX86 rip rbp)) = Some (rip, rbp)"
| "read_registers (Some (UserRegsAarch64 pc regs)) = Some (pc, regs ! 29)"

text \<open>\<open>process_vm_readv\<close> may copy fewer bytes than asked for, or fail.\<close>

definition read_process_memory :: "(u64 \<Rightarrow> nat \<Rightarrow> u8 list option) \<Rightarrow> u64 \<Rightarrow> nat \<Rightarrow> u8 list option" where
  "read_process_memory vm address n =
     (case vm address n of
        None \<Rightarrow> None
      | Some copied \<Rightarrow> if length copied = n then Some copied else None)"

text \<open>One turn of the sampling loop on a process.\<close>

record proc_host =
  ph_entries :: "u8 list option list option"
  ph_comm :: "u32 \<Rightarrow> u8 list option"
  ph_registers :: "u32 \<Rightarrow> user_regs option"
  ph_vm :: "u32 \<Rightarrow> u64 \<Rightarrow> nat \<Rightarrow> u8 list option"

definition proc_turn :: "proc_host \<Rightarrow> ptrace_turn \<Rightarrow> ptrace_turn" where
  "proc_turn h t =
     t\<lparr>pt_threads := list_threads (ph_entries h), pt_names := (\<lambda>tid. thread_name (ph_comm h tid)),
       pt_tracing := (pt_tracing t)\<lparr>tg_registers := (\<lambda>tid. read_registers (ph_registers h tid)),
         tg_memory := (\<lambda>tid fp. read_process_memory (ph_vm h tid) fp 16)\<rparr>\<rparr>"

section \<open>What they read\<close>

lemma utf8_lossy_digits: "utf8_lossy (base_digits 10 n) = base_digits 10 n"
  using plain_utf8 [OF plain_graphic [OF graphic_digits]] by (simp add: utf8_lossy_valid)

lemma list_threads_read: "list_threads (Some (map (\<lambda>tid. Some (base_digits 10 (unat tid))) tids)) = Some tids"
  by (induction tids) (simp_all add: list_threads_def List.map_filter_simps utf8_lossy_digits parse_u32_text)

text \<open>The kernel writes a name with a line feed after it.\<close>

lemma white_len_newline: "xs \<noteq> [] \<Longrightarrow> white_len (xs @ [10]) = white_len xs"
proof -
  assume "xs \<noteq> []"
  then obtain a ys where xs: "xs = a # ys" by (cases xs) auto
  show ?thesis
  proof (cases ys)
    case (Cons c zs)
    then show ?thesis by (cases zs) (auto simp: xs)
  qed (auto simp: xs)
qed

lemma white_len_le: "white_len xs \<le> length xs"
proof (cases xs)
  case (Cons a ys)
  show ?thesis
  proof (cases ys)
    case Cons2: (Cons c zs)
    then show ?thesis by (cases zs) (auto simp: Cons)
  qed (auto simp: Cons)
qed simp

lemma trim_end_newline: "trim_end (xs @ [10]) = trim_end xs"
proof -
  have "trim_end_from acc pending (xs @ [10]) = trim_end_from acc pending xs" for acc pending
  proof (induction "length xs" arbitrary: acc pending xs rule: less_induct)
    case less
    show ?case
    proof (cases "xs = []")
      case True
      then show ?thesis
        by (simp add: trim_end_from.simps [of acc pending "[10]"] trim_end_from.simps [of _ _ "[]"])
    next
      case False
      note w = white_len_newline [OF False] white_len_le [of xs]
      show ?thesis
        using less [of "drop (white_len xs) xs"] less [of "tl xs"] False w
        by (subst (1 2) trim_end_from.simps) simp
    qed
  qed
  then show ?thesis by (simp add: trim_end_def)
qed

lemma thread_name_read:
  assumes "utf8_valid (name @ [10])" and "name = [] \<or> 33 \<le> last name \<and> last name \<le> 126"
  shows "thread_name (Some (name @ [10])) = bytes_str name"
proof (cases "name = []")
  case True
  then show ?thesis by (simp add: thread_name_def trim_end_newline [of "[]", simplified] trim_end_def trim_end_from.simps)
next
  case False
  then have "trim_end name = name" using trim_end_graphic [of "last name" "butlast name"] assms(2) by simp
  then show ?thesis using assms(1) by (simp add: thread_name_def trim_end_newline)
qed

text \<open>The kernel cuts a name after 15 bytes. When that leaves part of a character, the thread has no
  name, and no filter by name finds it.\<close>

lemma cut_name_hides_thread:
  assumes "\<And>tid bytes. ph_comm h tid = Some bytes \<Longrightarrow> \<not> utf8_valid bytes" and "wanted \<noteq> []"
  shows "turn_samples (ByName wanted) (proc_turn h t) = []"
proof -
  have "pt_names (proc_turn h t) = (\<lambda>_. [])"
    using assms(1) by (auto simp: proc_turn_def thread_name_def fun_eq_iff split: option.split)
  then have none: "\<not> thread_matches_filter (ByName wanted) tid (pt_names (proc_turn h t) tid) index" for tid index
    using assms(2) by (simp add: thread_matches_filter_def)
  have "fold (select_step (ByName wanted) (pt_names (proc_turn h t))) tids acc = acc" for tids acc
    by (induction tids) (simp_all add: select_step_def none)
  then show ?thesis
    by (simp add: turn_samples_def sample_once_def selected_threads_def List.map_filter_simps split: option.split)
qed

text \<open>A frame of which only a part can be read ends the walk.\<close>

lemma short_read_ends_walk:
  assumes "\<And>bytes. vm fp 16 = Some bytes \<Longrightarrow> length bytes < 16"
  shows "walk_frame_pointers (\<lambda>fp. read_process_memory vm fp 16) fp stack = stack"
  using assms by (auto simp: walk_frame_pointers_def max_depth_def read_process_memory_def numeral_eq_Suc split: option.splits)

end
