(* ===== verification/Spec2Isabelle.thy ===== *)
theory Spec2Isabelle
  imports Encode Stream Compare Heap_Pprof Pprof_Codec Report Linux_Sampler Perf_Ring Proc_Maps Commands Heap_Log Malloc_History Linux_Session Session Macos_Sampler Processes Capture Main_Program Heap_Session Session_Report Saved_Profile
    Closure_Profile Proc_Tasks
begin

text \<open>
  pprofessor: a verification library.

  The program is a sampling profiler for the CPU and for the heap, on Linux and macOS. It attaches
  to processes or starts them, walks the stacks of their threads or reads the log of an allocation
  recorder, symbolicates the addresses, writes pprof profiles, compares and reports on them, and
  streams live sessions to a collector. Names of files below are under \<open>src/src/\<close>.

  \<^bold>\<open>Parts and theories.\<close> Data flows from top to bottom.

  \<^item> \<open>sampler/linux.rs\<close>: \<open>Linux_Sampler\<close> (selection of threads, the frame-pointer walk, recording),
    \<open>Perf_Ring\<close> (the ring of a perf event and its records), \<open>Proc_Maps\<close> (images from
    \<open>/proc/<pid>/maps\<close>), \<open>Linux_Session\<close> (attaching with the outcome of every call, perf events, the
    drain of a ring with every read checked against its mapping, both sampling loops),
    \<open>Proc_Tasks\<close> (threads, names, registers and memory as the kernel gives them).
    \<open>Bytes_Le\<close> reads little-endian words.
  \<^item> \<open>sampler/macos.rs\<close>: \<open>Macos_Sampler\<close> (memory of the target, the walk, a round over the threads,
    the images dyld lists, the loop).
  \<^item> Contracts of both samplers: \<open>Sampling_Loop\<close> (locale \<open>sampling_loop\<close>: a loop records the samples
    of its rounds; interpreted on the ptrace, the perf and the macOS loop) and \<open>Resources\<close> (traces
    of calls that acquire, use and release threads, descriptors, mappings and ports).
  \<^item> \<open>sampler/mod.rs\<close>: \<open>Sampler\<close> (sample series, the raw profile, the cursor \<open>RawProfileCursor\<close> that
    computes what is new since the last delivery).
  \<^item> \<open>builder.rs\<close>, \<open>handle.rs\<close>, \<open>profile.rs\<close>: \<open>Session\<close> (the settings, handles, a session from its
    start, which panics when the deadline overflows the clock, to its symbolicated profile),
    \<open>Closure_Profile\<close> (profiling a closure on macOS).
  \<^item> \<open>symbolicate.rs\<close>: \<open>Symbolize\<close> (the chain of symbolizers, the image that covers an address, batch
    and incremental resolution). \<open>symbolicated.rs\<close>: \<open>Symbolicated\<close> (frames, samples, the call tree),
    \<open>Saved_Profile\<close> (the values that serde saves).
  \<^item> \<open>pprof.rs\<close>: \<open>Wire\<close> (varints, fields, the decoders' cursor; locale \<open>wire_message\<close>, the contract
    every submessage fulfils), \<open>String_Table\<close> (locale \<open>interner\<close>), \<open>Pprof\<close> (the messages),
    \<open>Pprof_Codec\<close> (their round trips), \<open>Pprof_View\<close> (what the identifiers of a profile mean).
  \<^item> \<open>encode.rs\<close>: \<open>Encode\<close> (the CPU profile of a symbolicated profile).
  \<^item> \<open>heap/mod.rs\<close>: \<open>Heap\<close> (measures with checked arithmetic, heap profiles, the allocation tracker and
    its specification), \<open>Heap_Pprof\<close> (writing a heap profile; locale \<open>table_loop\<close>, the loops that
    build tables), \<open>Heap_Validate\<close> (validation, selection of one domain).
    \<open>heap/compare.rs\<close>: \<open>Compare\<close> (the signed difference of two snapshots).
  \<^item> \<open>heap/linux.rs\<close>: \<open>Heap_Log\<close> (the recorder's log, its snapshots, the loops of \<open>run\<close> and \<open>attach\<close>).
    \<open>heap/macos.rs\<close>: \<open>Malloc_History\<close> (the text of a \<open>malloc_history\<close> report). \<open>Heap_Replay\<close> holds what
    the two share: the locale \<open>event_log\<close>, the contract of a log format, interpreted by both.
    \<open>heap/capture.rs\<close>: \<open>Capture\<close> (guards, the capture loops on macOS). \<open>Heap_Session\<close>: the command
    on every backend (locale \<open>heap_backend\<close>, interpreted by both ways to capture on both systems).
  \<^item> \<open>report.rs\<close>: \<open>Report\<close> (choice of the sample type, costs, ranking, call tree), \<open>Float64\<close> (the
    \<open>f64\<close> operations the percentages need, rounding to nearest), \<open>Render\<close> (the text of every view),
    \<open>Report_File\<close> (a report from the bytes of a file).
  \<^item> From a session to its report: \<open>Written_Profile\<close> (a CPU profile as the analysis reads it, with the
    labels of its samples) and \<open>Session_Report\<close> (the file that \<open>run\<close> or \<open>attach\<close> wrote holds the samples
    of the session; what \<open>analyze\<close> makes of it for each sample type).
  \<^item> \<open>stream.rs\<close>: \<open>Stream\<close> (frames, the publisher and its connection, every I/O error);
    live publishing and checkpoints: \<open>Publish\<close>.
  \<^item> \<open>processes.rs\<close>, \<open>processes/linux.rs\<close>: \<open>Processes\<close>. \<open>main.rs\<close>, \<open>cli.rs\<close>: \<open>Commands\<close> (the commands on
    profile files), \<open>Main_Program\<close> (\<open>run\<close>, \<open>attach\<close>, their loops, signals, dispatch).
  \<^item> Shared: \<open>Prelude\<close> (words, results, byte strings, \<open>fold_result\<close>), \<open>Ordered_Map\<close> (\<open>BTreeMap\<close> and
    \<open>HashMap\<close> as lists of entries).

  \<^bold>\<open>How the code is modelled.\<close> A struct is a record, an enum a datatype, an integer a word of its
  width; \<open>wrapping\<close>, \<open>checked\<close> and \<open>saturating\<close> operations are written out. \<open>anyhow\<close> errors are
  \<^typ>\<open>error + 'a\<close> or a sum with the error type of the theory, each \<open>bail!\<close>, \<open>?\<close> and panic a branch.
  What the program asks of the kernel, the network, the clock and the file system in one turn of a
  loop is a record; a loop is a function of the list of its turns that returns \<^const>\<open>None\<close> (or
  \<^const>\<open>False\<close>) while it is still running, so that no result is claimed of a loop that has not ended.
  Threads are the results they return, and a lock is transparent. Calls that have an effect outside,
  such as attaching, suspending, opening and closing, are recorded in traces.

  \<^bold>\<open>What the lemmas show.\<close>

  \<^item> Encodings: what is written is read back (profiles up to the blank parts the encoder skips, frames
    of the stream, perf records, dyld's image list as far as its chunks are readable, stat lines with
    a UTF-8 name, reports of \<open>malloc_history\<close> whose names keep to its format), decoding any bytes gives
    a well-formed profile that a first re-encoding prunes and a second leaves alone, and every
    decoder loop makes progress.
  \<^item> Refinement: the tracker, and both log formats replayed on it, against the history of the
    allocations; the written CPU and heap profiles against the samples they come from; the difference
    against subtraction per key and metric; reports and call trees against sums over stacks; the
    profile and the report of a file that \<open>run\<close> or \<open>attach\<close> wrote against the samples the session took.
  \<^item> Conservation: what a session samples is what it writes, once each; the deltas of the cursor add up
    to the snapshot; over outages, the deltas in the frames on the connection do so, once the network
    works; the cursor moves only with a delivered delta; a heap session
    writes and streams valid profiles, every checkpoint and the artifact, whichever backend ran.
  \<^item> Resources: both samplers stop one thread at a time, let go of those that stopped and ask once for
    the detach of every thread they seized; a detach that the kernel refuses, as it does for a thread
    that is not stopped, is ignored by the code and shown to leave the thread attached. Descriptors,
    mappings and ports are neither leaked nor reused, and a ring is read inside its mapping only.
  \<^item> Errors: which inputs each operation rejects, exactly where the code promises it, and which panics
    remain for accepted options: those of \<open>--duration\<close>, in its conversion and in the deadline.

  \<^bold>\<open>Bounds and fuel.\<close> A stack walk has the code's limit of 256 frames (\<open>max_depth\<close>); a log record has
  552 bytes and at most 64 return addresses; strings of a target are read in 17 chunks of 256 bytes
  at most. A varint has at most ten bytes. These bounds are the code's, so no result is lost to them.
  Loops over input recurse on the input or carry a measure. Theorems about identifiers assume tables
  below \<^term>\<open>2 ^ 64 :: nat\<close> entries, and those about measures totals below \<^term>\<open>2 ^ 63 :: nat\<close>, the
  ranges of the fields. The \<open>f64\<close> model covers zero and the range that counts and percentages reach.

  \<^bold>\<open>Parameters.\<close> Third-party code is an argument: gzip (with the hypothesis that decompressing undoes
  compressing), demangling, reading object files and DWARF, build identifiers, JSON output, and the
  Unicode tables of \<open>str::to_lowercase\<close>; so are the answers of Mach, ptrace, perf and procfs.

  \<^bold>\<open>Not modelled.\<close> The declarations of command-line arguments (clap parses them; the checks it makes of
  the values are in \<open>settings_accepted\<close>), installing signal handlers, sleeping, launching processes and
  temporary directories, relaunching under another architecture on macOS, the channel to the recorder
  in the target and the recorder itself (C code; its log format is modelled as it is read), the text
  that serde makes of a profile (its field helpers are in \<open>Saved_Profile\<close>), the foreign declarations of
  Mach, and display of the stream's error type.
\<close>

end
